(* ===== verification/GP_Prelude.thy ===== *)
theory GP_Prelude
  imports Main "HOL-Library.Word"
begin

unbundle bit_operations_syntax

text \<open>
  Shared vocabulary of the development: machine integers and byte strings of Go, results of
  fallible calls, the readers of package \<^verbatim>\<open>io\<close>, the string functions of package
  \<^verbatim>\<open>strings\<close> that several components call, and the generic lemmas their proofs use.

  A Go \<^verbatim>\<open>string\<close> is a sequence of bytes and is modelled by \<^typ>\<open>string\<close>, a list of 8-bit
  characters; a \<^verbatim>\<open>[]byte\<close> on a wire is a list of 8-bit words.  A Go function returning
  \<^verbatim>\<open>(T, error)\<close> returns a sum whose left side is the error.
\<close>

named_theorems codec_simps \<open>equations of the wire encoders and decoders\<close>
named_theorems replay_intros \<open>facts relating the bytes a parser consumed to its input stream\<close>

type_synonym u8 = "8 word"
type_synonym u16 = "16 word"
type_synonym u32 = "32 word"
type_synonym bytes = "8 word list"

section \<open>Results\<close>

definition res_bind :: "'e + 'a \<Rightarrow> ('a \<Rightarrow> 'e + 'b) \<Rightarrow> 'e + 'b" where
  "res_bind m f = (case m of Inl e \<Rightarrow> Inl e | Inr x \<Rightarrow> f x)"

lemma res_bind_simps [simp]:
  "res_bind (Inl e) f = Inl e"
  "res_bind (Inr x) f = f x"
  by (simp_all add: res_bind_def)

lemma res_bind_Inr_iff:
  "res_bind m f = Inr y \<longleftrightarrow> (\<exists>x. m = Inr x \<and> f x = Inr y)"
  by (cases m) auto

lemma res_bind_Inr_E [elim!]:
  assumes "res_bind m f = Inr y"
  obtains x where "m = Inr x" "f x = Inr y"
  using assms by (auto simp: res_bind_Inr_iff)

lemma res_bind_cong [fundef_cong]:
  "m = m' \<Longrightarrow> (\<And>x. m' = Inr x \<Longrightarrow> f x = g x) \<Longrightarrow> res_bind m f = res_bind m' g"
  by (cases m') auto

definition is_ok :: "'e + 'a \<Rightarrow> bool" where
  "is_ok m = (case m of Inl _ \<Rightarrow> False | Inr _ \<Rightarrow> True)"

lemma is_ok_simps [simp]: "is_ok (Inr x)" "\<not> is_ok (Inl e)"
  by (simp_all add: is_ok_def)

section \<open>Bytes and strings\<close>

definition byte_of_char :: "char \<Rightarrow> u8" where
  "byte_of_char c = word_of_nat (of_char c)"

definition char_of_byte :: "u8 \<Rightarrow> char" where
  "char_of_byte b = char_of (unat b)"

definition str_bytes :: "string \<Rightarrow> bytes" where
  "str_bytes s = map byte_of_char s"

definition bytes_str :: "bytes \<Rightarrow> string" where
  "bytes_str bs = map char_of_byte bs"

lemma unat_byte_of_char [simp]: "unat (byte_of_char c) = of_char c"
  by (simp add: byte_of_char_def unat_of_nat)

lemma char_of_byte_of_char [simp]: "char_of_byte (byte_of_char c) = c"
  by (simp add: char_of_byte_def)

lemma byte_of_char_of_byte [simp]: "byte_of_char (char_of_byte b) = b"
proof -
  have "unat b mod 256 = unat b"
    using unsigned_less [of b, where ?'a = nat] by simp
  then show ?thesis
    by (simp add: byte_of_char_def char_of_byte_def)
qed

lemma length_str_bytes [simp]: "length (str_bytes s) = length s"
  by (simp add: str_bytes_def)

lemma length_bytes_str [simp]: "length (bytes_str bs) = length bs"
  by (simp add: bytes_str_def)

lemma bytes_str_str_bytes [simp]: "bytes_str (str_bytes s) = s"
  by (simp add: bytes_str_def str_bytes_def o_def)

lemma str_bytes_bytes_str [simp]: "str_bytes (bytes_str bs) = bs"
  by (simp add: bytes_str_def str_bytes_def o_def)

lemma str_bytes_append [simp]: "str_bytes (s @ t) = str_bytes s @ str_bytes t"
  by (simp add: str_bytes_def)

lemma sint_word_of_nat32: "n < 2 ^ 31 \<Longrightarrow> sint (word_of_nat n :: u32) = int n"
  by (simp add: signed_of_nat signed_take_bit_int_eq_self)

section \<open>Readers\<close>

text \<open>
  The source of a \<^verbatim>\<open>*bufio.Reader\<close> or \<^verbatim>\<open>*bytes.Reader\<close>: the bytes still to come and the error
  the reader reports after the last of them (\<^verbatim>\<open>io.EOF\<close>, or a network error such as a read
  deadline).
\<close>

datatype io_error = EOF | UnexpectedEOF | NetError string

record reader =
  rd_data :: bytes
  rd_end :: io_error

definition bytes_reader :: "bytes \<Rightarrow> reader" where
  "bytes_reader bs = \<lparr>rd_data = bs, rd_end = EOF\<rparr>"

definition read_byte :: "reader \<Rightarrow> io_error + u8 \<times> reader" where
  "read_byte r = (case rd_data r of
      [] \<Rightarrow> Inl (rd_end r)
    | b # bs \<Rightarrow> Inr (b, r\<lparr>rd_data := bs\<rparr>))"

text \<open>\<^verbatim>\<open>io.ReadFull\<close>: all \<open>n\<close> bytes or an error; an end of input after some bytes is
  \<^verbatim>\<open>io.ErrUnexpectedEOF\<close>.\<close>

definition read_full :: "nat \<Rightarrow> reader \<Rightarrow> io_error + bytes \<times> reader" where
  "read_full n r =
     (if n \<le> length (rd_data r)
      then Inr (take n (rd_data r), r\<lparr>rd_data := drop n (rd_data r)\<rparr>)
      else if rd_data r \<noteq> [] \<and> rd_end r = EOF then Inl UnexpectedEOF
      else Inl (rd_end r))"

text \<open>\<open>consumed_from r cs r'\<close>: reading the bytes \<open>cs\<close> from \<open>r\<close> leaves \<open>r'\<close>.\<close>

definition consumed_from :: "reader \<Rightarrow> bytes \<Rightarrow> reader \<Rightarrow> bool" where
  "consumed_from r cs r' \<longleftrightarrow> rd_data r = cs @ rd_data r' \<and> rd_end r' = rd_end r"

lemma consumed_from_refl [replay_intros, simp]: "consumed_from r [] r"
  by (simp add: consumed_from_def)

lemma consumed_from_trans [replay_intros]:
  "consumed_from r cs r' \<Longrightarrow> consumed_from r' ds r'' \<Longrightarrow> consumed_from r (cs @ ds) r''"
  by (simp add: consumed_from_def)

lemma read_byte_consumed [replay_intros]:
  "read_byte r = Inr (b, r') \<Longrightarrow> consumed_from r [b] r'"
  by (auto simp: read_byte_def consumed_from_def split: list.splits)

lemma read_full_consumed [replay_intros]:
  "read_full n r = Inr (bs, r') \<Longrightarrow> consumed_from r bs r'"
  by (auto simp: read_full_def consumed_from_def split: if_splits)

lemma read_full_length: "read_full n r = Inr (bs, r') \<Longrightarrow> length bs = n"
  by (auto simp: read_full_def split: if_splits)

lemma read_byte_Cons [simp]:
  "read_byte \<lparr>rd_data = b # bs, rd_end = e\<rparr> = Inr (b, \<lparr>rd_data = bs, rd_end = e\<rparr>)"
  by (simp add: read_byte_def)

lemma read_full_append [simp]:
  "read_full (length xs) \<lparr>rd_data = xs @ ys, rd_end = e\<rparr> = Inr (xs, \<lparr>rd_data = ys, rd_end = e\<rparr>)"
  by (simp add: read_full_def)

section \<open>Instants and durations\<close>

text \<open>A \<^verbatim>\<open>time.Time\<close> is an integer of nanoseconds, a \<^verbatim>\<open>time.Duration\<close> a 64-bit count of them;
  \<^verbatim>\<open>Time.Sub\<close> saturates at the ends of that range.\<close>

type_synonym time = int
type_synonym duration = int

definition dur_max :: duration where
  "dur_max = 2 ^ 63 - 1"

definition dur_min :: duration where
  "dur_min = - (2 ^ 63)"

definition is_duration :: "int \<Rightarrow> bool" where
  "is_duration d \<longleftrightarrow> dur_min < d \<and> d \<le> dur_max"

definition time_sub :: "time \<Rightarrow> time \<Rightarrow> duration" where
  "time_sub a b = max dur_min (min dur_max (a - b))"

text \<open>Arithmetic on durations wraps at 64 bits.\<close>

definition dur_wrap :: "int \<Rightarrow> duration" where
  "dur_wrap d = (d + 2 ^ 63) mod 2 ^ 64 - 2 ^ 63"

lemma dur_wrap_id [simp]: "is_duration d \<Longrightarrow> dur_wrap d = d"
  by (simp add: is_duration_def dur_wrap_def dur_min_def dur_max_def)

lemma time_sub_less_iff: "is_duration d \<Longrightarrow> time_sub a b < d \<longleftrightarrow> a - b < d"
  by (auto simp: time_sub_def is_duration_def max_def min_def)

lemma time_sub_self [simp]: "time_sub a a = 0"
  by (simp add: time_sub_def dur_min_def dur_max_def)

lemma time_sub_mono: "a \<le> a' \<Longrightarrow> time_sub a b \<le> time_sub a' b"
  by (auto simp: time_sub_def)

definition second :: duration where
  "second = 10 ^ 9"

definition minute :: duration where
  "minute = 60 * second"

end
