(* ===== verification/Varint.thy ===== *)
theory Varint
  imports GP_Prelude
begin

unbundle bit_operations_syntax

text \<open>
  The two variable-length integer encodings of \<^verbatim>\<open>gameproto\<close>: Minecraft's VarInt
  (\<^verbatim>\<open>minecraft.go\<close>) and the .NET 7-bit-encoded integer of Terraria (\<^verbatim>\<open>terraria.go\<close>).  Both read
  and write seven bits per byte, low bits first, with the high bit as continuation flag.  An
  \<^verbatim>\<open>int32\<close> is a 32-bit word read with \<^const>\<open>sint\<close>.

  The locale \<open>prefix_codec\<close> states what the string and frame formats need of such an encoding; it
  is interpreted on both.
\<close>

datatype proto_error =
    IOErr io_error
  | VarIntTooLong
  | VarIntOutOfRange
  | LengthOutOfRange int
  | StringTooLong int
  | NegativeLength int
  | ExceedsRemaining int int
  | BadPacketId int
  | FrameTooShort nat
  | FrameTooLong nat
  | EmptyPayload
  | InvalidJSON
  | StatusPingUnsupported
  | Wrapped string proto_error

text \<open>\<^verbatim>\<open>fmt.Errorf("ctx: %w", err)\<close> around a fallible call.\<close>

definition wrap_err :: "string \<Rightarrow> proto_error + 'a \<Rightarrow> proto_error + 'a" where
  "wrap_err c m = (case m of Inl e \<Rightarrow> Inl (Wrapped c e) | Inr x \<Rightarrow> Inr x)"

lemma wrap_err_simps [simp]:
  "wrap_err c (Inl e) = Inl (Wrapped c e)"
  "wrap_err c (Inr x) = Inr x"
  "wrap_err c m = Inr x \<longleftrightarrow> m = Inr x"
  by (simp_all add: wrap_err_def split: sum.splits)

definition io_err :: "io_error + 'a \<Rightarrow> proto_error + 'a" where
  "io_err m = (case m of Inl e \<Rightarrow> Inl (IOErr e) | Inr x \<Rightarrow> Inr x)"

lemma io_err_simps [simp]:
  "io_err (Inl e) = Inl (IOErr e)"
  "io_err (Inr x) = Inr x"
  "io_err m = Inr x \<longleftrightarrow> m = Inr x"
  by (simp_all add: io_err_def split: sum.splits)

section \<open>Minecraft VarInt\<close>

function readMinecraftVarInt_loop ::
  "nat \<Rightarrow> u32 \<Rightarrow> bytes \<Rightarrow> reader \<Rightarrow> proto_error + u32 \<times> bytes \<times> reader" where
  "readMinecraftVarInt_loop i result captured r =
     (if i < 5 then
        (case read_byte r of
           Inl e \<Rightarrow> Inl (IOErr e)
         | Inr (b, r') \<Rightarrow>
             (let captured' = captured @ [b];
                  result' = result OR push_bit (7 * i) (ucast (b AND 0x7f))
              in if b AND 0x80 = 0
                 then if i = 4 \<and> b AND 0x7f > 0x0f then Inl VarIntOutOfRange
                      else Inr (result', captured', r')
                 else if i = 4 then Inl VarIntTooLong
                 else readMinecraftVarInt_loop (Suc i) result' captured' r'))
      else Inl VarIntTooLong)"
  by pat_completeness auto
termination
  by (relation "measure (\<lambda>(i, result, captured, r). 5 - i)") auto

declare readMinecraftVarInt_loop.simps [simp del]

definition readMinecraftVarIntWithCapture :: "reader \<Rightarrow> proto_error + u32 \<times> bytes \<times> reader" where
  "readMinecraftVarIntWithCapture r = readMinecraftVarInt_loop 0 0 [] r"

definition readMinecraftVarInt :: "reader \<Rightarrow> proto_error + u32 \<times> reader" where
  "readMinecraftVarInt r =
     res_bind (readMinecraftVarIntWithCapture r) (\<lambda>(v, _, r'). Inr (v, r'))"

lemma drop_bit_less_word:
  fixes u :: "'a::len word"
  assumes "u \<noteq> 0" "0 < n"
  shows "unat (drop_bit n u) < unat u"
proof -
  have "0 < unat u"
    using assms(1) by (simp add: unat_gt_0)
  moreover have "1 < (2::nat) ^ n"
    using assms(2) by (intro one_less_power) simp_all
  ultimately have "unat u div 2 ^ n < unat u"
    by (rule div_less_dividend [rotated])
  then show ?thesis
    by (simp only: unat_drop_bit_eq) (simp add: drop_bit_eq_div)
qed

function writeMinecraftVarInt_loop :: "u32 \<Rightarrow> bytes" where
  "writeMinecraftVarInt_loop uv =
     (let b = ucast (uv AND 0x7f); uv' = drop_bit 7 uv
      in if uv' \<noteq> 0 then (b OR 0x80) # writeMinecraftVarInt_loop uv' else [b])"
  by pat_completeness auto
termination
  by (relation "measure unat") (auto intro!: drop_bit_less_word)

declare writeMinecraftVarInt_loop.simps [simp del]

definition writeMinecraftVarInt :: "u32 \<Rightarrow> bytes" where
  "writeMinecraftVarInt v = writeMinecraftVarInt_loop v"

section \<open>Terraria 7-bit-encoded integer\<close>

text \<open>The shift runs over 0, 7, 14, 21, 28; bits shifted past bit 31 are lost, as in Go.\<close>

function readTerrafia7BitEncodedInt_loop ::
  "nat \<Rightarrow> u32 \<Rightarrow> reader \<Rightarrow> proto_error + u32 \<times> reader" where
  "readTerrafia7BitEncodedInt_loop shift result r =
     (if shift < 32 then
        (case read_byte r of
           Inl e \<Rightarrow> Inl (IOErr e)
         | Inr (b, r') \<Rightarrow>
             (let result' = result OR push_bit shift (ucast (b AND 0x7f))
              in if b AND 0x80 = 0 then Inr (result', r')
                 else readTerrafia7BitEncodedInt_loop (shift + 7) result' r'))
      else Inl VarIntTooLong)"
  by pat_completeness auto
termination
  by (relation "measure (\<lambda>(shift, result, r). 32 - shift)") auto

declare readTerrafia7BitEncodedInt_loop.simps [simp del]

definition readTerrafia7BitEncodedInt :: "reader \<Rightarrow> proto_error + u32 \<times> reader" where
  "readTerrafia7BitEncodedInt r = readTerrafia7BitEncodedInt_loop 0 0 r"

function writeTerrafia7BitEncodedInt_loop :: "u32 \<Rightarrow> bytes" where
  "writeTerrafia7BitEncodedInt_loop uv =
     (let b = ucast (uv AND 0x7f); uv' = drop_bit 7 uv
      in if uv' \<noteq> 0 then (b OR 0x80) # writeTerrafia7BitEncodedInt_loop uv' else [b])"
  by pat_completeness auto
termination
  by (relation "measure unat") (auto intro!: drop_bit_less_word)

declare writeTerrafia7BitEncodedInt_loop.simps [simp del]

definition writeTerrafia7BitEncodedInt :: "u32 \<Rightarrow> proto_error + bytes" where
  "writeTerrafia7BitEncodedInt v =
     (if sint v < 0 then Inl (NegativeLength (sint v))
      else Inr (writeTerrafia7BitEncodedInt_loop v))"

section \<open>Bit-level facts\<close>

lemma mask7 [codec_simps]: "(0x7f :: u32) = mask 7" "(0x7f :: u8) = mask 7"
  by (simp_all add: mask_eq_exp_minus_1)

lemma bit_0x80 [codec_simps]: "bit (0x80 :: int) n \<longleftrightarrow> n = 7"
proof -
  have "(0x80 :: int) = 2 ^ 7"
    by simp
  then show ?thesis
    by (simp only: bit_exp_iff) auto
qed

lemma low7_high_split:
  fixes u :: u32
  shows "push_bit n (u AND 0x7f) OR push_bit (n + 7) (drop_bit 7 u) = push_bit n u"
proof (rule bit_word_eqI)
  fix k
  assume k: "k < LENGTH(32)"
  show "bit (push_bit n (u AND 0x7f) OR push_bit (n + 7) (drop_bit 7 u)) k = bit (push_bit n u) k"
  proof (cases "n + 7 \<le> k")
    case True
    then have "7 + (k - (n + 7)) = k - n"
      by simp
    with True k show ?thesis
      by (auto simp: codec_simps bit_simps)
  next
    case False
    with k show ?thesis
      by (auto simp: codec_simps bit_simps)
  qed
qed

lemma low7_byte:
  fixes u :: u32
  shows "(ucast (u AND 0x7f) :: u8) AND 0x7f = ucast (u AND 0x7f)"
    and "((ucast (u AND 0x7f) :: u8) OR 0x80) AND 0x7f = ucast (u AND 0x7f)"
    and "(ucast (u AND 0x7f) :: u8) AND 0x80 = 0"
    and "(ucast (ucast (u AND 0x7f) :: u8) :: u32) = u AND 0x7f"
  by (rule bit_word_eqI, auto simp: codec_simps bit_and_iff bit_or_iff bit_mask_iff bit_unsigned_iff)+

lemma cont_byte: "(b OR 0x80) AND 0x80 \<noteq> (0 :: u8)"
proof
  assume "(b OR 0x80) AND 0x80 = (0 :: u8)"
  then have "bit ((b OR 0x80) AND 0x80) 7 = bit (0 :: u8) 7"
    by simp
  then show False
    by (simp add: bit_and_iff bit_or_iff codec_simps)
qed

section \<open>Reading back what was written\<close>

lemma write_loops_agree: "writeTerrafia7BitEncodedInt_loop u = writeMinecraftVarInt_loop u"
proof (induction u rule: writeMinecraftVarInt_loop.induct)
  case (1 uv)
  then show ?case
    by (subst writeTerrafia7BitEncodedInt_loop.simps, subst writeMinecraftVarInt_loop.simps)
      (simp add: Let_def)
qed

lemma writeMinecraftVarInt_loop_cases:
  "drop_bit 7 u = 0 \<Longrightarrow> writeMinecraftVarInt_loop u = [ucast (u AND 0x7f)]"
  "drop_bit 7 u \<noteq> 0 \<Longrightarrow> writeMinecraftVarInt_loop u =
     (ucast (u AND 0x7f) OR 0x80) # writeMinecraftVarInt_loop (drop_bit 7 u)"
  by (subst writeMinecraftVarInt_loop.simps, simp add: Let_def)+

lemma readMinecraftVarInt_loop_step:
  "i \<le> 4 \<Longrightarrow> b AND 0x80 = 0 \<Longrightarrow> \<not> (i = 4 \<and> 0x0f < b AND 0x7f) \<Longrightarrow>
     readMinecraftVarInt_loop i acc cap \<lparr>rd_data = b # bs, rd_end = e\<rparr>
       = Inr (acc OR push_bit (7 * i) (ucast (b AND 0x7f)), cap @ [b], \<lparr>rd_data = bs, rd_end = e\<rparr>)"
  "i < 4 \<Longrightarrow> b AND 0x80 \<noteq> 0 \<Longrightarrow>
     readMinecraftVarInt_loop i acc cap \<lparr>rd_data = b # bs, rd_end = e\<rparr>
       = readMinecraftVarInt_loop (Suc i) (acc OR push_bit (7 * i) (ucast (b AND 0x7f))) (cap @ [b])
           \<lparr>rd_data = bs, rd_end = e\<rparr>"
  by (subst readMinecraftVarInt_loop.simps, auto simp: Let_def)+

lemma drop7_zero_low: "drop_bit 7 (u :: u32) = 0 \<Longrightarrow> u AND 0x7f = u"
  using low7_high_split [of 0 u] by simp

lemma unat_drop7: "unat (drop_bit 7 (u :: u32)) = unat u div 128"
  by (simp only: unat_drop_bit_eq) (simp add: drop_bit_eq_div)

lemma unat_drop7_less:
  assumes "i < 4" "unat (u :: u32) < 2 ^ (32 - 7 * i)"
  shows "unat (drop_bit 7 u) < 2 ^ (32 - 7 * Suc i)"
proof -
  have e: "32 - 7 * i = (32 - 7 * Suc i) + 7"
    using assms(1) by simp
  have "(2::nat) ^ (32 - 7 * i) = 2 ^ (32 - 7 * Suc i) * 128"
    unfolding e power_add by simp
  with assms(2) show ?thesis
    by (simp add: unat_drop7 less_mult_imp_div_less)
qed

lemma drop7_nonzero_round:
  assumes "i \<le> 4" "unat (u :: u32) < 2 ^ (32 - 7 * i)" "drop_bit 7 u \<noteq> 0"
  shows "i < 4"
proof (rule ccontr)
  assume "\<not> i < 4"
  with assms(1) have "i = 4"
    by linarith
  with assms(2) have "unat u < 16"
    by simp
  then have "unat (drop_bit 7 u) = 0"
    by (simp add: unat_drop7)
  with assms(3) show False
    by (simp add: unat_eq_0)
qed

text \<open>Each round of the loop consumes one byte and shrinks the value left by seven bits, so the
  fifth byte holds at most four bits.\<close>

lemma readMinecraftVarInt_loop_write:
  assumes "i \<le> 4" "unat u < 2 ^ (32 - 7 * i)"
  shows "readMinecraftVarInt_loop i acc cap \<lparr>rd_data = writeMinecraftVarInt_loop u @ rest, rd_end = e\<rparr>
    = Inr (acc OR push_bit (7 * i) u, cap @ writeMinecraftVarInt_loop u, \<lparr>rd_data = rest, rd_end = e\<rparr>)"
  using assms
proof (induction u arbitrary: i acc cap rule: writeMinecraftVarInt_loop.induct)
  case (1 u)
  let ?b = "ucast (u AND 0x7f) :: u8"
  show ?case
  proof (cases "drop_bit 7 u = 0")
    case True
    have "\<not> (i = 4 \<and> 0x0f < ?b)"
    proof
      assume *: "i = 4 \<and> 0x0f < ?b"
      with "1.prems" have "unat u < 16"
        by simp
      moreover have "unat ?b = unat u"
        using True \<open>unat u < 16\<close>
        by (simp add: drop7_zero_low unsigned_ucast_eq take_bit_nat_eq_self)
      ultimately show False
        using * by (simp add: word_less_nat_alt)
    qed
    then have "readMinecraftVarInt_loop i acc cap \<lparr>rd_data = [?b] @ rest, rd_end = e\<rparr>
        = Inr (acc OR push_bit (7 * i) (u AND 0x7f), cap @ [?b], \<lparr>rd_data = rest, rd_end = e\<rparr>)"
      using "1.prems"(1) by (simp add: readMinecraftVarInt_loop_step low7_byte)
    with True show ?thesis
      by (simp only: writeMinecraftVarInt_loop_cases(1) drop7_zero_low)
  next
    case False
    have i: "i < 4"
      using "1.prems" False by (rule drop7_nonzero_round)
    have small: "unat (drop_bit 7 u) < 2 ^ (32 - 7 * Suc i)"
      using i "1.prems"(2) by (rule unat_drop7_less)
    have IH: "readMinecraftVarInt_loop (Suc i) (acc OR push_bit (7 * i) (u AND 0x7f)) (cap @ [?b OR 0x80])
        \<lparr>rd_data = writeMinecraftVarInt_loop (drop_bit 7 u) @ rest, rd_end = e\<rparr>
      = Inr ((acc OR push_bit (7 * i) (u AND 0x7f)) OR push_bit (7 * Suc i) (drop_bit 7 u),
          (cap @ [?b OR 0x80]) @ writeMinecraftVarInt_loop (drop_bit 7 u), \<lparr>rd_data = rest, rd_end = e\<rparr>)"
      using False i small by (intro "1.IH") auto
    have split: "(acc OR push_bit (7 * i) (u AND 0x7f)) OR push_bit (7 * Suc i) (drop_bit 7 u)
        = acc OR push_bit (7 * i) u"
      using low7_high_split [of "7 * i" u] by (simp add: or.assoc add.commute)
    show ?thesis
      using False i IH split
      by (simp add: writeMinecraftVarInt_loop_cases(2) readMinecraftVarInt_loop_step(2) low7_byte cont_byte)
  qed
qed

lemma readTerrafia_loop_step:
  "shift < 32 \<Longrightarrow> b AND 0x80 = 0 \<Longrightarrow>
     readTerrafia7BitEncodedInt_loop shift acc \<lparr>rd_data = b # bs, rd_end = e\<rparr>
       = Inr (acc OR push_bit shift (ucast (b AND 0x7f)), \<lparr>rd_data = bs, rd_end = e\<rparr>)"
  "shift < 32 \<Longrightarrow> b AND 0x80 \<noteq> 0 \<Longrightarrow>
     readTerrafia7BitEncodedInt_loop shift acc \<lparr>rd_data = b # bs, rd_end = e\<rparr>
       = readTerrafia7BitEncodedInt_loop (shift + 7) (acc OR push_bit shift (ucast (b AND 0x7f)))
           \<lparr>rd_data = bs, rd_end = e\<rparr>"
  by (subst readTerrafia7BitEncodedInt_loop.simps, auto simp: Let_def)+

lemma readTerrafia_loop_write:
  assumes "i \<le> 4" "unat u < 2 ^ (32 - 7 * i)"
  shows "readTerrafia7BitEncodedInt_loop (7 * i) acc
      \<lparr>rd_data = writeMinecraftVarInt_loop u @ rest, rd_end = e\<rparr>
    = Inr (acc OR push_bit (7 * i) u, \<lparr>rd_data = rest, rd_end = e\<rparr>)"
  using assms
proof (induction u arbitrary: i acc rule: writeMinecraftVarInt_loop.induct)
  case (1 u)
  let ?b = "ucast (u AND 0x7f) :: u8"
  show ?case
  proof (cases "drop_bit 7 u = 0")
    case True
    have "readTerrafia7BitEncodedInt_loop (7 * i) acc \<lparr>rd_data = [?b] @ rest, rd_end = e\<rparr>
        = Inr (acc OR push_bit (7 * i) (u AND 0x7f), \<lparr>rd_data = rest, rd_end = e\<rparr>)"
      using "1.prems"(1) by (simp add: readTerrafia_loop_step low7_byte)
    with True show ?thesis
      by (simp only: writeMinecraftVarInt_loop_cases(1) drop7_zero_low)
  next
    case False
    have i: "i < 4"
      using "1.prems" False by (rule drop7_nonzero_round)
    have IH: "readTerrafia7BitEncodedInt_loop (7 * Suc i) (acc OR push_bit (7 * i) (u AND 0x7f))
        \<lparr>rd_data = writeMinecraftVarInt_loop (drop_bit 7 u) @ rest, rd_end = e\<rparr>
      = Inr ((acc OR push_bit (7 * i) (u AND 0x7f)) OR push_bit (7 * Suc i) (drop_bit 7 u),
          \<lparr>rd_data = rest, rd_end = e\<rparr>)"
      using False i unat_drop7_less [OF i "1.prems"(2)] by (intro "1.IH") auto
    have "(acc OR push_bit (7 * i) (u AND 0x7f)) OR push_bit (7 * Suc i) (drop_bit 7 u)
        = acc OR push_bit (7 * i) u"
      using low7_high_split [of "7 * i" u] by (simp add: or.assoc add.commute)
    moreover have "7 * i < 32" "7 * i + 7 = 7 * Suc i"
      using i by simp_all
    ultimately show ?thesis
      using False IH
      by (simp only: writeMinecraftVarInt_loop_cases(2) append_Cons readTerrafia_loop_step(2) low7_byte
          cont_byte not_False_eq_True)
  qed
qed

section \<open>What the readers accept\<close>

text \<open>The reference reading of a run of bytes: little-endian base 128, the high bit set on every
  byte but the last.\<close>

fun base128 :: "bytes \<Rightarrow> nat" where
  "base128 [] = 0"
| "base128 (b # bs) = unat (b AND 0x7f) + 128 * base128 bs"

fun base128_run :: "bytes \<Rightarrow> bool" where
  "base128_run [] = False"
| "base128_run [b] = (b AND 0x80 = 0)"
| "base128_run (b # bs) = (b AND 0x80 \<noteq> 0 \<and> base128_run bs)"

lemma base128_run_Cons [simp]:
  "bs \<noteq> [] \<Longrightarrow> base128_run (b # bs) \<longleftrightarrow> b AND 0x80 \<noteq> 0 \<and> base128_run bs"
  by (cases bs) auto

lemma base128_run_nonempty: "base128_run bs \<Longrightarrow> bs \<noteq> []"
  by (cases bs) auto

lemma or_push_bit_add:
  fixes acc :: u32
  assumes "\<And>k. n \<le> k \<Longrightarrow> \<not> bit acc k"
  shows "acc OR push_bit n x = acc + push_bit n x"
  by (rule disjunctive_add [symmetric]) (use assms in \<open>auto simp: bit_push_bit_iff not_le\<close>)

lemma or_push_bit_high:
  fixes acc :: u32 and b :: u8
  assumes "\<And>k. n \<le> k \<Longrightarrow> \<not> bit acc k" "n + 7 \<le> k"
  shows "\<not> bit (acc OR push_bit n (ucast (b AND 0x7f))) k"
  using assms by (auto simp: bit_simps codec_simps)

lemma push_bit_word_of_nat:
  "push_bit n (word_of_nat m :: 'a::len word) = word_of_nat (m * 2 ^ n)"
  by (simp add: push_bit_eq_mult)

lemma ucast_low7: "(ucast (b AND 0x7f :: u8) :: u32) = word_of_nat (unat (b AND 0x7f))"
  by (rule of_nat_unat [symmetric])

lemma unat_low7_less: "unat (b AND 0x7f :: u8) < 128"
proof -
  have "unat (b AND 0x7f) \<le> unat (0x7f :: u8)"
    by (rule word_and_le1 [THEN word_le_nat_alt [THEN iffD1]])
  then show ?thesis
    by simp
qed

text \<open>One more byte in front adds seven low bits.\<close>

lemma base128_step:
  fixes acc :: u32 and b :: u8
  assumes "\<And>k. n \<le> k \<Longrightarrow> \<not> bit acc k"
  shows "(acc OR push_bit n (ucast (b AND 0x7f))) + push_bit (n + 7) (word_of_nat m)
    = acc + push_bit n (word_of_nat (unat (b AND 0x7f) + 128 * m))"
proof -
  have "unat (b AND 0x7f) * 2 ^ n + m * 2 ^ (n + 7) = (unat (b AND 0x7f) + 128 * m) * 2 ^ n"
    by (simp add: power_add algebra_simps)
  moreover have "acc OR push_bit n (ucast (b AND 0x7f))
      = acc + push_bit n (word_of_nat (unat (b AND 0x7f)))"
    unfolding ucast_low7 using assms by (rule or_push_bit_add)
  ultimately show ?thesis
    by (simp only: push_bit_word_of_nat add.assoc of_nat_add [symmetric])
qed

lemma readMinecraftVarInt_loop_sound:
  assumes "readMinecraftVarInt_loop i acc cap r = Inr (v, cap', r')"
    and "\<And>k. 7 * i \<le> k \<Longrightarrow> \<not> bit acc k"
  shows "\<exists>cs. cap' = cap @ cs \<and> consumed_from r cs r' \<and> base128_run cs \<and> length cs \<le> 5 - i \<and>
    v = acc + push_bit (7 * i) (word_of_nat (base128 cs)) \<and> base128 cs < 2 ^ (32 - 7 * i)"
  using assms
proof (induction i acc cap r rule: readMinecraftVarInt_loop.induct)
  case (1 i acc cap r)
  from "1.prems"(1) have i: "i < 5"
    by (subst (asm) readMinecraftVarInt_loop.simps) (auto split: if_splits)
  from "1.prems"(1) i obtain b r1 where b: "read_byte r = Inr (b, r1)"
    by (subst (asm) readMinecraftVarInt_loop.simps) (auto split: sum.splits)
  let ?acc = "acc OR push_bit (7 * i) (ucast (b AND 0x7f)) :: u32"
  note c = read_byte_consumed [OF b]
  show ?case
  proof (cases "b AND 0x80 = 0")
    case True
    with "1.prems"(1) i b have *: "v = ?acc" "cap' = cap @ [b]" "r' = r1"
        "\<not> (i = 4 \<and> b AND 0x7f > 0x0f)"
      by (subst (asm) readMinecraftVarInt_loop.simps; auto simp: Let_def split: if_splits)+
    have "unat (b AND 0x7f) < 2 ^ (32 - 7 * i)"
    proof (cases "i = 4")
      case True
      with *(4) have "unat (b AND 0x7f) \<le> unat (0x0f :: u8)"
        by (simp only: not_less word_le_nat_alt simp_thms)
      with True show ?thesis
        by simp
    next
      case False
      with i have "(7::nat) \<le> 32 - 7 * i"
        by simp
      then have "(2::nat) ^ 7 \<le> 2 ^ (32 - 7 * i)"
        by (intro power_increasing) auto
      with unat_low7_less [of b] show ?thesis
        by simp
    qed
    moreover have "v = acc + push_bit (7 * i) (word_of_nat (unat (b AND 0x7f)))"
      unfolding *(1) ucast_low7 using "1.prems"(2) by (rule or_push_bit_add)
    ultimately show ?thesis
      using True c *(2,3) i by (intro exI [of _ "[b]"]) auto
  next
    case False
    with "1.prems"(1) i b have i4: "i \<noteq> 4"
      and rec: "readMinecraftVarInt_loop (Suc i) ?acc (cap @ [b]) r1 = Inr (v, cap', r')"
      by (subst (asm) readMinecraftVarInt_loop.simps; auto simp: Let_def split: if_splits)+
    have "\<exists>cs. cap' = (cap @ [b]) @ cs \<and> consumed_from r1 cs r' \<and> base128_run cs \<and> length cs \<le> 5 - Suc i \<and>
      v = ?acc + push_bit (7 * Suc i) (word_of_nat (base128 cs)) \<and> base128 cs < 2 ^ (32 - 7 * Suc i)"
      by (rule "1.IH" [OF i b refl refl refl False i4 rec])
        (rule or_push_bit_high [OF "1.prems"(2)], auto)
    then obtain cs where cs: "cap' = cap @ b # cs" "consumed_from r1 cs r'" "base128_run cs"
        "length cs \<le> 5 - Suc i" "base128 cs < 2 ^ (32 - 7 * Suc i)"
        and v: "v = ?acc + push_bit (7 * i + 7) (word_of_nat (base128 cs))"
      by (auto simp: add.commute)
    have "32 - 7 * i = (32 - 7 * Suc i) + 7"
      using i i4 by simp
    then have "(2::nat) ^ (32 - 7 * i) = 2 ^ (32 - 7 * Suc i) * 128"
      by (simp only: power_add) simp
    with cs(5) unat_low7_less [of b] have "base128 (b # cs) < 2 ^ (32 - 7 * i)"
      by simp
    moreover have "v = acc + push_bit (7 * i) (word_of_nat (base128 (b # cs)))"
      unfolding v base128.simps using "1.prems"(2) by (rule base128_step)
    moreover have "consumed_from r (b # cs) r'"
      using consumed_from_trans [OF c cs(2)] by simp
    ultimately show ?thesis
      using False cs(1,3,4) i i4 base128_run_nonempty [OF cs(3)] by (intro exI [of _ "b # cs"]) auto
  qed
qed

lemma readTerrafia_loop_sound:
  assumes "readTerrafia7BitEncodedInt_loop shift acc r = Inr (v, r')"
    and "\<And>k. shift \<le> k \<Longrightarrow> \<not> bit acc k" and "shift = 7 * i"
  shows "\<exists>cs. consumed_from r cs r' \<and> base128_run cs \<and> length cs \<le> 5 - i \<and>
    v = acc + push_bit shift (word_of_nat (base128 cs))"
  using assms
proof (induction shift acc r arbitrary: i rule: readTerrafia7BitEncodedInt_loop.induct)
  case (1 shift acc r)
  from "1.prems"(1) have sh: "shift < 32"
    by (subst (asm) readTerrafia7BitEncodedInt_loop.simps) (auto split: if_splits)
  from "1.prems"(1) sh obtain b r1 where b: "read_byte r = Inr (b, r1)"
    by (subst (asm) readTerrafia7BitEncodedInt_loop.simps) (auto split: sum.splits)
  let ?acc = "acc OR push_bit shift (ucast (b AND 0x7f)) :: u32"
  note c = read_byte_consumed [OF b]
  show ?case
  proof (cases "b AND 0x80 = 0")
    case True
    with "1.prems"(1) sh b have *: "v = ?acc" "r' = r1"
      by (subst (asm) readTerrafia7BitEncodedInt_loop.simps; auto simp: Let_def split: if_splits)+
    have "v = acc + push_bit shift (word_of_nat (unat (b AND 0x7f)))"
      unfolding *(1) ucast_low7 using "1.prems"(2) by (rule or_push_bit_add)
    with True c *(2) sh "1.prems"(3) show ?thesis
      by (intro exI [of _ "[b]"]) auto
  next
    case False
    with "1.prems"(1) sh b have rec: "readTerrafia7BitEncodedInt_loop (shift + 7) ?acc r1 = Inr (v, r')"
      by (subst (asm) readTerrafia7BitEncodedInt_loop.simps; auto simp: Let_def split: if_splits)
    have "\<exists>cs. consumed_from r1 cs r' \<and> base128_run cs \<and> length cs \<le> 5 - Suc i \<and>
      v = ?acc + push_bit (shift + 7) (word_of_nat (base128 cs))"
      by (rule "1.IH" [OF sh b refl refl False rec])
        (rule or_push_bit_high [OF "1.prems"(2)], use "1.prems"(3) in auto)
    then obtain cs where cs: "consumed_from r1 cs r'" "base128_run cs" "length cs \<le> 5 - Suc i"
        and v: "v = ?acc + push_bit (shift + 7) (word_of_nat (base128 cs))"
      by auto
    have "v = acc + push_bit shift (word_of_nat (base128 (b # cs)))"
      unfolding v base128.simps using "1.prems"(2) by (rule base128_step)
    moreover have "consumed_from r (b # cs) r'"
      using consumed_from_trans [OF c cs(1)] by simp
    moreover have "length (b # cs) \<le> 5 - i"
      using cs(3) sh "1.prems"(3) by simp
    ultimately show ?thesis
      using False base128_run_nonempty [OF cs(2)] cs(2) by (intro exI [of _ "b # cs"]) auto
  qed
qed

section \<open>The interface of a length prefix\<close>

locale prefix_codec =
  fixes enc :: "u32 \<Rightarrow> bytes"
    and dec :: "reader \<Rightarrow> proto_error + u32 \<times> reader"
  assumes dec_enc: "dec \<lparr>rd_data = enc v @ rest, rd_end = e\<rparr> = Inr (v, \<lparr>rd_data = rest, rd_end = e\<rparr>)"
    and dec_sound: "dec r = Inr (v, r') \<Longrightarrow>
      \<exists>cs. consumed_from r cs r' \<and> base128_run cs \<and> length cs \<le> 5 \<and> v = word_of_nat (base128 cs)"
begin

lemma enc_prefix_free:
  assumes "enc u @ xs = enc v @ ys"
  shows "u = v \<and> xs = ys"
proof -
  have "Inr (u, \<lparr>rd_data = xs, rd_end = EOF\<rparr>) = dec \<lparr>rd_data = enc u @ xs, rd_end = EOF\<rparr>"
    by (rule dec_enc [symmetric])
  also have "\<dots> = Inr (v, \<lparr>rd_data = ys, rd_end = EOF\<rparr>)"
    unfolding assms by (rule dec_enc)
  finally show ?thesis
    by simp
qed

lemma enc_run: "base128_run (enc v) \<and> length (enc v) \<le> 5 \<and> v = word_of_nat (base128 (enc v))"
proof -
  obtain cs where "consumed_from \<lparr>rd_data = enc v @ [], rd_end = EOF\<rparr> cs \<lparr>rd_data = [], rd_end = EOF\<rparr>"
      "base128_run cs" "length cs \<le> 5" "v = word_of_nat (base128 cs)"
    using dec_sound [OF dec_enc [of v "[]" EOF]] by blast
  then show ?thesis
    by (simp add: consumed_from_def)
qed

text \<open>A block written behind its length is read back whole, and what follows it stays unread.\<close>

lemma prefixed_block:
  assumes "length s < 2 ^ 31"
  shows "res_bind (dec \<lparr>rd_data = enc (word_of_nat (length s)) @ s @ rest, rd_end = e\<rparr>)
      (\<lambda>(n, r). io_err (read_full (nat (sint n)) r))
    = Inr (s, \<lparr>rd_data = rest, rd_end = e\<rparr>)"
proof -
  have "nat (sint (word_of_nat (length s) :: u32)) = length s"
    using assms by (simp add: sint_word_of_nat32)
  then show ?thesis
    by (simp add: dec_enc)
qed

end

lemma readMinecraftVarIntWithCapture_write:
  "readMinecraftVarIntWithCapture \<lparr>rd_data = writeMinecraftVarInt v @ rest, rd_end = e\<rparr>
     = Inr (v, writeMinecraftVarInt v, \<lparr>rd_data = rest, rd_end = e\<rparr>)"
proof -
  have "unat v < 2 ^ (32 - 7 * 0)"
    using unsigned_less [of v, where ?'a = nat] by simp
  then show ?thesis
    unfolding readMinecraftVarIntWithCapture_def writeMinecraftVarInt_def
    by (subst readMinecraftVarInt_loop_write) simp_all
qed

lemma readMinecraftVarIntWithCapture_sound:
  assumes "readMinecraftVarIntWithCapture r = Inr (v, cs, r')"
  shows "consumed_from r cs r' \<and> base128_run cs \<and> length cs \<le> 5 \<and> unat v = base128 cs"
proof -
  from readMinecraftVarInt_loop_sound [OF assms [unfolded readMinecraftVarIntWithCapture_def]]
  have *: "consumed_from r cs r'" "base128_run cs" "length cs \<le> 5"
      "v = word_of_nat (base128 cs)" "base128 cs < 2 ^ 32"
    by auto
  then show ?thesis
    by (simp add: unsigned_of_nat take_bit_nat_eq_self)
qed

interpretation mc_varint: prefix_codec writeMinecraftVarInt readMinecraftVarInt
proof (unfold_locales, goal_cases)
  case (1 v rest e)
  show ?case
    by (simp add: readMinecraftVarInt_def readMinecraftVarIntWithCapture_write)
next
  case (2 r v r')
  then obtain cs where "readMinecraftVarIntWithCapture r = Inr (v, cs, r')"
    by (auto simp: readMinecraftVarInt_def)
  from readMinecraftVarIntWithCapture_sound [OF this] show ?case
    by (metis of_nat_unat ucast_id)
qed

interpretation terraria_7bit: prefix_codec writeTerrafia7BitEncodedInt_loop readTerrafia7BitEncodedInt
proof (unfold_locales, goal_cases)
  case (1 v rest e)
  have "unat v < 2 ^ (32 - 7 * 0)"
    using unsigned_less [of v, where ?'a = nat] by simp
  from readTerrafia_loop_write [OF _ this, of 0] show ?case
    by (simp add: readTerrafia7BitEncodedInt_def write_loops_agree)
next
  case (2 r v r')
  from readTerrafia_loop_sound [OF this [unfolded readTerrafia7BitEncodedInt_def], of 0] show ?case
    by auto
qed

end
