(* ===== verification/Go_Strings.thy ===== *)
theory Go_Strings
  imports GP_Prelude
begin

text \<open>
  The functions of Go's \<^verbatim>\<open>strings\<close>, \<^verbatim>\<open>strconv\<close>, \<^verbatim>\<open>unicode/utf8\<close> packages that the modelled code
  calls.  A string is its bytes; a \<^verbatim>\<open>range\<close> loop over it decodes UTF-8, an invalid byte giving the
  replacement rune with width one.
\<close>

section \<open>UTF-8\<close>

definition rune_error :: nat where
  "rune_error = 0xFFFD"

definition in_rng :: "nat \<Rightarrow> nat \<Rightarrow> char \<Rightarrow> bool" where
  "in_rng lo hi c \<longleftrightarrow> lo \<le> of_char c \<and> of_char c \<le> hi"

definition cont6 :: "char \<Rightarrow> nat" where
  "cont6 c = of_char c - 0x80"

text \<open>\<^verbatim>\<open>utf8.DecodeRuneInString\<close> on a non-empty string: the rune and its width.\<close>

definition decode2 :: "nat \<Rightarrow> string \<Rightarrow> nat \<times> nat" where
  "decode2 p0 cs = (case cs of
      c1 # _ \<Rightarrow> if in_rng 0x80 0xBF c1 then ((p0 - 0xC0) * 64 + cont6 c1, 2) else (rune_error, 1)
    | [] \<Rightarrow> (rune_error, 1))"

definition decode3 :: "nat \<Rightarrow> nat \<Rightarrow> nat \<Rightarrow> string \<Rightarrow> nat \<times> nat" where
  "decode3 lo hi p0 cs = (case cs of
      c1 # c2 # _ \<Rightarrow>
        if in_rng lo hi c1 \<and> in_rng 0x80 0xBF c2
        then ((p0 - 0xE0) * 4096 + cont6 c1 * 64 + cont6 c2, 3) else (rune_error, 1)
    | _ \<Rightarrow> (rune_error, 1))"

definition decode4 :: "nat \<Rightarrow> nat \<Rightarrow> nat \<Rightarrow> string \<Rightarrow> nat \<times> nat" where
  "decode4 lo hi p0 cs = (case cs of
      c1 # c2 # c3 # _ \<Rightarrow>
        if in_rng lo hi c1 \<and> in_rng 0x80 0xBF c2 \<and> in_rng 0x80 0xBF c3
        then ((p0 - 0xF0) * 262144 + cont6 c1 * 4096 + cont6 c2 * 64 + cont6 c3, 4)
        else (rune_error, 1)
    | _ \<Rightarrow> (rune_error, 1))"

definition decode_rune :: "char \<Rightarrow> string \<Rightarrow> nat \<times> nat" where
  "decode_rune c cs =
     (let p0 = of_char c in
      if p0 < 0x80 then (p0, 1)
      else if 0xC2 \<le> p0 \<and> p0 \<le> 0xDF then decode2 p0 cs
      else if p0 = 0xE0 then decode3 0xA0 0xBF p0 cs
      else if p0 = 0xED then decode3 0x80 0x9F p0 cs
      else if 0xE1 \<le> p0 \<and> p0 \<le> 0xEF then decode3 0x80 0xBF p0 cs
      else if p0 = 0xF0 then decode4 0x90 0xBF p0 cs
      else if 0xF1 \<le> p0 \<and> p0 \<le> 0xF3 then decode4 0x80 0xBF p0 cs
      else if p0 = 0xF4 then decode4 0x80 0x8F p0 cs
      else (rune_error, 1))"

lemma decode_rune_ascii [simp]: "of_char c < (0x80 :: nat) \<Longrightarrow> decode_rune c cs = (of_char c, 1)"
  by (simp add: decode_rune_def Let_def)

text \<open>The runes of a string in order, each with the bytes it was decoded from.\<close>

function rune_chunks :: "string \<Rightarrow> (nat \<times> string) list" where
  "rune_chunks [] = []"
| "rune_chunks (c # cs) =
     (case decode_rune c cs of (r, w) \<Rightarrow>
        (r, c # take (w - 1) cs) # rune_chunks (drop (w - 1) cs))"
  by pat_completeness auto
termination
  by (relation "measure length") auto

definition runes :: "string \<Rightarrow> nat list" where
  "runes s = map fst (rune_chunks s)"

definition rune_count :: "string \<Rightarrow> nat" where
  "rune_count s = length (rune_chunks s)"

lemma rune_chunks_concat: "concat (map snd (rune_chunks s)) = s"
  by (induction s rule: rune_chunks.induct) (auto split: prod.splits)

text \<open>\<^verbatim>\<open>utf8.AppendRune\<close>: surrogates and values past U+10FFFF are written as the replacement rune.\<close>

definition enc3 :: "nat \<Rightarrow> string" where
  "enc3 r = [char_of (0xE0 + r div 4096), char_of (0x80 + r div 64 mod 64), char_of (0x80 + r mod 64)]"

definition encode_rune :: "nat \<Rightarrow> string" where
  "encode_rune r =
     (if r < 0x80 then [char_of r]
      else if r < 0x800 then [char_of (0xC0 + r div 64), char_of (0x80 + r mod 64)]
      else if r > 0x10FFFF \<or> (0xD800 \<le> r \<and> r \<le> 0xDFFF) then enc3 rune_error
      else if r < 0x10000 then enc3 r
      else [char_of (0xF0 + r div 262144), char_of (0x80 + r div 4096 mod 64),
            char_of (0x80 + r div 64 mod 64), char_of (0x80 + r mod 64)])"

section \<open>Package strings\<close>

definition unicode_space :: "nat \<Rightarrow> bool" where
  "unicode_space r \<longleftrightarrow>
     r \<in> {0x09, 0x0A, 0x0B, 0x0C, 0x0D, 0x20, 0x85, 0xA0, 0x1680, 0x2028, 0x2029, 0x202F, 0x205F, 0x3000}
     \<or> (0x2000 \<le> r \<and> r \<le> 0x200A)"

text \<open>\<^verbatim>\<open>strings.TrimSpace\<close> drops the white-space runes at both ends. The string is decoded from its front;
  Go decodes from the back at the end, which can differ only where the text is not UTF-8.\<close>

definition trim_space :: "string \<Rightarrow> string" where
  "trim_space s =
     (let keep = dropWhile (\<lambda>(r, _). unicode_space r) (rune_chunks s)
      in concat (map snd (rev (dropWhile (\<lambda>(r, _). unicode_space r) (rev keep)))))"

text \<open>
  \<^verbatim>\<open>strings.ToLower\<close>, exact up to comparison with an ASCII literal, the only use made of it: the
  ASCII letters, and the two letters outside ASCII whose lower case is an ASCII letter (U+0130 to
  \<open>i\<close>, U+212A to \<open>k\<close>).  Every other rune keeps a non-ASCII image and is left as it is.
\<close>

definition lower_rune :: "nat \<times> string \<Rightarrow> string" where
  "lower_rune rc = (case rc of (r, bs) \<Rightarrow>
     if 0x41 \<le> r \<and> r \<le> 0x5A then [char_of (r + 0x20)]
     else if r = 0x130 then ''i'' else if r = 0x212A then ''k'' else bs)"

definition to_lower :: "string \<Rightarrow> string" where
  "to_lower s = concat (map lower_rune (rune_chunks s))"

text \<open>\<^verbatim>\<open>strings.ToUpper\<close>, likewise: U+0131 and U+017F are the letters outside ASCII with an ASCII upper
  case (\<open>I\<close> and \<open>S\<close>).\<close>

definition upper_rune :: "nat \<times> string \<Rightarrow> string" where
  "upper_rune rc = (case rc of (r, bs) \<Rightarrow>
     if 0x61 \<le> r \<and> r \<le> 0x7A then [char_of (r - 0x20)]
     else if r = 0x131 then ''I'' else if r = 0x17F then ''S'' else bs)"

definition to_upper :: "string \<Rightarrow> string" where
  "to_upper s = concat (map upper_rune (rune_chunks s))"

text \<open>\<^verbatim>\<open>strings.Trim\<close> with a one-byte cutset.\<close>

definition trim_char :: "char \<Rightarrow> string \<Rightarrow> string" where
  "trim_char c s = rev (dropWhile (\<lambda>d. d = c) (rev (dropWhile (\<lambda>d. d = c) s)))"

definition has_prefix :: "string \<Rightarrow> string \<Rightarrow> bool" where
  "has_prefix s p \<longleftrightarrow> take (length p) s = p"

definition has_suffix :: "string \<Rightarrow> string \<Rightarrow> bool" where
  "has_suffix s p \<longleftrightarrow> length p \<le> length s \<and> drop (length s - length p) s = p"

text \<open>\<^verbatim>\<open>strings.Split\<close> by a one-byte separator.\<close>

fun split_on :: "char \<Rightarrow> string \<Rightarrow> string list" where
  "split_on sep [] = [[]]"
| "split_on sep (c # cs) =
     (if c = sep then [] # split_on sep cs
      else (case split_on sep cs of [] \<Rightarrow> [[c]] | p # ps \<Rightarrow> (c # p) # ps))"

lemma split_on_nonempty: "split_on sep s \<noteq> []"
  by (induction s) (auto split: list.splits)

lemma split_on_single: "sep \<notin> set s \<Longrightarrow> split_on sep s = [s]"
  by (induction s) auto

lemma split_on_append: "sep \<notin> set s \<Longrightarrow> split_on sep (s @ sep # t) = s # split_on sep t"
  by (induction s) auto

text \<open>\<^verbatim>\<open>strings.Join\<close> with a one-byte separator.\<close>

fun str_join :: "char \<Rightarrow> string list \<Rightarrow> string" where
  "str_join sep [] = []"
| "str_join sep [s] = s"
| "str_join sep (s # ss) = s @ sep # str_join sep ss"

lemma split_str_join:
  "ss \<noteq> [] \<Longrightarrow> \<forall>s\<in>set ss. sep \<notin> set s \<Longrightarrow> split_on sep (str_join sep ss) = ss"
  by (induction sep ss rule: str_join.induct) (simp_all add: split_on_single split_on_append)

text \<open>Words: ASCII text without white space, on which the trimming is the identity.\<close>

definition word_char :: "char \<Rightarrow> bool" where
  "word_char c \<longleftrightarrow> in_rng 0x21 0x7F c"

definition is_word :: "string \<Rightarrow> bool" where
  "is_word s \<longleftrightarrow> list_all word_char s"

lemma rune_chunks_ascii:
  "list_all (\<lambda>c. of_char c < (0x80 :: nat)) s \<Longrightarrow> rune_chunks s = map (\<lambda>c. (of_char c, [c])) s"
  by (induction s) (simp_all add: decode_rune_def)

lemma trim_space_word:
  assumes "is_word s"
  shows "trim_space s = s"
proof -
  have "list_all (\<lambda>c. of_char c < (0x80 :: nat)) s"
    using assms by (auto simp: is_word_def word_char_def in_rng_def list_all_iff)
  moreover have "\<not> unicode_space (of_char c)" if "c \<in> set s" for c
    using assms that
    by (auto simp: is_word_def word_char_def in_rng_def list_all_iff unicode_space_def)
  then have "dropWhile (\<lambda>(r, _). unicode_space r) (map (\<lambda>c. (of_char c, [c])) xs) = map (\<lambda>c. (of_char c, [c])) xs"
    if "set xs \<subseteq> set s" for xs
    using that by (cases xs) auto
  ultimately show ?thesis
    by (simp add: trim_space_def rune_chunks_ascii rev_map o_def)
qed

text \<open>Trimming decodes the same runes again, so trimming twice is trimming once.\<close>

lemma decode_rune_take:
  assumes "decode_rune c cs = (r, w)" and "w - 1 \<le> m"
  shows "decode_rune c (take m cs) = (r, w)"
  using assms
  by (auto simp: decode_rune_def decode2_def decode3_def decode4_def Let_def take_Cons'
      split: if_splits list.splits)

lemma rune_chunks_drop:
  "rune_chunks (concat (map snd (drop k (rune_chunks s)))) = drop k (rune_chunks s)"
proof (induction s arbitrary: k rule: rune_chunks.induct)
  case (2 c cs)
  then show ?case
    using rune_chunks_concat [of "c # cs"] by (cases k) (auto split: prod.splits)
qed simp

lemma chunks_take_prefix: "\<exists>m. concat (map snd (take k (rune_chunks s))) = take m s"
proof -
  have "s = concat (map snd (take k (rune_chunks s))) @ concat (map snd (drop k (rune_chunks s)))"
    by (simp flip: concat_append map_append add: rune_chunks_concat)
  then show ?thesis by (metis append_eq_conv_conj)
qed

lemma rune_chunks_take:
  "rune_chunks (concat (map snd (take k (rune_chunks s)))) = take k (rune_chunks s)"
proof (induction s arbitrary: k rule: rune_chunks.induct)
  case (2 c cs)
  obtain r w where d: "decode_rune c cs = (r, w)" by (cases "decode_rune c cs")
  show ?case
  proof (cases k)
    case (Suc j)
    obtain m where m: "concat (map snd (take j (rune_chunks (drop (w - 1) cs)))) = take m (drop (w - 1) cs)"
      using chunks_take_prefix by blast
    have "take (w - 1) cs @ take m (drop (w - 1) cs) = take (w - 1 + m) cs"
      by (simp add: take_add)
    with "2.IH" [OF d [symmetric], of j] m Suc d decode_rune_take [OF d, of "w - 1 + m"] show ?thesis
      by (simp add: drop_take)
  qed simp
qed simp

lemma rev_dropWhile_rev: "\<exists>j. rev (dropWhile P (rev xs)) = take j xs"
  by (metis dropWhile_eq_drop rev_drop rev_rev_ident)

lemma rune_chunks_trim_space:
  "rune_chunks (trim_space s) =
     rev (dropWhile (\<lambda>(r, _). unicode_space r) (rev (dropWhile (\<lambda>(r, _). unicode_space r) (rune_chunks s))))"
proof -
  let ?P = "\<lambda>(r, _). unicode_space r"
  obtain i where i: "dropWhile ?P (rune_chunks s) = drop i (rune_chunks s)"
    using dropWhile_eq_drop by blast
  obtain j where j: "rev (dropWhile ?P (rev (drop i (rune_chunks s)))) = take j (drop i (rune_chunks s))"
    using rev_dropWhile_rev by blast
  have "rune_chunks (concat (map snd (drop i (rune_chunks s)))) = drop i (rune_chunks s)"
    by (rule rune_chunks_drop)
  then have "take j (drop i (rune_chunks s)) = rune_chunks (concat (map snd (take j (drop i (rune_chunks s)))))"
    by (metis rune_chunks_take)
  then show ?thesis by (simp add: trim_space_def Let_def i j)
qed

lemma trimmed_start:
  "dropWhile P (rev (dropWhile P (rev (dropWhile P xs)))) = rev (dropWhile P (rev (dropWhile P xs)))"
proof -
  obtain j where j: "rev (dropWhile P (rev (dropWhile P xs))) = take j (dropWhile P xs)"
    using rev_dropWhile_rev by blast
  show ?thesis
    unfolding j using hd_dropWhile [of P xs] by (cases "dropWhile P xs"; cases j) (simp_all del: dropWhile_eq_Nil_conv)
qed

lemma trim_space_idem: "trim_space (trim_space s) = trim_space s"
proof -
  show ?thesis
    unfolding trim_space_def [of "trim_space s"] rune_chunks_trim_space
    by (simp add: trimmed_start Let_def) (simp add: trim_space_def Let_def dropWhile_idem)
qed

lemma trim_space_subset: "set (trim_space s) \<subseteq> set s"
proof -
  have "set (rune_chunks (trim_space s)) \<subseteq> set (rune_chunks s)"
    by (auto simp: rune_chunks_trim_space dest!: set_dropWhileD)
  then have "set (concat (map snd (rune_chunks (trim_space s)))) \<subseteq> set (concat (map snd (rune_chunks s)))"
    by auto
  then show ?thesis by (simp only: rune_chunks_concat)
qed

section \<open>Package strconv\<close>

function digits_of :: "nat \<Rightarrow> string" where
  "digits_of n = (if n < 10 then [char_of (0x30 + n)] else digits_of (n div 10) @ [char_of (0x30 + n mod 10)])"
  by pat_completeness auto
termination
  by (relation "measure id") auto

declare digits_of.simps [simp del]

definition itoa :: "int \<Rightarrow> string" where
  "itoa i = (if i < 0 then CHR ''-'' # digits_of (nat (- i)) else digits_of (nat i))"

definition is_digit :: "char \<Rightarrow> bool" where
  "is_digit c \<longleftrightarrow> in_rng 0x30 0x39 c"

definition digits_value :: "string \<Rightarrow> nat" where
  "digits_value ds = foldl (\<lambda>n c. 10 * n + (of_char c - 0x30)) 0 ds"

text \<open>\<^verbatim>\<open>strconv.ParseInt(s, 10, 64)\<close> (and \<^verbatim>\<open>strconv.Atoi\<close>): an optional sign and decimal digits, in the
  range of a 64-bit integer.\<close>

definition parse_digits :: "string \<Rightarrow> nat option" where
  "parse_digits ds = (if ds \<noteq> [] \<and> list_all is_digit ds then Some (digits_value ds) else None)"

definition parse_int64 :: "string \<Rightarrow> int option" where
  "parse_int64 s = (case s of
      [] \<Rightarrow> None
    | c # cs \<Rightarrow>
        if c = CHR ''-'' then (case parse_digits cs of
            Some n \<Rightarrow> if n \<le> 2 ^ 63 then Some (- int n) else None | None \<Rightarrow> None)
        else (case parse_digits (if c = CHR ''+'' then cs else c # cs) of
            Some n \<Rightarrow> if n < 2 ^ 63 then Some (int n) else None | None \<Rightarrow> None))"

lemma digits_value_append: "digits_value (xs @ [c]) = 10 * digits_value xs + (of_char c - 0x30)"
  by (simp add: digits_value_def)

lemma digit_char:
  assumes "n < (10 :: nat)"
  shows "is_digit (char_of (0x30 + n))" "of_char (char_of (0x30 + n)) = (0x30 + n)"
  using assms by (simp_all add: is_digit_def in_rng_def)

lemma digits_of_correct:
  "list_all is_digit (digits_of n) \<and> digits_of n \<noteq> [] \<and> digits_value (digits_of n) = n"
proof (induction n rule: digits_of.induct)
  case (1 n)
  show ?case
  proof (cases "n < 10")
    case True
    then show ?thesis
      by (subst (1 2 3) digits_of.simps) (simp add: is_digit_def in_rng_def digits_value_def)
  next
    case False
    with "1.IH" show ?thesis
      by (subst (1 2 3) digits_of.simps) (simp add: digit_char digits_value_append del: of_char_of)
  qed
qed

lemma itoa_chars: "c \<in> set (itoa i) \<Longrightarrow> is_digit c \<or> c = CHR ''-''"
  using digits_of_correct [of "nat i"] digits_of_correct [of "nat (- i)"]
  by (auto simp: itoa_def list_all_iff split: if_splits)

lemma itoa_word: "is_word (itoa i)"
  by (auto simp: is_word_def list_all_iff word_char_def is_digit_def in_rng_def dest!: itoa_chars)

lemma parse_digits_of [simp]: "parse_digits (digits_of n) = Some n"
  using digits_of_correct [of n] by (simp add: parse_digits_def)

lemma digits_of_head: "digits_of n = c # cs \<Longrightarrow> c \<noteq> CHR ''-'' \<and> c \<noteq> CHR ''+''"
  using digits_of_correct [of n] by (auto simp: is_digit_def in_rng_def)

lemma parse_itoa:
  assumes "- (2 ^ 63) \<le> i" "i < 2 ^ 63"
  shows "parse_int64 (itoa i) = Some i"
proof (cases "i < 0")
  case True
  then have "nat (- i) \<le> 2 ^ 63"
    using assms(1) by (subst nat_le_iff) simp
  with True show ?thesis
    by (simp add: itoa_def parse_int64_def)
next
  case False
  obtain c cs where d: "digits_of (nat i) = c # cs"
    using digits_of_correct [of "nat i"] by (cases "digits_of (nat i)") auto
  have "nat i < 2 ^ 63"
    using assms(2) False by (subst nat_less_iff) simp_all
  with False d digits_of_head [OF d] parse_digits_of [of "nat i"] show ?thesis
    by (simp add: itoa_def parse_int64_def)
qed

end
