(* ===== verification/Go_Json.thy ===== *)
theory Go_Json
  imports Go_Strings
begin

text \<open>
  \<^verbatim>\<open>encoding/json.Valid\<close>: whether a byte string is one JSON value with white space around it.  As in
  Go, bytes above 0x7F are accepted inside strings without checking UTF-8, raw control characters
  are not, and objects and arrays nest at most 10000 deep.  The recogniser runs on fuel, one unit
  per value or member; every call consumes input, so twice the length is enough.
\<close>

definition json_ws :: "char \<Rightarrow> bool" where
  "json_ws c \<longleftrightarrow> c = CHR 0x20 \<or> c = CHR 0x09 \<or> c = CHR 0x0A \<or> c = CHR 0x0D"

definition skip_ws :: "string \<Rightarrow> string" where
  "skip_ws s = dropWhile json_ws s"

definition is_hex :: "char \<Rightarrow> bool" where
  "is_hex c \<longleftrightarrow> in_rng 0x30 0x39 c \<or> in_rng 0x61 0x66 c \<or> in_rng 0x41 0x46 c"

definition json_escape_char :: "char \<Rightarrow> bool" where
  "json_escape_char c \<longleftrightarrow>
     c \<in> {CHR 0x22, CHR 0x5C, CHR 0x2F, CHR 0x62, CHR 0x66, CHR 0x6E, CHR 0x72, CHR 0x74}"

text \<open>The rest of a string literal after its opening quote: what follows the closing quote.\<close>

fun json_string :: "string \<Rightarrow> string option" where
  "json_string [] = None"
| "json_string (c # cs) =
     (if c = CHR 0x22 then Some cs
      else if c = CHR 0x5C then
        (case cs of
           [] \<Rightarrow> None
         | d # ds \<Rightarrow>
             if json_escape_char d then json_string ds
             else if d = CHR 0x75 then
               (case ds of
                  h1 # h2 # h3 # h4 # es \<Rightarrow>
                    if is_hex h1 \<and> is_hex h2 \<and> is_hex h3 \<and> is_hex h4 then json_string es else None
                | _ \<Rightarrow> None)
             else None)
      else if of_char c < (0x20 :: nat) then None
      else json_string cs)"

definition json_digits1 :: "string \<Rightarrow> string option" where
  "json_digits1 s = (case s of c # cs \<Rightarrow> if is_digit c then Some (dropWhile is_digit cs) else None
                             | [] \<Rightarrow> None)"

definition json_exp :: "string \<Rightarrow> string option" where
  "json_exp s = (case s of
      c # cs \<Rightarrow>
        if c = CHR ''e'' \<or> c = CHR ''E'' then
          json_digits1 (case cs of d # ds \<Rightarrow> if d = CHR ''+'' \<or> d = CHR ''-'' then ds else cs | [] \<Rightarrow> [])
        else Some s
    | [] \<Rightarrow> Some [])"

definition json_frac :: "string \<Rightarrow> string option" where
  "json_frac s = (case s of
      c # cs \<Rightarrow> if c = CHR ''.'' then Option.bind (json_digits1 cs) json_exp else json_exp s
    | [] \<Rightarrow> Some [])"

definition json_number :: "string \<Rightarrow> string option" where
  "json_number s =
     (case (case s of c # cs \<Rightarrow> if c = CHR ''-'' then cs else s | [] \<Rightarrow> []) of
        c # cs \<Rightarrow> if c = CHR ''0'' then json_frac cs
                  else if is_digit c then json_frac (dropWhile is_digit cs) else None
      | [] \<Rightarrow> None)"

definition json_literal :: "string \<Rightarrow> string \<Rightarrow> string option" where
  "json_literal w s = (if has_prefix s w then Some (drop (length w) s) else None)"

fun json_value :: "nat \<Rightarrow> nat \<Rightarrow> string \<Rightarrow> string option"
  and json_members :: "nat \<Rightarrow> nat \<Rightarrow> string \<Rightarrow> string option"
  and json_elements :: "nat \<Rightarrow> nat \<Rightarrow> string \<Rightarrow> string option" where
  "json_value 0 depth s = None"
| "json_value (Suc n) depth s =
     (case skip_ws s of
        [] \<Rightarrow> None
      | c # cs \<Rightarrow>
          if c = CHR 0x7B then
            (if depth = 0 then None
             else if has_prefix (skip_ws cs) [CHR 0x7D] then Some (drop 1 (skip_ws cs))
             else json_members n (depth - 1) cs)
          else if c = CHR 0x5B then
            (if depth = 0 then None
             else if has_prefix (skip_ws cs) [CHR 0x5D] then Some (drop 1 (skip_ws cs))
             else json_elements n (depth - 1) cs)
          else if c = CHR 0x22 then json_string cs
          else if c = CHR ''t'' then json_literal ''rue'' cs
          else if c = CHR ''f'' then json_literal ''alse'' cs
          else if c = CHR ''n'' then json_literal ''ull'' cs
          else json_number (c # cs))"
| "json_members 0 depth s = None"
| "json_members (Suc n) depth s =
     (case skip_ws s of
        [] \<Rightarrow> None
      | q # cs \<Rightarrow>
          if q \<noteq> CHR 0x22 then None
          else (case json_string cs of
              None \<Rightarrow> None
            | Some s1 \<Rightarrow>
                (case skip_ws s1 of
                   [] \<Rightarrow> None
                 | col # s2 \<Rightarrow>
                     if col \<noteq> CHR 0x3A then None
                     else (case json_value n depth s2 of
                         None \<Rightarrow> None
                       | Some s3 \<Rightarrow>
                           (case skip_ws s3 of
                              [] \<Rightarrow> None
                            | c # s4 \<Rightarrow>
                                if c = CHR 0x2C then json_members n depth s4
                                else if c = CHR 0x7D then Some s4 else None)))))"
| "json_elements 0 depth s = None"
| "json_elements (Suc n) depth s =
     (case json_value n depth s of
        None \<Rightarrow> None
      | Some s1 \<Rightarrow>
          (case skip_ws s1 of
             [] \<Rightarrow> None
           | c # s2 \<Rightarrow>
               if c = CHR 0x2C then json_elements n depth s2
               else if c = CHR 0x5D then Some s2 else None))"

definition json_valid :: "string \<Rightarrow> bool" where
  "json_valid s =
     (case json_value (2 * length s + 2) 10000 s of None \<Rightarrow> False | Some r \<Rightarrow> skip_ws r = [])"

lemma skip_ws_simps [simp]:
  "skip_ws [] = []"
  "\<not> json_ws c \<Longrightarrow> skip_ws (c # cs) = c # cs"
  "json_ws c \<Longrightarrow> skip_ws (c # cs) = skip_ws cs"
  by (simp_all add: skip_ws_def)

lemma json_value_string [simp]: "json_value (Suc n) d (CHR 0x22 # s) = json_string s"
  by (simp add: json_ws_def)

text \<open>Bytes that a JSON string takes as they are.\<close>

definition json_plain :: "char \<Rightarrow> bool" where
  "json_plain c \<longleftrightarrow> c \<noteq> CHR 0x22 \<and> c \<noteq> CHR 0x5C \<and> (0x20 :: nat) \<le> of_char c"

lemma json_string_plain:
  "list_all json_plain s \<Longrightarrow> json_string (s @ t) = json_string t"
  by (induction s) (auto simp: json_plain_def)

end
