(* ===== verification/Classifier.thy ===== *)
theory Classifier
  imports Varint Go_Json
begin

unbundle bit_operations_syntax

text \<open>
  \<^verbatim>\<open>gameproto/gameproto.go\<close> and \<^verbatim>\<open>gameproto/classifier.go\<close>: the vocabulary every protocol shares.  A Go
  \<^verbatim>\<open>Classifier\<close> is a record of its four methods; \<^verbatim>\<open>Classify\<close> takes the reader and gives the result
  together with the reader left for the rest of the connection.

  The locale \<open>classifier\<close> states the interface contract written in \<^verbatim>\<open>classifier.go\<close> and in the
  package documentation; Minecraft, Terraria and the demo protocol interpret it.
\<close>

datatype kind = Join | Status | Unknown

definition kind_string :: "kind \<Rightarrow> string" where
  "kind_string k = (case k of Join \<Rightarrow> ''Join'' | Status \<Rightarrow> ''Status'' | Unknown \<Rightarrow> ''Unknown'')"

record minecraft_detail =
  md_protocol_version :: u32
  md_next_state :: u32
  md_server_addr :: string

datatype detail = MinecraftDetail minecraft_detail | TerrariaDetail string

definition protocol_name :: "detail \<Rightarrow> string" where
  "protocol_name d = (case d of MinecraftDetail _ \<Rightarrow> ''minecraft'' | TerrariaDetail _ \<Rightarrow> ''terraria'')"

record classification_result =
  cr_kind :: kind
  cr_consumed :: bytes
  cr_detail :: "detail option"

record classifier_impl =
  classify :: "reader \<Rightarrow> proto_error + classification_result \<times> reader"
  supports_status_ping :: bool
  build_status_response :: "string \<Rightarrow> proto_error + bytes"
  build_disconnect :: "string \<Rightarrow> proto_error + bytes"

section \<open>The interface contract\<close>

locale classifier =
  fixes c :: classifier_impl
  assumes replay: "classify c r = Inr (res, r') \<Longrightarrow> consumed_from r (cr_consumed res) r'"
    and detail_iff: "classify c r = Inr (res, r') \<Longrightarrow> cr_detail res = None \<longleftrightarrow> cr_kind res = Unknown"
    and status_only_if_supported:
      "classify c r = Inr (res, r') \<Longrightarrow> cr_kind res = Status \<Longrightarrow> supports_status_ping c"
    and unsupported_status_fails:
      "\<not> supports_status_ping c \<Longrightarrow> build_status_response c payload = Inl StatusPingUnsupported"
begin

text \<open>Replaying the consumed bytes and then the rest of the same reader gives the stream the client
  sent.\<close>

lemma stream_restored:
  "classify c r = Inr (res, r') \<Longrightarrow> cr_consumed res @ rd_data r' = rd_data r"
  using replay by (auto simp: consumed_from_def)

lemma consumed_prefix:
  "classify c r = Inr (res, r') \<Longrightarrow> cr_consumed res = take (length (cr_consumed res)) (rd_data r)"
  by (metis append_eq_conv_conj stream_restored)

lemma unsupported_never_status:
  "\<not> supports_status_ping c \<Longrightarrow> classify c r = Inr (res, r') \<Longrightarrow> cr_kind res \<noteq> Status"
  using status_only_if_supported by blast

end

section \<open>The demo protocol (\<^verbatim>\<open>demo.go\<close>)\<close>

definition DemoClassifier :: classifier_impl where
  "DemoClassifier = \<lparr>
     classify = (\<lambda>br. Inr (\<lparr>cr_kind = Unknown, cr_consumed = [], cr_detail = None\<rparr>, br)),
     supports_status_ping = False,
     build_status_response = (\<lambda>_. Inl StatusPingUnsupported),
     build_disconnect = (\<lambda>_. Inr [])\<rparr>"

interpretation demo: classifier DemoClassifier
  by unfold_locales (auto simp: DemoClassifier_def)

end
