(* ===== verification/Minecraft.thy ===== *)
theory Minecraft
  imports Classifier
begin

unbundle bit_operations_syntax

text \<open>
  \<^verbatim>\<open>gameproto/minecraft.go\<close>: the Java Edition handshake reader, the status and disconnect packet
  builders, and the classifier made of them.
\<close>

definition minecraftMaxPacketSize :: int where
  "minecraftMaxPacketSize = 512"

record minecraft_classify_result =
  mr_protocol_version :: u32
  mr_next_state :: u32
  mr_server_addr :: string
  mr_consumed :: bytes

section \<open>Strings and frames\<close>

definition readMinecraftString :: "reader \<Rightarrow> proto_error + string \<times> reader" where
  "readMinecraftString r =
     res_bind (readMinecraftVarInt r) (\<lambda>(len, r1).
       if sint len < 0 \<or> sint len > 32767 then Inl (LengthOutOfRange (sint len))
       else res_bind (io_err (read_full (nat (sint len)) r1)) (\<lambda>(buf, r2). Inr (bytes_str buf, r2)))"

definition writeMinecraftString :: "string \<Rightarrow> proto_error + bytes" where
  "writeMinecraftString s =
     (if length s > 32767 then Inl (StringTooLong (int (length s)))
      else Inr (writeMinecraftVarInt (word_of_nat (length s)) @ str_bytes s))"

definition frameMinecraftPacket :: "bytes \<Rightarrow> bytes" where
  "frameMinecraftPacket data =
     (let dlen = (if length data > 0x7fffffff then 0x7fffffff else length data)
      in writeMinecraftVarInt (word_of_nat dlen) @ data)"

section \<open>Handshake\<close>

definition be_uint16 :: "u8 \<Rightarrow> u8 \<Rightarrow> u16" where
  "be_uint16 hi lo = push_bit 8 (ucast hi) OR ucast lo"

text \<open>The fields of the frame after its length prefix, in wire order.\<close>

definition parseHandshakeFrame :: "bytes \<Rightarrow> proto_error + u32 \<times> u32 \<times> string" where
  "parseHandshakeFrame frame =
     res_bind (wrap_err ''read packet id'' (readMinecraftVarInt (bytes_reader frame))) (\<lambda>(packetID, r1).
     if packetID \<noteq> 0 then Inl (BadPacketId (sint packetID))
     else
     res_bind (wrap_err ''read protocol version'' (readMinecraftVarInt r1)) (\<lambda>(protocolVersion, r2).
     res_bind (wrap_err ''read server address'' (readMinecraftString r2)) (\<lambda>(serverAddr, r3).
     res_bind (wrap_err ''read server port'' (io_err (read_full 2 r3))) (\<lambda>(portBytes, r4).
     res_bind (wrap_err ''read next state'' (readMinecraftVarInt r4)) (\<lambda>(nextState, _).
     Inr (protocolVersion, nextState,
          serverAddr @ '':'' @ itoa (uint (be_uint16 (portBytes ! 0) (portBytes ! 1)))))))))"

definition classifyMinecraftHandshake ::
  "reader \<Rightarrow> proto_error + kind \<times> minecraft_classify_result \<times> reader" where
  "classifyMinecraftHandshake br =
     (case readMinecraftVarIntWithCapture br of
        Inl e \<Rightarrow> if e = IOErr EOF then Inl e else Inl (Wrapped ''read handshake length'' e)
      | Inr (len, lenBytes, br1) \<Rightarrow>
          if sint len \<le> 0 \<or> sint len > minecraftMaxPacketSize then Inl (LengthOutOfRange (sint len))
          else
          res_bind (wrap_err ''read handshake frame'' (io_err (read_full (nat (sint len)) br1)))
            (\<lambda>(frame, br2).
          res_bind (parseHandshakeFrame frame) (\<lambda>(protocolVersion, nextState, addr).
          let result = \<lparr>mr_protocol_version = protocolVersion, mr_next_state = nextState,
                        mr_server_addr = addr, mr_consumed = lenBytes @ frame\<rparr>
          in Inr (if nextState = 1 then Status else if nextState = 2 then Join else Unknown,
                  result, br2))))"

section \<open>Responses\<close>

definition buildMinecraftStatusResponse :: "string \<Rightarrow> proto_error + bytes" where
  "buildMinecraftStatusResponse jsonPayload =
     (if \<not> json_valid jsonPayload then Inl InvalidJSON
      else res_bind (wrap_err ''encode status response'' (writeMinecraftString jsonPayload))
        (\<lambda>str. Inr (frameMinecraftPacket (writeMinecraftVarInt 0 @ str))))"

definition hex_digit :: "nat \<Rightarrow> char" where
  "hex_digit n = (if n < 10 then char_of (0x30 + n) else char_of (0x57 + n))"

definition escape_rune :: "nat \<Rightarrow> string" where
  "escape_rune r =
     (if r = 0x22 then [CHR 0x5C, CHR 0x22]
      else if r = 0x5C then [CHR 0x5C, CHR 0x5C]
      else if r = 0x08 then [CHR 0x5C, CHR ''b'']
      else if r = 0x0C then [CHR 0x5C, CHR ''f'']
      else if r = 0x0A then [CHR 0x5C, CHR ''n'']
      else if r = 0x0D then [CHR 0x5C, CHR ''r'']
      else if r = 0x09 then [CHR 0x5C, CHR ''t'']
      else if r < 0x20 then
        [CHR 0x5C, CHR ''u'', CHR ''0'', CHR ''0'', hex_digit (r div 16), hex_digit (r mod 16)]
      else encode_rune r)"

definition escapeJSONString :: "string \<Rightarrow> string" where
  "escapeJSONString s = concat (map escape_rune (runes s))"

definition disconnectChat :: "string \<Rightarrow> string" where
  "disconnectChat reason =
     [CHR 0x7B, CHR 0x22] @ ''text'' @ [CHR 0x22, CHR '':'', CHR 0x22]
       @ escapeJSONString reason @ [CHR 0x22, CHR 0x7D]"

definition buildMinecraftLoginDisconnect :: "string \<Rightarrow> proto_error + bytes" where
  "buildMinecraftLoginDisconnect reason =
     res_bind (wrap_err ''encode disconnect reason'' (writeMinecraftString (disconnectChat reason)))
       (\<lambda>str. Inr (frameMinecraftPacket (writeMinecraftVarInt 0 @ str)))"

definition MinecraftClassify :: "reader \<Rightarrow> proto_error + classification_result \<times> reader" where
  "MinecraftClassify br =
     res_bind (classifyMinecraftHandshake br) (\<lambda>(kind, result, br').
       let detail = (if kind = Join \<or> kind = Status
                     then Some (MinecraftDetail
                       \<lparr>md_protocol_version = mr_protocol_version result,
                        md_next_state = mr_next_state result,
                        md_server_addr = mr_server_addr result\<rparr>)
                     else None)
       in Inr (\<lparr>cr_kind = kind, cr_consumed = mr_consumed result, cr_detail = detail\<rparr>, br'))"

definition MinecraftClassifier :: classifier_impl where
  "MinecraftClassifier = \<lparr>
     classify = MinecraftClassify,
     supports_status_ping = True,
     build_status_response = buildMinecraftStatusResponse,
     build_disconnect = buildMinecraftLoginDisconnect\<rparr>"

section \<open>The classifier contract\<close>

lemma classifyMinecraftHandshake_ok:
  assumes "classifyMinecraftHandshake br = Inr (k, res, br')"
  shows "consumed_from br (mr_consumed res) br'"
    and "k = (if mr_next_state res = 1 then Status else if mr_next_state res = 2 then Join else Unknown)"
    and "length (mr_consumed res) \<le> 5 + 512"
proof -
  from assms obtain len lenBytes br1 frame pv ns addr where
    v: "readMinecraftVarIntWithCapture br = Inr (len, lenBytes, br1)"
    and len: "sint len \<le> 512"
    and f: "read_full (nat (sint len)) br1 = Inr (frame, br')"
    and res: "res = \<lparr>mr_protocol_version = pv, mr_next_state = ns, mr_server_addr = addr,
        mr_consumed = lenBytes @ frame\<rparr>"
    and k: "k = (if ns = 1 then Status else if ns = 2 then Join else Unknown)"
    by (auto simp: classifyMinecraftHandshake_def Let_def minecraftMaxPacketSize_def
        split: sum.splits if_splits)
  note vs = readMinecraftVarIntWithCapture_sound [OF v]
  show "consumed_from br (mr_consumed res) br'"
    using consumed_from_trans [OF _ read_full_consumed [OF f]] vs by (simp add: res)
  show "k = (if mr_next_state res = 1 then Status else if mr_next_state res = 2 then Join else Unknown)"
    by (simp add: k res)
  show "length (mr_consumed res) \<le> 5 + 512"
    using vs len read_full_length [OF f] by (auto simp: res)
qed

interpretation minecraft: classifier MinecraftClassifier
proof (unfold_locales, goal_cases)
  case (1 r res r')
  then show ?case
    by (auto simp: MinecraftClassifier_def MinecraftClassify_def Let_def dest: classifyMinecraftHandshake_ok(1))
next
  case (2 r res r')
  then show ?case
    by (auto simp: MinecraftClassifier_def MinecraftClassify_def Let_def split: if_splits intro: kind.exhaust)
next
  case 3
  then show ?case
    by (simp add: MinecraftClassifier_def)
next
  case 4
  then show ?case
    by (simp add: MinecraftClassifier_def)
qed

section \<open>Writing and reading back\<close>

lemma length_writeMinecraftVarInt: "length (writeMinecraftVarInt v) \<le> 5"
  using mc_varint.enc_run [of v] by simp

lemma readMinecraftString_write:
  assumes "writeMinecraftString s = Inr bs"
  shows "readMinecraftString \<lparr>rd_data = bs @ rest, rd_end = e\<rparr> = Inr (s, \<lparr>rd_data = rest, rd_end = e\<rparr>)"
proof -
  from assms have len: "length s \<le> 32767"
    and bs: "bs = writeMinecraftVarInt (word_of_nat (length s)) @ str_bytes s"
    by (auto simp: writeMinecraftString_def split: if_splits)
  have "sint (word_of_nat (length s) :: u32) = int (length s)"
    using len by (intro sint_word_of_nat32) simp
  moreover have "read_full (length s) \<lparr>rd_data = str_bytes s @ rest, rd_end = e\<rparr>
      = Inr (str_bytes s, \<lparr>rd_data = rest, rd_end = e\<rparr>)"
    using read_full_append [of "str_bytes s"] by simp
  ultimately show ?thesis
    using len by (simp add: readMinecraftString_def bs mc_varint.dec_enc)
qed

text \<open>The reader a client uses on a packet the sentinel sent: length, packet id, string, and nothing
  left over inside the frame.\<close>

definition readFrame :: "reader \<Rightarrow> proto_error + bytes \<times> reader" where
  "readFrame r = res_bind (readMinecraftVarInt r) (\<lambda>(len, r1). io_err (read_full (nat (sint len)) r1))"

definition mc_readPacket :: "bytes \<Rightarrow> proto_error + u32 \<times> string \<times> bytes" where
  "mc_readPacket bs =
     res_bind (readFrame (bytes_reader bs)) (\<lambda>(frame, r2).
     res_bind (readMinecraftVarInt (bytes_reader frame)) (\<lambda>(pid, r3).
     res_bind (readMinecraftString r3) (\<lambda>(str, r4).
     if rd_data r4 = [] then Inr (pid, str, rd_data r2) else Inl (ExceedsRemaining 0 0))))"

lemma readFrame_frame:
  assumes "length d < 2 ^ 31"
  shows "readFrame \<lparr>rd_data = frameMinecraftPacket d @ rest, rd_end = e\<rparr> = Inr (d, \<lparr>rd_data = rest, rd_end = e\<rparr>)"
proof -
  have "frameMinecraftPacket d @ rest = writeMinecraftVarInt (word_of_nat (length d)) @ d @ rest"
    using assms by (simp add: frameMinecraftPacket_def)
  with mc_varint.prefixed_block [OF assms, of rest e] show ?thesis
    by (simp add: readFrame_def)
qed

lemma length_writeMinecraftString: "writeMinecraftString s = Inr bs \<Longrightarrow> length bs \<le> 5 + 32767"
  using length_writeMinecraftVarInt [of "word_of_nat (length s)"]
  by (auto simp: writeMinecraftString_def split: if_splits)

lemma mc_readPacket_frame:
  assumes "writeMinecraftString s = Inr bs"
  shows "mc_readPacket (frameMinecraftPacket (writeMinecraftVarInt pid @ bs) @ rest) = Inr (pid, s, rest)"
proof -
  have "length (writeMinecraftVarInt pid @ bs) < 2 ^ 31"
    using length_writeMinecraftString [OF assms] length_writeMinecraftVarInt [of pid] by simp
  from readFrame_frame [OF this, of rest EOF] readMinecraftString_write [OF assms, of "[]" EOF]
  show ?thesis
    by (simp add: mc_readPacket_def bytes_reader_def mc_varint.dec_enc)
qed

section \<open>Escaping keeps JSON valid\<close>

lemma is_hex_hex_digit: "n < 16 \<Longrightarrow> is_hex (hex_digit n)" "is_hex (CHR ''0'')"
  by (simp_all add: is_hex_def hex_digit_def in_rng_def)

lemma json_plain_char_of:
  assumes "n < 256" "(0x20 :: nat) \<le> n" "n \<noteq> 0x22" "n \<noteq> 0x5C"
  shows "json_plain (char_of n)"
proof -
  have *: "of_char (char_of n) = n"
    using assms(1) by simp
  have "char_of n \<noteq> c" if "of_char c \<noteq> n" for c
    using that * by auto
  from this [of "CHR 0x22"] this [of "CHR 0x5C"] * assms show ?thesis
    by (simp add: json_plain_def del: of_char_of)
qed

lemma enc3_plain: "r < 0x10000 \<Longrightarrow> list_all json_plain (enc3 r)"
  by (auto simp: enc3_def intro!: json_plain_char_of)

lemma encode_rune_plain:
  assumes "0x20 \<le> r" "r \<noteq> 0x22" "r \<noteq> 0x5C"
  shows "list_all json_plain (encode_rune r)"
  using assms by (auto simp: encode_rune_def rune_error_def intro!: json_plain_char_of enc3_plain)

lemma json_string_escape_rune: "json_string (escape_rune r @ t) = json_string t"
proof (cases "r < 0x20 \<or> r = 0x22 \<or> r = 0x5C")
  case True
  then show ?thesis
    by (auto simp: escape_rune_def json_escape_char_def is_hex_hex_digit)
next
  case False
  then have "escape_rune r = encode_rune r"
    by (auto simp: escape_rune_def)
  with False show ?thesis
    by (simp add: json_string_plain encode_rune_plain)
qed

lemma json_string_escape: "json_string (escapeJSONString s @ t) = json_string t"
proof -
  have "json_string (concat (map escape_rune rs) @ t) = json_string t" for rs
    by (induction rs) (simp_all add: json_string_escape_rune)
  then show ?thesis
    by (simp add: escapeJSONString_def)
qed

lemma json_valid_disconnectChat: "json_valid (disconnectChat reason)"
proof -
  have str: "json_string (''text'' @ CHR 0x22 # t) = Some t" for t
    by (simp add: json_plain_def)
  have val: "json_value (Suc n) d (CHR 0x22 # escapeJSONString reason @ [CHR 0x22, CHR 0x7D]) = Some [CHR 0x7D]"
    for n d
    by (simp only: json_value_string json_string_escape) simp
  define tl where "tl = escapeJSONString reason @ [CHR 0x22, CHR 0x7D]"
  have mem: "json_members (Suc (Suc n)) d (CHR 0x22 # ''text'' @ CHR 0x22 # CHR '':'' # CHR 0x22 # tl) = Some []"
    for n d
    using str val [of n d] by (simp only: json_members.simps) (simp add: json_ws_def tl_def)
  have all: "json_value (Suc (Suc (Suc n))) (Suc d) (disconnectChat reason) = Some []" for n d
    using mem [of n d] by (simp only: json_value.simps) (simp add: disconnectChat_def tl_def json_ws_def has_prefix_def)
  have "2 * length (disconnectChat reason) + 2 = Suc (Suc (Suc (2 * length (disconnectChat reason) - 1)))"
    by (simp add: disconnectChat_def)
  moreover have "(10000 :: nat) = Suc 9999"
    by simp
  ultimately have "json_value (2 * length (disconnectChat reason) + 2) 10000 (disconnectChat reason) = Some []"
    by (simp only: all)
  then show ?thesis
    by (simp only: json_valid_def option.case skip_ws_simps)
qed

section \<open>Properties\<close>

text \<open>The bytes of a handshake as a client writes them: protocol version, address, port and next
  state behind packet id zero and the frame length.\<close>

definition handshakeBody :: "u32 \<Rightarrow> string \<Rightarrow> u8 \<Rightarrow> u8 \<Rightarrow> u32 \<Rightarrow> bytes" where
  "handshakeBody pv addr hi lo ns =
     writeMinecraftVarInt 0 @ writeMinecraftVarInt pv
       @ (writeMinecraftVarInt (word_of_nat (length addr)) @ str_bytes addr)
       @ [hi, lo] @ writeMinecraftVarInt ns"

definition encodeHandshake :: "u32 \<Rightarrow> string \<Rightarrow> u8 \<Rightarrow> u8 \<Rightarrow> u32 \<Rightarrow> bytes" where
  "encodeHandshake pv addr hi lo ns = frameMinecraftPacket (handshakeBody pv addr hi lo ns)"

lemma parseHandshakeFrame_body:
  assumes "length (handshakeBody pv addr hi lo ns) \<le> 512"
  shows "parseHandshakeFrame (handshakeBody pv addr hi lo ns)
    = Inr (pv, ns, addr @ '':'' @ itoa (uint (be_uint16 hi lo)))"
proof -
  let ?str = "writeMinecraftVarInt (word_of_nat (length addr)) @ str_bytes addr"
  from assms have "writeMinecraftString addr = Inr ?str"
    by (simp add: handshakeBody_def writeMinecraftString_def)
  from readMinecraftString_write [OF this, of "[hi, lo] @ writeMinecraftVarInt ns" EOF]
  have str: "readMinecraftString \<lparr>rd_data = ?str @ [hi, lo] @ writeMinecraftVarInt ns, rd_end = EOF\<rparr>
    = Inr (addr, \<lparr>rd_data = [hi, lo] @ writeMinecraftVarInt ns, rd_end = EOF\<rparr>)" .
  have port: "read_full 2 \<lparr>rd_data = [hi, lo] @ writeMinecraftVarInt ns, rd_end = EOF\<rparr>
    = Inr ([hi, lo], \<lparr>rd_data = writeMinecraftVarInt ns, rd_end = EOF\<rparr>)"
    by (simp add: read_full_def)
  have ns: "readMinecraftVarInt \<lparr>rd_data = writeMinecraftVarInt ns, rd_end = EOF\<rparr>
    = Inr (ns, \<lparr>rd_data = [], rd_end = EOF\<rparr>)"
    using mc_varint.dec_enc [of ns "[]" EOF] by simp
  show ?thesis
    unfolding parseHandshakeFrame_def handshakeBody_def bytes_reader_def
    by (simp only: mc_varint.dec_enc wrap_err_simps res_bind_simps prod.case str port ns io_err_simps
        nth_Cons_0 nth_Cons_Suc One_nat_def if_False simp_thms)
qed

lemma minecraft_handshake_roundtrip_aux:
  assumes "length (handshakeBody pv addr hi lo ns) \<le> 512"
  shows "MinecraftClassify \<lparr>rd_data = encodeHandshake pv addr hi lo ns @ rest, rd_end = e\<rparr> =
    Inr (\<lparr>cr_kind = (if ns = 1 then Status else if ns = 2 then Join else Unknown),
          cr_consumed = encodeHandshake pv addr hi lo ns,
          cr_detail = (if ns = 1 \<or> ns = 2
            then Some (MinecraftDetail \<lparr>md_protocol_version = pv, md_next_state = ns,
                   md_server_addr = addr @ '':'' @ itoa (uint (be_uint16 hi lo))\<rparr>)
            else None)\<rparr>,
         \<lparr>rd_data = rest, rd_end = e\<rparr>)"
proof -
  define body where "body = handshakeBody pv addr hi lo ns"
  define len where "len = (word_of_nat (length body) :: u32)"
  have enc: "encodeHandshake pv addr hi lo ns = writeMinecraftVarInt len @ body"
    using assms by (simp add: encodeHandshake_def frameMinecraftPacket_def body_def len_def)
  have pos: "0 < length body"
    by (simp add: body_def handshakeBody_def)
  have le: "length body \<le> 512"
    using assms by (simp add: body_def)
  then have len: "sint len = int (length body)"
    unfolding len_def by (intro sint_word_of_nat32) simp
  have v: "readMinecraftVarIntWithCapture
      \<lparr>rd_data = encodeHandshake pv addr hi lo ns @ rest, rd_end = e\<rparr>
    = Inr (len, writeMinecraftVarInt len, \<lparr>rd_data = body @ rest, rd_end = e\<rparr>)"
    using readMinecraftVarIntWithCapture_write [of len "body @ rest" e] by (simp add: enc)
  have p: "parseHandshakeFrame body = Inr (pv, ns, addr @ '':'' @ itoa (uint (be_uint16 hi lo)))"
    unfolding body_def using assms by (rule parseHandshakeFrame_body)
  show ?thesis
    using pos le len p unfolding MinecraftClassify_def classifyMinecraftHandshake_def v
    by (simp add: minecraftMaxPacketSize_def enc Let_def)
qed

text \<open>C28. A handshake whose frame is within the packet limit is read back field by field: the
  classifier reports Status for next state 1, Join for 2 and Unknown for any other, hands back
  exactly the client's bytes as consumed, and leaves whatever the client pipelined after the
  handshake in the reader.\<close>

theorem minecraft_handshake_roundtrip:
  assumes "length (handshakeBody pv addr hi lo ns) \<le> 512"
  shows "MinecraftClassify \<lparr>rd_data = encodeHandshake pv addr hi lo ns @ rest, rd_end = e\<rparr> =
    Inr (\<lparr>cr_kind = (if ns = 1 then Status else if ns = 2 then Join else Unknown),
          cr_consumed = encodeHandshake pv addr hi lo ns,
          cr_detail = (if ns = 1 \<or> ns = 2
            then Some (MinecraftDetail \<lparr>md_protocol_version = pv, md_next_state = ns,
                   md_server_addr = addr @ '':'' @ itoa (uint (be_uint16 hi lo))\<rparr>)
            else None)\<rparr>,
         \<lparr>rd_data = rest, rd_end = e\<rparr>)"
  using assms by (rule minecraft_handshake_roundtrip_aux)

theorem minecraft_handshake_roundtrip_witness:
  "MinecraftClassify \<lparr>rd_data = encodeHandshake 767 ''play'' 0x63 0xDD 2 @ [1, 2], rd_end = EOF\<rparr> =
    Inr (\<lparr>cr_kind = Join, cr_consumed = encodeHandshake 767 ''play'' 0x63 0xDD 2,
          cr_detail = Some (MinecraftDetail \<lparr>md_protocol_version = 767, md_next_state = 2,
                   md_server_addr = ''play'' @ '':'' @ itoa (uint (be_uint16 0x63 0xDD))\<rparr>)\<rparr>,
         \<lparr>rd_data = [1, 2], rd_end = EOF\<rparr>)"
proof -
  have "length (handshakeBody 767 ''play'' 0x63 0xDD 2) \<le> 512"
    using length_writeMinecraftVarInt [of 0] length_writeMinecraftVarInt [of 767]
      length_writeMinecraftVarInt [of 4] length_writeMinecraftVarInt [of 2]
    by (simp add: handshakeBody_def)
  from minecraft_handshake_roundtrip [OF this, of "[1, 2]" EOF] show ?thesis
    by simp
qed

text \<open>Whatever a client sends, a successful classification consumed at most 517 bytes (the
  longest length prefix and the largest frame), the consumed bytes followed by what is left in the
  reader are the client's stream, and the kind is the one the next-state field asks for.\<close>

theorem minecraft_classify_contract:
  assumes "MinecraftClassify br = Inr (res, br')"
  shows "cr_consumed res @ rd_data br' = rd_data br \<and> rd_end br' = rd_end br \<and>
    length (cr_consumed res) \<le> 517 \<and>
    (case cr_detail res of
       None \<Rightarrow> cr_kind res = Unknown
     | Some (MinecraftDetail d) \<Rightarrow>
         (cr_kind res = Status \<and> md_next_state d = 1) \<or> (cr_kind res = Join \<and> md_next_state d = 2)
     | Some _ \<Rightarrow> False)"
proof -
  from assms obtain k m where m: "classifyMinecraftHandshake br = Inr (k, m, br')"
    and res: "cr_kind res = k" "cr_consumed res = mr_consumed m"
      "cr_detail res = (if k = Join \<or> k = Status then Some (MinecraftDetail
         \<lparr>md_protocol_version = mr_protocol_version m, md_next_state = mr_next_state m,
          md_server_addr = mr_server_addr m\<rparr>) else None)"
    by (auto simp: MinecraftClassify_def Let_def)
  show ?thesis
    using classifyMinecraftHandshake_ok [OF m] by (auto simp: res consumed_from_def split: if_splits)
qed

theorem minecraft_classify_contract_witness:
  "\<exists>res br'. MinecraftClassify (bytes_reader (encodeHandshake 4 ''h'' 0 80 1)) = Inr (res, br') \<and>
     cr_consumed res @ rd_data br' = encodeHandshake 4 ''h'' 0 80 1"
proof -
  have "length (handshakeBody 4 ''h'' 0 80 1) \<le> 512"
    using length_writeMinecraftVarInt [of 0] length_writeMinecraftVarInt [of 4]
      length_writeMinecraftVarInt [of 1]
    by (simp add: handshakeBody_def)
  from minecraft_handshake_roundtrip_aux [OF this, of "[]" EOF] obtain res where
    *: "MinecraftClassify (bytes_reader (encodeHandshake 4 ''h'' 0 80 1)) = Inr (res, bytes_reader [])"
    by (auto simp: bytes_reader_def)
  show ?thesis
    using minecraft_classify_contract [OF *] * by (auto simp: bytes_reader_def)
qed

text \<open>A status reply is built exactly for a valid JSON payload of at most 32767 bytes, and a
  client reading the packet gets packet id zero, that payload, and nothing else from the frame.\<close>

theorem minecraft_status_response_iff:
  "(\<exists>bs. buildMinecraftStatusResponse payload = Inr bs \<and>
      (\<forall>rest. mc_readPacket (bs @ rest) = Inr (0, payload, rest)))
   \<longleftrightarrow> json_valid payload \<and> length payload \<le> 32767"
proof
  assume "\<exists>bs. buildMinecraftStatusResponse payload = Inr bs \<and>
      (\<forall>rest. mc_readPacket (bs @ rest) = Inr (0, payload, rest))"
  then show "json_valid payload \<and> length payload \<le> 32767"
    by (auto simp: buildMinecraftStatusResponse_def writeMinecraftString_def split: if_splits)
next
  assume *: "json_valid payload \<and> length payload \<le> 32767"
  then obtain str where "writeMinecraftString payload = Inr str"
    by (auto simp: writeMinecraftString_def)
  with * mc_readPacket_frame [OF this, of 0] show "\<exists>bs. buildMinecraftStatusResponse payload = Inr bs \<and>
      (\<forall>rest. mc_readPacket (bs @ rest) = Inr (0, payload, rest))"
    by (simp add: buildMinecraftStatusResponse_def)
qed

text \<open>Whatever text is given as disconnect reason, control characters, quotes, backslashes and
  invalid UTF-8 included, the chat component is a valid JSON document; unless it is longer than a
  protocol string it is sent in a packet a client reads back, and otherwise the builder reports the
  length.\<close>

theorem minecraft_disconnect_wellformed:
  "json_valid (disconnectChat reason) \<and>
   (if length (disconnectChat reason) \<le> 32767
    then \<exists>bs. buildMinecraftLoginDisconnect reason = Inr bs \<and>
      (\<forall>rest. mc_readPacket (bs @ rest) = Inr (0, disconnectChat reason, rest))
    else buildMinecraftLoginDisconnect reason =
      Inl (Wrapped ''encode disconnect reason'' (StringTooLong (int (length (disconnectChat reason))))))"
proof (cases "length (disconnectChat reason) \<le> 32767")
  case True
  then obtain str where "writeMinecraftString (disconnectChat reason) = Inr str"
    by (auto simp: writeMinecraftString_def)
  with True mc_readPacket_frame [OF this, of 0] show ?thesis
    by (simp add: json_valid_disconnectChat buildMinecraftLoginDisconnect_def)
next
  case False
  then show ?thesis
    by (simp add: json_valid_disconnectChat buildMinecraftLoginDisconnect_def writeMinecraftString_def)
qed

end
