(* ===== verification/Terraria.thy ===== *)
theory Terraria
  imports Classifier
begin

unbundle bit_operations_syntax

text \<open>
  \<^verbatim>\<open>gameproto/terraria.go\<close>: the connect-request reader, the disconnect builder, and the classifier
  made of them.
\<close>

definition terrariaConnectRequest :: u8 where
  "terrariaConnectRequest = 1"

definition terrariaDisconnect :: u8 where
  "terrariaDisconnect = 2"

definition terrariaMaxPacketSize :: nat where
  "terrariaMaxPacketSize = 65535"

definition terrariaMaxStringLength :: int where
  "terrariaMaxStringLength = 32 * 1024"

record terraria_classify_result =
  tr_version :: string
  tr_consumed :: bytes

section \<open>Strings\<close>

definition readTerrariaString :: "reader \<Rightarrow> proto_error + string \<times> reader" where
  "readTerrariaString r =
     res_bind (readTerrafia7BitEncodedInt r) (\<lambda>(len, r1).
       if sint len < 0 then Inl (NegativeLength (sint len))
       else if sint len > terrariaMaxStringLength then Inl (LengthOutOfRange (sint len))
       else if sint len > int (length (rd_data r1))
         then Inl (ExceedsRemaining (sint len) (int (length (rd_data r1))))
       else res_bind (wrap_err ''read string data'' (io_err (read_full (nat (sint len)) r1)))
         (\<lambda>(buf, r2). Inr (bytes_str buf, r2)))"

definition writeTerrariaString :: "string \<Rightarrow> proto_error + bytes" where
  "writeTerrariaString s =
     (if length s > 0x7fffffff then Inl (StringTooLong (int (length s)))
      else res_bind (writeTerrafia7BitEncodedInt (word_of_nat (length s)))
        (\<lambda>lenBytes. Inr (lenBytes @ str_bytes s)))"

definition writeTerrariaNetworkText :: "string \<Rightarrow> proto_error + bytes" where
  "writeTerrariaNetworkText text = res_bind (writeTerrariaString text) (\<lambda>bs. Inr (0 # bs))"

section \<open>Connect request\<close>

definition le_uint16 :: "u8 \<Rightarrow> u8 \<Rightarrow> u16" where
  "le_uint16 lo hi = ucast lo OR push_bit 8 (ucast hi)"

definition le_bytes16 :: "u16 \<Rightarrow> bytes" where
  "le_bytes16 w = [ucast w, ucast (drop_bit 8 w)]"

definition parseTerrariaConnectRequest :: "bytes \<Rightarrow> proto_error + terraria_classify_result" where
  "parseTerrariaConnectRequest payload =
     (if payload = [] then Inl EmptyPayload
      else res_bind (wrap_err ''read version string'' (readTerrariaString (bytes_reader payload)))
        (\<lambda>(version, _). Inr \<lparr>tr_version = version, tr_consumed = []\<rparr>))"

definition classifyTerrariaConnect ::
  "reader \<Rightarrow> proto_error + kind \<times> terraria_classify_result \<times> reader" where
  "classifyTerrariaConnect br =
     (case read_full 3 br of
        Inl e \<Rightarrow> if e = EOF \<or> e = UnexpectedEOF then Inl (IOErr e)
                 else Inl (Wrapped ''read terraria frame header'' (IOErr e))
      | Inr (header, br1) \<Rightarrow>
          let totalLength = le_uint16 (header ! 0) (header ! 1); messageType = header ! 2 in
          if unat totalLength < 3 then Inl (FrameTooShort (unat totalLength))
          else if unat totalLength > terrariaMaxPacketSize then Inl (FrameTooLong (unat totalLength))
          else
          res_bind (wrap_err ''read terraria frame payload'' (io_err (read_full (unat totalLength - 3) br1)))
            (\<lambda>(payload, br2).
              if messageType \<noteq> terrariaConnectRequest
              then Inr (Unknown, \<lparr>tr_version = [], tr_consumed = header @ payload\<rparr>, br2)
              else
              res_bind (wrap_err ''parse terraria ConnectRequest'' (parseTerrariaConnectRequest payload))
                (\<lambda>result. Inr (Join, result\<lparr>tr_consumed := header @ payload\<rparr>, br2))))"

section \<open>Disconnect\<close>

definition buildTerrariaDisconnect :: "string \<Rightarrow> proto_error + bytes" where
  "buildTerrariaDisconnect reason =
     res_bind (wrap_err ''encode disconnect reason'' (writeTerrariaNetworkText reason)) (\<lambda>payload.
       let frame = terrariaDisconnect # payload; totalLength = length frame + 2
       in if totalLength > terrariaMaxPacketSize then Inl (FrameTooLong totalLength)
          else Inr (le_bytes16 (word_of_nat totalLength) @ frame))"

section \<open>The classifier\<close>

definition TerrariaClassify :: "reader \<Rightarrow> proto_error + classification_result \<times> reader" where
  "TerrariaClassify br =
     res_bind (classifyTerrariaConnect br) (\<lambda>(kind, tcr, br').
       Inr (\<lparr>cr_kind = kind, cr_consumed = tr_consumed tcr,
             cr_detail = (if kind = Join then Some (TerrariaDetail (tr_version tcr)) else None)\<rparr>, br'))"

definition TerrariaClassifier :: classifier_impl where
  "TerrariaClassifier = \<lparr>
     classify = TerrariaClassify,
     supports_status_ping = False,
     build_status_response = (\<lambda>_. Inl StatusPingUnsupported),
     build_disconnect = buildTerrariaDisconnect\<rparr>"

lemma classifyTerrariaConnect_ok:
  assumes "classifyTerrariaConnect br = Inr (k, res, br')"
  shows "consumed_from br (tr_consumed res) br'" and "k \<noteq> Status"
    and "3 \<le> length (tr_consumed res)" and "length (tr_consumed res) \<le> 65535"
    and "k = Join \<longleftrightarrow> tr_consumed res ! 2 = terrariaConnectRequest"
proof -
  from assms obtain header br1 payload where
    h: "read_full 3 br = Inr (header, br1)"
    and p: "read_full (unat (le_uint16 (header ! 0) (header ! 1)) - 3) br1 = Inr (payload, br')"
    and c: "tr_consumed res = header @ payload"
    and k: "k = (if header ! 2 = terrariaConnectRequest then Join else Unknown)"
    by (auto simp: classifyTerrariaConnect_def Let_def split: sum.splits if_splits)
  show "consumed_from br (tr_consumed res) br'"
    unfolding c using read_full_consumed [OF h] read_full_consumed [OF p] by (rule consumed_from_trans)
  show "k \<noteq> Status"
    by (simp add: k)
  show "3 \<le> length (tr_consumed res)" "k = Join \<longleftrightarrow> tr_consumed res ! 2 = terrariaConnectRequest"
    using read_full_length [OF h] by (simp_all add: c k nth_append)
  have "unat (le_uint16 (header ! 0) (header ! 1)) < 65536"
    using unsigned_less [of "le_uint16 (header ! 0) (header ! 1)", where ?'a = nat] by simp
  then show "length (tr_consumed res) \<le> 65535"
    using read_full_length [OF h] read_full_length [OF p] assms
    by (auto simp: c h classifyTerrariaConnect_def Let_def split: if_splits)
qed

interpretation terraria: classifier TerrariaClassifier
proof (unfold_locales, goal_cases)
  case (1 r res r')
  then show ?case
    by (auto simp: TerrariaClassifier_def TerrariaClassify_def dest: classifyTerrariaConnect_ok(1))
next
  case (2 r res r')
  then show ?case
    by (auto simp: TerrariaClassifier_def TerrariaClassify_def dest: classifyTerrariaConnect_ok(2)
        split: if_splits intro: kind.exhaust)
next
  case (3 r res r')
  then show ?case
    by (auto simp: TerrariaClassifier_def TerrariaClassify_def dest: classifyTerrariaConnect_ok(2))
next
  case 4
  then show ?case
    by (simp add: TerrariaClassifier_def)
qed

section \<open>Writing and reading back\<close>

lemma le_uint16_bytes: "le_uint16 (ucast w) (ucast (drop_bit 8 w)) = (w :: u16)"
  by (rule bit_word_eqI) (auto simp: le_uint16_def bit_simps)

lemma readTerrariaString_write:
  assumes "length s \<le> 32768"
  shows "readTerrariaString \<lparr>rd_data = writeTerrafia7BitEncodedInt_loop (word_of_nat (length s)) @ str_bytes s @ rest, rd_end = e\<rparr>
    = Inr (s, \<lparr>rd_data = rest, rd_end = e\<rparr>)"
proof -
  have "sint (word_of_nat (length s) :: u32) = int (length s)"
    using assms by (intro sint_word_of_nat32) simp
  moreover have "read_full (length s) \<lparr>rd_data = str_bytes s @ rest, rd_end = e\<rparr>
      = Inr (str_bytes s, \<lparr>rd_data = rest, rd_end = e\<rparr>)"
    using read_full_append [of "str_bytes s"] by simp
  ultimately show ?thesis
    using assms by (simp add: readTerrariaString_def terraria_7bit.dec_enc terrariaMaxStringLength_def)
qed

lemma writeTerrariaString_eq:
  assumes "length s < 2 ^ 31"
  shows "writeTerrariaString s = Inr (writeTerrafia7BitEncodedInt_loop (word_of_nat (length s)) @ str_bytes s)"
  using assms sint_word_of_nat32 [OF assms]
  by (simp add: writeTerrariaString_def writeTerrafia7BitEncodedInt_def)

lemma length_write_loop:
  "length (writeTerrafia7BitEncodedInt_loop u)
     = (if unat u < 128 then 1 else Suc (length (writeTerrafia7BitEncodedInt_loop (drop_bit 7 u))))"
proof -
  have "drop_bit 7 u = 0 \<longleftrightarrow> unat u < 128"
    using unat_drop7 [of u] by (metis div_eq_0_iff unat_eq_0 zero_neq_numeral)
  then show ?thesis
    by (subst writeTerrafia7BitEncodedInt_loop.simps) (simp add: Let_def)
qed

lemma length_write_loop_3:
  "16384 \<le> unat u \<Longrightarrow> unat u < 2097152 \<Longrightarrow> length (writeTerrafia7BitEncodedInt_loop u) = 3"
  by (simp add: length_write_loop [of u] length_write_loop [of "drop_bit 7 u"]
      length_write_loop [of "drop_bit 7 (drop_bit 7 u)"] unat_drop7 div_less_iff_less_mult
      del: drop_bit_drop_bit)

lemma length_write_loop_bounds:
  "1 \<le> length (writeTerrafia7BitEncodedInt_loop u)" "length (writeTerrafia7BitEncodedInt_loop u) \<le> 5"
  using terraria_7bit.enc_run [of u] base128_run_nonempty
  by (auto simp: Suc_le_eq)

lemma unat_word_of_nat32: "n < 2 ^ 32 \<Longrightarrow> unat (word_of_nat n :: u32) = n"
  by (simp add: unsigned_of_nat take_bit_nat_eq_self)

lemma unat_word_of_nat16: "n < 2 ^ 16 \<Longrightarrow> unat (word_of_nat n :: u16) = n"
  by (simp add: unsigned_of_nat take_bit_nat_eq_self)

lemma disconnect_fits_iff:
  assumes "n < 2 ^ 31"
  shows "length (writeTerrafia7BitEncodedInt_loop (word_of_nat n)) + n + 4 \<le> 65535 \<longleftrightarrow> n \<le> 65528"
proof -
  let ?w = "word_of_nat n :: u32"
  have u: "unat ?w = n"
    using assms by (intro unat_word_of_nat32) simp
  consider "n < 16384" | "16384 \<le> n" "n < 2097152" | "2097152 \<le> n"
    by linarith
  then show ?thesis
    using length_write_loop_bounds [of ?w] length_write_loop_3 [of ?w] u by cases auto
qed

section \<open>Properties\<close>

definition encodeConnectRequest :: "string \<Rightarrow> bytes" where
  "encodeConnectRequest version =
     (let str = writeTerrafia7BitEncodedInt_loop (word_of_nat (length version)) @ str_bytes version
      in le_bytes16 (word_of_nat (3 + length str)) @ terrariaConnectRequest # str)"

text \<open>A connect request carrying a version string of at most 32768 bytes is classified as a
  Join with that version; the consumed bytes are the request and the bytes pipelined behind it stay
  in the reader.\<close>

theorem terraria_connect_roundtrip:
  assumes "length version \<le> 32768"
  shows "TerrariaClassify \<lparr>rd_data = encodeConnectRequest version @ rest, rd_end = e\<rparr> =
    Inr (\<lparr>cr_kind = Join, cr_consumed = encodeConnectRequest version,
          cr_detail = Some (TerrariaDetail version)\<rparr>, \<lparr>rd_data = rest, rd_end = e\<rparr>)"
proof -
  define str where "str = writeTerrafia7BitEncodedInt_loop (word_of_nat (length version)) @ str_bytes version"
  define tot where "tot = (word_of_nat (3 + length str) :: u16)"
  define header where "header = le_bytes16 tot @ [terrariaConnectRequest]"
  have "length str \<le> 32773"
    using assms length_write_loop_bounds(2) [of "word_of_nat (length version)"] by (simp add: str_def)
  then have tot: "unat tot = 3 + length str"
    unfolding tot_def by (intro unat_word_of_nat16) simp
  have enc: "encodeConnectRequest version = header @ str"
    by (simp add: encodeConnectRequest_def Let_def str_def tot_def header_def)
  have hdr: "length header = 3" "le_uint16 (header ! 0) (header ! Suc 0) = tot"
      "header ! 2 = terrariaConnectRequest"
    by (simp_all add: header_def le_bytes16_def le_uint16_bytes nth_append)
  have "str \<noteq> []"
    using length_write_loop_bounds(1) [of "word_of_nat (length version)"] by (auto simp: str_def)
  moreover have "readTerrariaString (bytes_reader str) = Inr (version, bytes_reader [])"
    using readTerrariaString_write [OF assms, of "[]" EOF] by (simp add: str_def bytes_reader_def)
  ultimately have parse: "parseTerrariaConnectRequest str = Inr \<lparr>tr_version = version, tr_consumed = []\<rparr>"
    by (simp add: parseTerrariaConnectRequest_def)
  have r1: "read_full 3 \<lparr>rd_data = encodeConnectRequest version @ rest, rd_end = e\<rparr>
      = Inr (header, \<lparr>rd_data = str @ rest, rd_end = e\<rparr>)"
    using read_full_append [of header "str @ rest" e] hdr(1) by (simp add: enc)
  have r2: "read_full (unat tot - 3) \<lparr>rd_data = str @ rest, rd_end = e\<rparr>
      = Inr (str, \<lparr>rd_data = rest, rd_end = e\<rparr>)"
    by (simp add: tot)
  show ?thesis
    unfolding TerrariaClassify_def classifyTerrariaConnect_def r1
    using tot r2 parse \<open>length str \<le> 32773\<close>
    by (simp add: hdr Let_def terrariaMaxPacketSize_def enc)
qed

theorem terraria_connect_roundtrip_witness:
  "TerrariaClassify \<lparr>rd_data = encodeConnectRequest ''Terraria279'' @ [9], rd_end = EOF\<rparr> =
    Inr (\<lparr>cr_kind = Join, cr_consumed = encodeConnectRequest ''Terraria279'',
          cr_detail = Some (TerrariaDetail ''Terraria279'')\<rparr>, \<lparr>rd_data = [9], rd_end = EOF\<rparr>)"
  by (rule terraria_connect_roundtrip) simp

text \<open>A disconnect message is built exactly for reasons of at most 65528 bytes.  Its length
  field is its size on the wire, its type byte is Disconnect and its mode byte literal text, and the
  text is read back whenever it is within the string limit the reader enforces.\<close>

theorem terraria_disconnect_correct:
  "(if length reason \<le> 65528
    then \<exists>bs. buildTerrariaDisconnect reason = Inr bs \<and> length bs \<le> 65535 \<and>
      unat (le_uint16 (bs ! 0) (bs ! 1)) = length bs \<and> bs ! 2 = terrariaDisconnect \<and> bs ! 3 = 0 \<and>
      (\<forall>rest. length reason \<le> 32768 \<longrightarrow>
        readTerrariaString (bytes_reader (drop 4 bs @ rest)) = Inr (reason, bytes_reader rest))
    else \<not> is_ok (buildTerrariaDisconnect reason))"
proof -
  define pre where "pre = writeTerrafia7BitEncodedInt_loop (word_of_nat (length reason))"
  have len: "length (terrariaDisconnect # 0 # pre @ str_bytes reason) + 2 = length pre + length reason + 4"
    by simp
  have build: "buildTerrariaDisconnect reason =
      (if length pre + length reason + 4 > 65535 then Inl (FrameTooLong (length pre + length reason + 4))
       else Inr (le_bytes16 (word_of_nat (length pre + length reason + 4))
         @ [terrariaDisconnect, 0] @ pre @ str_bytes reason))"
    if "length reason < 2 ^ 31"
  proof -
    have "writeTerrariaNetworkText reason = Inr (0 # pre @ str_bytes reason)"
      using writeTerrariaString_eq [OF that] by (simp add: writeTerrariaNetworkText_def pre_def)
    then show ?thesis
      by (simp only: buildTerrariaDisconnect_def wrap_err_simps res_bind_simps Let_def len
          terrariaMaxPacketSize_def append_Cons append_Nil)
  qed
  consider (fits) "length reason \<le> 65528" | (big) "65528 < length reason" "length reason < 2 ^ 31"
    | (huge) "2 ^ 31 \<le> length reason"
    by linarith
  then show ?thesis
  proof cases
    case fits
    let ?n = "length pre + length reason + 4"
    let ?bs = "le_bytes16 (word_of_nat ?n) @ [terrariaDisconnect, 0] @ pre @ str_bytes reason"
    have n: "?n \<le> 65535"
      using fits disconnect_fits_iff [of "length reason"] by (simp add: pre_def)
    then have "unat (word_of_nat ?n :: u16) = ?n"
      by (intro unat_word_of_nat16) simp
    then have "unat (le_uint16 (?bs ! 0) (?bs ! 1)) = length ?bs"
      by (simp add: le_bytes16_def le_uint16_bytes)
    moreover have "readTerrariaString (bytes_reader (drop 4 ?bs @ rest)) = Inr (reason, bytes_reader rest)"
      if "length reason \<le> 32768" for rest
      using readTerrariaString_write [OF that, of rest EOF]
      by (simp add: le_bytes16_def pre_def bytes_reader_def)
    moreover have "buildTerrariaDisconnect reason = Inr ?bs"
      using fits n build by simp
    ultimately show ?thesis
      using fits n by (auto simp: le_bytes16_def)
  next
    case big
    with build disconnect_fits_iff [of "length reason"] show ?thesis
      by (simp add: pre_def)
  next
    case huge
    then show ?thesis
      by (simp add: buildTerrariaDisconnect_def writeTerrariaNetworkText_def writeTerrariaString_def)
  qed
qed

theorem terraria_disconnect_correct_witness:
  "\<exists>bs. buildTerrariaDisconnect ''bye'' = Inr bs \<and>
     readTerrariaString (bytes_reader (drop 4 bs)) = Inr (''bye'', bytes_reader [])"
  using terraria_disconnect_correct [of "''bye''"] by (fastforce dest: spec [of _ "[]"])

end
