(* ===== verification/Sentinel.thy ===== *)
theory Sentinel
  imports Minecraft Terraria "HOL-Library.Char_ord" "HOL-Library.List_Lexorder"
begin

text \<open>
  \<^verbatim>\<open>gameproto/registry.go\<close> and the wake-on-connect daemon \<^verbatim>\<open>sentinel/main.go\<close>: the port configuration,
  the coalescing waker, the TCP connection handlers and the UDP packet heuristic.

  A connection handler's effects are a list of actions in the order they happen: waking the server,
  writing to the client, writing to the game pod, and handing the rest of the connection to the
  bidirectional copy.  What the network does is an argument: whether the game pod accepted a
  connection before the deadline and whether the replay write to it succeeded.
\<close>

section \<open>Registry\<close>

definition classifierRegistry :: "(string \<times> classifier_impl) list" where
  "classifierRegistry =
     [(''minecraft'', MinecraftClassifier), (''terraria'', TerrariaClassifier), (''demo'', DemoClassifier)]"

definition Lookup :: "string \<Rightarrow> classifier_impl option" where
  "Lookup name = map_of classifierRegistry name"

definition ListRegistered :: "string list" where
  "ListRegistered = sort (map fst classifierRegistry)"

section \<open>Port configuration\<close>

record port_config =
  pc_container_port :: int
  pc_protocol :: string
  pc_wake_protocol :: string

datatype ports_error =
    InvalidPortConfig string
  | InvalidPortNumber string
  | InvalidPortProtocol string string
  | UnknownWakeProtocol string string "string list"

definition parsePort :: "string \<Rightarrow> ports_error + port_config" where
  "parsePort part =
     (let fields = split_on CHR '':'' part in
      if length fields \<noteq> 3 then Inl (InvalidPortConfig part)
      else (case parse_int64 (trim_space (fields ! 0)) of
          None \<Rightarrow> Inl (InvalidPortNumber part)
        | Some port \<Rightarrow>
            let protocol = trim_space (to_upper (fields ! 1));
                wakeProto = trim_space (to_lower (fields ! 2)) in
            if protocol \<noteq> ''TCP'' \<and> protocol \<noteq> ''UDP'' then Inl (InvalidPortProtocol part (fields ! 1))
            else if wakeProto \<noteq> ''generic'' \<and> wakeProto \<noteq> ''none'' \<and> Lookup wakeProto = None
              then Inl (UnknownWakeProtocol (fields ! 2) part ListRegistered)
            else Inr \<lparr>pc_container_port = port, pc_protocol = protocol, pc_wake_protocol = wakeProto\<rparr>))"

fun parsePortsLoop :: "port_config list \<Rightarrow> string list \<Rightarrow> ports_error + port_config list" where
  "parsePortsLoop ports [] = Inr ports"
| "parsePortsLoop ports (part # parts) =
     (let part = trim_space part in
      if part = [] then parsePortsLoop ports parts
      else res_bind (parsePort part) (\<lambda>p. parsePortsLoop (ports @ [p]) parts))"

definition parsePortsConfig :: "string \<Rightarrow> ports_error + port_config list" where
  "parsePortsConfig config =
     (let config = trim_char CHR '','' config in
      if config = [] then Inr [] else parsePortsLoop [] (split_on CHR '','' config))"

definition wantsListener :: "port_config \<Rightarrow> bool" where
  "wantsListener p \<longleftrightarrow> pc_wake_protocol p \<noteq> ''none''"

section \<open>Connection handlers\<close>

datatype action =
    RequestWake
  | WriteClient bytes
  | WriteUpstream bytes
  | Proxy reader

record conn_env =
  upstream_up :: bool
  replay_ok :: bool

definition wakingUpMessage :: string where
  "wakingUpMessage = ''Server is waking up, try again in a moment.''"

definition json_quoted :: "string \<Rightarrow> string" where
  "json_quoted s = CHR 0x22 # s @ [CHR 0x22]"

definition minecraftAsleepStatusJSON :: string where
  "minecraftAsleepStatusJSON =
     CHR 0x7B # json_quoted ''version'' @ '':'' @ (CHR 0x7B # json_quoted ''name'' @ '':'' @ json_quoted ''Asleep'' @ '',''
       @ json_quoted ''protocol'' @ '':0'' @ [CHR 0x7D]) @ '',''
     @ json_quoted ''players'' @ '':'' @ (CHR 0x7B # json_quoted ''max'' @ '':0,'' @ json_quoted ''online'' @ '':0,''
       @ json_quoted ''sample'' @ '':'' @ [CHR 0x5B, CHR 0x5D, CHR 0x7D]) @ '',''
     @ json_quoted ''description'' @ '':'' @ (CHR 0x7B # json_quoted ''text'' @ '':''
       @ json_quoted (''Asleep '' @ [CHR 0xE2, CHR 0x80, CHR 0x94] @ '' joining wakes it'') @ [CHR 0x7D, CHR 0x7D])"

text \<open>\<open>bounce\<close> is the disconnect message, absent for generic ports; a builder error only logs.\<close>

definition handleJoin ::
  "reader \<Rightarrow> bytes \<Rightarrow> (proto_error + bytes) option \<Rightarrow> conn_env \<Rightarrow> action list" where
  "handleJoin br consumed bounce env =
     RequestWake #
     (if \<not> upstream_up env
      then (case bounce of Some (Inr msg) \<Rightarrow> [WriteClient msg] | _ \<Rightarrow> [])
      else if consumed \<noteq> [] \<and> \<not> replay_ok env then []
      else (if consumed \<noteq> [] then [WriteUpstream consumed] else []) @ [Proxy br])"

definition serveClassified :: "classifier_impl \<Rightarrow> reader \<Rightarrow> conn_env \<Rightarrow> action list" where
  "serveClassified c br env =
     (case classify c br of
        Inl _ \<Rightarrow> []
      | Inr (result, br') \<Rightarrow>
          (case cr_kind result of
             Status \<Rightarrow>
               if supports_status_ping c
               then (case build_status_response c minecraftAsleepStatusJSON of
                   Inl _ \<Rightarrow> [] | Inr reply \<Rightarrow> [WriteClient reply])
               else []
           | Join \<Rightarrow> handleJoin br' (cr_consumed result) (Some (build_disconnect c wakingUpMessage)) env
           | Unknown \<Rightarrow> []))"

definition handleRegistryProtocol :: "string \<Rightarrow> reader \<Rightarrow> conn_env \<Rightarrow> action list" where
  "handleRegistryProtocol protocol br env =
     (case Lookup protocol of None \<Rightarrow> [] | Some c \<Rightarrow> serveClassified c br env)"

definition handleGeneric :: "reader \<Rightarrow> conn_env \<Rightarrow> action list" where
  "handleGeneric br env = handleJoin br [] None env"

definition handleTCPConnection :: "port_config \<Rightarrow> reader \<Rightarrow> conn_env \<Rightarrow> action list" where
  "handleTCPConnection port br env =
     (if pc_wake_protocol port = ''generic'' then handleGeneric br env
      else handleRegistryProtocol (pc_wake_protocol port) br env)"

text \<open>What the game pod receives from the client over a whole connection.\<close>

fun upstream_bytes :: "action list \<Rightarrow> bytes" where
  "upstream_bytes [] = []"
| "upstream_bytes (WriteUpstream bs # as) = bs @ upstream_bytes as"
| "upstream_bytes (Proxy r # as) = rd_data r @ upstream_bytes as"
| "upstream_bytes (_ # as) = upstream_bytes as"

text \<open>The four ways a classified connection goes.\<close>

lemma serveClassified_simps:
  "classify c br = Inl e \<Longrightarrow> serveClassified c br env = []"
  "classify c br = Inr (res, br') \<Longrightarrow> cr_kind res = Join \<Longrightarrow> serveClassified c br env =
     handleJoin br' (cr_consumed res) (Some (build_disconnect c wakingUpMessage)) env"
  "classify c br = Inr (res, br') \<Longrightarrow> cr_kind res = Status \<Longrightarrow> serveClassified c br env =
     (if supports_status_ping c
      then (case build_status_response c minecraftAsleepStatusJSON of
          Inl _ \<Rightarrow> [] | Inr reply \<Rightarrow> [WriteClient reply]) else [])"
  "classify c br = Inr (res, br') \<Longrightarrow> cr_kind res = Unknown \<Longrightarrow> serveClassified c br env = []"
  by (simp_all add: serveClassified_def)

lemma serve_status_actions:
  assumes "classify c br = Inr (res, br')" "cr_kind res = Status"
  shows "serveClassified c br env = [] \<or> (\<exists>reply. serveClassified c br env = [WriteClient reply] \<and>
    build_status_response c minecraftAsleepStatusJSON = Inr reply)"
  unfolding serveClassified_simps(3) [OF assms]
  by (cases "build_status_response c minecraftAsleepStatusJSON") simp_all

lemma serve_cases:
  obtains (error) e where "classify c br = Inl e"
  | (join) res br' where "classify c br = Inr (res, br')" "cr_kind res = Join"
  | (status) res br' where "classify c br = Inr (res, br')" "cr_kind res = Status"
  | (unknown) res br' where "classify c br = Inr (res, br')" "cr_kind res = Unknown"
proof (cases "classify c br")
  case (Inr p)
  then show ?thesis
    using that by (cases p; cases "cr_kind (fst p)") auto
qed (use that in auto)

lemma upstream_bytes_handleJoin:
  "upstream_bytes (handleJoin br' consumed bounce env)
     = (if upstream_up env \<and> (consumed = [] \<or> replay_ok env) then consumed @ rd_data br' else [])"
  by (auto simp: handleJoin_def split: option.splits sum.splits)

lemma handleJoin_proxyD:
  "Proxy r \<in> set (handleJoin br' consumed bounce env)
     \<Longrightarrow> upstream_up env \<and> (consumed = [] \<or> replay_ok env)"
  by (auto simp: handleJoin_def split: if_splits option.splits sum.splits)

lemma handleJoin_client:
  "WriteClient m \<in> set (handleJoin br' consumed bounce env) \<Longrightarrow> \<not> upstream_up env \<and> bounce = Some (Inr m)"
  by (auto simp: handleJoin_def split: if_splits option.splits sum.splits)

context classifier
begin

lemma forwards_whole_stream:
  assumes "Proxy r \<in> set (serveClassified c br env)"
  shows "upstream_bytes (serveClassified c br env) = rd_data br"
proof (cases rule: serve_cases [of c br])
  case (join res br')
  with assms stream_restored [OF join(1)] show ?thesis
    by (simp add: serveClassified_simps upstream_bytes_handleJoin handleJoin_proxyD)
next
  case (status res br')
  from serve_status_actions [OF this, of env] assms show ?thesis
    by auto
qed (use assms in \<open>simp_all add: serveClassified_simps\<close>)

lemma wakes_iff_join:
  "RequestWake \<in> set (serveClassified c br env)
     \<longleftrightarrow> (\<exists>res br'. classify c br = Inr (res, br') \<and> cr_kind res = Join)"
proof (cases rule: serve_cases [of c br])
  case (join res br')
  then show ?thesis
    by (simp add: serveClassified_simps handleJoin_def)
next
  case (status res br')
  with serve_status_actions [OF this, of env] show ?thesis
    by auto
qed (simp_all add: serveClassified_simps)

end

lemma registered_classifiers:
  assumes "Lookup name = Some c"
  obtains "c = MinecraftClassifier" | "c = TerrariaClassifier" | "c = DemoClassifier"
  using assms by (auto simp: Lookup_def classifierRegistry_def split: if_splits)

lemma registered_classifier:
  "Lookup name = Some c \<Longrightarrow> classifier c"
  by (erule registered_classifiers)
    (simp_all add: minecraft.classifier_axioms terraria.classifier_axioms demo.classifier_axioms)

lemma handleGeneric_upstream:
  "upstream_bytes (handleGeneric br env) = (if upstream_up env then rd_data br else [])"
  by (simp add: handleGeneric_def upstream_bytes_handleJoin)

text \<open>C1. Whatever a client sends on whatever port, when the sentinel hands the connection to the game
  pod the pod receives exactly the bytes of the client, in order and without loss or duplication: the
  handshake the classifier consumed is replayed before the rest of the stream.\<close>

theorem sentinel_forwards_whole_stream:
  assumes "Proxy r \<in> set (handleTCPConnection port br env)"
  shows "upstream_bytes (handleTCPConnection port br env) = rd_data br"
proof (cases "pc_wake_protocol port = ''generic''")
  case True
  with assms handleJoin_proxyD [of r br "[]" None env] show ?thesis
    by (simp add: handleTCPConnection_def handleGeneric_upstream) (simp add: handleGeneric_def)
next
  case False
  with assms obtain c where c: "Lookup (pc_wake_protocol port) = Some c"
    by (cases "Lookup (pc_wake_protocol port)") (simp_all add: handleTCPConnection_def handleRegistryProtocol_def)
  with assms False classifier.forwards_whole_stream [OF registered_classifier [OF c], of r br env]
  show ?thesis
    by (simp add: handleTCPConnection_def handleRegistryProtocol_def)
qed

theorem sentinel_forwards_whole_stream_witness:
  "upstream_bytes (handleTCPConnection
     \<lparr>pc_container_port = 25565, pc_protocol = ''TCP'', pc_wake_protocol = ''generic''\<rparr>
     \<lparr>rd_data = [1, 2, 3], rd_end = EOF\<rparr> \<lparr>upstream_up = True, replay_ok = True\<rparr>) = [1, 2, 3]"
  by (rule trans [OF sentinel_forwards_whole_stream [where r = "\<lparr>rd_data = [1, 2, 3], rd_end = EOF\<rparr>"]])
    (simp_all add: handleTCPConnection_def handleGeneric_def handleJoin_def)

text \<open>C2. A TCP connection asks for a wake exactly when its port is \<open>generic\<close>, or when the classifier
  registered for its protocol recognised a join: a server-list ping, an unrecognised packet, a
  malformed or truncated handshake and an unregistered protocol never wake the server.\<close>

theorem sentinel_wakes_only_on_join:
  "RequestWake \<in> set (handleTCPConnection port br env) \<longleftrightarrow>
     pc_wake_protocol port = ''generic'' \<or>
     (\<exists>c res br'. Lookup (pc_wake_protocol port) = Some c \<and> classify c br = Inr (res, br')
        \<and> cr_kind res = Join)"
proof (cases "pc_wake_protocol port = ''generic''")
  case True
  then show ?thesis
    by (simp add: handleTCPConnection_def handleGeneric_def handleJoin_def)
next
  case False
  show ?thesis
  proof (cases "Lookup (pc_wake_protocol port)")
    case None
    with False show ?thesis
      by (simp add: handleTCPConnection_def handleRegistryProtocol_def)
  next
    case (Some c)
    with False classifier.wakes_iff_join [OF registered_classifier [OF Some], of br env]
    show ?thesis
      by (simp add: handleTCPConnection_def handleRegistryProtocol_def)
  qed
qed

end
