(* ===== verification/Waker.thy ===== *)
theory Waker
  imports GP_Prelude "HOL-Library.AList" "HOL-Library.Multiset"
begin

text \<open>
  The two pieces of shared state of \<^verbatim>\<open>sentinel/main.go\<close>: the coalescing \<^verbatim>\<open>waker\<close>, which patches the
  GameServer's wake annotation, and the UDP packet heuristic.

  \<^verbatim>\<open>RequestWake\<close> holds its mutex only at the start and at the end of a call, so it is two atomic steps,
  and the step relation interleaves any number of calls.  The heuristic holds its mutex throughout;
  its Go map is an association list, whose order stands for the iteration order, and the step relation
  lets that order change at any moment.
\<close>

section \<open>The coalescing waker\<close>

record waker =
  w_minInterval :: duration
  w_inFlight :: bool
  w_lastPatch :: "time option"

definition newWaker :: "duration \<Rightarrow> waker" where
  "newWaker minInterval = \<lparr>w_minInterval = minInterval, w_inFlight = False, w_lastPatch = None\<rparr>"

text \<open>The guard of \<^verbatim>\<open>RequestWake\<close>; \<open>None\<close> is the zero time.\<close>

definition coalesced :: "time \<Rightarrow> waker \<Rightarrow> bool" where
  "coalesced now w \<longleftrightarrow> w_inFlight w \<or>
     (case w_lastPatch w of None \<Rightarrow> False | Some t \<Rightarrow> time_sub now t < w_minInterval w)"

text \<open>The first critical section: \<open>None\<close> when the call returns at once.\<close>

definition requestWakeBegin :: "time \<Rightarrow> waker \<Rightarrow> waker option" where
  "requestWakeBegin now w = (if coalesced now w then None else Some (w\<lparr>w_inFlight := True\<rparr>))"

text \<open>The deferred one, which runs whether or not the patch succeeded.\<close>

definition requestWakeEnd :: "time \<Rightarrow> waker \<Rightarrow> waker" where
  "requestWakeEnd now w = w\<lparr>w_inFlight := False, w_lastPatch := Some now\<rparr>"

text \<open>The daemon: its clock, the waker, the number of calls between their two critical sections, and
  the instants at which patches were begun, newest first.\<close>

record wake_sys =
  ws_clock :: time
  ws_waker :: waker
  ws_patching :: nat
  ws_begun :: "time list"

inductive wake_step :: "wake_sys \<Rightarrow> wake_sys \<Rightarrow> bool" where
  tick: "ws_clock s \<le> t \<Longrightarrow> wake_step s (s\<lparr>ws_clock := t\<rparr>)"
| skipped: "requestWakeBegin (ws_clock s) (ws_waker s) = None \<Longrightarrow> wake_step s s"
| begun: "requestWakeBegin (ws_clock s) (ws_waker s) = Some w \<Longrightarrow>
    wake_step s (s\<lparr>ws_waker := w, ws_patching := Suc (ws_patching s), ws_begun := ws_clock s # ws_begun s\<rparr>)"
| ended: "ws_patching s = Suc n \<Longrightarrow>
    wake_step s (s\<lparr>ws_waker := requestWakeEnd (ws_clock s) (ws_waker s), ws_patching := n\<rparr>)"

inductive wake_reach :: "duration \<Rightarrow> wake_sys \<Rightarrow> bool" for minInterval where
  start: "wake_reach minInterval \<lparr>ws_clock = t, ws_waker = newWaker minInterval, ws_patching = 0, ws_begun = []\<rparr>"
| step: "wake_reach minInterval s \<Longrightarrow> wake_step s s' \<Longrightarrow> wake_reach minInterval s'"

text \<open>Each patch begins at least the interval after the one before it.\<close>

fun spaced :: "duration \<Rightarrow> time list \<Rightarrow> bool" where
  "spaced d (t # u # ts) \<longleftrightarrow> u + d \<le> t \<and> spaced d (u # ts)"
| "spaced d _ \<longleftrightarrow> True"

definition wake_inv :: "duration \<Rightarrow> wake_sys \<Rightarrow> bool" where
  "wake_inv d s \<longleftrightarrow> w_minInterval (ws_waker s) = d
     \<and> ws_patching s = of_bool (w_inFlight (ws_waker s))
     \<and> spaced d (ws_begun s)
     \<and> (\<forall>t\<in>set (ws_begun s). t \<le> ws_clock s)
     \<and> (ws_begun s \<noteq> [] \<longrightarrow> w_inFlight (ws_waker s) \<or>
          (\<exists>t. w_lastPatch (ws_waker s) = Some t \<and> hd (ws_begun s) \<le> t))"

lemma not_coalesced_elapsed:
  assumes "is_duration (w_minInterval w)" "\<not> coalesced now w"
  shows "\<not> w_inFlight w" "w_lastPatch w = Some t \<Longrightarrow> t + w_minInterval w \<le> now"
  using assms by (auto simp: coalesced_def time_sub_less_iff)

lemma wake_inv_step:
  assumes "is_duration d" "wake_inv d s" "wake_step s s'"
  shows "wake_inv d s'"
  using assms(3)
proof (cases rule: wake_step.cases)
  case (tick t)
  with assms(2) show ?thesis
    by (auto simp: wake_inv_def)
next
  case (begun w)
  then have nc: "\<not> coalesced (ws_clock s) (ws_waker s)" and w: "w = (ws_waker s)\<lparr>w_inFlight := True\<rparr>"
    by (auto simp: requestWakeBegin_def split: if_splits)
  have d: "w_minInterval (ws_waker s) = d"
    using assms(2) by (simp add: wake_inv_def)
  note el = not_coalesced_elapsed [OF _ nc, unfolded d, OF assms(1)]
  have "spaced d (ws_clock s # ws_begun s)"
    using assms(2) el by (cases "ws_begun s") (auto simp: wake_inv_def)
  with assms(2) el(1) begun(1) w show ?thesis
    by (auto simp: wake_inv_def)
next
  case (ended n)
  with assms(2) show ?thesis
    by (auto simp: wake_inv_def requestWakeEnd_def of_bool_def split: if_splits)
qed (use assms(2) in simp)

lemma wake_reach_inv: "wake_reach d s \<Longrightarrow> is_duration d \<Longrightarrow> wake_inv d s"
proof (induction rule: wake_reach.induct)
  case (start t)
  then show ?case
    by (simp add: wake_inv_def newWaker_def)
qed (rule wake_inv_step)

lemma spaced_gap:
  assumes "spaced d (t # ts)" "0 \<le> d" "u \<in> set ts"
  shows "u + d \<le> t"
  using assms
proof (induction ts arbitrary: t)
  case (Cons v ts)
  then have "v + d \<le> t" by simp
  with Cons.IH [of v] Cons.prems show ?case by fastforce
qed simp

lemma spaced_window: "spaced d ts \<Longrightarrow> length (filter (\<lambda>t. a \<le> t \<and> t < a + d) ts) \<le> 1"
proof (induction ts)
  case (Cons t ts)
  have IH: "length (filter (\<lambda>t. a \<le> t \<and> t < a + d) ts) \<le> 1"
    using Cons by (cases ts) auto
  show ?case
  proof (cases "a \<le> t \<and> t < a + d")
    case True
    then have "\<forall>u\<in>set ts. \<not> a \<le> u"
      using spaced_gap [OF Cons.prems] by fastforce
    then have "filter (\<lambda>t. a \<le> t \<and> t < a + d) ts = []"
      by (auto simp: filter_empty_conv)
    then show ?thesis by simp
  next
    case False
    then have "filter (\<lambda>t. a \<le> t \<and> t < a + d) (t # ts) = filter (\<lambda>t. a \<le> t \<and> t < a + d) ts" by auto
    with IH show ?thesis by metis
  qed
qed simp

text \<open>C24. However many connections ask for a wake at once, at most one annotation patch is in flight, and
  in no stretch of time as long as the minimum interval, wherever it starts, is more than one begun: a port
  scan or a crowd of reconnecting players cannot flood the API server.\<close>

theorem waker_rate_limited:
  assumes "wake_reach d s" "is_duration d"
  shows "ws_patching s \<le> 1 \<and> length (filter (\<lambda>t. a \<le> t \<and> t < a + d) (ws_begun s)) \<le> 1"
  using wake_reach_inv [OF assms] spaced_window [of d "ws_begun s" a] by (simp add: wake_inv_def)

definition wake_sys_two :: wake_sys where
  "wake_sys_two = \<lparr>ws_clock = 12, ws_waker = \<lparr>w_minInterval = 5, w_inFlight = True, w_lastPatch = Some 7\<rparr>,
     ws_patching = 1, ws_begun = [12, 7]\<rparr>"

text \<open>A first patch at 7, ended at once; the next one five later.\<close>

lemma wake_sys_two_reach: "wake_reach 5 wake_sys_two"
proof -
  let ?w0 = "newWaker 5"
  let ?w1 = "\<lparr>w_minInterval = 5, w_inFlight = True, w_lastPatch = None\<rparr>"
  let ?w2 = "\<lparr>w_minInterval = 5, w_inFlight = False, w_lastPatch = Some 7\<rparr>"
  let ?s0 = "\<lparr>ws_clock = 7, ws_waker = ?w0, ws_patching = 0, ws_begun = []\<rparr>"
  let ?s1 = "\<lparr>ws_clock = 7, ws_waker = ?w1, ws_patching = Suc 0, ws_begun = [7]\<rparr>"
  let ?s2 = "\<lparr>ws_clock = 7, ws_waker = ?w2, ws_patching = 0, ws_begun = [7]\<rparr>"
  let ?s3 = "\<lparr>ws_clock = 12, ws_waker = ?w2, ws_patching = 0, ws_begun = [7]\<rparr>"
  have "requestWakeBegin 7 ?w0 = Some ?w1" "requestWakeBegin 12 ?w2 = Some (ws_waker wake_sys_two)"
    by (simp_all add: requestWakeBegin_def coalesced_def newWaker_def wake_sys_two_def time_sub_def dur_min_def dur_max_def)
  then have begun: "wake_step ?s0 ?s1" "wake_step ?s3 wake_sys_two"
    using wake_step.begun [of ?s0 ?w1] wake_step.begun [of ?s3 "ws_waker wake_sys_two"] by (simp_all add: wake_sys_two_def)
  have between: "wake_step ?s1 ?s2" "wake_step ?s2 ?s3"
    using wake_step.ended [of ?s1 0] wake_step.tick [of ?s2 12] by (simp_all add: requestWakeEnd_def)
  have "wake_reach 5 ?s1" by (rule wake_reach.step [OF wake_reach.start begun(1)])
  then have "wake_reach 5 ?s2" using between(1) by (rule wake_reach.step)
  then have "wake_reach 5 ?s3" using between(2) by (rule wake_reach.step)
  then show ?thesis using begun(2) by (rule wake_reach.step)
qed

theorem waker_rate_limited_witness:
  "ws_begun wake_sys_two = [12, 7] \<and> ws_patching wake_sys_two \<le> 1 \<and>
    length (filter (\<lambda>t. 8 \<le> t \<and> t < 8 + 5) (ws_begun wake_sys_two)) \<le> 1"
  using waker_rate_limited [OF wake_sys_two_reach, of 8]
  by (simp add: is_duration_def dur_min_def dur_max_def wake_sys_two_def)

section \<open>The UDP heuristic\<close>

record udp_source_state =
  us_packets :: "time list"
  us_lastSeen :: time
  us_wokenAt :: "time option"

record udp_heuristic =
  uh_threshold :: int
  uh_window :: duration
  uh_maxSources :: int
  uh_sources :: "(string \<times> udp_source_state) list"

definition newUDPHeuristic :: "int \<Rightarrow> duration \<Rightarrow> int \<Rightarrow> udp_heuristic" where
  "newUDPHeuristic threshold window maxSources =
     \<lparr>uh_threshold = threshold, uh_window = window, uh_maxSources = maxSources, uh_sources = []\<rparr>"

text \<open>The loop of \<^verbatim>\<open>evictOldestLocked\<close>; the empty key marks that nothing was chosen yet.\<close>

fun oldest_source :: "string \<Rightarrow> time \<Rightarrow> (string \<times> udp_source_state) list \<Rightarrow> string" where
  "oldest_source oldestKey oldestSeen [] = oldestKey"
| "oldest_source oldestKey oldestSeen ((k, v) # rest) =
     (if oldestKey = [] \<or> us_lastSeen v < oldestSeen then oldest_source k (us_lastSeen v) rest
      else oldest_source oldestKey oldestSeen rest)"

definition evictOldest :: "(string \<times> udp_source_state) list \<Rightarrow> (string \<times> udp_source_state) list" where
  "evictOldest sources =
     (let oldestKey = oldest_source [] 0 sources
      in if oldestKey \<noteq> [] then AList.delete oldestKey sources else sources)"

text \<open>The source's state after the packet is recorded, and whether it wakes.\<close>

definition countPacket :: "udp_heuristic \<Rightarrow> time \<Rightarrow> udp_source_state \<Rightarrow> bool \<times> udp_source_state" where
  "countPacket h now st =
     (let st = st\<lparr>us_lastSeen := now\<rparr> in
      if (case us_wokenAt st of None \<Rightarrow> False | Some t \<Rightarrow> time_sub now t < uh_window h) then (False, st)
      else let filtered = filter (\<lambda>t. time_sub now t < uh_window h) (us_packets st) @ [now] in
        if int (length filtered) < uh_threshold h then (False, st\<lparr>us_packets := filtered\<rparr>)
        else (True, st\<lparr>us_wokenAt := Some now, us_packets := []\<rparr>))"

definition shouldWake :: "string \<Rightarrow> time \<Rightarrow> udp_heuristic \<Rightarrow> bool \<times> udp_heuristic" where
  "shouldWake key now h =
     (let fresh = \<lparr>us_packets = [], us_lastSeen = 0, us_wokenAt = None\<rparr>;
          (st, sources) = (case map_of (uh_sources h) key of
              Some st \<Rightarrow> (st, uh_sources h)
            | None \<Rightarrow> (fresh, if int (length (uh_sources h)) \<ge> uh_maxSources h
                then evictOldest (uh_sources h) else uh_sources h));
          (wake, st') = countPacket h now st
      in (wake, h\<lparr>uh_sources := AList.update key st' sources\<rparr>))"

text \<open>\<^verbatim>\<open>h.window*2\<close> wraps at 64 bits.\<close>

definition sweepOnce :: "time \<Rightarrow> udp_heuristic \<Rightarrow> udp_heuristic" where
  "sweepOnce now h = h\<lparr>uh_sources :=
     filter (\<lambda>(k, v). \<not> time_sub now (us_lastSeen v) > dur_wrap (uh_window h * 2)) (uh_sources h)\<rparr>"

text \<open>All the histories the heuristic goes through, with the packets received so far.\<close>

inductive udp_reach :: "int \<Rightarrow> duration \<Rightarrow> int \<Rightarrow> (string \<times> time) list \<Rightarrow> udp_heuristic \<Rightarrow> bool"
  for threshold window maxSources where
  start: "udp_reach threshold window maxSources [] (newUDPHeuristic threshold window maxSources)"
| packet: "udp_reach threshold window maxSources hist h \<Longrightarrow> key \<noteq> [] \<Longrightarrow> shouldWake key now h = (wake, h') \<Longrightarrow>
    udp_reach threshold window maxSources (hist @ [(key, now)]) h'"
| sweep: "udp_reach threshold window maxSources hist h \<Longrightarrow>
    udp_reach threshold window maxSources hist (sweepOnce now h)"
| reorder: "udp_reach threshold window maxSources hist h \<Longrightarrow> mset sources = mset (uh_sources h) \<Longrightarrow>
    udp_reach threshold window maxSources hist (h\<lparr>uh_sources := sources\<rparr>)"

definition packets_from :: "string \<Rightarrow> (string \<times> time) list \<Rightarrow> time multiset" where
  "packets_from key hist = mset (map snd (filter (\<lambda>p. fst p = key) hist))"

definition udp_keys_ok :: "(string \<times> udp_source_state) list \<Rightarrow> bool" where
  "udp_keys_ok sources \<longleftrightarrow> distinct (map fst sources) \<and> [] \<notin> fst ` set sources"

definition udp_inv :: "(string \<times> time) list \<Rightarrow> udp_heuristic \<Rightarrow> bool" where
  "udp_inv hist h \<longleftrightarrow> udp_keys_ok (uh_sources h)
     \<and> int (length (uh_sources h)) \<le> max 1 (uh_maxSources h)
     \<and> (\<forall>k st. map_of (uh_sources h) k = Some st \<longrightarrow> mset (us_packets st) \<subseteq># packets_from k hist)"

lemma oldest_source_key:
  "[] \<notin> fst ` set xs \<Longrightarrow> k \<noteq> [] \<or> xs \<noteq> [] \<Longrightarrow>
     oldest_source k t xs \<noteq> [] \<and> oldest_source k t xs \<in> insert k (fst ` set xs)"
  by (induction k t xs rule: oldest_source.induct) auto

text \<open>The evicted source is one that was quiet the longest.\<close>

definition last_seen_list :: "(string \<times> udp_source_state) list \<Rightarrow> (string \<times> time) list" where
  "last_seen_list xs = map (\<lambda>(k, v). (k, us_lastSeen v)) xs"

lemma oldest_source_min:
  "k \<noteq> [] \<Longrightarrow> [] \<notin> fst ` set xs \<Longrightarrow>
     \<exists>t'. (oldest_source k t xs, t') \<in> insert (k, t) (set (last_seen_list xs))
       \<and> t' \<le> t \<and> (\<forall>(j, u) \<in> set (last_seen_list xs). t' \<le> u)"
proof (induction k t xs rule: oldest_source.induct)
  case (2 k t k1 v1 rest)
  let ?seen = "us_lastSeen v1"
  show ?case
  proof (cases "?seen < t")
    case True
    with 2 obtain t' where "(oldest_source k1 ?seen rest, t') \<in> insert (k1, ?seen) (set (last_seen_list rest))"
      "t' \<le> ?seen" "\<forall>(j, u) \<in> set (last_seen_list rest). t' \<le> u"
      by auto
    with True 2(3) show ?thesis
      by (intro exI [of _ t']) (auto simp: last_seen_list_def)
  next
    case False
    with 2 obtain t' where "(oldest_source k t rest, t') \<in> insert (k, t) (set (last_seen_list rest))"
      "t' \<le> t" "\<forall>(j, u) \<in> set (last_seen_list rest). t' \<le> u"
      by auto
    with False 2(3) show ?thesis
      by (intro exI [of _ t']) (auto simp: last_seen_list_def)
  qed
qed (simp add: last_seen_list_def)

lemma oldest_source_oldest:
  assumes "[] \<notin> fst ` set xs" "(k, v) \<in> set xs"
  shows "\<exists>v'. (oldest_source [] 0 xs, v') \<in> set xs \<and> us_lastSeen v' \<le> us_lastSeen v"
proof -
  obtain k1 v1 rest where xs: "xs = (k1, v1) # rest"
    using assms(2) by (cases xs) auto
  with assms oldest_source_min [of k1 rest "us_lastSeen v1"] show ?thesis
    by (fastforce simp: last_seen_list_def)
qed

lemma evictOldest_keys: "udp_keys_ok xs \<Longrightarrow> udp_keys_ok (evictOldest xs)"
  by (auto simp: udp_keys_ok_def evictOldest_def Let_def AList.delete_eq intro!: distinct_map_filter)

lemma evictOldest_length:
  assumes "udp_keys_ok xs" "xs \<noteq> []"
  shows "length (evictOldest xs) < length xs"
proof -
  have "oldest_source [] 0 xs \<noteq> []" "oldest_source [] 0 xs \<in> fst ` set xs"
    using oldest_source_key [of xs "[]" 0] assms by (auto simp: udp_keys_ok_def)
  then show ?thesis
    by (auto simp: evictOldest_def Let_def AList.delete_eq intro!: length_filter_less)
qed

lemma evictOldest_map_of: "map_of (evictOldest xs) k = Some st \<Longrightarrow> map_of xs k = Some st"
  by (auto simp: evictOldest_def Let_def AList.delete_conv' restrict_map_def split: if_splits)

lemma countPacket_packets:
  assumes "countPacket h now st = (wake, st')" "mset (us_packets st) \<subseteq># A"
  shows "mset (us_packets st') \<subseteq># A + {#now#}"
proof -
  have "filter_mset P (mset (us_packets st)) \<subseteq># A" for P
    using multiset_filter_subset assms(2) by (rule subset_mset.order_trans)
  moreover have "mset (us_packets st) \<subseteq># A + {#now#}"
    using assms(2) by (rule subset_mset.order_trans) simp
  ultimately show ?thesis
    using assms(1) by (auto simp: countPacket_def Let_def split: option.splits if_splits)
qed

lemma packets_from_snoc:
  "packets_from k (hist @ [(key, now)]) = packets_from k hist + (if k = key then {#now#} else {#})"
  by (simp add: packets_from_def)

lemma filter_packets_from:
  "filter_mset P (packets_from key hist) = mset (map snd (filter (\<lambda>p. fst p = key \<and> P (snd p)) hist))"
  by (induction hist) (simp_all add: packets_from_def)

text \<open>One packet, with the choice of the source's state and of the remaining sources made explicit.\<close>

lemma shouldWakeE:
  assumes "shouldWake key now h = (wake, h')"
  obtains st sources st' where
    "countPacket h now st = (wake, st')" "h' = h\<lparr>uh_sources := AList.update key st' sources\<rparr>"
    "map_of (uh_sources h) key = Some st \<and> sources = uh_sources h \<or>
     map_of (uh_sources h) key = None \<and> us_packets st = [] \<and> us_wokenAt st = None \<and>
       sources = (if int (length (uh_sources h)) \<ge> uh_maxSources h then evictOldest (uh_sources h) else uh_sources h)"
proof (cases "map_of (uh_sources h) key")
  case None
  obtain w st' where "countPacket h now \<lparr>us_packets = [], us_lastSeen = 0, us_wokenAt = None\<rparr> = (w, st')"
    by fastforce
  with assms None that show ?thesis
    by (simp add: shouldWake_def Let_def)
next
  case (Some st)
  obtain w st' where "countPacket h now st = (w, st')"
    by fastforce
  with assms Some that show ?thesis
    by (simp add: shouldWake_def Let_def)
qed

lemma length_alist_update:
  "length (AList.update k v xs) = (if k \<in> fst ` set xs then length xs else Suc (length xs))"
proof -
  have "length (AList.update k v xs) = length (map fst (AList.update k v xs))"
    by simp
  also have "\<dots> = (if k \<in> fst ` set xs then length xs else Suc (length xs))"
    by (simp only: update_keys) simp
  finally show ?thesis .
qed

lemma keys_alist_update: "fst ` set (AList.update k v xs) = insert k (fst ` set xs)"
  by (simp only: set_map [symmetric] update_keys) auto

lemma map_of_filter_dest:
  "map_of (filter P xs) k = Some v \<Longrightarrow> distinct (map fst xs) \<Longrightarrow> map_of xs k = Some v"
  by (auto dest!: map_of_SomeD intro: map_of_is_SomeI)

lemma udp_inv_packet:
  assumes inv: "udp_inv hist h" and key: "key \<noteq> []" and sw: "shouldWake key now h = (wake, h')"
  shows "udp_inv (hist @ [(key, now)]) h'"
  using sw
proof (rule shouldWakeE)
  fix st sources st'
  assume cp: "countPacket h now st = (wake, st')" and h': "h' = h\<lparr>uh_sources := AList.update key st' sources\<rparr>"
    and choice: "map_of (uh_sources h) key = Some st \<and> sources = uh_sources h \<or>
     map_of (uh_sources h) key = None \<and> us_packets st = [] \<and> us_wokenAt st = None \<and>
       sources = (if int (length (uh_sources h)) \<ge> uh_maxSources h then evictOldest (uh_sources h) else uh_sources h)"
  have keys: "udp_keys_ok (uh_sources h)"
    using inv by (simp add: udp_inv_def)
  have src: "sources = uh_sources h \<or> sources = evictOldest (uh_sources h)"
    using choice by (cases "int (length (uh_sources h)) \<ge> uh_maxSources h") auto
  have ok: "udp_keys_ok sources"
    using src keys evictOldest_keys by blast
  have sub: "map_of (uh_sources h) k = Some s" if "map_of sources k = Some s" for k s
    using src that evictOldest_map_of by metis
  have "udp_keys_ok (AList.update key st' sources)"
    using ok key by (auto simp: udp_keys_ok_def distinct_update keys_alist_update)
  moreover have "int (length (AList.update key st' sources)) \<le> max 1 (uh_maxSources h)"
  proof (cases "map_of (uh_sources h) key = None")
    case False
    then have "key \<in> fst ` set sources" "sources = uh_sources h"
      using choice by (auto simp: map_of_eq_None_iff)
    then show ?thesis
      using inv by (simp add: udp_inv_def length_alist_update)
  next
    case True
    then show ?thesis
      using inv choice evictOldest_length [of "uh_sources h"]
      by (cases "uh_sources h = []")
        (auto simp: udp_inv_def length_alist_update evictOldest_def split: if_splits)
  qed
  moreover have "mset (us_packets s) \<subseteq># packets_from k (hist @ [(key, now)])"
    if "map_of (AList.update key st' sources) k = Some s" for k s
  proof (cases "k = key")
    case True
    have "mset (us_packets st) \<subseteq># packets_from key hist"
      using inv choice by (auto simp: udp_inv_def)
    from countPacket_packets [OF cp this] True that show ?thesis
      by (simp add: packets_from_snoc update_conv)
  next
    case False
    with that sub inv show ?thesis
      by (auto simp: packets_from_snoc update_conv udp_inv_def)
  qed
  ultimately show ?thesis
    by (simp add: udp_inv_def h')
qed

lemma udp_inv_reorder:
  assumes "udp_inv hist h" "mset sources = mset (uh_sources h)"
  shows "udp_inv hist (h\<lparr>uh_sources := sources\<rparr>)"
proof -
  have "distinct (map fst sources)"
    using assms mset_map [of fst sources] mset_map [of fst "uh_sources h"] mset_eq_imp_distinct_iff
    by (metis udp_inv_def udp_keys_ok_def)
  moreover from this have "map_of sources = map_of (uh_sources h)"
    using assms by (intro map_of_inject_set [THEN iffD2]) (auto simp: udp_inv_def udp_keys_ok_def dest: mset_eq_setD)
  ultimately show ?thesis
    using assms mset_eq_setD [OF assms(2)] mset_eq_length [OF assms(2)] by (simp add: udp_inv_def udp_keys_ok_def)
qed

lemma udp_inv_sweep:
  assumes "udp_inv hist h"
  shows "udp_inv hist (sweepOnce now h)"
proof -
  define P where "P = (\<lambda>(k :: string, v :: udp_source_state). \<not> time_sub now (us_lastSeen v) > dur_wrap (uh_window h * 2))"
  have sw: "sweepOnce now h = h\<lparr>uh_sources := filter P (uh_sources h)\<rparr>"
    by (simp add: sweepOnce_def P_def)
  have keys: "udp_keys_ok (filter P (uh_sources h))"
    using assms by (auto simp: udp_inv_def udp_keys_ok_def distinct_map_filter)
  have len: "int (length (filter P (uh_sources h))) \<le> max 1 (uh_maxSources h)"
    using assms by (intro order_trans [OF of_nat_mono [OF length_filter_le]]) (simp add: udp_inv_def)
  have "map_of (uh_sources h) k = Some st" if "map_of (filter P (uh_sources h)) k = Some st" for k st
    using assms that map_of_filter_dest by (metis udp_inv_def udp_keys_ok_def)
  with assms keys len show ?thesis
    by (simp add: udp_inv_def sw)
qed

lemma sweepOnce_config: "uh_threshold (sweepOnce now h) = uh_threshold h \<and>
    uh_window (sweepOnce now h) = uh_window h \<and> uh_maxSources (sweepOnce now h) = uh_maxSources h"
  by (simp add: sweepOnce_def)

lemma udp_config: "shouldWake key now h = (wake, h') \<Longrightarrow>
    uh_threshold h' = uh_threshold h \<and> uh_window h' = uh_window h \<and> uh_maxSources h' = uh_maxSources h"
  by (erule shouldWakeE) simp

lemma udp_reach_inv:
  "udp_reach threshold window maxSources hist h \<Longrightarrow> udp_inv hist h \<and>
     uh_threshold h = threshold \<and> uh_window h = window \<and> uh_maxSources h = maxSources"
proof (induction rule: udp_reach.induct)
  case start
  then show ?case
    by (simp add: udp_inv_def newUDPHeuristic_def udp_keys_ok_def)
next
  case (packet hist h key now wake h')
  then show ?case
    using udp_inv_packet udp_config by metis
next
  case (sweep hist h now)
  then show ?case
    using udp_inv_sweep sweepOnce_config by simp
next
  case (reorder hist h sources)
  then show ?case
    using udp_inv_reorder by simp
qed

lemma countPacket_wake:
  assumes "countPacket h now st = (True, st')"
  shows "uh_threshold h \<le> int (length (filter (\<lambda>t. time_sub now t < uh_window h) (us_packets st))) + 1"
    "us_wokenAt st = Some t \<Longrightarrow> \<not> time_sub now t < uh_window h"
  using assms by (auto simp: countPacket_def Let_def split: option.splits if_splits)

text \<open>C25. The heuristic keeps at most its configured number of sources, under any flood of spoofed
  addresses, any timing of the sweeps and any iteration order of its map; and it wakes the server for
  a source only when at least the threshold of packets, this one included, arrived from that very
  source within the window.\<close>

theorem udp_heuristic_sound:
  assumes "udp_reach threshold window maxSources hist h"
  shows "int (length (uh_sources h)) \<le> max 1 maxSources \<and>
    (fst (shouldWake key now h) \<longrightarrow>
       threshold \<le> int (length (filter (\<lambda>p. fst p = key \<and> time_sub now (snd p) < window) hist)) + 1)"
proof (intro conjI impI)
  note reach = udp_reach_inv [OF assms]
  then show "int (length (uh_sources h)) \<le> max 1 maxSources"
    by (auto simp: udp_inv_def)
  let ?P = "\<lambda>t. time_sub now t < window"
  assume "fst (shouldWake key now h)"
  then obtain h' where "shouldWake key now h = (True, h')"
    by (cases "shouldWake key now h") auto
  then show "threshold \<le> int (length (filter (\<lambda>p. fst p = key \<and> ?P (snd p)) hist)) + 1"
  proof (rule shouldWakeE)
    fix st sources st'
    assume cp: "countPacket h now st = (True, st')"
      and "map_of (uh_sources h) key = Some st \<and> sources = uh_sources h \<or>
        map_of (uh_sources h) key = None \<and> us_packets st = [] \<and> us_wokenAt st = None \<and>
        sources = (if int (length (uh_sources h)) \<ge> uh_maxSources h then evictOldest (uh_sources h) else uh_sources h)"
    then have "mset (us_packets st) \<subseteq># packets_from key hist"
      using reach by (auto simp: udp_inv_def)
    then have "filter_mset ?P (mset (us_packets st)) \<subseteq># filter_mset ?P (packets_from key hist)"
      by (rule multiset_filter_mono)
    from size_mset_mono [OF this]
    have "length (filter ?P (us_packets st)) \<le> length (filter (\<lambda>p. fst p = key \<and> ?P (snd p)) hist)"
      by (simp add: filter_packets_from flip: mset_filter)
    with countPacket_wake(1) [OF cp] reach show ?thesis
      by simp
  qed
qed

theorem udp_heuristic_sound_witness:
  "int (length (uh_sources (newUDPHeuristic 1 10 2))) \<le> max 1 2 \<and>
   fst (shouldWake ''a'' 5 (newUDPHeuristic 1 10 2))"
  using udp_heuristic_sound [OF udp_reach.start, of 1 10 2 "''a''" 5]
  by (simp add: newUDPHeuristic_def shouldWake_def countPacket_def)

end
