(* ===== verification/Wake_Plan.thy ===== *)
theory Wake_Plan
  imports Sentinel
begin

text \<open>
  The operator's half of wake-on-connect, \<^verbatim>\<open>operator/internal/controller/gameserver_sentinel.go\<close>: when the
  sentinel should exist, when the game Service routes to it, how long its pod may drain, and the
  \<^verbatim>\<open>PORTS_CONFIG\<close> variable it is started with.  The answers of the API server are arguments: an object
  is absent, unreadable, or present with a number of ready replicas.
\<close>

section \<open>The objects\<close>

record game_port =
  gp_container_port :: int
  gp_protocol :: string
  gp_advertise :: bool
  gp_wake_protocol :: string

text \<open>\<open>wp_idle\<close> is \<^verbatim>\<open>spec.idle\<close> (enabled, wakeOnConnect), absent when it is nil.\<close>

record wake_spec =
  wp_name :: string
  wp_idle :: "(bool \<times> bool) option"
  wp_expose :: string

datatype fetched = NotFound | GetError string | Replicas int

datatype idle_state = idleAwake | idleAsleep

record sentinel_plan =
  wantSentinel :: bool
  routeToSentinel :: bool

section \<open>Operations\<close>

definition hours :: "int \<Rightarrow> duration" where
  "hours n = n * 60 * minute"

definition sentinelShutdownDrainTimeout :: duration where
  "sentinelShutdownDrainTimeout = hours 4"

definition sentinelShutdownGraceSlack :: duration where
  "sentinelShutdownGraceSlack = 30 * second"

definition sentinelHostportGracePeriod :: duration where
  "sentinelHostportGracePeriod = 30 * second"

definition sentinelShutdownSettings :: "wake_spec \<Rightarrow> duration \<times> int" where
  "sentinelShutdownSettings gs =
     (if wp_expose gs = ''Hostport'' then (0, sentinelHostportGracePeriod div second)
      else (sentinelShutdownDrainTimeout,
            (sentinelShutdownDrainTimeout + sentinelShutdownGraceSlack) div second))"

definition sentinelSAName :: "wake_spec \<Rightarrow> string" where
  "sentinelSAName gs = wp_name gs @ ''-waker-sa''"

definition wakeOnConnectEligible :: "wake_spec \<Rightarrow> game_port list \<Rightarrow> bool" where
  "wakeOnConnectEligible gs ports =
     (case wp_idle gs of
        None \<Rightarrow> False
      | Some (enabled, wakeOnConnect) \<Rightarrow>
          enabled \<and> wakeOnConnect \<and> list_ex (\<lambda>p. gp_advertise p \<and> gp_wake_protocol p \<noteq> ''none'') ports)"

definition sentinelExists :: "fetched \<Rightarrow> string + bool" where
  "sentinelExists dep = (case dep of NotFound \<Rightarrow> Inr False | GetError e \<Rightarrow> Inl e | Replicas _ \<Rightarrow> Inr True)"

definition sentinelIsReady :: "fetched \<Rightarrow> string + bool" where
  "sentinelIsReady dep = (case dep of NotFound \<Rightarrow> Inr False | GetError e \<Rightarrow> Inl e | Replicas n \<Rightarrow> Inr (n > 0))"

definition gamePodReady :: "fetched \<Rightarrow> string + bool" where
  "gamePodReady ss = (case ss of NotFound \<Rightarrow> Inr False | GetError e \<Rightarrow> Inl e | Replicas n \<Rightarrow> Inr (n > 0))"

definition no_plan :: sentinel_plan where
  "no_plan = \<lparr>wantSentinel = False, routeToSentinel = False\<rparr>"

text \<open>\<open>dep\<close> is the sentinel Deployment and \<open>ss\<close> the game's StatefulSet at this pass.\<close>

definition planSentinel ::
  "wake_spec \<Rightarrow> game_port list \<Rightarrow> idle_state \<Rightarrow> fetched \<Rightarrow> fetched \<Rightarrow> string + sentinel_plan" where
  "planSentinel gs ports idle dep ss =
     (if \<not> wakeOnConnectEligible gs ports then Inr no_plan
      else if idle = idleAsleep then
        res_bind (sentinelIsReady dep) (\<lambda>ready. Inr \<lparr>wantSentinel = True, routeToSentinel = ready\<rparr>)
      else if wp_expose gs = ''Hostport'' then Inr no_plan
      else res_bind (sentinelExists dep) (\<lambda>exists.
        if \<not> exists then Inr no_plan
        else res_bind (gamePodReady ss) (\<lambda>gameReady.
          if gameReady then Inr no_plan else Inr \<lparr>wantSentinel = True, routeToSentinel = True\<rparr>)))"

definition port_entry :: "game_port \<Rightarrow> string" where
  "port_entry p = itoa (gp_container_port p) @ '':''
     @ (if gp_protocol p = [] then ''TCP'' else gp_protocol p) @ '':'' @ gp_wake_protocol p"

definition buildSentinelPortConfig :: "game_port list \<Rightarrow> string" where
  "buildSentinelPortConfig ports = str_join CHR '','' (map port_entry (filter gp_advertise ports))"

section \<open>Round trip through the environment\<close>

text \<open>The values the CRD admits for a port.\<close>

definition valid_game_port :: "game_port \<Rightarrow> bool" where
  "valid_game_port p \<longleftrightarrow> 1 \<le> gp_container_port p \<and> gp_container_port p \<le> 65535
     \<and> gp_protocol p \<in> {'''', ''TCP'', ''UDP''}
     \<and> gp_wake_protocol p \<in> {''minecraft'', ''terraria'', ''generic'', ''none''}"

definition listened_port :: "game_port \<Rightarrow> port_config" where
  "listened_port p = \<lparr>pc_container_port = gp_container_port p,
     pc_protocol = (if gp_protocol p = [] then ''TCP'' else gp_protocol p), pc_wake_protocol = gp_wake_protocol p\<rparr>"

lemma word_lits [simp]:
  "is_word ''TCP''" "is_word ''UDP''" "is_word ''minecraft''" "is_word ''terraria''" "is_word ''generic''" "is_word ''none''"
  "to_upper ''TCP'' = ''TCP''" "to_upper ''UDP'' = ''UDP''"
  "to_lower ''minecraft'' = ''minecraft''" "to_lower ''terraria'' = ''terraria''"
  "to_lower ''generic'' = ''generic''" "to_lower ''none'' = ''none''"
  by (simp_all add: is_word_def word_char_def in_rng_def to_upper_def upper_rune_def to_lower_def lower_rune_def
      rune_chunks_ascii)

lemma lookup_lits [simp]: "Lookup ''minecraft'' = Some MinecraftClassifier" "Lookup ''terraria'' = Some TerrariaClassifier"
  by (simp_all add: Lookup_def classifierRegistry_def)

lemma itoa_no_sep: "CHR '':'' \<notin> set (itoa i)" "CHR '','' \<notin> set (itoa i)"
  by (auto dest!: itoa_chars simp: is_digit_def in_rng_def)

lemma itoa_nonempty: "itoa i \<noteq> []"
  using digits_of_correct by (simp add: itoa_def)

lemma port_entry_fields:
  assumes "valid_game_port p"
  shows "split_on CHR '':'' (port_entry p) =
    [itoa (gp_container_port p), pc_protocol (listened_port p), gp_wake_protocol p]"
    "CHR '','' \<notin> set (port_entry p)" "is_word (port_entry p)"
proof -
  let ?proto = "pc_protocol (listened_port p)"
  have e: "port_entry p = itoa (gp_container_port p) @ CHR '':'' # ?proto @ CHR '':'' # gp_wake_protocol p"
    by (simp add: port_entry_def listened_port_def)
  have proto: "?proto \<in> {''TCP'', ''UDP''}" and wake: "gp_wake_protocol p \<in> {''minecraft'', ''terraria'', ''generic'', ''none''}"
    using assms by (auto simp: valid_game_port_def listened_port_def)
  then have seps: "CHR '':'' \<notin> set ?proto" "CHR '':'' \<notin> set (gp_wake_protocol p)"
    "CHR '','' \<notin> set ?proto" "CHR '','' \<notin> set (gp_wake_protocol p)"
    by auto
  then show "split_on CHR '':'' (port_entry p) = [itoa (gp_container_port p), ?proto, gp_wake_protocol p]"
    by (simp add: e split_on_append split_on_single itoa_no_sep)
  show "CHR '','' \<notin> set (port_entry p)"
    using seps by (simp add: e itoa_no_sep)
  have "is_word ?proto" "is_word (gp_wake_protocol p)"
    using proto wake word_lits by auto
  then show "is_word (port_entry p)"
    using itoa_word [of "gp_container_port p"] by (simp add: e is_word_def word_char_def in_rng_def)
qed

lemma parsePort_entry:
  assumes "valid_game_port p"
  shows "parsePort (port_entry p) = Inr (listened_port p)"
proof -
  let ?proto = "pc_protocol (listened_port p)"
  have proto: "?proto \<in> {''TCP'', ''UDP''}" and wake: "gp_wake_protocol p \<in> {''minecraft'', ''terraria'', ''generic'', ''none''}"
    using assms by (auto simp: valid_game_port_def listened_port_def)
  have up: "trim_space (to_upper ?proto) = ?proto"
    using proto word_lits by (auto simp: trim_space_word)
  have low: "trim_space (to_lower (gp_wake_protocol p)) = gp_wake_protocol p"
    using wake word_lits by (auto simp: trim_space_word)
  have "parse_int64 (trim_space (itoa (gp_container_port p))) = Some (gp_container_port p)"
    using assms by (simp add: trim_space_word itoa_word parse_itoa valid_game_port_def)
  moreover have "gp_wake_protocol p = ''generic'' \<or> gp_wake_protocol p = ''none'' \<or> Lookup (gp_wake_protocol p) \<noteq> None"
    using wake by auto
  moreover have "?proto = ''TCP'' \<or> ?proto = ''UDP''"
    using proto by simp
  ultimately have "parsePort (port_entry p) = Inr \<lparr>pc_container_port = gp_container_port p,
      pc_protocol = ?proto, pc_wake_protocol = gp_wake_protocol p\<rparr>"
    unfolding parsePort_def Let_def port_entry_fields(1) [OF assms]
    by (simp only: list.size nth_Cons_0 nth_Cons_Suc One_nat_def numeral_2_eq_2 up low) auto
  then show ?thesis
    by (simp add: listened_port_def)
qed

lemma parsePortsLoop_entries:
  "\<forall>p\<in>set ps. valid_game_port p \<Longrightarrow>
     parsePortsLoop acc (map port_entry ps) = Inr (acc @ map listened_port ps)"
proof (induction ps arbitrary: acc)
  case (Cons p ps)
  have "port_entry p \<noteq> []"
    by (simp add: port_entry_def itoa_nonempty)
  with Cons show ?case
    by (simp add: trim_space_word port_entry_fields(3) parsePort_entry)
qed simp

lemma trim_char_id:
  assumes "s \<noteq> []" "hd s \<noteq> c" "last s \<noteq> c"
  shows "trim_char c s = s"
proof -
  have "dropWhile (\<lambda>d. d = c) s = s" "dropWhile (\<lambda>d. d = c) (rev s) = rev s"
    using assms by (simp_all add: dropWhile_eq_self_iff hd_rev)
  then show ?thesis
    by (simp add: trim_char_def)
qed

lemma str_join_ends:
  "ss \<noteq> [] \<Longrightarrow> \<forall>s\<in>set ss. s \<noteq> [] \<and> sep \<notin> set s \<Longrightarrow>
     str_join sep ss \<noteq> [] \<and> hd (str_join sep ss) \<noteq> sep \<and> last (str_join sep ss) \<noteq> sep"
  by (induction sep ss rule: str_join.induct) (auto simp: hd_append dest: hd_in_set last_in_set)

lemma ports_roundtrip_aux:
  assumes "\<forall>p\<in>set ps. valid_game_port p"
  shows "parsePortsConfig (str_join CHR '','' (map port_entry ps)) = Inr (map listened_port ps)"
proof (cases "ps = []")
  case True
  then show ?thesis
    by (simp add: parsePortsConfig_def trim_char_def)
next
  case False
  have entries: "\<forall>s\<in>set (map port_entry ps). s \<noteq> [] \<and> CHR '','' \<notin> set s"
    using assms port_entry_fields(2) itoa_nonempty by (auto simp: port_entry_def)
  with False str_join_ends [of "map port_entry ps" "CHR '',''"]
  have "trim_char CHR '','' (str_join CHR '','' (map port_entry ps)) = str_join CHR '','' (map port_entry ps)"
    "str_join CHR '','' (map port_entry ps) \<noteq> []"
    using trim_char_id by auto
  with False entries parsePortsLoop_entries [OF assms, of "[]"] show ?thesis
    by (simp add: parsePortsConfig_def split_str_join)
qed

text \<open>C26. The sentinel reads back from \<^verbatim>\<open>PORTS_CONFIG\<close> exactly the advertised ports the operator wrote there,
  in order, with the default protocol filled in; and whenever the operator deems the server eligible
  for wake-on-connect, the sentinel it starts binds at least one listener.\<close>

theorem ports_config_roundtrip:
  assumes "\<forall>p\<in>set ports. valid_game_port p"
  shows "parsePortsConfig (buildSentinelPortConfig ports) = Inr (map listened_port (filter gp_advertise ports))
    \<and> (wakeOnConnectEligible gs ports \<longrightarrow> list_ex wantsListener (map listened_port (filter gp_advertise ports)))"
proof
  show "parsePortsConfig (buildSentinelPortConfig ports) = Inr (map listened_port (filter gp_advertise ports))"
    using assms by (simp add: buildSentinelPortConfig_def ports_roundtrip_aux)
  show "wakeOnConnectEligible gs ports \<longrightarrow> list_ex wantsListener (map listened_port (filter gp_advertise ports))"
    by (auto simp: wakeOnConnectEligible_def list_ex_iff wantsListener_def listened_port_def split: option.splits)
qed

theorem ports_config_roundtrip_witness:
  "parsePortsConfig (buildSentinelPortConfig
     [\<lparr>gp_container_port = 25565, gp_protocol = [], gp_advertise = True, gp_wake_protocol = ''minecraft''\<rparr>,
      \<lparr>gp_container_port = 25575, gp_protocol = ''TCP'', gp_advertise = False, gp_wake_protocol = ''none''\<rparr>])
   = Inr [\<lparr>pc_container_port = 25565, pc_protocol = ''TCP'', pc_wake_protocol = ''minecraft''\<rparr>]"
  using ports_config_roundtrip [of
     "[\<lparr>gp_container_port = 25565, gp_protocol = [], gp_advertise = True, gp_wake_protocol = ''minecraft''\<rparr>,
       \<lparr>gp_container_port = 25575, gp_protocol = ''TCP'', gp_advertise = False, gp_wake_protocol = ''none''\<rparr>]"]
  by (simp add: valid_game_port_def listened_port_def)

section \<open>Routing\<close>

text \<open>The plan routes the game Service to the sentinel in exactly two situations: the server is asleep
  and the sentinel is ready, or it is waking in a Service-backed mode, the sentinel still exists and the
  game pod is not ready.  So players are never routed to a sentinel that cannot answer while the
  server sleeps, nor kept from a game pod that can; and in Hostport mode no sentinel survives the wake.\<close>

theorem planSentinel_routing:
  assumes "planSentinel gs ports idle dep ss = Inr plan"
  shows "(routeToSentinel plan \<longleftrightarrow> wakeOnConnectEligible gs ports \<and>
      (idle = idleAsleep \<and> sentinelIsReady dep = Inr True
       \<or> idle = idleAwake \<and> wp_expose gs \<noteq> ''Hostport'' \<and> sentinelExists dep = Inr True \<and> gamePodReady ss = Inr False))
    \<and> (wantSentinel plan \<longleftrightarrow> wakeOnConnectEligible gs ports \<and> (idle = idleAsleep \<or> routeToSentinel plan))
    \<and> (wantSentinel plan \<and> wp_expose gs = ''Hostport'' \<longrightarrow> idle = idleAsleep)"
  using assms
  by (cases idle; cases dep; cases ss)
    (auto simp: planSentinel_def no_plan_def sentinelIsReady_def sentinelExists_def gamePodReady_def split: if_splits)

theorem planSentinel_routing_witness:
  "planSentinel \<lparr>wp_name = ''s'', wp_idle = Some (True, True), wp_expose = ''NodePort''\<rparr>
     [\<lparr>gp_container_port = 25565, gp_protocol = [], gp_advertise = True, gp_wake_protocol = ''minecraft''\<rparr>]
     idleAwake (Replicas 1) (Replicas 0) = Inr \<lparr>wantSentinel = True, routeToSentinel = True\<rparr>
   \<and> gamePodReady (Replicas 0) = Inr False"
proof -
  let ?gs = "\<lparr>wp_name = ''s'', wp_idle = Some (True, True), wp_expose = ''NodePort''\<rparr>"
  let ?ports = "[\<lparr>gp_container_port = 25565, gp_protocol = [], gp_advertise = True, gp_wake_protocol = ''minecraft''\<rparr>]"
  have "planSentinel ?gs ?ports idleAwake (Replicas 1) (Replicas 0) = Inr \<lparr>wantSentinel = True, routeToSentinel = True\<rparr>"
    by (simp add: planSentinel_def wakeOnConnectEligible_def sentinelExists_def gamePodReady_def)
  with planSentinel_routing [OF this] show ?thesis
    by simp
qed

text \<open>The pod's grace period covers the whole drain, so the kubelet never cuts a session short.\<close>

lemma grace_covers_drain:
  "sentinelShutdownSettings gs = (drain, grace) \<Longrightarrow> drain < grace * second"
  by (auto simp: sentinelShutdownSettings_def sentinelHostportGracePeriod_def sentinelShutdownDrainTimeout_def
      sentinelShutdownGraceSlack_def hours_def minute_def second_def split: if_splits)

end
