(* ===== verification/Game_Action.thy ===== *)
theory Game_Action
  imports Go_Strings
begin

text \<open>
  \<^verbatim>\<open>gameaction/action.go\<close>: the console-injection guard.  The agent and the API call \<^verbatim>\<open>Resolve\<close> on the raw
  values of an action's parameters before they are folded into a console command.  The template engine
  that renders the command is a library and stays outside.
\<close>

section \<open>Definitions\<close>

record param =
  pr_name :: string
  pr_type :: string
  pr_default :: string
  pr_enum :: "string list"
  pr_required :: bool

datatype text_error = ErrControlChar | ErrMetaChar

datatype action_error =
    ParamRequired string
  | MustBeInteger string
  | MustBeBool string
  | NotAnOption string
  | HasControlChars string
  | TooLong string

definition control_rune :: "nat \<Rightarrow> bool" where
  "control_rune r \<longleftrightarrow> r < 0x20 \<or> r = 0x7F"

definition meta_rune :: "nat \<Rightarrow> bool" where
  "meta_rune r \<longleftrightarrow> r = of_char (CHR '';'') \<or> r = of_char (CHR ''&'') \<or> r = of_char (CHR ''|'') \<or> r = of_char (CHR ''$'')
     \<or> r = of_char (CHR 0x60) \<or> r = of_char (CHR 0x5C) \<or> r = of_char (CHR 0x22) \<or> r = of_char (CHR 0x27)"

fun CheckText_loop :: "bool \<Rightarrow> nat list \<Rightarrow> text_error option" where
  "CheckText_loop meta [] = (if meta then Some ErrMetaChar else None)"
| "CheckText_loop meta (r # rs) =
     (if control_rune r then Some ErrControlChar
      else if meta_rune r then CheckText_loop True rs
      else CheckText_loop meta rs)"

definition CheckText :: "string \<Rightarrow> text_error option" where
  "CheckText s = CheckText_loop False (runes s)"

definition validateParam :: "param \<Rightarrow> string \<Rightarrow> action_error + string" where
  "validateParam p val =
     (let kind = to_lower (trim_space (pr_type p)) in
      if kind = ''int'' then
        (if parse_int64 (trim_space val) = None then Inl (MustBeInteger (pr_name p)) else Inr (trim_space val))
      else if kind = ''bool'' then
        (let v = to_lower (trim_space val) in
         if v = ''true'' \<or> v = ''false'' then Inr v else Inl (MustBeBool (pr_name p)))
      else if kind = ''enum'' then
        (if val \<in> set (pr_enum p) then Inr val else Inl (NotAnOption (pr_name p)))
      else if CheckText val \<noteq> None then Inl (HasControlChars (pr_name p))
      else if rune_count val > 512 then Inl (TooLong (pr_name p))
      else Inr val)"

fun Resolve_loop ::
  "param list \<Rightarrow> (string \<rightharpoonup> string) \<Rightarrow> (string \<rightharpoonup> string) \<Rightarrow> action_error + (string \<rightharpoonup> string)" where
  "Resolve_loop [] got out = Inr out"
| "Resolve_loop (p # decls) got out =
     (let given = got (pr_name p) in
      if pr_required p \<and> given = Some [] then Inl (ParamRequired (pr_name p))
      else let val = (case given of None \<Rightarrow> pr_default p | Some v \<Rightarrow> if v = [] then pr_default p else v) in
        if pr_required p \<and> trim_space val = [] then Inl (ParamRequired (pr_name p))
        else if val = [] then Resolve_loop decls got (out(pr_name p \<mapsto> []))
        else res_bind (validateParam p val) (\<lambda>clean. Resolve_loop decls got (out(pr_name p \<mapsto> clean))))"

definition Resolve :: "param list \<Rightarrow> (string \<rightharpoonup> string) \<Rightarrow> action_error + (string \<rightharpoonup> string)" where
  "Resolve decls got = Resolve_loop decls got Map.empty"

section \<open>The rune loop against the bytes\<close>

lemma decode_rune_low:
  assumes "decode_rune c cs = (r, w)" "d \<in> set (c # take (w - Suc 0) cs)" "of_char d < (0x80 :: nat)"
  shows "r = of_char d"
proof (cases "of_char c < (0x80 :: nat)")
  case True
  with assms show ?thesis
    by auto
next
  case False
  with assms show ?thesis
    by (auto simp: decode_rune_def decode2_def decode3_def decode4_def Let_def in_rng_def
        split: if_splits list.splits)
qed

lemma decode_rune_low_rune:
  assumes "decode_rune c cs = (r, w)" "r < 0x80"
  shows "r = of_char c"
proof (cases "of_char c < (0x80 :: nat)")
  case False
  with assms show ?thesis
    by (auto simp: decode_rune_def decode2_def decode3_def decode4_def rune_error_def cont6_def in_rng_def Let_def
        split: if_splits list.splits)
qed (use assms in auto)

lemma chunk_low: "(r, bs) \<in> set (rune_chunks s) \<Longrightarrow> d \<in> set bs \<Longrightarrow> of_char d < (0x80 :: nat) \<Longrightarrow> r = of_char d"
  by (induction s rule: rune_chunks.induct) (auto split: prod.splits dest: decode_rune_low [OF sym] decode_rune_low [OF sym list.set_intros(2)])

lemma chunk_low_rune: "(r, bs) \<in> set (rune_chunks s) \<Longrightarrow> r < 0x80 \<Longrightarrow> \<exists>d\<in>set bs. of_char d = r"
  by (induction s rule: rune_chunks.induct) (auto split: prod.splits dest: decode_rune_low_rune [OF sym])

text \<open>The ASCII runes of a string are exactly its ASCII bytes: no multi-byte sequence hides one.\<close>

lemma ascii_runes_iff:
  assumes "r < (0x80 :: nat)"
  shows "r \<in> set (runes s) \<longleftrightarrow> char_of r \<in> set s"
proof
  assume "r \<in> set (runes s)"
  then obtain bs where "(r, bs) \<in> set (rune_chunks s)"
    by (auto simp: runes_def)
  with chunk_low_rune [OF this assms] have "char_of r \<in> set (concat (map snd (rune_chunks s)))"
    by force
  then show "char_of r \<in> set s"
    by (simp only: rune_chunks_concat)
next
  assume "char_of r \<in> set s"
  then have "char_of r \<in> set (concat (map snd (rune_chunks s)))"
    by (simp only: rune_chunks_concat)
  then obtain q bs where chunk: "(q, bs) \<in> set (rune_chunks s)" "char_of r \<in> set bs"
    by auto
  have "of_char (char_of r :: char) = r"
    using assms by simp
  with chunk_low [OF chunk] assms chunk(1) show "r \<in> set (runes s)"
    by (force simp: runes_def)
qed

lemma CheckText_loop_correct:
  "CheckText_loop meta rs =
     (if \<exists>r\<in>set rs. control_rune r then Some ErrControlChar
      else if meta \<or> (\<exists>r\<in>set rs. meta_rune r) then Some ErrMetaChar else None)"
  by (induction meta rs rule: CheckText_loop.induct) auto

lemma ascii_classes: "control_rune r \<Longrightarrow> r < 0x80" "meta_rune r \<Longrightarrow> r < 0x80"
  by (auto simp: control_rune_def meta_rune_def)

lemma ex_rune_iff_byte:
  assumes "\<And>r. P r \<Longrightarrow> r < (0x80 :: nat)"
  shows "(\<exists>r\<in>set (runes s). P r) \<longleftrightarrow> (\<exists>c\<in>set s. P (of_char c))"
proof
  assume "\<exists>r\<in>set (runes s). P r"
  then obtain r where r: "r \<in> set (runes s)" "P r"
    by blast
  then have "r < 0x80"
    using assms by blast
  then have "char_of r \<in> set s" "of_char (char_of r :: char) = r"
    using r ascii_runes_iff by simp_all
  with r(2) show "\<exists>c\<in>set s. P (of_char c)"
    by force
next
  assume "\<exists>c\<in>set s. P (of_char c)"
  then obtain c where c: "c \<in> set s" "P (of_char c)"
    by blast
  with assms have "of_char c < (0x80 :: nat)"
    by blast
  with c ascii_runes_iff [of "of_char c" s] show "\<exists>r\<in>set (runes s). P r"
    by auto
qed

lemma CheckText_bytes:
  "CheckText s =
     (if \<exists>c\<in>set s. control_rune (of_char c) then Some ErrControlChar
      else if \<exists>c\<in>set s. meta_rune (of_char c) then Some ErrMetaChar else None)"
  by (simp add: CheckText_def CheckText_loop_correct ex_rune_iff_byte [OF ascii_classes(1)]
      ex_rune_iff_byte [OF ascii_classes(2)])

text \<open>The character policy for text folded into a console command decides on the raw bytes, whatever
  they are: invalid UTF-8 cannot smuggle a control character or a metacharacter past its rune loop,
  and a control character takes precedence.\<close>

theorem CheckText_sees_every_byte:
  "CheckText s =
     (if \<exists>c\<in>set s. of_char c < (0x20 :: nat) \<or> of_char c = (0x7F :: nat) then Some ErrControlChar
      else if \<exists>c\<in>set s. c \<in> {CHR '';'', CHR ''&'', CHR ''|'', CHR ''$'', CHR 0x60, CHR 0x5C, CHR 0x22, CHR 0x27}
        then Some ErrMetaChar
      else None)"
proof -
  have inj: "(of_char c = (of_char d :: nat)) = (c = d)" for c d :: char
    by (rule of_char_eq_iff)
  show ?thesis
    unfolding CheckText_bytes control_rune_def meta_rune_def by (simp only: inj) simp
qed

section \<open>Resolved values\<close>

definition harmless :: "string \<Rightarrow> bool" where
  "harmless s \<longleftrightarrow> list_all (\<lambda>c. \<not> control_rune (of_char c) \<and> \<not> meta_rune (of_char c)) s"

lemma harmless_lits [simp]: "harmless []" "harmless ''true''" "harmless ''false''"
  by (simp_all add: harmless_def control_rune_def meta_rune_def)

lemma parse_int64_chars:
  assumes "parse_int64 s = Some i"
  shows "harmless s"
proof -
  have num: "harmless ds" if "parse_digits ds = Some n" for ds n
    using that
    by (auto simp: parse_digits_def harmless_def list_all_iff is_digit_def in_rng_def control_rune_def meta_rune_def
        split: if_splits)
  have sign: "harmless (c # cs)" if "c = CHR ''-'' \<or> c = CHR ''+''" "harmless cs" for c cs
    using that by (auto simp: harmless_def control_rune_def meta_rune_def)
  show ?thesis
    using assms num sign by (fastforce simp: parse_int64_def split: list.splits if_splits option.splits)
qed

lemma CheckText_harmless: "CheckText s = None \<Longrightarrow> harmless s"
  by (auto simp: CheckText_bytes harmless_def list_all_iff split: if_splits)

text \<open>What a declared parameter's value is once it passed.\<close>

definition clean_value :: "param \<Rightarrow> string \<Rightarrow> bool" where
  "clean_value p v \<longleftrightarrow>
     (case to_lower (trim_space (pr_type p)) of
        kind \<Rightarrow> if kind = ''int'' then parse_int64 v \<noteq> None
          else if kind = ''bool'' then v = ''true'' \<or> v = ''false''
          else if kind = ''enum'' then v \<in> set (pr_enum p)
          else harmless v \<and> rune_count v \<le> 512)"

lemma validateParam_clean: "validateParam p val = Inr v \<Longrightarrow> clean_value p v"
  by (auto simp: validateParam_def clean_value_def Let_def intro: CheckText_harmless split: if_splits)

lemma clean_harmless: "clean_value p v \<Longrightarrow> harmless v \<or> v \<in> set (pr_enum p)"
  by (auto simp: clean_value_def Let_def dest: parse_int64_chars split: if_splits)

lemma validateParam_nonempty: "validateParam p val = Inr v \<Longrightarrow> val \<noteq> [] \<Longrightarrow> v \<noteq> []"
  by (auto simp: validateParam_def Let_def parse_int64_def split: if_splits)

definition resolved :: "param \<Rightarrow> string \<Rightarrow> bool" where
  "resolved p v \<longleftrightarrow> (v = [] \<or> clean_value p v) \<and> (pr_required p \<longrightarrow> v \<noteq> [])"

lemma trim_space_Nil [simp]: "trim_space [] = []"
  by (simp add: trim_space_def)

lemma Resolve_loop_Cons:
  assumes "Resolve_loop (p # ps) got out = Inr res"
  obtains v where "resolved p v" "Resolve_loop ps got (out(pr_name p \<mapsto> v)) = Inr res"
proof -
  let ?val = "case got (pr_name p) of None \<Rightarrow> pr_default p | Some v \<Rightarrow> if v = [] then pr_default p else v"
  have req: "\<not> (pr_required p \<and> trim_space ?val = [])"
    using assms by (auto simp: Let_def split: if_splits)
  show ?thesis
  proof (cases "?val = []")
    case True
    with assms req that [of "[]"] show ?thesis
      by (auto simp: Let_def resolved_def split: if_splits)
  next
    case False
    with assms obtain v where v: "validateParam p ?val = Inr v" "Resolve_loop ps got (out(pr_name p \<mapsto> v)) = Inr res"
      by (auto simp: Let_def res_bind_def split: if_splits sum.splits)
    with False show ?thesis
      by (intro that [of v]) (auto simp: resolved_def dest: validateParam_clean validateParam_nonempty)
  qed
qed

lemma Resolve_loop_other: "Resolve_loop ps got out = Inr res \<Longrightarrow> k \<notin> pr_name ` set ps \<Longrightarrow> res k = out k"
proof (induction ps arbitrary: out)
  case (Cons p ps)
  from Cons.prems(1) obtain v where "Resolve_loop ps got (out(pr_name p \<mapsto> v)) = Inr res"
    by (rule Resolve_loop_Cons)
  from Cons.IH [OF this] Cons.prems(2) show ?case
    by simp
qed simp

lemma Resolve_loop_values:
  "Resolve_loop ps got out = Inr res \<Longrightarrow> distinct (map pr_name ps) \<Longrightarrow> p \<in> set ps \<Longrightarrow>
     \<exists>v. res (pr_name p) = Some v \<and> resolved p v"
proof (induction ps arbitrary: out)
  case (Cons q ps)
  from Cons.prems(1) obtain v where v: "resolved q v" "Resolve_loop ps got (out(pr_name q \<mapsto> v)) = Inr res"
    by (rule Resolve_loop_Cons)
  show ?case
  proof (cases "p \<in> set ps")
    case True
    with Cons v(2) show ?thesis
      by simp
  next
    case False
    then have "p = q" "pr_name q \<notin> pr_name ` set ps"
      using Cons.prems by auto
    with v Resolve_loop_other [OF v(2), of "pr_name q"] show ?thesis
      by simp
  qed
qed simp

text \<open>C29. When \<^verbatim>\<open>Resolve\<close> accepts the user's values, every declared parameter has a value, a required one a
  non-empty value; each value is one the module author declared as an option, or else contains no
  control character and no command metacharacter, so rendering it cannot start a second command.\<close>

theorem Resolve_harmless:
  assumes "Resolve decls got = Inr out" "distinct (map pr_name decls)" "p \<in> set decls"
  shows "\<exists>v. out (pr_name p) = Some v \<and> (pr_required p \<longrightarrow> v \<noteq> []) \<and> (v \<in> set (pr_enum p) \<or> harmless v)"
proof -
  obtain v where "out (pr_name p) = Some v" "resolved p v"
    using Resolve_loop_values [OF assms(1) [unfolded Resolve_def] assms(2,3)] by blast
  then show ?thesis
    using clean_harmless [of p v] by (auto simp: resolved_def)
qed

definition example_param :: param where
  "example_param = \<lparr>pr_name = ''who'', pr_type = ''string'', pr_default = ''all'', pr_enum = [], pr_required = True\<rparr>"

theorem Resolve_harmless_witness:
  "\<exists>v. harmless v \<and> v \<noteq> [] \<and> Resolve [example_param] (Map.empty(''who'' \<mapsto> ''Bob'')) = Inr (Map.empty(''who'' \<mapsto> v))"
proof -
  have word: "is_word ''Bob''" "is_word ''string''"
    by (simp_all add: is_word_def word_char_def in_rng_def)
  have "CheckText ''Bob'' = None"
    by (simp add: CheckText_bytes control_rune_def meta_rune_def)
  moreover have "rune_count ''Bob'' = 3" "to_lower ''string'' = ''string''"
    by (simp_all add: rune_count_def rune_chunks_ascii to_lower_def lower_rune_def)
  ultimately have "Resolve [example_param] (Map.empty(''who'' \<mapsto> ''Bob'')) = Inr (Map.empty(''who'' \<mapsto> ''Bob''))"
    using word by (simp add: Resolve_def example_param_def validateParam_def trim_space_word)
  with Resolve_harmless [OF this, of example_param] show ?thesis
    by (intro exI [of _ "''Bob''"]) (simp add: example_param_def)
qed

end
