(* ===== verification/Netguard.thy ===== *)
theory Netguard
  imports Go_Strings
begin

unbundle bit_operations_syntax

text \<open>
  \<^verbatim>\<open>netguard/netguard.go\<close>: the two outbound-connection policies, \<^verbatim>\<open>IsAllowed\<close> for administrator-configured
  targets and \<^verbatim>\<open>IsPublic\<close> for user-supplied ones, with the dial-time hook and the pre-flight check that
  apply them.  An address is Go's \<^verbatim>\<open>net.IP\<close>, a byte list of length 4 or 16 with \<open>[]\<close> for nil, and the
  predicates of package \<^verbatim>\<open>net\<close> are defined on it as the library does.  The address parser and the
  resolver are arguments: the results hold whatever they answer.
\<close>

section \<open>Package net\<close>

definition v4InV6Prefix :: bytes where
  "v4InV6Prefix = [0, 0, 0, 0, 0, 0, 0, 0, 0, 0, 0xFF, 0xFF]"

definition ip_To4 :: "bytes \<Rightarrow> bytes" where
  "ip_To4 ip = (if length ip = 4 then ip
     else if length ip = 16 \<and> take 12 ip = v4InV6Prefix then drop 12 ip else [])"

definition ip_Equal :: "bytes \<Rightarrow> bytes \<Rightarrow> bool" where
  "ip_Equal ip x \<longleftrightarrow>
     (if length ip = length x then ip = x
      else if length ip = 4 \<and> length x = 16 then take 12 x = v4InV6Prefix \<and> ip = drop 12 x
      else if length ip = 16 \<and> length x = 4 then take 12 ip = v4InV6Prefix \<and> drop 12 ip = x
      else False)"

definition IsUnspecified :: "bytes \<Rightarrow> bool" where
  "IsUnspecified ip \<longleftrightarrow> ip_Equal ip [0, 0, 0, 0] \<or> ip_Equal ip [0, 0, 0, 0, 0, 0, 0, 0, 0, 0, 0, 0, 0, 0, 0, 0]"

definition IsLoopback :: "bytes \<Rightarrow> bool" where
  "IsLoopback ip \<longleftrightarrow> (case ip_To4 ip of a # _ \<Rightarrow> a = 127 | [] \<Rightarrow> ip_Equal ip [0, 0, 0, 0, 0, 0, 0, 0, 0, 0, 0, 0, 0, 0, 0, 1])"

definition IsPrivate :: "bytes \<Rightarrow> bool" where
  "IsPrivate ip \<longleftrightarrow> (case ip_To4 ip of
      a # b # _ \<Rightarrow> a = 10 \<or> (a = 172 \<and> b AND 0xF0 = 16) \<or> (a = 192 \<and> b = 168)
    | _ \<Rightarrow> length ip = 16 \<and> ip ! 0 AND 0xFE = 0xFC)"

definition IsMulticast :: "bytes \<Rightarrow> bool" where
  "IsMulticast ip \<longleftrightarrow> (case ip_To4 ip of a # _ \<Rightarrow> a AND 0xF0 = 0xE0 | [] \<Rightarrow> length ip = 16 \<and> ip ! 0 = 0xFF)"

definition IsInterfaceLocalMulticast :: "bytes \<Rightarrow> bool" where
  "IsInterfaceLocalMulticast ip \<longleftrightarrow> length ip = 16 \<and> ip ! 0 = 0xFF \<and> ip ! 1 AND 0x0F = 1"

definition IsLinkLocalMulticast :: "bytes \<Rightarrow> bool" where
  "IsLinkLocalMulticast ip \<longleftrightarrow> (case ip_To4 ip of
      a # b # c # _ \<Rightarrow> a = 224 \<and> b = 0 \<and> c = 0
    | _ \<Rightarrow> length ip = 16 \<and> ip ! 0 = 0xFF \<and> ip ! 1 AND 0x0F = 2)"

definition IsLinkLocalUnicast :: "bytes \<Rightarrow> bool" where
  "IsLinkLocalUnicast ip \<longleftrightarrow> (case ip_To4 ip of
      a # b # _ \<Rightarrow> a = 169 \<and> b = 254
    | _ \<Rightarrow> length ip = 16 \<and> ip ! 0 = 0xFE \<and> ip ! 1 AND 0xC0 = 0x80)"

text \<open>A CIDR block: its network number and its prefix length in bits.\<close>

type_synonym cidr = "bytes \<times> nat"

fun cidr_mask :: "nat \<Rightarrow> nat \<Rightarrow> bytes" where
  "cidr_mask ones 0 = []"
| "cidr_mask ones (Suc n) =
     (if 8 \<le> ones then 0xFF # cidr_mask (ones - 8) n else word_of_nat (256 - 2 ^ (8 - ones)) # cidr_mask 0 n)"

definition cidr_contains :: "cidr \<Rightarrow> bytes \<Rightarrow> bool" where
  "cidr_contains n ip =
     (let x = ip_To4 ip; ip = (if x \<noteq> [] then x else ip); nn = fst n; m = cidr_mask (snd n) (length nn)
      in length ip = length nn \<and> list_all (\<lambda>(b, a, k). a AND k = b AND k) (zip ip (zip nn m)))"

section \<open>The policies\<close>

definition normalizeIP :: "bytes \<Rightarrow> bytes" where
  "normalizeIP ip =
     (let v4 = ip_To4 ip in
      if v4 \<noteq> [] then v4
      else if length ip = 16 \<and> ip_Equal (take 12 ip) [0, 0, 0, 0, 0, 0, 0, 0, 0, 0, 0, 0] then drop 12 ip
      else ip)"

definition nat64_wkp :: cidr where
  "nat64_wkp = ([0x00, 0x64, 0xFF, 0x9B, 0, 0, 0, 0, 0, 0, 0, 0, 0, 0, 0, 0], 96)"

definition nat64_local :: cidr where
  "nat64_local = ([0x00, 0x64, 0xFF, 0x9B, 0, 1, 0, 0, 0, 0, 0, 0, 0, 0, 0, 0], 48)"

definition sixtofour :: cidr where
  "sixtofour = ([0x20, 0x02, 0, 0, 0, 0, 0, 0, 0, 0, 0, 0, 0, 0, 0, 0], 16)"

definition blockedV6Prefixes :: "cidr list" where
  "blockedV6Prefixes = [nat64_wkp, nat64_local, sixtofour]"

definition metadataAddrs :: "bytes list" where
  "metadataAddrs =
     [[0xFD, 0x00, 0x0E, 0xC2, 0, 0, 0, 0, 0, 0, 0, 0, 0, 0, 0x02, 0x54],
      v4InV6Prefix @ [100, 100, 100, 200]]"

definition reservedBlocks :: "cidr list" where
  "reservedBlocks =
     [([0, 0, 0, 0], 8), ([100, 64, 0, 0], 10), ([192, 0, 0, 0], 24), ([192, 0, 2, 0], 24),
      ([198, 18, 0, 0], 15), ([198, 51, 100, 0], 24), ([203, 0, 113, 0], 24), ([240, 0, 0, 0], 4),
      nat64_wkp, nat64_local,
      ([0x20, 0x01, 0x0D, 0xB8, 0, 0, 0, 0, 0, 0, 0, 0, 0, 0, 0, 0], 32),
      sixtofour,
      ([0x01, 0x00, 0, 0, 0, 0, 0, 0, 0, 0, 0, 0, 0, 0, 0, 0], 64),
      ([0xFE, 0xC0, 0, 0, 0, 0, 0, 0, 0, 0, 0, 0, 0, 0, 0, 0], 10)]"

definition IsAllowed :: "bytes \<Rightarrow> bool" where
  "IsAllowed ip =
     (if ip = [] then False
      else let norm = normalizeIP ip in
        if IsUnspecified norm \<or> IsMulticast norm \<or> IsInterfaceLocalMulticast norm \<or>
           IsLinkLocalUnicast norm \<or> IsLinkLocalMulticast norm then False
        else \<not> list_ex (\<lambda>m. ip_Equal norm m) metadataAddrs
           \<and> \<not> list_ex (\<lambda>blk. cidr_contains blk norm) blockedV6Prefixes)"

definition IsPublic :: "bytes \<Rightarrow> bool" where
  "IsPublic ip =
     (if ip = [] then False
      else let norm = normalizeIP ip in
        if IsLoopback ip \<or> IsLoopback norm \<or> IsPrivate norm \<or> IsUnspecified norm \<or>
           IsLinkLocalUnicast norm \<or> IsLinkLocalMulticast norm \<or> IsMulticast norm then False
        else \<not> list_ex (\<lambda>blk. cidr_contains blk norm) reservedBlocks)"

section \<open>Their use\<close>

definition trim_suffix :: "string \<Rightarrow> string \<Rightarrow> string" where
  "trim_suffix s suffix = (if has_suffix s suffix then take (length s - length suffix) s else s)"

definition HostIsMetadata :: "string \<Rightarrow> bool" where
  "HostIsMetadata host \<longleftrightarrow>
     to_lower (trim_suffix host ''.'') \<in> {''metadata.google.internal'', ''metadata''}"

datatype guard_error = ErrBlockedAddr | SplitError string | LookupError string

text \<open>\<open>split\<close> is \<^verbatim>\<open>net.SplitHostPort\<close>, \<open>parse\<close> is \<^verbatim>\<open>net.ParseIP\<close>; \<open>Inr ()\<close> lets the dial proceed.\<close>

definition dialControl ::
  "(string \<Rightarrow> string + string) \<Rightarrow> (string \<Rightarrow> bytes) \<Rightarrow> (bytes \<Rightarrow> bool) \<Rightarrow> string \<Rightarrow> guard_error + unit" where
  "dialControl split parse allow addr =
     (case split addr of
        Inl e \<Rightarrow> Inl (SplitError e)
      | Inr host \<Rightarrow>
          let ip = parse host in
          if ip = [] \<or> \<not> allow ip then Inl ErrBlockedAddr else Inr ())"

definition CheckHostAllowed ::
  "(string \<Rightarrow> bytes) \<Rightarrow> (string \<Rightarrow> string + bytes list) \<Rightarrow> (bytes \<Rightarrow> bool) \<Rightarrow> string \<Rightarrow> guard_error + unit" where
  "CheckHostAllowed parse lookup allow host =
     (if host = [] then Inl ErrBlockedAddr
      else if HostIsMetadata host then Inl ErrBlockedAddr
      else let ip = parse host in
        if ip \<noteq> [] then (if \<not> allow ip then Inl ErrBlockedAddr else Inr ())
        else (case lookup host of
            Inl e \<Rightarrow> Inl (LookupError e)
          | Inr addrs \<Rightarrow>
              if addrs = [] then Inl ErrBlockedAddr
              else if list_ex (\<lambda>a. \<not> allow a) addrs then Inl ErrBlockedAddr
              else Inr ()))"

section \<open>What a policy promises\<close>

text \<open>The ways an IPv6 address carries an IPv4 one that the package knows: IPv4-mapped, IPv4-compatible, the
  well-known and the local-use NAT64 prefix, and 6to4.  Where in the local-use prefix the IPv4 address
  stands is up to the operator of the translator, so an address of that prefix may carry any.\<close>

definition mapped :: "bytes \<Rightarrow> bytes" where
  "mapped a = v4InV6Prefix @ a"

definition compatible :: "bytes \<Rightarrow> bytes" where
  "compatible a = [0, 0, 0, 0, 0, 0, 0, 0, 0, 0, 0, 0] @ a"

definition nat64 :: "bytes \<Rightarrow> bytes" where
  "nat64 a = [0x00, 0x64, 0xFF, 0x9B, 0, 0, 0, 0, 0, 0, 0, 0] @ a"

definition six_to_four :: "bytes \<Rightarrow> bytes \<Rightarrow> bytes" where
  "six_to_four a rest = [0x20, 0x02] @ a @ rest"

definition nat64_local_use :: "bytes \<Rightarrow> bytes" where
  "nat64_local_use rest = [0x00, 0x64, 0xFF, 0x9B, 0x00, 0x01] @ rest"

definition carries :: "bytes \<Rightarrow> bytes \<Rightarrow> bool" where
  "carries ip a \<longleftrightarrow> length a = 4 \<and>
     (ip = a \<or> ip = mapped a \<or> ip = compatible a \<or> ip = nat64 a \<or>
      (\<exists>rest. length rest = 10 \<and> (ip = six_to_four a rest \<or> ip = nat64_local_use rest)))"

locale dial_policy =
  fixes allow :: "bytes \<Rightarrow> bool"
  assumes refuses_nil: "\<not> allow []"
    and mapped_same: "length a = 4 \<Longrightarrow> allow (mapped a) = allow a"
    and compatible_same: "length a = 4 \<Longrightarrow> allow (compatible a) = allow a"
    and refuses_nat64: "length a = 4 \<Longrightarrow> \<not> allow (nat64 a)"
    and refuses_6to4: "length a = 4 \<Longrightarrow> length rest = 10 \<Longrightarrow> \<not> allow (six_to_four a rest)"
    and refuses_local_use: "length rest = 10 \<Longrightarrow> \<not> allow (nat64_local_use rest)"
    and refuses_link_local: "\<not> allow [169, 254, c, d]"
    and refuses_metadata: "m \<in> set metadataAddrs \<Longrightarrow> \<not> allow m"
begin

lemma no_disguise: "\<not> allow a \<Longrightarrow> carries ip a \<Longrightarrow> \<not> allow ip"
  unfolding carries_def
  using mapped_same compatible_same refuses_nat64 refuses_6to4 refuses_local_use by blast

lemma dial_ok: "dialControl split parse allow addr = Inr () \<Longrightarrow>
    \<exists>host. split addr = Inr host \<and> allow (parse host)"
  by (auto simp: dialControl_def Let_def split: sum.splits if_splits)

lemma check_ok: "CheckHostAllowed parse lookup allow host = Inr () \<Longrightarrow>
    \<not> HostIsMetadata host \<and> (allow (parse host) \<or>
      (\<exists>addrs. parse host = [] \<and> lookup host = Inr addrs \<and> addrs \<noteq> [] \<and> (\<forall>a\<in>set addrs. allow a)))"
  by (auto simp: CheckHostAllowed_def Let_def list_ex_iff split: sum.splits if_splits)

end

lemma length4: "length a = 4 \<longleftrightarrow> (\<exists>w x y z. a = [w, x, y, z])"
  by (auto simp: numeral_eq_Suc length_Suc_conv)

lemma length10: "length a = 10 \<longleftrightarrow> (\<exists>b c d e f g h i j k. a = [b, c, d, e, f, g, h, i, j, k])"
  by (auto simp: numeral_eq_Suc length_Suc_conv)

lemmas ip_defs = normalizeIP_def ip_To4_def v4InV6Prefix_def ip_Equal_def Let_def
  mapped_def compatible_def nat64_def six_to_four_def nat64_local_use_def

lemma normalize_v4 [simp]:
  "normalizeIP [w, x, y, z] = [w, x, y, z]"
  "normalizeIP (mapped [w, x, y, z]) = [w, x, y, z]"
  "normalizeIP (compatible [w, x, y, z]) = [w, x, y, z]"
  by (simp_all add: ip_defs)

lemma normalize_translated [simp]:
  "normalizeIP (nat64 [w, x, y, z]) = nat64 [w, x, y, z]"
  "normalizeIP (six_to_four [w, x, y, z] [b, c, d, e, f, g, h, i, j, k]) =
     six_to_four [w, x, y, z] [b, c, d, e, f, g, h, i, j, k]"
  "normalizeIP (nat64_local_use [b, c, d, e, f, g, h, i, j, k]) = nat64_local_use [b, c, d, e, f, g, h, i, j, k]"
  by (simp_all add: ip_defs)

lemma translated_contained [simp]:
  "cidr_contains nat64_wkp (nat64 [w, x, y, z])"
  "cidr_contains sixtofour (six_to_four [w, x, y, z] [b, c, d, e, f, g, h, i, j, k])"
  "cidr_contains nat64_local (nat64_local_use [b, c, d, e, f, g, h, i, j, k])"
  by (simp_all add: cidr_contains_def nat64_wkp_def sixtofour_def nat64_local_def ip_defs)

lemma embedded_nonempty [simp]: "mapped a \<noteq> []" "compatible a \<noteq> []" "nat64 a \<noteq> []" "six_to_four a r \<noteq> []" "nat64_local_use r \<noteq> []"
  by (simp_all add: mapped_def compatible_def nat64_def six_to_four_def nat64_local_use_def v4InV6Prefix_def)

lemma loopback_embedded [simp]:
  "IsLoopback [w, x, y, z] \<longleftrightarrow> w = 127"
  "IsLoopback (mapped [w, x, y, z]) \<longleftrightarrow> w = 127"
  "IsLoopback (compatible [w, x, y, z]) \<longleftrightarrow> w = 0 \<and> x = 0 \<and> y = 0 \<and> z = 1"
  by (simp_all add: IsLoopback_def ip_defs)

lemma this_network_reserved [simp]: "cidr_contains ([0, 0, 0, 0], 8) [0, x, y, z]"
  by (simp add: cidr_contains_def ip_defs)

lemma reserved_mem: "blk \<in> set reservedBlocks \<Longrightarrow> cidr_contains blk ip \<Longrightarrow> list_ex (\<lambda>blk. cidr_contains blk ip) reservedBlocks"
  by (auto simp: list_ex_iff)

lemma nat64_reserved: "list_ex (\<lambda>blk. cidr_contains blk (nat64 [w, x, y, z])) reservedBlocks"
  by (rule reserved_mem [of nat64_wkp]) (simp_all add: reservedBlocks_def)

lemma six_to_four_reserved:
  "list_ex (\<lambda>blk. cidr_contains blk (six_to_four [w, x, y, z] [b, c, d, e, f, g, h, i, j, k])) reservedBlocks"
  by (rule reserved_mem [of sixtofour]) (simp_all add: reservedBlocks_def)

lemma local_use_reserved:
  "list_ex (\<lambda>blk. cidr_contains blk (nat64_local_use [b, c, d, e, f, g, h, i, j, k])) reservedBlocks"
  by (rule reserved_mem [of nat64_local]) (simp_all add: reservedBlocks_def)

lemma this_network_public: "list_ex (\<lambda>blk. cidr_contains blk [0, x, y, z]) reservedBlocks"
  by (rule reserved_mem [of "([0, 0, 0, 0], 8)"]) (simp_all add: reservedBlocks_def)

interpretation allowed: dial_policy IsAllowed
proof
  show "\<not> IsAllowed []"
    by (simp add: IsAllowed_def)
  show "IsAllowed (mapped a) = IsAllowed a" "IsAllowed (compatible a) = IsAllowed a" if "length a = 4" for a
    using that by (auto simp: length4 IsAllowed_def)
  show "\<not> IsAllowed (nat64 a)" if "length a = 4" for a
    using that by (auto simp: length4 IsAllowed_def Let_def blockedV6Prefixes_def)
  show "\<not> IsAllowed (six_to_four a rest)" if "length a = 4" "length rest = 10" for a rest
    using that by (auto simp: length4 length10 IsAllowed_def Let_def blockedV6Prefixes_def)
  show "\<not> IsAllowed (nat64_local_use rest)" if "length rest = 10" for rest
    using that by (auto simp: length10 IsAllowed_def Let_def blockedV6Prefixes_def)
  show "\<not> IsAllowed [169, 254, c, d]" for c d
    by (simp add: IsAllowed_def IsLinkLocalUnicast_def ip_To4_def)
  have "list_all (\<lambda>m. \<not> IsAllowed m) metadataAddrs"
    by code_simp
  then show "\<not> IsAllowed m" if "m \<in> set metadataAddrs" for m
    using that by (simp add: list_all_iff)
qed

interpretation public: dial_policy IsPublic
proof
  show "\<not> IsPublic []"
    by (simp add: IsPublic_def)
  show "IsPublic (mapped a) = IsPublic a" if "length a = 4" for a
    using that by (auto simp: length4 IsPublic_def Let_def)
  show "IsPublic (compatible a) = IsPublic a" if "length a = 4" for a
    using that this_network_public by (auto simp: length4 IsPublic_def Let_def)
  show "\<not> IsPublic (nat64 a)" if "length a = 4" for a
    using that nat64_reserved by (auto simp: length4 IsPublic_def Let_def)
  show "\<not> IsPublic (six_to_four a rest)" if "length a = 4" "length rest = 10" for a rest
    using that six_to_four_reserved by (auto simp: length4 length10 IsPublic_def Let_def)
  show "\<not> IsPublic (nat64_local_use rest)" if "length rest = 10" for rest
    using that local_use_reserved by (auto simp: length10 IsPublic_def Let_def)
  show "\<not> IsPublic [169, 254, c, d]" for c d
    by (simp add: IsPublic_def IsLinkLocalUnicast_def ip_To4_def)
  have "list_all (\<lambda>m. \<not> IsPublic m) metadataAddrs"
    by code_simp
  then show "\<not> IsPublic m" if "m \<in> set metadataAddrs" for m
    using that by (simp add: list_all_iff)
qed

section \<open>Properties\<close>

lemma metadata_not_public:
  assumes "list_ex (\<lambda>m. ip_Equal norm m) metadataAddrs"
  shows "IsPrivate norm \<or> list_ex (\<lambda>blk. cidr_contains blk norm) reservedBlocks"
proof -
  consider "norm = [0xFD, 0x00, 0x0E, 0xC2, 0, 0, 0, 0, 0, 0, 0, 0, 0, 0, 0x02, 0x54]"
    | "norm = [100, 100, 100, 200]" | "norm = mapped [100, 100, 100, 200]"
    using assms by (auto simp: metadataAddrs_def ip_Equal_def mapped_def v4InV6Prefix_def split: if_splits)
  then show ?thesis
  proof cases
    case 1
    then show ?thesis
      by (simp add: IsPrivate_def ip_defs)
  next
    case 2
    then have "cidr_contains ([100, 64, 0, 0], 10) norm"
      by (simp add: cidr_contains_def ip_defs)
    then show ?thesis
      by (simp add: reservedBlocks_def)
  next
    case 3
    then have "cidr_contains ([100, 64, 0, 0], 10) norm"
      by (simp add: cidr_contains_def ip_defs)
    then show ?thesis
      by (simp add: reservedBlocks_def)
  qed
qed

lemma mapped_first: "take 12 ip = v4InV6Prefix \<Longrightarrow> ip ! 0 = 0"
  by (cases ip) (simp_all add: v4InV6Prefix_def)

lemma interface_local_multicast:
  assumes "IsInterfaceLocalMulticast ip"
  shows "IsMulticast ip"
proof -
  have "length ip = 16" "ip ! 0 = 0xFF"
    using assms by (simp_all add: IsInterfaceLocalMulticast_def)
  moreover from this mapped_first [of ip] have "ip_To4 ip = []"
    by (auto simp: ip_To4_def)
  ultimately show ?thesis
    by (simp add: IsMulticast_def)
qed

text \<open>The strict policy is contained in the permissive one: an address the agent may fetch a
  user-supplied URL from is never one the operator's own policy refuses.\<close>

theorem public_implies_allowed:
  assumes "IsPublic ip"
  shows "IsAllowed ip"
proof -
  have "\<not> list_ex (\<lambda>m. ip_Equal (normalizeIP ip) m) metadataAddrs"
    using assms metadata_not_public by (auto simp: IsPublic_def Let_def split: if_splits)
  moreover have "\<not> list_ex (\<lambda>blk. cidr_contains blk (normalizeIP ip)) blockedV6Prefixes"
    using assms by (auto simp: IsPublic_def blockedV6Prefixes_def reservedBlocks_def Let_def split: if_splits)
  ultimately show ?thesis
    using assms interface_local_multicast by (auto simp: IsPublic_def IsAllowed_def Let_def split: if_splits)
qed

theorem public_implies_allowed_witness: "IsPublic [1, 1, 1, 1] \<and> IsAllowed [1, 1, 1, 1]"
proof -
  have "IsPublic [1, 1, 1, 1]"
    by code_simp
  with public_implies_allowed [OF this] show ?thesis
    by simp
qed

text \<open>C34. Under either policy a refused IPv4 address stays refused in every form the package recognises
  (IPv4-mapped, IPv4-compatible, the well-known and the local-use NAT64 prefix, 6to4), and the metadata
  addresses of the clouds (the link-local range, fd00:ec2::254, 100.100.100.200) are always refused; so no
  dial the hook lets through, whatever the resolver answered, reaches one of them directly or in those forms.\<close>

theorem metadata_unreachable:
  assumes "allow = IsAllowed \<or> allow = IsPublic"
    and "dialControl split parse allow addr = Inr ()" "split addr = Inr host"
  shows "\<not> carries (parse host) [169, 254, c, d] \<and> \<not> carries (parse host) [100, 100, 100, 200] \<and>
    parse host \<notin> set metadataAddrs \<and> (\<forall>a. carries (parse host) a \<longrightarrow> allow a)"
proof -
  have pol: "dial_policy allow"
    using assms(1) allowed.dial_policy_axioms public.dial_policy_axioms by blast
  with assms(2,3) have ok: "allow (parse host)"
    using dial_policy.dial_ok by fastforce
  have "mapped [100, 100, 100, 200] \<in> set metadataAddrs"
    by (simp add: metadataAddrs_def mapped_def)
  then have "\<not> allow [100, 100, 100, 200]"
    using dial_policy.refuses_metadata [OF pol] dial_policy.mapped_same [OF pol, of "[100, 100, 100, 200]"] by simp
  with pol ok show ?thesis
    using dial_policy.no_disguise dial_policy.refuses_link_local dial_policy.refuses_metadata by blast
qed

theorem metadata_unreachable_witness:
  "\<not> carries [1, 1, 1, 1] [169, 254, 169, 254]"
proof -
  have "IsAllowed [1, 1, 1, 1]"
    by code_simp
  then have "dialControl (\<lambda>_. Inr ''1.1.1.1'') (\<lambda>_. [1, 1, 1, 1]) IsAllowed ''1.1.1.1:443'' = Inr ()"
    by (simp add: dialControl_def)
  from metadata_unreachable [OF _ this] show ?thesis
    by simp
qed

text \<open>The pre-flight check passes a host only if it is not a metadata name and the policy admits the
  address it denotes, or every one of the at least one addresses it resolves to.\<close>

theorem host_check_covers_all_addresses:
  "CheckHostAllowed parse lookup allow host = Inr () \<longleftrightarrow>
     host \<noteq> [] \<and> \<not> HostIsMetadata host \<and>
     (if parse host \<noteq> [] then allow (parse host)
      else \<exists>addrs. lookup host = Inr addrs \<and> addrs \<noteq> [] \<and> list_all allow addrs)"
  by (auto simp: CheckHostAllowed_def Let_def list_ex_iff list_all_iff split: sum.splits if_splits)

end
