(* ===== verification/Rbac.thy ===== *)
theory Rbac
  imports Go_Strings "HOL-Library.AList" "HOL-Library.Char_ord" "HOL-Library.List_Lexorder"
begin

text \<open>
  Authorization in the API gateway: \<^verbatim>\<open>api/internal/rbac\<close> (the permission catalog, the rule table, the
  middleware and the server identity it binds), \<^verbatim>\<open>api/internal/scope\<close> (which namespace and cluster a
  request is for) and \<^verbatim>\<open>api/internal/auth/perms.go\<close> (what a user's bindings grant).

  A request is its method, path and the two query values the gateway reads; the registry of clusters
  and the GameServers it can fetch are an argument.
\<close>

section \<open>Catalog\<close>

text \<open>The groups of \<^verbatim>\<open>Catalog\<close>: the resource, and each permission key with whether it is namespaced.\<close>

definition Catalog :: "(string \<times> (string \<times> bool) list) list" where
  "Catalog =
    [(''servers'',
      [(''servers:read'', True),
       (''servers:write'', True),
       (''servers:console'', True)]),
     (''backups'',
      [(''backups:read'', True),
       (''backups:write'', True),
       (''backups:restore'', True)]),
     (''schedules'',
      [(''schedules:read'', True),
       (''schedules:write'', True)]),
     (''templates'',
      [(''templates:read'', False),
       (''templates:write'', False)]),
     (''modules'',
      [(''modules:read'', False),
       (''modules:manage'', False)]),
     (''destinations'',
      [(''destinations:read'', True),
       (''destinations:manage'', True)]),
     (''cluster'',
      [(''cluster:read'', False),
       (''cluster:manage'', False)]),
     (''users'',
      [(''users:read'', False),
       (''users:manage'', False)]),
     (''roles'',
      [(''roles:read'', False),
       (''roles:manage'', False)]),
     (''audit'',
      [(''audit:read'', False)]),
     (''config'',
      [(''config:read'', False),
       (''config:manage'', False)]),
     (''captures'',
      [(''captures:manage'', True)])]"

definition permIndex :: "(string \<times> bool) list" where
  "permIndex = concat (map snd Catalog)"

definition ValidPermission :: "string \<Rightarrow> bool" where
  "ValidPermission key \<longleftrightarrow> map_of permIndex key \<noteq> None"

definition Namespaced :: "string \<Rightarrow> bool" where
  "Namespaced key = (case map_of permIndex key of None \<Rightarrow> False | Some n \<Rightarrow> n)"

section \<open>Rules\<close>

record rule =
  ru_method :: string
  ru_segment :: string
  ru_prefix :: string
  ru_suffix :: string
  ru_perm :: string

definition rules :: "rule list" where
  "rules =
    [rule.make ''GET'' ''fleet'' [] ''/fleet/servers'' [],
     rule.make ''GET'' ''fleet'' [] ''/fleet/backups'' [],
     rule.make ''GET'' ''fleet'' [] ''/fleet/schedules'' [],
     rule.make ''GET'' ''fleet'' [] ''/fleet/restores'' [],
     rule.make ''GET'' ''fleet'' [] ''/fleet/inventory'' [],
     rule.make ''GET'' ''fleet'' [] ''/fleet/placements'' [],
     rule.make ''GET'' ''users'' [] ''/users/me'' [],
     rule.make ''GET'' ''users'' [] ''/users/me/servers'' [],
     rule.make ''GET'' ''users'' [] ''/users/me/preferences'' [],
     rule.make ''PUT'' ''users'' [] ''/users/me/preferences'' [],
     rule.make ''POST'' ''users'' [] ''/users/me/preferences/reset'' [],
     rule.make ''PUT'' ''users'' [] ''/users/me/language'' [],
     rule.make ''GET'' ''users'' [] [] ''users:read'',
     rule.make [] ''users'' [] [] ''users:manage'',
     rule.make ''GET'' ''roles'' [] [] ''roles:read'',
     rule.make [] ''roles'' [] [] ''roles:manage'',
     rule.make ''GET'' ''admin'' [] ''/admin/installation'' [],
     rule.make ''GET'' ''admin'' ''/admin/audit'' [] ''audit:read'',
     rule.make ''GET'' ''admin'' ''/admin/config'' [] ''config:read'',
     rule.make [] ''admin'' ''/admin/config'' [] ''config:manage'',
     rule.make [] ''admin'' ''/admin/notifications'' [] ''config:manage'',
     rule.make [] ''admin'' ''/admin/auth'' [] ''config:manage'',
     rule.make [] ''admin'' ''/admin/registries'' [] ''config:manage'',
     rule.make ''GET'' ''admin'' ''/admin/telemetry'' [] ''config:read'',
     rule.make [] ''admin'' ''/admin/telemetry'' [] ''config:manage'',
     rule.make [] ''admin'' [] [] ''*'',
     rule.make ''POST'' ''servers'' [] '':capture-enable'' ''captures:manage'',
     rule.make ''POST'' ''servers'' [] '':capture-node-enable'' ''captures:manage'',
     rule.make ''POST'' ''servers'' [] '':capture-node-disable'' ''captures:manage'',
     rule.make ''POST'' ''servers'' [] '':capture-disable'' ''captures:manage'',
     rule.make ''POST'' ''servers'' [] '':capture-start'' ''captures:manage'',
     rule.make ''POST'' ''servers'' [] '':capture-stop'' ''captures:manage'',
     rule.make ''GET'' ''servers'' [] '':captures'' ''captures:manage'',
     rule.make ''GET'' ''servers'' [] '':capture-file'' ''captures:manage'',
     rule.make ''GET'' ''servers'' [] '':capture'' ''captures:manage'',
     rule.make ''DELETE'' ''servers'' [] '':capture'' ''captures:manage'',
     rule.make ''GET'' ''servers'' [] [] ''servers:read'',
     rule.make [] ''servers'' [] [] ''servers:write'',
     rule.make ''GET'' ''templates'' [] [] ''templates:read'',
     rule.make [] ''templates'' [] [] ''templates:write'',
     rule.make ''GET'' ''backups'' [] [] ''backups:read'',
     rule.make [] ''backups'' [] [] ''backups:write'',
     rule.make ''GET'' ''schedules'' [] [] ''schedules:read'',
     rule.make [] ''schedules'' [] [] ''schedules:write'',
     rule.make ''GET'' ''restores'' [] [] ''backups:read'',
     rule.make [] ''restores'' [] [] ''backups:restore'',
     rule.make ''GET'' ''backup-destinations'' [] [] ''destinations:read'',
     rule.make [] ''backup-destinations'' [] [] ''destinations:manage'',
     rule.make ''GET'' ''modules'' [] [] ''modules:read'',
     rule.make [] ''modules'' [] [] ''modules:manage'',
     rule.make ''GET'' ''cluster'' [] [] ''cluster:read'',
     rule.make [] ''cluster'' [] [] ''cluster:manage'',
     rule.make ''GET'' ''clusters'' [] [] [],
     rule.make [] ''clusters'' [] [] ''cluster:manage'',
     rule.make ''GET'' ''events'' [] [] ''servers:read'',
     rule.make ''GET'' ''ws'' [] ''/console'' ''servers:console'',
     rule.make ''GET'' ''ws'' [] ''/console-pty'' ''servers:console'',
     rule.make ''GET'' ''ws'' [] [] ''servers:read'',
     rule.make ''GET'' [] [] [] [],
     rule.make ''HEAD'' [] [] [] []]"

definition trim_prefix :: "string \<Rightarrow> string \<Rightarrow> string" where
  "trim_prefix s p = (if has_prefix s p then drop (length p) s else s)"

definition firstSegment :: "string \<Rightarrow> string" where
  "firstSegment path = takeWhile (\<lambda>c. c \<noteq> CHR ''/'') (trim_prefix path ''/'')"

definition rule_applies :: "string \<Rightarrow> string \<Rightarrow> rule \<Rightarrow> bool" where
  "rule_applies method path r \<longleftrightarrow>
     (ru_method r = [] \<or> ru_method r = method)
     \<and> (ru_segment r = [] \<or> ru_segment r = firstSegment path)
     \<and> (ru_prefix r = [] \<or> has_prefix path (ru_prefix r))
     \<and> (ru_suffix r = [] \<or> has_suffix path (ru_suffix r))"

definition match_rule :: "string \<Rightarrow> string \<Rightarrow> rule option" where
  "match_rule method path = find (rule_applies method path) rules"

text \<open>The server a path names: its name, verb, and whether the path is the server object itself.\<close>

definition index_any :: "char set \<Rightarrow> string \<Rightarrow> nat option" where
  "index_any cs s = (let i = length (takeWhile (\<lambda>c. c \<notin> cs) s) in if i < length s then Some i else None)"

definition parseServerPath :: "string \<Rightarrow> (string \<times> string \<times> bool) option" where
  "parseServerPath path =
     (let trimmed = trim_prefix (trim_prefix path ''/'') ''ws/'' in
      if \<not> has_prefix trimmed ''servers/'' then None
      else let rest = trim_prefix trimmed ''servers/'' in
        if rest = [] then None
        else (case index_any {CHR ''/'', CHR '':''} rest of
            None \<Rightarrow> Some (rest, [], True)
          | Some i \<Rightarrow>
              let name = take i rest in
              if name = [] then None
              else if rest ! i = CHR '':'' then
                (let after = drop (i + 1) rest in
                 case index_any {CHR ''/''} after of
                   None \<Rightarrow> if after = [] then None else Some (name, after, False)
                 | Some _ \<Rightarrow> None)
              else Some (name, [], False)))"

definition ownerOnlyOperation :: "string \<Rightarrow> string \<Rightarrow> bool \<Rightarrow> bool" where
  "ownerOnlyOperation method verb isExact \<longleftrightarrow>
     verb = ''transfer'' \<or> verb = ''collaborators'' \<or> verb = ''wipe-data'' \<or> (method = ''DELETE'' \<and> isExact)"

section \<open>Ownership\<close>

datatype ownership = roleOwner | roleCollaborator | roleNone

text \<open>A fetched GameServer: its annotations (absent as a whole when the object has none) and UID.\<close>

record server_obj =
  so_annotations :: "(string \<rightharpoonup> string) option"
  so_uid :: string

definition annotation :: "(string \<rightharpoonup> string) \<Rightarrow> string \<Rightarrow> string" where
  "annotation ann k = (case ann k of None \<Rightarrow> [] | Some v \<Rightarrow> v)"

definition ownershipRole :: "server_obj \<Rightarrow> int \<Rightarrow> ownership" where
  "ownershipRole obj userID =
     (case so_annotations obj of
        None \<Rightarrow> roleNone
      | Some ann \<Rightarrow>
          if parse_int64 (annotation ann ''gameplane.local/owner-id'') = Some userID then roleOwner
          else let collabs = annotation ann ''gameplane.local/collaborators'' in
            if collabs \<noteq> [] \<and>
               list_ex (\<lambda>id. let id = trim_space id in id \<noteq> [] \<and> parse_int64 id = Some userID)
                 (split_on CHR '','' collabs)
            then roleCollaborator else roleNone)"

section \<open>Permissions of a user\<close>

text \<open>Cluster, then namespace, then the permissions held there.\<close>

type_synonym perm_map = "(string \<times> (string \<times> string list) list) list"

record user =
  u_id :: int
  u_perms :: perm_map

definition perm_set :: "perm_map \<Rightarrow> string \<Rightarrow> string \<Rightarrow> string list" where
  "perm_set perms ck ns =
     (case map_of perms ck of None \<Rightarrow> [] | Some m \<Rightarrow> (case map_of m ns of None \<Rightarrow> [] | Some ps \<Rightarrow> ps))"

definition permSetHas :: "string list \<Rightarrow> string \<Rightarrow> bool" where
  "permSetHas ps key \<longleftrightarrow> key \<in> set ps"

definition cwHolds :: "user \<Rightarrow> string \<Rightarrow> string \<Rightarrow> bool" where
  "cwHolds u perm ck \<longleftrightarrow>
     permSetHas (perm_set (u_perms u) ck ''*'') ''*'' \<or> permSetHas (perm_set (u_perms u) ck ''*'') perm"

definition DefaultCluster :: string where
  "DefaultCluster = ''local''"

definition cluster_gated :: "string list" where
  "cluster_gated = [''cluster:read'', ''modules:read'', ''modules:manage'', ''templates:read'', ''templates:write'']"

definition Can :: "user \<Rightarrow> string \<Rightarrow> bool \<Rightarrow> string \<Rightarrow> string \<Rightarrow> bool" where
  "Can u perm namespaced cluster ns \<longleftrightarrow>
     (if perm \<in> set cluster_gated then
        (let cluster = (if cluster = [] then DefaultCluster else cluster)
         in cwHolds u perm cluster \<or> cwHolds u perm ''*'')
      else if \<not> namespaced then list_ex (cwHolds u perm) (map fst (u_perms u))
      else list_ex (\<lambda>ck. cwHolds u perm ck \<or>
             (ns \<noteq> [] \<and> ns \<noteq> ''*'' \<and>
                (permSetHas (perm_set (u_perms u) ck ns) ''*'' \<or> permSetHas (perm_set (u_perms u) ck ns) perm)))
           [cluster, ''*''])"

definition CanDiscoverCluster :: "user \<Rightarrow> string \<Rightarrow> bool" where
  "CanDiscoverCluster u cluster \<longleftrightarrow>
     Can u ''users:manage'' False [] [] \<or> Can u ''cluster:manage'' False [] []
     \<or> Can u ''cluster:read'' True cluster [] \<or> Can u ''modules:read'' True cluster []
     \<or> Can u ''modules:manage'' True cluster []
     \<or> list_ex (\<lambda>ck. case map_of (u_perms u) ck of None \<Rightarrow> False
          | Some m \<Rightarrow> list_ex (\<lambda>(_, ps). permSetHas ps ''*'' \<or> permSetHas ps ''servers:read'') m) [cluster, ''*'']"

text \<open>\<^verbatim>\<open>LoadPerms\<close> on the rows the query returned: cluster, namespace, permission.\<close>

definition assoc_upd :: "'k \<Rightarrow> ('v option \<Rightarrow> 'v) \<Rightarrow> ('k \<times> 'v) list \<Rightarrow> ('k \<times> 'v) list" where
  "assoc_upd k f m = AList.update k (f (map_of m k)) m"

definition or_empty :: "'a list option \<Rightarrow> 'a list" where
  "or_empty o' = (case o' of None \<Rightarrow> [] | Some xs \<Rightarrow> xs)"

definition add_perm :: "string \<times> string \<times> string \<Rightarrow> perm_map \<Rightarrow> perm_map" where
  "add_perm row perms = (case row of (cluster, ns, perm) \<Rightarrow>
     assoc_upd cluster (\<lambda>m. assoc_upd ns (\<lambda>ps. List.insert perm (or_empty ps)) (or_empty m)) perms)"

definition LoadPerms :: "(string \<times> string \<times> string) list \<Rightarrow> perm_map" where
  "LoadPerms rows = fold add_perm rows []"

definition PermsByClusterToJSON :: "perm_map \<Rightarrow> perm_map option" where
  "PermsByClusterToJSON perms =
     (if perms = [] then None
      else Some (map (\<lambda>(cluster, m). (cluster, map (\<lambda>(ns, ps). (ns, sort ps)) m)) perms))"

text \<open>The merge over all clusters, into one set per namespace.\<close>

definition merge_ns :: "string \<times> string list \<Rightarrow> (string \<times> string list) list \<Rightarrow> (string \<times> string list) list" where
  "merge_ns e merged = (case e of (ns, ps) \<Rightarrow> assoc_upd ns (\<lambda>qs. fold List.insert ps (or_empty qs)) merged)"

definition PermsToJSON :: "perm_map \<Rightarrow> (string \<times> string list) list option" where
  "PermsToJSON perms =
     (if perms = [] then None
      else Some (map (\<lambda>(ns, ps). (ns, sort ps)) (fold merge_ns (concat (map snd perms)) [])))"

section \<open>Scope of a request\<close>

record request =
  rq_method :: string
  rq_path :: string
  rq_namespace :: string
  rq_cluster :: string

definition DefaultNamespace :: string where
  "DefaultNamespace = ''gameplane-games''"

definition AllowedNamespaces :: "string \<Rightarrow> string list" where
  "AllowedNamespaces extra =
     DefaultNamespace # filter (\<lambda>n. n \<noteq> [] \<and> n \<noteq> DefaultNamespace) (map trim_space (split_on CHR '','' extra))"

definition Resolve_ns :: "string list \<Rightarrow> request \<Rightarrow> string option" where
  "Resolve_ns allowed req =
     (let requested = trim_space (rq_namespace req) in
      if requested = [] then Some DefaultNamespace
      else if requested \<in> set allowed then Some requested else None)"

definition RequestedCluster :: "request \<Rightarrow> string" where
  "RequestedCluster req =
     (let requested = trim_space (rq_cluster req) in if requested = [] then DefaultCluster else requested)"

definition ResolveCluster :: "request \<Rightarrow> string list \<Rightarrow> string option" where
  "ResolveCluster req ids =
     (let requested = RequestedCluster req in
      if trim_space (rq_cluster req) = [] then Some requested
      else if requested \<in> set ids then Some requested else None)"

section \<open>Middleware\<close>

record server_identity =
  si_cluster :: string
  si_namespace :: string
  si_name :: string
  si_uid :: string

text \<open>The registry: its cluster ids, and a GameServer by cluster, namespace and name, where an error and
  an absent object are both \<open>None\<close>, as the middleware treats them alike.\<close>

record fetcher =
  ft_ids :: "string list"
  ft_get :: "string \<Rightarrow> string \<Rightarrow> string \<Rightarrow> server_obj option"

datatype verdict =
    Unauthenticated
  | Forbidden
  | NamespaceNotPermitted
  | ClusterForbidden
  | Serve "server_identity option"

definition clusterInventoryRead :: "string \<Rightarrow> string \<Rightarrow> bool" where
  "clusterInventoryRead method path \<longleftrightarrow>
     method = ''GET'' \<and> (path = ''/cluster'' \<or> path = ''/cluster/info'' \<or> path = ''/cluster/stats'')"

definition allow :: "user \<Rightarrow> string \<Rightarrow> string \<Rightarrow> string \<Rightarrow> string \<Rightarrow> bool" where
  "allow u method path cluster ns =
     (case match_rule method path of
        None \<Rightarrow> False
      | Some r \<Rightarrow>
          if ru_perm r = [] then True
          else if clusterInventoryRead method path then Can u (ru_perm r) True cluster []
          else Can u (ru_perm r) (Namespaced (ru_perm r)) cluster ns)"

definition ReadPermission :: "string \<Rightarrow> string option" where
  "ReadPermission segment =
     (case match_rule ''GET'' (''/'' @ segment) of
        None \<Rightarrow> None | Some r \<Rightarrow> if ru_segment r = [] then None else Some (ru_perm r))"

definition identity_of :: "string \<Rightarrow> string \<Rightarrow> string \<Rightarrow> server_obj \<Rightarrow> server_identity" where
  "identity_of cl ns name obj = \<lparr>si_cluster = cl, si_namespace = ns, si_name = name, si_uid = so_uid obj\<rparr>"

text \<open>The branch of a request whose permission check failed.\<close>

definition ownerFallback ::
  "fetcher option \<Rightarrow> user \<Rightarrow> request \<Rightarrow> string \<Rightarrow> string \<Rightarrow> string \<Rightarrow> verdict" where
  "ownerFallback fetch u req perm cl ns =
     (case fetch of
        None \<Rightarrow> Forbidden
      | Some f \<Rightarrow>
          if Namespaced perm \<and> (perm = ''servers:read'' \<or> perm = ''servers:write'' \<or> perm = ''servers:console'')
          then (case parseServerPath (rq_path req) of
              None \<Rightarrow> Forbidden
            | Some (name, verb, isExact) \<Rightarrow>
                if isExact \<and> rq_method req \<noteq> ''GET'' \<and> rq_method req \<noteq> ''HEAD'' \<and> rq_method req \<noteq> ''DELETE''
                then Forbidden
                else (case ft_get f cl ns name of
                    None \<Rightarrow> Forbidden
                  | Some obj \<Rightarrow>
                      let role = ownershipRole obj (u_id u) in
                      if role \<noteq> roleNone \<and>
                         (role = roleOwner \<or> \<not> ownerOnlyOperation (rq_method req) verb isExact)
                      then Serve (Some (identity_of cl ns name obj)) else Forbidden))
          else Forbidden)"

text \<open>The branch of a request whose permission check passed.\<close>

definition ownerOnlyGate ::
  "fetcher option \<Rightarrow> user \<Rightarrow> request \<Rightarrow> string \<Rightarrow> string \<Rightarrow> string \<Rightarrow> verdict" where
  "ownerOnlyGate fetch u req perm cl ns =
     (if Namespaced perm \<and> \<not> Can u ''*'' True cl ns
      then (case parseServerPath (rq_path req) of
          None \<Rightarrow> Serve None
        | Some (name, verb, isExact) \<Rightarrow>
            if \<not> ownerOnlyOperation (rq_method req) verb isExact then Serve None
            else (case fetch of
                None \<Rightarrow> Forbidden
              | Some f \<Rightarrow> (case ft_get f cl ns name of
                    None \<Rightarrow> Forbidden
                  | Some obj \<Rightarrow>
                      if ownershipRole obj (u_id u) \<noteq> roleOwner then Forbidden
                      else Serve (Some (identity_of cl ns name obj)))))
      else Serve None)"

text \<open>The cluster the check is made against before a namespaced permission resolves it.\<close>

definition initialCluster :: "request \<Rightarrow> string" where
  "initialCluster req =
     (if clusterInventoryRead (rq_method req) (rq_path req) \<or> has_prefix (rq_path req) ''/modules''
         \<or> has_prefix (rq_path req) ''/templates''
      then RequestedCluster req else DefaultCluster)"

definition authorize ::
  "fetcher option \<Rightarrow> user \<Rightarrow> request \<Rightarrow> string \<Rightarrow> string \<Rightarrow> string \<Rightarrow> verdict" where
  "authorize fetch u req perm cl ns =
     (if \<not> allow u (rq_method req) (rq_path req) cl ns then ownerFallback fetch u req perm cl ns
      else ownerOnlyGate fetch u req perm cl ns)"

definition Middleware :: "string list \<Rightarrow> fetcher option \<Rightarrow> user option \<Rightarrow> request \<Rightarrow> verdict" where
  "Middleware allowed fetch user req =
     (case user of
        None \<Rightarrow> Unauthenticated
      | Some u \<Rightarrow> (case match_rule (rq_method req) (rq_path req) of
            None \<Rightarrow> Forbidden
          | Some r \<Rightarrow>
              if ru_perm r = [] then Serve None
              else if Namespaced (ru_perm r) then
                (case Resolve_ns allowed req of
                   None \<Rightarrow> NamespaceNotPermitted
                 | Some ns \<Rightarrow> (case fetch of
                       None \<Rightarrow> authorize fetch u req (ru_perm r) (initialCluster req) ns
                     | Some f \<Rightarrow> (case ResolveCluster req (ft_ids f) of
                           None \<Rightarrow> ClusterForbidden
                         | Some cl \<Rightarrow> authorize fetch u req (ru_perm r) cl ns)))
              else authorize fetch u req (ru_perm r) (initialCluster req) []))"

datatype identity_error = ErrServerIdentityChanged

definition ValidateServerIdentity ::
  "server_identity option \<Rightarrow> string \<Rightarrow> string \<Rightarrow> string \<Rightarrow> string \<Rightarrow> identity_error + unit" where
  "ValidateServerIdentity bound cluster namespace name uid =
     (case bound of
        None \<Rightarrow> Inr ()
      | Some b \<Rightarrow>
          if si_uid b = [] \<or>
             b \<noteq> \<lparr>si_cluster = cluster, si_namespace = namespace, si_name = name, si_uid = uid\<rparr>
          then Inl ErrServerIdentityChanged else Inr ())"

section \<open>Grants\<close>

lemma perm_set_upd:
  "perm_set (assoc_upd c (\<lambda>m. assoc_upd n f (or_empty m)) perms) ck ns =
     (if ck = c \<and> ns = n then f (map_of (or_empty (map_of perms c)) n) else perm_set perms ck ns)"
  by (auto simp: perm_set_def assoc_upd_def or_empty_def update_conv split: option.splits)

lemma perm_set_alt: "perm_set perms ck ns = or_empty (map_of (or_empty (map_of perms ck)) ns)"
  by (simp add: perm_set_def or_empty_def split: option.splits)

lemma add_perm_set:
  "p \<in> set (perm_set (add_perm row perms) c n) \<longleftrightarrow> row = (c, n, p) \<or> p \<in> set (perm_set perms c n)"
  by (cases row) (auto simp: add_perm_def perm_set_upd simp flip: perm_set_alt)

lemma LoadPerms_set: "p \<in> set (perm_set (LoadPerms rows) c n) \<longleftrightarrow> (c, n, p) \<in> set rows"
proof -
  have "p \<in> set (perm_set (fold add_perm rows perms) c n) \<longleftrightarrow> (c, n, p) \<in> set rows \<or> p \<in> set (perm_set perms c n)"
    for perms
    by (induction rows arbitrary: perms) (auto simp: add_perm_set)
  from this [of "[]"] show ?thesis
    by (simp add: LoadPerms_def perm_set_def)
qed

text \<open>The rows that can grant a permission at a place.\<close>

definition granting :: "string \<Rightarrow> string set \<Rightarrow> string set \<Rightarrow> (string \<times> string \<times> string) set" where
  "granting perm clusters namespaces = clusters \<times> namespaces \<times> {perm, ''*''}"

lemma cwHolds_rows:
  "u_perms u = LoadPerms rows \<Longrightarrow> cwHolds u perm ck \<longleftrightarrow> set rows \<inter> granting perm {ck} {''*''} \<noteq> {}"
  by (auto simp: cwHolds_def permSetHas_def LoadPerms_set granting_def)

lemma Can_namespaced_rows:
  assumes "u_perms u = LoadPerms rows" "perm \<notin> set cluster_gated" "ns \<noteq> []"
  shows "Can u perm True cl ns \<longleftrightarrow> set rows \<inter> granting perm {cl, ''*''} {ns, ''*''} \<noteq> {}"
  using assms(2,3) cwHolds_rows [OF assms(1)]
  by (auto simp: Can_def permSetHas_def assms(1) LoadPerms_set granting_def)

text \<open>C5. A namespaced permission is granted on a cluster and namespace exactly when one of the user's
  binding rows names that cluster or the wildcard cluster, that namespace or the whole cluster, and
  that permission or the wildcard: a binding on one cluster never confers anything on another, and
  one in a namespace nothing outside it.\<close>

theorem namespaced_grant_iff_binding:
  assumes "u_perms u = LoadPerms rows" "Namespaced perm" "ns \<noteq> []"
  shows "Can u perm (Namespaced perm) cl ns \<longleftrightarrow>
    (\<exists>c n p. (c, n, p) \<in> set rows \<and> (c = cl \<or> c = ''*'') \<and> (n = ns \<or> n = ''*'') \<and> (p = perm \<or> p = ''*''))"
proof -
  have "perm \<notin> set cluster_gated"
    using assms(2) by (auto simp: cluster_gated_def Namespaced_def permIndex_def Catalog_def)
  from Can_namespaced_rows [OF assms(1) this assms(3)] assms(2) show ?thesis
    by (auto simp: granting_def)
qed

theorem namespaced_grant_iff_binding_witness:
  "\<not> Can \<lparr>u_id = 7, u_perms = LoadPerms [(''eu'', ''*'', ''*'')]\<rparr> ''servers:write'' True ''us'' ''games''"
proof -
  have "Namespaced ''servers:write''"
    by (simp add: Namespaced_def permIndex_def Catalog_def)
  then show ?thesis
    using namespaced_grant_iff_binding [of "\<lparr>u_id = 7, u_perms = LoadPerms [(''eu'', ''*'', ''*'')]\<rparr>"
        "[(''eu'', ''*'', ''*'')]" "''servers:write''" "''games''" "''us''"]
    by simp
qed

section \<open>The middleware\<close>

definition target_cluster :: "fetcher option \<Rightarrow> request \<Rightarrow> string option" where
  "target_cluster fetch req =
     (case fetch of None \<Rightarrow> Some (initialCluster req) | Some f \<Rightarrow> ResolveCluster req (ft_ids f))"

lemma Middleware_namespaced:
  assumes "Middleware allowed fetch user req = Serve i"
    and "match_rule (rq_method req) (rq_path req) = Some r" "Namespaced (ru_perm r)"
  obtains u ns cl where "user = Some u" "Resolve_ns allowed req = Some ns" "target_cluster fetch req = Some cl"
    "authorize fetch u req (ru_perm r) cl ns = Serve i"
proof -
  have "ru_perm r \<noteq> []"
    using assms(3) by (auto simp: Namespaced_def permIndex_def Catalog_def)
  with assms that show ?thesis
    by (auto simp: Middleware_def target_cluster_def split: option.splits)
qed

lemma ownerFallback_Serve:
  assumes "ownerFallback fetch u req perm cl ns = Serve i"
  obtains f name verb isExact obj where "fetch = Some f"
    "perm \<in> {''servers:read'', ''servers:write'', ''servers:console''}"
    "parseServerPath (rq_path req) = Some (name, verb, isExact)" "ft_get f cl ns name = Some obj"
    "ownershipRole obj (u_id u) \<noteq> roleNone" "i = Some (identity_of cl ns name obj)"
    "ownerOnlyOperation (rq_method req) verb isExact \<Longrightarrow> ownershipRole obj (u_id u) = roleOwner"
  using assms that by (auto simp: ownerFallback_def Let_def split: option.splits if_splits)

lemma ownerOnlyGate_Serve:
  assumes "ownerOnlyGate fetch u req perm cl ns = Serve i" "Namespaced perm" "\<not> Can u ''*'' True cl ns"
    and "parseServerPath (rq_path req) = Some (name, verb, isExact)" "ownerOnlyOperation (rq_method req) verb isExact"
  obtains f obj where "fetch = Some f" "ft_get f cl ns name = Some obj"
    "ownershipRole obj (u_id u) = roleOwner" "i = Some (identity_of cl ns name obj)"
  using assms that by (auto simp: ownerOnlyGate_def split: option.splits if_splits)

lemma allow_namespaced:
  assumes "match_rule (rq_method req) (rq_path req) = Some r" "Namespaced (ru_perm r)"
    and "allow u (rq_method req) (rq_path req) cl ns" "ns \<noteq> []"
  shows "Can u (ru_perm r) True cl ns"
proof -
  have "Can u p True cl [] \<Longrightarrow> Can u p True cl ns" for p
    using assms(4) by (auto simp: Can_def)
  moreover have "ru_perm r \<noteq> []"
    using assms(2) by (auto simp: Namespaced_def permIndex_def Catalog_def)
  ultimately show ?thesis
    using assms by (auto simp: allow_def split: if_splits)
qed

lemma Resolve_ns_nonempty: "Resolve_ns allowed req = Some ns \<Longrightarrow> ns \<noteq> []"
  by (auto simp: Resolve_ns_def DefaultNamespace_def Let_def split: if_splits)

text \<open>What a served request rests on: a permission in the resolved cluster and namespace, or a role on
  the very server it names there.\<close>

definition has_role :: "fetcher option \<Rightarrow> user \<Rightarrow> string \<Rightarrow> string \<Rightarrow> string \<Rightarrow> ownership \<Rightarrow> server_identity \<Rightarrow> bool" where
  "has_role fetch u cl ns name role i \<longleftrightarrow>
     (\<exists>f obj. fetch = Some f \<and> ft_get f cl ns name = Some obj \<and> ownershipRole obj (u_id u) = role
        \<and> i = identity_of cl ns name obj)"

definition owner_fetcher :: fetcher where
  "owner_fetcher = \<lparr>ft_ids = [''local''], ft_get = (\<lambda>cl ns name. Some
     \<lparr>so_annotations = Some (Map.empty(''gameplane.local/owner-id'' \<mapsto> ''7'')), so_uid = ''uid-1''\<rparr>)\<rparr>"

definition delete_request :: request where
  "delete_request = \<lparr>rq_method = ''DELETE'', rq_path = ''/servers/a'', rq_namespace = [], rq_cluster = []\<rparr>"

definition owner_identity :: server_identity where
  "owner_identity = \<lparr>si_cluster = ''local'', si_namespace = ''gameplane-games'', si_name = ''a'', si_uid = ''uid-1''\<rparr>"

lemma delete_request_facts:
  "match_rule (rq_method delete_request) (rq_path delete_request) = Some (rule.make [] ''servers'' [] [] ''servers:write'')"
  "Namespaced ''servers:write''"
  "parseServerPath (rq_path delete_request) = Some (''a'', [], True)"
  "ownerOnlyOperation (rq_method delete_request) [] True"
  by (simp_all add: delete_request_def match_rule_def rules_def rule.make_def rule_applies_def firstSegment_def
      trim_prefix_def has_prefix_def has_suffix_def Namespaced_def permIndex_def Catalog_def parseServerPath_def
      index_any_def ownerOnlyOperation_def)

lemma delete_request_served:
  "Middleware [] (Some owner_fetcher) (Some \<lparr>u_id = 7, u_perms = []\<rparr>) delete_request = Serve (Some owner_identity)"
proof -
  have owner: "ownershipRole \<lparr>so_annotations = Some (Map.empty(''gameplane.local/owner-id'' \<mapsto> ''7'')), so_uid = ''uid-1''\<rparr> 7
      = roleOwner"
    by (simp add: ownershipRole_def annotation_def parse_int64_def parse_digits_def is_digit_def in_rng_def digits_value_def)
  have "\<not> Can \<lparr>u_id = 7, u_perms = []\<rparr> ''servers:write'' True cl ns" for cl ns
    by (simp add: Can_def cwHolds_def permSetHas_def perm_set_def cluster_gated_def)
  moreover have "Resolve_ns [] delete_request = Some DefaultNamespace" "ResolveCluster delete_request ids = Some DefaultCluster" for ids
    by (simp_all add: delete_request_def Resolve_ns_def ResolveCluster_def RequestedCluster_def trim_space_def)
  ultimately show ?thesis
    using delete_request_facts owner
    by (simp add: Middleware_def authorize_def allow_def ownerFallback_def rule.make_def owner_fetcher_def
        identity_of_def owner_identity_def clusterInventoryRead_def DefaultCluster_def DefaultNamespace_def)
      (simp add: delete_request_def)
qed

text \<open>C4. Every request the middleware serves on a route that needs a namespaced permission is made by an
  authenticated user who holds that permission in the validated namespace and cluster the request is
  resolved to, or, on the server routes only, who owns or collaborates on the server the path names
  there; in that case the handler is bound to the identity of that server.\<close>

theorem middleware_authorizes:
  assumes "Middleware allowed fetch user req = Serve i"
    and "match_rule (rq_method req) (rq_path req) = Some r" "Namespaced (ru_perm r)"
  shows "\<exists>u ns cl. user = Some u \<and> Resolve_ns allowed req = Some ns \<and> target_cluster fetch req = Some cl \<and>
    (Can u (ru_perm r) True cl ns
     \<or> ru_perm r \<in> {''servers:read'', ''servers:write'', ''servers:console''} \<and>
       (\<exists>name verb isExact role si. parseServerPath (rq_path req) = Some (name, verb, isExact)
          \<and> role \<noteq> roleNone \<and> has_role fetch u cl ns name role si \<and> i = Some si))"
proof -
  obtain u ns cl where *: "user = Some u" "Resolve_ns allowed req = Some ns" "target_cluster fetch req = Some cl"
    "authorize fetch u req (ru_perm r) cl ns = Serve i"
    using Middleware_namespaced [OF assms] by blast
  show ?thesis
  proof (cases "allow u (rq_method req) (rq_path req) cl ns")
    case True
    with * allow_namespaced [OF assms(2,3) True Resolve_ns_nonempty] show ?thesis
      by blast
  next
    case False
    with *(4) have "ownerFallback fetch u req (ru_perm r) cl ns = Serve i"
      by (simp add: authorize_def)
    then show ?thesis
      using * by (elim ownerFallback_Serve) (auto simp: has_role_def)
  qed
qed

theorem middleware_authorizes_witness:
  "\<exists>u ns cl. Resolve_ns [] delete_request = Some ns \<and> target_cluster (Some owner_fetcher) delete_request = Some cl \<and>
     (Can u ''servers:write'' True cl ns \<or>
      (\<exists>name role si. role \<noteq> roleNone \<and> has_role (Some owner_fetcher) u cl ns name role si))"
  using middleware_authorizes [OF delete_request_served delete_request_facts(1)] delete_request_facts(2)
  by (simp add: rule.make_def) blast

text \<open>C3. An owner-only operation (ownership transfer, collaborator edits, data wipe, deleting the server)
  is served only to an administrator of the resolved cluster and namespace or to the owner of the
  server it names, whatever else the caller holds; an owner's request is bound to that server's UID.
  A collaborator never gets through.\<close>

theorem owner_only_operations:
  assumes "Middleware allowed fetch user req = Serve i"
    and "match_rule (rq_method req) (rq_path req) = Some r" "Namespaced (ru_perm r)"
    and "parseServerPath (rq_path req) = Some (name, verb, isExact)" "ownerOnlyOperation (rq_method req) verb isExact"
  shows "\<exists>u ns cl. user = Some u \<and> Resolve_ns allowed req = Some ns \<and> target_cluster fetch req = Some cl \<and>
    (Can u ''*'' True cl ns \<or> (\<exists>si. has_role fetch u cl ns name roleOwner si \<and> i = Some si))"
proof -
  obtain u ns cl where *: "user = Some u" "Resolve_ns allowed req = Some ns" "target_cluster fetch req = Some cl"
    "authorize fetch u req (ru_perm r) cl ns = Serve i"
    using Middleware_namespaced [OF assms(1-3)] by blast
  have "Can u ''*'' True cl ns \<or> (\<exists>si. has_role fetch u cl ns name roleOwner si \<and> i = Some si)"
  proof (cases "allow u (rq_method req) (rq_path req) cl ns")
    case True
    then have "ownerOnlyGate fetch u req (ru_perm r) cl ns = Serve i"
      using *(4) by (simp add: authorize_def)
    with assms(3-5) show ?thesis
      by (cases "Can u ''*'' True cl ns") (auto elim!: ownerOnlyGate_Serve simp: has_role_def)
  next
    case False
    then have "ownerFallback fetch u req (ru_perm r) cl ns = Serve i"
      using *(4) by (simp add: authorize_def)
    with assms(4,5) show ?thesis
      by (elim ownerFallback_Serve) (auto simp: has_role_def)
  qed
  with * show ?thesis
    by blast
qed

theorem owner_only_operations_witness:
  "\<exists>ns cl. target_cluster (Some owner_fetcher) delete_request = Some cl \<and>
     (Can \<lparr>u_id = 7, u_perms = []\<rparr> ''*'' True cl ns \<or>
      has_role (Some owner_fetcher) \<lparr>u_id = 7, u_perms = []\<rparr> cl ns ''a'' roleOwner owner_identity)"
  using owner_only_operations [OF delete_request_served delete_request_facts(1) _ delete_request_facts(3,4)]
    delete_request_facts(2)
  by (simp add: rule.make_def) blast

section \<open>The rule table\<close>

text \<open>The routes of the network-capture feature.\<close>

definition capture_routes :: "(string \<times> string) list" where
  "capture_routes =
     [(''POST'', '':capture-enable''), (''POST'', '':capture-node-enable''), (''POST'', '':capture-node-disable''),
      (''POST'', '':capture-disable''), (''POST'', '':capture-start''), (''POST'', '':capture-stop''),
      (''GET'', '':captures''), (''GET'', '':capture-file''), (''GET'', '':capture''), (''DELETE'', '':capture'')]"

definition capture_rules :: "rule list" where
  "capture_rules = map (\<lambda>(m, v). rule.make m ''servers'' [] v ''captures:manage'') capture_routes"

lemma find_append_case:
  "find P (xs @ ys) = (case find P xs of None \<Rightarrow> find P ys | Some x \<Rightarrow> Some x)"
  by (induction xs) auto

text \<open>No rule above the capture rules is for the \<open>servers\<close> segment.\<close>

lemma rules_split:
  "\<exists>pre post. rules = pre @ capture_rules @ post \<and> (\<forall>r\<in>set pre. ru_segment r \<notin> {[], ''servers''})"
  by (intro exI [of _ "take 26 rules"] exI [of _ "drop 36 rules"])
    (simp add: rules_def capture_rules_def capture_routes_def rule.make_def)

lemma firstSegment_server: "firstSegment (''/servers/'' @ rest) = ''servers''"
  by (simp add: firstSegment_def trim_prefix_def has_prefix_def)

lemma has_suffix_append [simp]: "has_suffix (xs @ v) v"
  by (simp add: has_suffix_def)

lemma capture_match:
  assumes "(m, v) \<in> set capture_routes"
  shows "\<exists>r. match_rule m (''/servers/'' @ name @ v) = Some r \<and> ru_perm r = ''captures:manage''"
proof -
  let ?path = "''/servers/'' @ name @ v"
  obtain pre post where rules: "rules = pre @ capture_rules @ post"
    and pre: "\<forall>r\<in>set pre. ru_segment r \<notin> {[], ''servers''}"
    using rules_split by blast
  have "find (rule_applies m ?path) pre = None"
    using pre firstSegment_server [of "name @ v"] by (auto simp: find_None_iff rule_applies_def)
  moreover have hit: "rule.make m ''servers'' [] v ''captures:manage'' \<in> set capture_rules"
    using assms by (force simp: capture_rules_def)
  moreover have "rule_applies m ?path (rule.make m ''servers'' [] v ''captures:manage'')"
    using firstSegment_server [of "name @ v"] has_suffix_append [of "''/servers/'' @ name" v]
    by (simp add: rule_applies_def rule.make_def)
  ultimately obtain r where "find (rule_applies m ?path) capture_rules = Some r"
    by (cases "find (rule_applies m ?path) capture_rules") (auto simp: find_None_iff)
  moreover from this have "r \<in> set capture_rules"
    by (auto simp: find_Some_iff)
  then have "ru_perm r = ''captures:manage''"
    by (auto simp: capture_rules_def rule.make_def)
  ultimately show ?thesis
    using \<open>find (rule_applies m ?path) pre = None\<close> by (simp add: match_rule_def rules find_append_case)
qed

text \<open>C6. Every capture route, on every server name, is served only to a user holding \<open>captures:manage\<close> (or
  the wildcard) there: the \<open>servers:write\<close> catch-all below never applies to it, and neither owning the
  server nor collaborating on it helps.\<close>

theorem capture_routes_guarded:
  assumes "(rq_method req, v) \<in> set capture_routes" "rq_path req = ''/servers/'' @ name @ v"
    and "Middleware allowed fetch (Some u) req = Serve i"
  shows "\<exists>ns cl. Resolve_ns allowed req = Some ns \<and> target_cluster fetch req = Some cl
    \<and> Can u ''captures:manage'' True cl ns"
proof -
  obtain r where r: "match_rule (rq_method req) (rq_path req) = Some r" "ru_perm r = ''captures:manage''"
    using capture_match [OF assms(1)] assms(2) by auto
  have n: "Namespaced (ru_perm r)"
    by (simp add: r Namespaced_def permIndex_def Catalog_def)
  obtain ns cl where *: "Resolve_ns allowed req = Some ns" "target_cluster fetch req = Some cl"
    "authorize fetch u req (ru_perm r) cl ns = Serve i"
    using Middleware_namespaced [OF assms(3) r(1) n] by blast
  have "allow u (rq_method req) (rq_path req) cl ns"
  proof (rule ccontr)
    assume "\<not> ?thesis"
    then have "ownerFallback fetch u req (ru_perm r) cl ns = Serve i"
      using *(3) by (simp add: authorize_def)
    then show False
      by (rule ownerFallback_Serve) (simp add: r)
  qed
  with allow_namespaced [OF r(1) n this] Resolve_ns_nonempty * r(2) show ?thesis
    by auto
qed

theorem capture_routes_guarded_witness:
  "\<forall>i. Middleware [] None (Some \<lparr>u_id = 7, u_perms = [(''local'', [(''*'', [''servers:write''])])]\<rparr>)
     \<lparr>rq_method = ''POST'', rq_path = ''/servers/a:capture-start'', rq_namespace = [], rq_cluster = []\<rparr> \<noteq> Serve i"
proof (intro allI notI)
  fix i
  let ?req = "\<lparr>rq_method = ''POST'', rq_path = ''/servers/a:capture-start'', rq_namespace = [], rq_cluster = []\<rparr>"
  let ?u = "\<lparr>u_id = 7, u_perms = [(''local'', [(''*'', [''servers:write''])])]\<rparr>"
  assume "Middleware [] None (Some ?u) ?req = Serve i"
  then have "\<exists>ns cl. Resolve_ns [] ?req = Some ns \<and> target_cluster None ?req = Some cl \<and> Can ?u ''captures:manage'' True cl ns"
    using capture_routes_guarded [of ?req "'':capture-start''" "''a''" "[]" None ?u i]
    by (simp add: capture_routes_def)
  then show False
    by (auto simp: Can_def cwHolds_def permSetHas_def perm_set_def cluster_gated_def split: if_splits)
qed

text \<open>Every permission the table asks for is in the catalog, so it can be granted; the exceptions are the
  empty one (any authenticated user) and the administrator's wildcard.\<close>

lemma ValidPermission_iff: "ValidPermission key \<longleftrightarrow> key \<in> set (map fst permIndex)"
  by (simp add: ValidPermission_def map_of_eq_None_iff)

lemma rules_in_catalog:
  "list_all (\<lambda>r. ru_perm r = [] \<or> ru_perm r = ''*'' \<or> ru_perm r \<in> set (map fst permIndex)) rules"
  by code_simp

lemma wildcard_not_grantable: "\<not> ValidPermission ''*''"
  by (simp add: ValidPermission_def permIndex_def Catalog_def)

section \<open>The permission read model\<close>

definition keyed :: "('k \<times> 'v) list \<Rightarrow> bool" where
  "keyed m \<longleftrightarrow> distinct (map fst m)"

lemma keyed_upd: "keyed m \<Longrightarrow> keyed (assoc_upd k f m)"
  by (simp add: keyed_def assoc_upd_def distinct_update)

lemma keyed_or_empty: "(\<And>m. o' = Some m \<Longrightarrow> keyed m) \<Longrightarrow> keyed (or_empty o')"
  by (cases o') (simp_all add: or_empty_def keyed_def)

definition perms_keyed :: "perm_map \<Rightarrow> bool" where
  "perms_keyed perms \<longleftrightarrow> keyed perms \<and> (\<forall>(c, m) \<in> set perms. keyed m)"

lemma perms_keyed_add: "perms_keyed perms \<Longrightarrow> perms_keyed (add_perm row perms)"
proof -
  assume k: "perms_keyed perms"
  obtain c n p where row: "row = (c, n, p)"
    by (cases row)
  let ?m = "assoc_upd n (\<lambda>ps. List.insert p (or_empty ps)) (or_empty (map_of perms c))"
  have new: "keyed ?m"
    using k by (intro keyed_upd keyed_or_empty) (auto simp: perms_keyed_def dest: map_of_SomeD)
  have all: "keyed (add_perm row perms)"
    using k by (auto simp: perms_keyed_def row add_perm_def intro: keyed_upd)
  have "keyed m" if "(d, m) \<in> set (add_perm row perms)" for d m
  proof -
    from all that have "map_of (add_perm row perms) d = Some m"
      by (simp add: keyed_def)
    then have "m = ?m \<or> map_of perms d = Some m"
      by (auto simp: row add_perm_def assoc_upd_def update_conv split: if_splits)
    with new k show ?thesis
      by (auto simp: perms_keyed_def dest: map_of_SomeD)
  qed
  with all show ?thesis
    by (auto simp: perms_keyed_def)
qed

lemma perms_keyed_LoadPerms: "perms_keyed (LoadPerms rows)"
proof -
  have "perms_keyed perms \<Longrightarrow> perms_keyed (fold add_perm rows perms)" for perms
    by (induction rows arbitrary: perms) (auto intro: perms_keyed_add)
  moreover have "perms_keyed []"
    by (simp add: perms_keyed_def keyed_def)
  ultimately show ?thesis
    by (simp add: LoadPerms_def)
qed

lemma perms_keyed_entries:
  assumes "perms_keyed perms"
  shows "(\<exists>m ps. (c, m) \<in> set perms \<and> (n, ps) \<in> set m \<and> p \<in> set ps) \<longleftrightarrow> p \<in> set (perm_set perms c n)"
  using assms
  by (fastforce simp: perms_keyed_def keyed_def perm_set_def split: option.splits dest: map_of_SomeD)

lemma merge_ns_one:
  "set (or_empty (map_of (merge_ns e merged) n)) = {p. e = (n, snd e) \<and> p \<in> set (snd e)} \<union> set (or_empty (map_of merged n))"
proof -
  have ins: "set (fold List.insert ps qs) = set ps \<union> set qs" for ps qs :: "string list"
    by (induction ps arbitrary: qs) auto
  obtain k ps where e: "e = (k, ps)"
    by (cases e)
  show ?thesis
    by (cases "k = n") (simp_all add: e merge_ns_def assoc_upd_def update_conv or_empty_def [of "Some _"] ins)
qed

lemma merge_ns_set:
  "p \<in> set (or_empty (map_of (fold merge_ns es merged) n)) \<longleftrightarrow>
     (\<exists>ps. (n, ps) \<in> set es \<and> p \<in> set ps) \<or> p \<in> set (or_empty (map_of merged n))"
  by (induction es arbitrary: merged) (auto simp: merge_ns_one)

lemma map_of_map_sort: "map_of (map (\<lambda>(n, ps). (n, sort ps)) m) n = map_option sort (map_of m n)"
  by (induction m) auto

text \<open>The flattened read model shown to a client lists, per namespace and in sorted order, exactly the
  permissions some binding of the user grants there on some cluster: nothing is lost and nothing is
  invented by loading, merging and sorting.\<close>

theorem PermsToJSON_complete:
  assumes "PermsToJSON (LoadPerms rows) = Some out"
  shows "(\<exists>ps. map_of out n = Some ps \<and> sorted ps \<and> p \<in> set ps) \<longleftrightarrow> (\<exists>c. (c, n, p) \<in> set rows)"
proof -
  let ?merged = "fold merge_ns (concat (map snd (LoadPerms rows))) []"
  have out: "out = map (\<lambda>(n, ps). (n, sort ps)) ?merged"
    using assms by (simp add: PermsToJSON_def split: if_splits)
  have "(\<exists>ps. map_of out n = Some ps \<and> sorted ps \<and> p \<in> set ps) \<longleftrightarrow> p \<in> set (or_empty (map_of ?merged n))"
    by (cases "map_of ?merged n") (auto simp: out map_of_map_sort or_empty_def)
  also have "\<dots> \<longleftrightarrow> (\<exists>ps. (n, ps) \<in> set (concat (map snd (LoadPerms rows))) \<and> p \<in> set ps)"
    by (simp only: merge_ns_set) (simp add: or_empty_def)
  also have "\<dots> \<longleftrightarrow> (\<exists>c m ps. (c, m) \<in> set (LoadPerms rows) \<and> (n, ps) \<in> set m \<and> p \<in> set ps)"
    by force
  also have "\<dots> \<longleftrightarrow> (\<exists>c. p \<in> set (perm_set (LoadPerms rows) c n))"
    using perms_keyed_entries [OF perms_keyed_LoadPerms] by blast
  finally show ?thesis
    by (simp only: LoadPerms_set)
qed

theorem PermsToJSON_complete_witness:
  "\<exists>out ps. PermsToJSON (LoadPerms [(''eu'', ''*'', ''users:read'')]) = Some out \<and> map_of out ''*'' = Some ps
     \<and> ''users:read'' \<in> set ps"
proof -
  obtain out where out: "PermsToJSON (LoadPerms [(''eu'', ''*'', ''users:read'')]) = Some out"
    by (simp add: PermsToJSON_def LoadPerms_def add_perm_def assoc_upd_def)
  from PermsToJSON_complete [OF out, of "''*''" "''users:read''"] show ?thesis
    using out by auto
qed

end
