(* ===== verification/Go_Time.thy ===== *)
theory Go_Time
  imports Go_Strings
begin

text \<open>
  The calendar part of Go's \<^verbatim>\<open>time\<close> package that the operator relies on: the proleptic Gregorian
  calendar, \<^verbatim>\<open>Time.Format(time.RFC3339)\<close> on a UTC time, and \<^verbatim>\<open>time.Parse(time.RFC3339, \<dots>)\<close> with the
  leniencies of the library's parser (a one-digit hour, fractional seconds, numeric offsets).
  Instants are nanoseconds since the Unix epoch.
\<close>

section \<open>Calendar\<close>

definition leap :: "int \<Rightarrow> bool" where
  "leap y \<longleftrightarrow> y mod 4 = 0 \<and> (y mod 100 \<noteq> 0 \<or> y mod 400 = 0)"

definition month_lens :: "int \<Rightarrow> int list" where
  "month_lens y = [31, if leap y then 29 else 28, 31, 30, 31, 30, 31, 31, 30, 31, 30, 31]"

text \<open>Days from the first day of year 0 to the first day of year \<open>y\<close>.\<close>

definition days_before_year :: "int \<Rightarrow> int" where
  "days_before_year y = 365 * y + (y + 3) div 4 - (y + 99) div 100 + (y + 399) div 400"

definition year_of_days :: "int \<Rightarrow> int" where
  "year_of_days n =
     (let y = n * 400 div 146097 in
      if n < days_before_year y then y - 1 else if days_before_year (y + 1) \<le> n then y + 1 else y)"

fun month_day :: "int list \<Rightarrow> int \<Rightarrow> int \<Rightarrow> int \<times> int" where
  "month_day [] m d = (m, d + 1)"
| "month_day (k # ks) m d = (if d < k then (m, d + 1) else month_day ks (m + 1) (d - k))"

text \<open>\<^verbatim>\<open>Time.Date\<close> of a day number counted from the Unix epoch, and its inverse.\<close>

definition civil_of_days :: "int \<Rightarrow> int \<times> int \<times> int" where
  "civil_of_days n =
     (let n0 = n + days_before_year 1970; y = year_of_days n0; (m, d) = month_day (month_lens y) 1 (n0 - days_before_year y)
      in (y, m, d))"

definition days_of_civil :: "int \<Rightarrow> int \<Rightarrow> int \<Rightarrow> int" where
  "days_of_civil y m d =
     days_before_year y + sum_list (take (nat (m - 1)) (month_lens y)) + d - 1 - days_before_year 1970"

lemma ceil_div_bounds:
  assumes "0 < (k :: int)"
  shows "y \<le> k * ((y + (k - 1)) div k)" "k * ((y + (k - 1)) div k) \<le> y + (k - 1)"
proof -
  have "k * ((y + (k - 1)) div k) = y + (k - 1) - (y + (k - 1)) mod k"
    by (simp add: minus_mod_eq_mult_div)
  moreover have "0 \<le> (y + (k - 1)) mod k" "(y + (k - 1)) mod k < k"
    using assms by simp_all
  ultimately show "y \<le> k * ((y + (k - 1)) div k)" "k * ((y + (k - 1)) div k) \<le> y + (k - 1)"
    by linarith+
qed

lemma ceil_div_step:
  assumes "0 < (k :: int)" "j + 1 = k"
  shows "(y + k) div k = (y + j) div k + (if y mod k = 0 then 1 else 0)"
proof -
  have eq: "y + j = (y mod k + j) + y div k * k"
    using div_mult_mod_eq [of y k] by linarith
  have "(y + j) div k = ((y mod k + j) + y div k * k) div k"
    by (simp only: eq [symmetric])
  also have "\<dots> = y div k + (y mod k + j) div k"
    using assms(1) by (subst div_mult_self1) simp_all
  also have "(y mod k + j) div k = (if y mod k = 0 then 0 else 1)"
  proof (cases "y mod k = 0")
    case False
    have "0 \<le> y mod k" "y mod k < k"
      using assms(1) by simp_all
    with False have "0 \<le> y mod k - 1" "y mod k - 1 < k"
      by linarith+
    then have "(y mod k - 1) div k = 0"
      by (rule div_pos_pos_trivial)
    then have "((y mod k - 1) + k) div k = 1"
      using assms(1) div_add_self2 [of k "y mod k - 1"] by linarith
    moreover have "y mod k + j = (y mod k - 1) + k"
      using assms(2) by linarith
    ultimately have "(y mod k + j) div k = 1"
      by (simp only:)
    with False show ?thesis
      by simp
  next
    case True
    with assms show ?thesis
      by (simp add: div_pos_pos_trivial)
  qed
  moreover have "(y + k) div k = y div k + 1"
    using assms(1) by (intro div_add_self2) simp
  ultimately show ?thesis
    by simp
qed

lemma days_before_year_bounds:
  "146097 * y - 400 < 400 * days_before_year y" "400 * days_before_year y < 146097 * y + 700"
proof -
  note b = ceil_div_bounds [of 4 y] ceil_div_bounds [of 100 y] ceil_div_bounds [of 400 y]
  from b show "146097 * y - 400 < 400 * days_before_year y"
    unfolding days_before_year_def by simp
  from b show "400 * days_before_year y < 146097 * y + 700"
    unfolding days_before_year_def by simp
qed

lemma year_of_days_correct:
  "days_before_year (year_of_days n) \<le> n \<and> n < days_before_year (year_of_days n + 1)"
proof -
  define y where "y = n * 400 div 146097"
  have y: "146097 * y \<le> 400 * n" "400 * n < 146097 * y + 146097"
    unfolding y_def by linarith+
  have "days_before_year (y - 1) \<le> n"
    using y days_before_year_bounds(2) [of "y - 1"] by simp
  moreover have "n < days_before_year (y + 2)"
    using y days_before_year_bounds(1) [of "y + 2"] by simp
  ultimately show ?thesis
    unfolding year_of_days_def Let_def y_def [symmetric] by (auto simp: add.commute)
qed

lemma leap_sum:
  fixes d :: int
  assumes "d' = x + 365 + p + (if A then 1 else 0) - (q + (if B then 1 else 0)) + (r + (if C then 1 else 0))"
    and "d = x + p - q + r" "B \<longrightarrow> A" "C \<longrightarrow> B"
  shows "d' = d + (if A \<and> (\<not> B \<or> C) then 366 else 365)"
  using assms by (cases A; cases B; cases C) simp_all

lemma days_before_year_Suc: "days_before_year (y + 1) = days_before_year y + (if leap y then 366 else 365)"
proof -
  define p q r where "p = (y + 3) div 4" and "q = (y + 99) div 100" and "r = (y + 399) div 400"
  have "(y + 4) div 4 = p + (if y mod 4 = 0 then 1 else 0)" "(y + 100) div 100 = q + (if y mod 100 = 0 then 1 else 0)"
    "(y + 400) div 400 = r + (if y mod 400 = 0 then 1 else 0)"
    unfolding p_def q_def r_def by (rule ceil_div_step; simp)+
  then have "days_before_year (y + 1) = 365 * y + 365 + p + (if y mod 4 = 0 then 1 else 0)
      - (q + (if y mod 100 = 0 then 1 else 0)) + (r + (if y mod 400 = 0 then 1 else 0))"
    unfolding days_before_year_def by (simp add: add.commute)
  moreover have "days_before_year y = 365 * y + p - q + r"
    by (simp add: days_before_year_def p_def q_def r_def)
  moreover have "y mod 100 = 0 \<longrightarrow> y mod 4 = 0"
    using dvd_trans [of 4 100 y] by (simp add: mod_eq_0_iff_dvd)
  moreover have "y mod 400 = 0 \<longrightarrow> y mod 100 = 0"
    using dvd_trans [of 100 400 y] by (simp add: mod_eq_0_iff_dvd)
  ultimately show ?thesis
    unfolding leap_def by (rule leap_sum)
qed

lemma sum_month_lens: "sum_list (month_lens y) = (if leap y then 366 else 365)"
  by (simp add: month_lens_def)

lemma month_day_correct:
  "month_day ks m0 d = (m, dd) \<Longrightarrow> 0 \<le> d \<Longrightarrow> d < sum_list ks \<Longrightarrow>
     m0 \<le> m \<and> nat (m - m0) < length ks \<and> 1 \<le> dd \<and> dd \<le> ks ! nat (m - m0)
     \<and> d = sum_list (take (nat (m - m0)) ks) + dd - 1"
proof (induction ks m0 d rule: month_day.induct)
  case (2 k ks m0 d)
  show ?case
  proof (cases "d < k")
    case False
    with 2 have IH: "m0 + 1 \<le> m \<and> nat (m - (m0 + 1)) < length ks \<and> 1 \<le> dd \<and> dd \<le> ks ! nat (m - (m0 + 1))
        \<and> d - k = sum_list (take (nat (m - (m0 + 1))) ks) + dd - 1"
      by simp
    then have "nat (m - m0) = Suc (nat (m - (m0 + 1)))"
      by linarith
    with IH show ?thesis
      by simp
  qed (use 2 in auto)
qed simp

text \<open>The two conversions are inverse, and the date is a valid one.\<close>

lemma civil_of_days_correct:
  assumes "civil_of_days n = (y, m, d)"
  shows "days_of_civil y m d = n" "1 \<le> m" "m \<le> 12" "1 \<le> d" "d \<le> month_lens y ! nat (m - 1)"
proof -
  let ?n = "n + days_before_year 1970"
  have y: "y = year_of_days ?n" and md: "month_day (month_lens y) 1 (?n - days_before_year y) = (m, d)"
    using assms by (auto simp: civil_of_days_def Let_def split: prod.splits)
  have "0 \<le> ?n - days_before_year y" "?n - days_before_year y < sum_list (month_lens y)"
    using year_of_days_correct [of ?n] by (simp_all add: y days_before_year_Suc sum_month_lens)
  from month_day_correct [OF md this]
  show "days_of_civil y m d = n" "1 \<le> m" "m \<le> 12" "1 \<le> d" "d \<le> month_lens y ! nat (m - 1)"
    by (auto simp: days_of_civil_def) (simp add: month_lens_def)
qed

section \<open>RFC 3339\<close>

definition dig :: "int \<Rightarrow> char" where
  "dig n = char_of (0x30 + nat (n mod 10))"

definition pad2 :: "int \<Rightarrow> string" where
  "pad2 n = [dig (n div 10), dig n]"

definition pad4 :: "int \<Rightarrow> string" where
  "pad4 n = [dig (n div 1000), dig (n div 100), dig (n div 10), dig n]"

text \<open>Years 0 to 9999 are written with four digits.\<close>

definition format_rfc3339 :: "time \<Rightarrow> string" where
  "format_rfc3339 t =
     (let s = t div second; (y, m, d) = civil_of_days (s div 86400); r = s mod 86400
      in pad4 y @ ''-'' @ pad2 m @ ''-'' @ pad2 d @ ''T'' @ pad2 (r div 3600) @ '':'' @ pad2 (r div 60 mod 60)
         @ '':'' @ pad2 (r mod 60) @ ''Z'')"

definition digval :: "char \<Rightarrow> int" where
  "digval c = int (of_char c) - 0x30"

text \<open>\<^verbatim>\<open>getnum\<close>: one or two digits, both required when \<open>fixed\<close>.\<close>

definition getnum :: "bool \<Rightarrow> string \<Rightarrow> (int \<times> string) option" where
  "getnum fixed s = (case s of
      [] \<Rightarrow> None
    | a # rest \<Rightarrow>
        if \<not> is_digit a then None
        else (case rest of
            b # rest' \<Rightarrow> if is_digit b then Some (digval a * 10 + digval b, rest')
              else if fixed then None else Some (digval a, rest)
          | [] \<Rightarrow> if fixed then None else Some (digval a, [])))"

definition ranged :: "bool \<Rightarrow> int \<Rightarrow> int \<Rightarrow> string \<Rightarrow> (int \<times> string) option" where
  "ranged fixed lo hi s = Option.bind (getnum fixed s) (\<lambda>(n, rest). if lo \<le> n \<and> n \<le> hi then Some (n, rest) else None)"

definition skip_char :: "char \<Rightarrow> string \<Rightarrow> string option" where
  "skip_char c s = (case s of [] \<Rightarrow> None | d # rest \<Rightarrow> if d = c then Some rest else None)"

definition get_year :: "string \<Rightarrow> (int \<times> string) option" where
  "get_year s = (if length s \<ge> 4 \<and> list_all is_digit (take 4 s) then Some (int (digits_value (take 4 s)), drop 4 s) else None)"

text \<open>An optional fraction after the seconds: a comma or period and digits, read to nanoseconds.\<close>

definition get_fraction :: "string \<Rightarrow> int \<times> string" where
  "get_fraction s = (case s of
      p # d # _ \<Rightarrow>
        if (p = CHR ''.'' \<or> p = CHR '','') \<and> is_digit d then
          (let ds = takeWhile is_digit (tl s); kept = take 9 ds
           in (int (digits_value kept) * 10 ^ (9 - length kept), drop (1 + length ds) s))
        else (0, s)
    | _ \<Rightarrow> (0, s))"

text \<open>The zone: \<open>Z\<close>, or a signed offset in hours and minutes, as seconds east of UTC.\<close>

definition get_zone :: "string \<Rightarrow> (int \<times> string) option" where
  "get_zone s = (case s of
      [] \<Rightarrow> None
    | c # rest \<Rightarrow>
        if c = CHR ''Z'' then Some (0, rest)
        else if length s < 6 \<or> s ! 3 \<noteq> CHR '':'' then None
        else (case (getnum True (take 2 (drop 1 s)), getnum True (take 2 (drop 4 s))) of
            (Some (hr, _), Some (mm, _)) \<Rightarrow>
              if hr > 24 \<or> mm > 60 then None
              else if c = CHR ''+'' then Some ((hr * 60 + mm) * 60, drop 6 s)
              else if c = CHR ''-'' then Some (- ((hr * 60 + mm) * 60), drop 6 s)
              else None
          | _ \<Rightarrow> None))"

definition parse_rfc3339 :: "string \<Rightarrow> time option" where
  "parse_rfc3339 s =
     Option.bind (get_year s) (\<lambda>(y, s). Option.bind (skip_char CHR ''-'' s) (\<lambda>s.
     Option.bind (ranged True 1 12 s) (\<lambda>(m, s). Option.bind (skip_char CHR ''-'' s) (\<lambda>s.
     Option.bind (getnum True s) (\<lambda>(d, s). Option.bind (skip_char CHR ''T'' s) (\<lambda>s.
     Option.bind (ranged False 0 23 s) (\<lambda>(hh, s). Option.bind (skip_char CHR '':'' s) (\<lambda>s.
     Option.bind (ranged True 0 59 s) (\<lambda>(mi, s). Option.bind (skip_char CHR '':'' s) (\<lambda>s.
     Option.bind (ranged True 0 59 s) (\<lambda>(ss, s).
       case get_fraction s of (ns, s) \<Rightarrow>
     Option.bind (get_zone s) (\<lambda>(off, s).
       if s = [] \<and> 1 \<le> d \<and> d \<le> month_lens y ! nat (m - 1)
       then Some ((days_of_civil y m d * 86400 + hh * 3600 + mi * 60 + ss - off) * second + ns)
       else None))))))))))))"

lemma dig_digit [simp]: "is_digit (dig n)" "digval (dig n) = n mod 10" "of_char (dig n) = 0x30 + nat (n mod 10)"
proof -
  have "nat (n mod 10) < 10"
    by (simp add: nat_less_iff)
  then have o: "of_char (dig n) = 0x30 + nat (n mod 10)"
    by (simp add: dig_def)
  then show "of_char (dig n) = 0x30 + nat (n mod 10)" .
  show "is_digit (dig n)"
    using \<open>nat (n mod 10) < 10\<close> by (simp add: is_digit_def in_rng_def o)
  show "digval (dig n) = n mod 10"
    by (simp add: digval_def o)
qed

lemma getnum_pad2 [simp]:
  assumes "0 \<le> n" "n < 100"
  shows "getnum fixed (pad2 n @ rest) = Some (n, rest)"
proof -
  have "0 \<le> n div 10" "n div 10 < 10"
    using assms by linarith+
  then have "n div 10 mod 10 = n div 10"
    by (rule mod_pos_pos_trivial)
  then have "n div 10 mod 10 * 10 + n mod 10 = n"
    using div_mult_mod_eq [of n 10] by (simp only:)
  then show ?thesis
    by (simp add: getnum_def pad2_def)
qed

lemma ranged_pad2 [simp]: "0 \<le> lo \<Longrightarrow> lo \<le> n \<Longrightarrow> n \<le> hi \<Longrightarrow> hi < 100 \<Longrightarrow> ranged fixed lo hi (pad2 n @ rest) = Some (n, rest)"
  by (simp add: ranged_def)

lemma get_year_pad4 [simp]:
  assumes "0 \<le> y" "y \<le> 9999"
  shows "get_year (pad4 y @ rest) = Some (y, rest)"
proof -
  define a b c where "a = y div 10" and "b = a div 10" and "c = b div 10"
  have ab: "y div 100 = b"
    using zdiv_zmult2_eq [of 10 y 10] by (simp add: a_def b_def)
  have ac: "y div 1000 = c"
    using zdiv_zmult2_eq [of 10 y 100] ab by (simp add: c_def)
  have "0 \<le> y div 1000" "y div 1000 < 10"
    using assms by linarith+
  then have "c mod 10 = c"
    unfolding ac by (rule mod_pos_pos_trivial)
  then have "((y div 1000 mod 10 * 10 + y div 100 mod 10) * 10 + y div 10 mod 10) * 10 + y mod 10 = y"
    unfolding ab ac a_def [symmetric] using div_mult_mod_eq [of b 10] div_mult_mod_eq [of a 10] div_mult_mod_eq [of y 10]
    unfolding a_def [symmetric] b_def [symmetric] c_def [symmetric] by (simp only:)
  moreover have "int (digits_value (pad4 y)) = ((y div 1000 mod 10 * 10 + y div 100 mod 10) * 10 + y div 10 mod 10) * 10 + y mod 10"
    by (simp add: pad4_def digits_value_def)
  ultimately have "int (digits_value (pad4 y)) = y"
    by (simp only:)
  moreover have "length (pad4 y) = 4" "list_all is_digit (pad4 y)"
    by (simp_all add: pad4_def)
  ultimately show ?thesis
    by (simp add: get_year_def)
qed

lemma skip_char_Cons [simp]: "skip_char c (c # s) = Some s"
  by (simp add: skip_char_def)

lemma Z_tail [simp]: "get_fraction ''Z'' = (0, ''Z'')" "get_zone ''Z'' = Some (0, [])"
  by (simp_all add: get_fraction_def get_zone_def)

lemma parse_written:
  assumes "0 \<le> y" "y \<le> 9999" "1 \<le> m" "m \<le> 12" "1 \<le> d" "d \<le> 31" "d \<le> month_lens y ! nat (m - 1)"
    and "0 \<le> hh" "hh \<le> 23" "0 \<le> mi" "mi \<le> 59" "0 \<le> ss" "ss \<le> 59"
  shows "parse_rfc3339 (pad4 y @ CHR ''-'' # pad2 m @ CHR ''-'' # pad2 d @ CHR ''T'' # pad2 hh @ CHR '':''
      # pad2 mi @ CHR '':'' # pad2 ss @ ''Z'') = Some ((days_of_civil y m d * 86400 + hh * 3600 + mi * 60 + ss) * second)"
  using assms by (simp add: parse_rfc3339_def)

text \<open>A formatted time parses back to the same time, truncated to the second.\<close>

lemma rfc3339_roundtrip:
  assumes "civil_of_days (t div second div 86400) = (y, m, d)" "0 \<le> y" "y \<le> 9999"
  shows "parse_rfc3339 (format_rfc3339 t) = Some (t div second * second)"
proof -
  define s r where "s = t div second" and "r = s mod 86400"
  have r: "0 \<le> r" "r < 86400"
    by (simp_all add: r_def)
  have civil: "days_of_civil y m d = s div 86400" "1 \<le> m" "m \<le> 12" "1 \<le> d" "d \<le> month_lens y ! nat (m - 1)"
    using civil_of_days_correct [OF assms(1)] by (simp_all add: s_def)
  have "month_lens y ! k \<le> 31" if "k < 12" for k
    using that by (auto simp: month_lens_def nth_Cons' split: if_splits)
  moreover have "nat (m - 1) < 12"
    using civil(2,3) by linarith
  ultimately have d31: "d \<le> 31"
    using civil(5) by fastforce
  define hh mi ss where "hh = r div 3600" and "mi = r div 60 mod 60" and "ss = r mod 60"
  have "hh = r div 60 div 60"
    using zdiv_zmult2_eq [of 60 r 60] by (simp add: hh_def)
  then have parts: "hh * 3600 + mi * 60 + ss = r"
    using div_mult_mod_eq [of "r div 60" 60] div_mult_mod_eq [of r 60] unfolding mi_def ss_def by linarith
  have clock: "0 \<le> hh" "hh \<le> 23" "0 \<le> mi" "mi \<le> 59" "0 \<le> ss" "ss \<le> 59"
    using r pos_mod_bound [of 60 r] pos_mod_bound [of 60 "r div 60"] by (simp_all add: hh_def mi_def ss_def)
  have "format_rfc3339 t = pad4 y @ CHR ''-'' # pad2 m @ CHR ''-'' # pad2 d @ CHR ''T'' # pad2 hh @ CHR '':''
      # pad2 mi @ CHR '':'' # pad2 ss @ ''Z''"
    using assms(1) by (simp add: format_rfc3339_def Let_def s_def r_def hh_def mi_def ss_def)
  then have "parse_rfc3339 (format_rfc3339 t) = Some ((days_of_civil y m d * 86400 + hh * 3600 + mi * 60 + ss) * second)"
    by (simp only: parse_written [OF assms(2,3) civil(2-4) d31 civil(5) clock])
  moreover have "days_of_civil y m d * 86400 + hh * 3600 + mi * 60 + ss = s"
    using parts div_mult_mod_eq [of s 86400] unfolding civil(1) r_def [symmetric] by linarith
  ultimately show ?thesis
    by (simp only: s_def)
qed

end
