(* ===== verification/Idle.thy ===== *)
theory Idle
  imports Go_Time Wake_Plan
begin

text \<open>
  The idle policy of the operator, \<^verbatim>\<open>operator/internal/controller/gameserver_idle.go\<close>, and the restart
  primitive of \<^verbatim>\<open>gameserver_restart.go\<close>.  The policy is a pure function of its inputs; \<^verbatim>\<open>reconcileIdle\<close>
  gathers them from the GameServer, decides, and writes the transition into the annotations.

  The cron library is an argument: a window either fails to parse or is a schedule, and a schedule gives
  the next activation after an instant, \<open>None\<close> being the zero time it returns when there is none.  The
  clock, the outcome of the patch and the ownership check of \<^verbatim>\<open>lifecycle_operation.go\<close> are arguments too.
\<close>

section \<open>Data\<close>

record idle_spec =
  is_enabled :: bool
  is_afterMinutes :: "int option"
  is_wakeWindows :: "string list"

datatype idle_error = ParseWakeWindow string string

type_synonym schedule = "time \<Rightarrow> time option"
type_synonym cron = "string \<Rightarrow> string + schedule"

text \<open>The phrases of \<^verbatim>\<open>status.idle.reason\<close>, with the values they are formatted from.\<close>

datatype idle_reason =
    NoReason
  | StoppedByUser
  | WokenByRequest
  | WokenByWindow
  | AsleepNoPlayers
  | AsleepWindowInvalid idle_error
  | LifecycleInFlight
  | NotRunning string
  | HeartbeatStale
  | NoPlayerCount
  | PlayersOnline int
  | SleepingIn duration

record idle_status =
  st_emptySince :: "time option"
  st_asleep :: bool
  st_asleepSince :: "time option"
  st_lastWakeTime :: "time option"
  st_reason :: idle_reason

record idle_inputs =
  in_spec :: "idle_spec option"
  in_suspended :: bool
  in_phase :: string
  in_hbFresh :: bool
  in_playersOnline :: "int option"
  in_busy :: bool
  in_asleepSince :: "time option"
  in_emptySince :: "time option"
  in_lastWakeTime :: "time option"
  in_wakePending :: bool
  in_now :: time

record idle_outcome =
  out_state :: idle_state
  out_sleep :: bool
  out_wake :: bool
  out_status :: "idle_status option"
  out_requeue :: duration
  out_err :: "idle_error option"

section \<open>Policy\<close>

definition defaultIdleAfter :: duration where
  "defaultIdleAfter = 30 * minute"

definition idleReevaluate :: duration where
  "idleReevaluate = 5 * minute"

definition nonEmptyPhase :: "string \<Rightarrow> string" where
  "nonEmptyPhase p = (if p = [] then ''Pending'' else p)"

definition idleEligible :: "idle_inputs \<Rightarrow> idle_reason option" where
  "idleEligible i =
     (if in_busy i then Some LifecycleInFlight
      else if in_phase i \<noteq> ''Running'' then Some (NotRunning (nonEmptyPhase (in_phase i)))
      else if \<not> in_hbFresh i then Some HeartbeatStale
      else (case in_playersOnline i of
          None \<Rightarrow> Some NoPlayerCount
        | Some n \<Rightarrow> if n > 0 then Some (PlayersOnline n) else None))"

fun validateWakeWindows :: "cron \<Rightarrow> string list \<Rightarrow> idle_error option" where
  "validateWakeWindows cron [] = None"
| "validateWakeWindows cron (w # ws) =
     (case cron w of Inl e \<Rightarrow> Some (ParseWakeWindow w e) | Inr _ \<Rightarrow> validateWakeWindows cron ws)"

text \<open>The zero time is before every real instant.\<close>

fun wakeWindowLoop ::
  "cron \<Rightarrow> time option \<Rightarrow> string list \<Rightarrow> time \<Rightarrow> time \<Rightarrow> idle_error + bool \<times> time option" where
  "wakeWindowLoop cron soonest [] asleepSince now = Inr (False, soonest)"
| "wakeWindowLoop cron soonest (w # ws) asleepSince now =
     (case cron w of
        Inl e \<Rightarrow> Inl (ParseWakeWindow w e)
      | Inr sched \<Rightarrow>
          (case sched asleepSince of
             None \<Rightarrow> Inr (True, None)
           | Some next \<Rightarrow>
               if \<not> next > now then Inr (True, None)
               else wakeWindowLoop cron
                 (case soonest of None \<Rightarrow> Some next | Some s \<Rightarrow> if next < s then Some next else soonest)
                 ws asleepSince now))"

definition wakeWindowDue :: "cron \<Rightarrow> string list \<Rightarrow> time \<Rightarrow> time \<Rightarrow> idle_error + bool \<times> time option" where
  "wakeWindowDue cron windows asleepSince now = wakeWindowLoop cron None windows asleepSince now"

definition untilNext :: "time option \<Rightarrow> time \<Rightarrow> duration" where
  "untilNext next now = (case next of
      None \<Rightarrow> idleReevaluate
    | Some t \<Rightarrow> if time_sub t now > 0 then time_sub t now else second)"

definition empty_status :: "time option \<Rightarrow> idle_status" where
  "empty_status lastWake = \<lparr>st_emptySince = None, st_asleep = False, st_asleepSince = None,
     st_lastWakeTime = lastWake, st_reason = NoReason\<rparr>"

definition outcome :: "idle_state \<Rightarrow> bool \<Rightarrow> bool \<Rightarrow> idle_status option \<Rightarrow> duration \<Rightarrow> idle_error option \<Rightarrow> idle_outcome" where
  "outcome s sl wk st rq e = \<lparr>out_state = s, out_sleep = sl, out_wake = wk, out_status = st, out_requeue = rq, out_err = e\<rparr>"

definition idleDecideAsleep ::
  "cron \<Rightarrow> idle_spec \<Rightarrow> idle_error option \<Rightarrow> idle_status \<Rightarrow> time \<Rightarrow> time \<Rightarrow> idle_outcome" where
  "idleDecideAsleep cron spec scheduleErr st0 asleepSince now =
     (let st = st0\<lparr>st_asleep := True, st_asleepSince := Some asleepSince\<rparr> in
      case scheduleErr of
        Some e \<Rightarrow> outcome idleAsleep False False (Some (st\<lparr>st_reason := AsleepWindowInvalid e\<rparr>)) idleReevaluate (Some e)
      | None \<Rightarrow> (case wakeWindowDue cron (is_wakeWindows spec) asleepSince now of
            Inl e \<Rightarrow> outcome idleAsleep False False (Some (st\<lparr>st_reason := AsleepWindowInvalid e\<rparr>)) idleReevaluate (Some e)
          | Inr (due, next) \<Rightarrow>
              if due then outcome idleAwake False True
                (Some (st\<lparr>st_asleep := False, st_asleepSince := None, st_lastWakeTime := Some now,
                  st_reason := WokenByWindow\<rparr>)) 0 None
              else outcome idleAsleep False False (Some (st\<lparr>st_reason := AsleepNoPlayers\<rparr>)) (untilNext next now) None))"

definition idleAfter :: "idle_spec \<Rightarrow> duration" where
  "idleAfter spec = (case is_afterMinutes spec of None \<Rightarrow> defaultIdleAfter | Some m \<Rightarrow> dur_wrap (m * minute))"

definition idleDecideAwake :: "idle_inputs \<Rightarrow> idle_spec \<Rightarrow> idle_error option \<Rightarrow> idle_status \<Rightarrow> idle_outcome" where
  "idleDecideAwake i spec scheduleErr st =
     (case idleEligible i of
        Some reason \<Rightarrow> outcome idleAwake False False (Some (st\<lparr>st_reason := reason\<rparr>)) 0 scheduleErr
      | None \<Rightarrow>
          let since = (case in_emptySince i of None \<Rightarrow> in_now i | Some t \<Rightarrow> t);
              remaining = dur_wrap (idleAfter spec - time_sub (in_now i) since) in
          if remaining > 0
          then outcome idleAwake False False
            (Some (st\<lparr>st_emptySince := Some since, st_reason := SleepingIn remaining\<rparr>)) remaining scheduleErr
          else outcome idleAsleep True False
            (Some (st\<lparr>st_asleep := True, st_asleepSince := Some (in_now i), st_emptySince := None,
              st_reason := AsleepNoPlayers\<rparr>)) 0 scheduleErr)"

definition idleDecide :: "cron \<Rightarrow> idle_inputs \<Rightarrow> idle_outcome" where
  "idleDecide cron i =
     (case in_spec i of
        None \<Rightarrow> outcome idleAwake False (in_asleepSince i \<noteq> None) None 0 None
      | Some spec \<Rightarrow>
          if \<not> is_enabled spec then outcome idleAwake False (in_asleepSince i \<noteq> None) None 0 None
          else let st = empty_status (in_lastWakeTime i);
                   scheduleErr = validateWakeWindows cron (is_wakeWindows spec) in
            if in_suspended i
            then outcome idleAwake False (in_asleepSince i \<noteq> None) (Some (st\<lparr>st_reason := StoppedByUser\<rparr>)) 0 scheduleErr
            else if in_wakePending i
            then outcome idleAwake False True
              (Some (st\<lparr>st_lastWakeTime := Some (in_now i), st_reason := WokenByRequest\<rparr>)) 0 scheduleErr
            else (case in_asleepSince i of
                Some since \<Rightarrow> idleDecideAsleep cron spec scheduleErr st since (in_now i)
              | None \<Rightarrow> idleDecideAwake i spec scheduleErr st))"

section \<open>Reconcile\<close>

type_synonym annotations = "string \<rightharpoonup> string"

definition ann :: "annotations \<Rightarrow> string \<Rightarrow> string" where
  "ann m k = (case m k of None \<Rightarrow> [] | Some v \<Rightarrow> v)"

definition IdleAsleepSinceAnnotation :: string where
  "IdleAsleepSinceAnnotation = ''gameplane.local/idle-asleep-since''"

definition IdleWakeRequestedAnnotation :: string where
  "IdleWakeRequestedAnnotation = ''gameplane.local/idle-wake-requested''"

definition IdleWakeCompletedAnnotation :: string where
  "IdleWakeCompletedAnnotation = ''gameplane.local/idle-wake-completed''"

definition RestartRequestedAnnotation :: string where
  "RestartRequestedAnnotation = ''gameplane.local/restart-requested''"

definition RestartCompletedAnnotation :: string where
  "RestartCompletedAnnotation = ''gameplane.local/restart-completed''"

definition WipeRequestedAnnotation :: string where
  "WipeRequestedAnnotation = ''gameplane.local/wipe-data-requested''"

definition WipeCompletedAnnotation :: string where
  "WipeCompletedAnnotation = ''gameplane.local/wipe-data-completed''"

definition stopRequestedAtAnnotation :: string where
  "stopRequestedAtAnnotation = ''gameserver.gameplane.local/stop-requested-at''"

lemmas annotation_keys = IdleAsleepSinceAnnotation_def IdleWakeRequestedAnnotation_def
  IdleWakeCompletedAnnotation_def RestartRequestedAnnotation_def RestartCompletedAnnotation_def
  WipeRequestedAnnotation_def WipeCompletedAnnotation_def stopRequestedAtAnnotation_def

record agent_status =
  ag_players :: "int option"
  ag_heartbeat :: "time option"

record game_server =
  gs_annotations :: annotations
  gs_idle :: "idle_spec option"
  gs_suspend :: bool
  gs_phase :: string
  gs_agent :: "agent_status option"
  gs_status_idle :: "idle_status option"

definition tokenPending :: "annotations \<Rightarrow> string \<Rightarrow> string \<Rightarrow> bool" where
  "tokenPending m requested completed \<longleftrightarrow> ann m requested \<noteq> [] \<and> ann m requested \<noteq> ann m completed"

definition parseAnnotationTime :: "annotations \<Rightarrow> string \<Rightarrow> time option" where
  "parseAnnotationTime m key = (case m key of None \<Rightarrow> None | Some raw \<Rightarrow> parse_rfc3339 raw)"

definition heartbeatFreshness :: duration where
  "heartbeatFreshness = 60 * second"

definition heartbeatFresh :: "time \<Rightarrow> game_server \<Rightarrow> bool" where
  "heartbeatFresh now gs = (case gs_agent gs of
      None \<Rightarrow> False
    | Some a \<Rightarrow> (case ag_heartbeat a of None \<Rightarrow> False | Some t \<Rightarrow> time_sub now t < heartbeatFreshness))"

text \<open>The annotations \<^verbatim>\<open>applyIdleTransition\<close> patches.\<close>

definition applyIdleTransition :: "idle_outcome \<Rightarrow> time \<Rightarrow> annotations \<Rightarrow> annotations" where
  "applyIdleTransition out now m =
     (if out_sleep out then m(IdleAsleepSinceAnnotation \<mapsto> format_rfc3339 now)
      else if out_wake out then
        (let m' = (m(IdleAsleepSinceAnnotation := None))(stopRequestedAtAnnotation := None);
             tok = ann m' IdleWakeRequestedAnnotation
         in if tok \<noteq> [] then m'(IdleWakeCompletedAnnotation \<mapsto> tok) else m')
      else m)"

definition idleInputs :: "time \<Rightarrow> time \<Rightarrow> game_server \<Rightarrow> idle_inputs" where
  "idleInputs hbNow now gs =
     (let m = gs_annotations gs in
      \<lparr>in_spec = gs_idle gs, in_suspended = gs_suspend gs, in_phase = gs_phase gs,
       in_hbFresh = heartbeatFresh hbNow gs,
       in_playersOnline = (case gs_agent gs of None \<Rightarrow> None | Some a \<Rightarrow> ag_players a),
       in_busy = tokenPending m RestartRequestedAnnotation RestartCompletedAnnotation
         \<or> tokenPending m WipeRequestedAnnotation WipeCompletedAnnotation,
       in_asleepSince = parseAnnotationTime m IdleAsleepSinceAnnotation,
       in_emptySince = (case gs_status_idle gs of None \<Rightarrow> None | Some s \<Rightarrow> st_emptySince s),
       in_lastWakeTime = (case gs_status_idle gs of None \<Rightarrow> None | Some s \<Rightarrow> st_lastWakeTime s),
       in_wakePending = tokenPending m IdleWakeRequestedAnnotation IdleWakeCompletedAnnotation,
       in_now = now\<rparr>)"

record idle_result =
  ir_state :: idle_state
  ir_status :: "idle_status option"
  ir_requeue :: duration
  ir_schedule_err :: "idle_error option"

text \<open>\<open>owner\<close> is the answer of the ownership check (an error, or whether an operation holds the server) and
  \<open>patch_err\<close> the API server's answer to the patch; the GameServer is returned as the API server then holds it.\<close>

definition reconcileIdle ::
  "cron \<Rightarrow> string + bool \<Rightarrow> string option \<Rightarrow> time \<Rightarrow> time \<Rightarrow> game_server \<Rightarrow> (string + idle_result) \<times> game_server" where
  "reconcileIdle cron owner patch_err hbNow now gs =
     (case owner of
        Inl e \<Rightarrow> (Inl e, gs)
      | Inr held \<Rightarrow>
          if held then
            (Inr \<lparr>ir_state = (if parseAnnotationTime (gs_annotations gs) IdleAsleepSinceAnnotation \<noteq> None
                then idleAsleep else idleAwake), ir_status = gs_status_idle gs, ir_requeue = idleReevaluate,
                ir_schedule_err = None\<rparr>, gs)
          else let out = idleDecide cron (idleInputs hbNow now gs);
                   res = \<lparr>ir_state = out_state out, ir_status = out_status out, ir_requeue = out_requeue out,
                     ir_schedule_err = out_err out\<rparr> in
            if out_sleep out \<or> out_wake out then
              (case patch_err of
                 Some e \<Rightarrow> (Inl e, gs)
               | None \<Rightarrow> (Inr res, gs\<lparr>gs_annotations := applyIdleTransition out now (gs_annotations gs)\<rparr>))
            else (Inr res, gs))"

section \<open>Restart\<close>

datatype restart_decision = restartNone | restartDraining | restartComplete

text \<open>\<open>ss\<close> is the StatefulSet, with its count of created pods.\<close>

definition restartPhase :: "annotations \<Rightarrow> fetched \<Rightarrow> string + restart_decision" where
  "restartPhase m ss =
     (if ann m RestartRequestedAnnotation = [] \<or> ann m RestartRequestedAnnotation = ann m RestartCompletedAnnotation
      then Inr restartNone
      else (case ss of
          NotFound \<Rightarrow> Inr restartComplete
        | GetError e \<Rightarrow> Inl e
        | Replicas n \<Rightarrow> if n = 0 then Inr restartComplete else Inr restartDraining))"

definition ackRestart :: "annotations \<Rightarrow> annotations" where
  "ackRestart m =
     (m(RestartCompletedAnnotation \<mapsto> ann m RestartRequestedAnnotation))(stopRequestedAtAnnotation := None)"

section \<open>When a server goes to sleep\<close>

lemmas outcome_sel [simp] = outcome_def idle_outcome.simps

definition valid_idle_spec :: "idle_spec \<Rightarrow> bool" where
  "valid_idle_spec spec \<longleftrightarrow> (case is_afterMinutes spec of None \<Rightarrow> True | Some m \<Rightarrow> 5 \<le> m \<and> m \<le> 1440)"

lemma idleAfter_range: "valid_idle_spec spec \<Longrightarrow> 5 * minute \<le> idleAfter spec \<and> idleAfter spec \<le> 1440 * minute"
  by (auto simp: valid_idle_spec_def idleAfter_def defaultIdleAfter_def minute_def second_def is_duration_def
      dur_min_def dur_max_def split: option.splits)

lemma idleDecideAsleep_no_sleep [simp]: "\<not> out_sleep (idleDecideAsleep cron spec e st since now)"
  by (auto simp: idleDecideAsleep_def Let_def split: option.splits sum.splits if_splits)

lemma remaining_elapsed:
  assumes "5 * minute \<le> after" "after \<le> 1440 * minute" "since \<le> now"
  shows "dur_wrap (after - time_sub now since) > 0 \<longleftrightarrow> now - since < after"
proof -
  have sub: "time_sub now since = min dur_max (now - since)"
    using assms(3) by (auto simp: time_sub_def dur_min_def dur_max_def)
  then have "is_duration (after - time_sub now since)"
    using assms by (auto simp: is_duration_def dur_min_def dur_max_def minute_def second_def min_def)
  then show ?thesis
    using assms(2) by (auto simp: sub min_def dur_max_def minute_def second_def)
qed

lemma idle_sleep_cases:
  assumes "out_sleep (idleDecide cron i)"
  obtains spec where "in_spec i = Some spec" "is_enabled spec" "\<not> in_suspended i" "\<not> in_wakePending i"
    "in_asleepSince i = None" "idleEligible i = None"
    "\<not> dur_wrap (idleAfter spec - time_sub (in_now i) (case in_emptySince i of None \<Rightarrow> in_now i | Some t \<Rightarrow> t)) > 0"
  using assms that
  by (auto simp: idleDecide_def idleDecideAwake_def Let_def split: option.splits if_splits)

lemma idleEligible_None:
  "idleEligible i = None \<longleftrightarrow> \<not> in_busy i \<and> in_phase i = ''Running'' \<and> in_hbFresh i \<and>
     (\<exists>n. in_playersOnline i = Some n \<and> n \<le> 0)"
  by (auto simp: idleEligible_def split: option.splits)

text \<open>C35. The operator puts a server to sleep only when idling is enabled, neither the user nor a pending wake
  request stands against it, no other lifecycle operation is in flight, the server is Running with a fresh
  heartbeat reporting zero players, and it has been reporting them empty for at least the configured time,
  at least five minutes.  A stale heartbeat or an unknown player count never reads as empty.\<close>

theorem idle_sleeps_only_when_empty:
  assumes "out_sleep (idleDecide cron i)" "in_spec i = Some spec" "valid_idle_spec spec"
    and "\<And>t. in_emptySince i = Some t \<Longrightarrow> t \<le> in_now i"
  shows "is_enabled spec \<and> \<not> in_suspended i \<and> \<not> in_wakePending i \<and> \<not> in_busy i \<and> in_phase i = ''Running''
    \<and> in_hbFresh i \<and> (\<exists>n. in_playersOnline i = Some n \<and> n \<le> 0)
    \<and> (\<exists>t. in_emptySince i = Some t \<and> t + idleAfter spec \<le> in_now i \<and> t + 5 * minute \<le> in_now i)"
proof -
  obtain spec' where c: "in_spec i = Some spec'" "is_enabled spec'" "\<not> in_suspended i" "\<not> in_wakePending i"
    "idleEligible i = None"
    "\<not> dur_wrap (idleAfter spec' - time_sub (in_now i) (case in_emptySince i of None \<Rightarrow> in_now i | Some t \<Rightarrow> t)) > 0"
    using idle_sleep_cases [OF assms(1)] by metis
  with assms(2) have [simp]: "spec' = spec"
    by simp
  note range = idleAfter_range [OF assms(3)]
  have "\<exists>t. in_emptySince i = Some t \<and> t + idleAfter spec \<le> in_now i"
  proof (cases "in_emptySince i")
    case None
    with c(6) range remaining_elapsed [of "idleAfter spec" "in_now i" "in_now i"] show ?thesis
      by (simp add: minute_def second_def)
  next
    case (Some t)
    with c(6) range assms(4) remaining_elapsed [of "idleAfter spec" t "in_now i"] show ?thesis
      by simp
  qed
  with c range show ?thesis
    by (auto simp: idleEligible_None)
qed

definition idle_inputs_example :: idle_inputs where
  "idle_inputs_example = \<lparr>in_spec = Some \<lparr>is_enabled = True, is_afterMinutes = Some 5, is_wakeWindows = []\<rparr>,
     in_suspended = False, in_phase = ''Running'', in_hbFresh = True, in_playersOnline = Some 0, in_busy = False,
     in_asleepSince = None, in_emptySince = Some 0, in_lastWakeTime = None, in_wakePending = False,
     in_now = 300000000000\<rparr>"

theorem idle_sleeps_only_when_empty_witness:
  "out_sleep (idleDecide (\<lambda>_. Inl []) idle_inputs_example) \<and>
   (\<exists>t. in_emptySince idle_inputs_example = Some t \<and> t + 5 * minute \<le> in_now idle_inputs_example)"
proof -
  have sleep: "out_sleep (idleDecide (\<lambda>_. Inl []) idle_inputs_example)"
    by (simp add: idle_inputs_example_def idleDecide_def idleDecideAwake_def idleEligible_def idleAfter_def
        time_sub_def dur_wrap_def dur_min_def dur_max_def minute_def second_def)
  from idle_sleeps_only_when_empty [OF this, of "\<lparr>is_enabled = True, is_afterMinutes = Some 5, is_wakeWindows = []\<rparr>"] sleep
  show ?thesis
    by (simp add: idle_inputs_example_def valid_idle_spec_def)
qed

section \<open>Wake windows\<close>

text \<open>The documented behaviour of a cron schedule: the next activation strictly after an instant, the zero
  time when there is none.\<close>

definition next_law :: "schedule \<Rightarrow> (time \<Rightarrow> bool) \<Rightarrow> bool" where
  "next_law sched fires \<longleftrightarrow> (\<forall>t. case sched t of
      None \<Rightarrow> \<forall>u. t < u \<longrightarrow> \<not> fires u
    | Some n \<Rightarrow> t < n \<and> fires n \<and> (\<forall>u. t < u \<and> u < n \<longrightarrow> \<not> fires u))"

lemma next_law_due:
  assumes "next_law sched fires" "sched since = Some n"
  shows "n \<le> now \<longleftrightarrow> (\<exists>t. fires t \<and> since < t \<and> t \<le> now)"
  using assms by (auto simp: next_law_def split: option.splits) (metis le_less_trans not_le option.inject option.simps(5))+

lemma wakeWindowLoop_due:
  assumes "\<forall>w\<in>set ws. \<exists>sched n. cron w = Inr sched \<and> sched since = Some n"
  shows "\<exists>next. wakeWindowLoop cron soonest ws since now = Inr
    (\<exists>w\<in>set ws. \<exists>sched n. cron w = Inr sched \<and> sched since = Some n \<and> n \<le> now, next)"
  using assms
proof (induction ws arbitrary: soonest)
  case (Cons w ws)
  then obtain sched n where w: "cron w = Inr sched" "sched since = Some n"
    by auto
  show ?case
  proof (cases "n \<le> now")
    case False
    have "\<forall>w\<in>set ws. \<exists>sched n. cron w = Inr sched \<and> sched since = Some n"
      using Cons.prems by simp
    from Cons.IH [OF this] False w show ?thesis
      by (simp add: not_le)
  qed (use w in auto)
qed simp

lemma validateWakeWindows_None: "validateWakeWindows cron ws = None \<longleftrightarrow> (\<forall>w\<in>set ws. \<exists>s. cron w = Inr s)"
  by (induction cron ws rule: validateWakeWindows.induct) (auto split: sum.splits)

definition asleep_untouched :: "idle_inputs \<Rightarrow> idle_spec \<Rightarrow> time \<Rightarrow> bool" where
  "asleep_untouched i spec since \<longleftrightarrow> in_spec i = Some spec \<and> is_enabled spec \<and> \<not> in_suspended i
     \<and> \<not> in_wakePending i \<and> in_asleepSince i = Some since"

text \<open>C36. A sleeping server that nobody touches and every wake window of which parses and has a next activation wakes
  exactly when one of its windows has an activation after it fell asleep and not later than now, however many
  reconciles were missed in between; otherwise it stays asleep and a re-check is scheduled.  The cron library is
  assumed to return the next activation.  (A window that never fires wakes the server at once, see
  \<open>impossible_window_wakes_at_once\<close>.)\<close>

theorem wake_window_exact:
  assumes "asleep_untouched i spec since"
    and "\<And>w. w \<in> set (is_wakeWindows spec) \<Longrightarrow>
      \<exists>sched. cron w = Inr sched \<and> next_law sched (fires w) \<and> sched since \<noteq> None"
  shows "(out_wake (idleDecide cron i) \<longleftrightarrow>
      (\<exists>w\<in>set (is_wakeWindows spec). \<exists>t. fires w t \<and> since < t \<and> t \<le> in_now i))
    \<and> (out_state (idleDecide cron i) = idleAsleep \<longleftrightarrow> \<not> out_wake (idleDecide cron i))
    \<and> (out_state (idleDecide cron i) = idleAsleep \<longrightarrow> out_requeue (idleDecide cron i) > 0)"
proof -
  let ?ws = "is_wakeWindows spec" and ?now = "in_now i"
  have parsed: "\<forall>w\<in>set ?ws. \<exists>sched n. cron w = Inr sched \<and> sched since = Some n"
    using assms(2) by fastforce
  then have valid: "validateWakeWindows cron ?ws = None"
    by (auto simp: validateWakeWindows_None)
  obtain nxt where due: "wakeWindowDue cron ?ws since ?now = Inr
      (\<exists>w\<in>set ?ws. \<exists>sched n. cron w = Inr sched \<and> sched since = Some n \<and> n \<le> ?now, nxt)"
    using wakeWindowLoop_due [OF parsed] by (auto simp: wakeWindowDue_def)
  have "(\<exists>sched n. cron w = Inr sched \<and> sched since = Some n \<and> n \<le> ?now) \<longleftrightarrow> (\<exists>t. fires w t \<and> since < t \<and> t \<le> ?now)"
    if mem: "w \<in> set ?ws" for w
  proof -
    obtain sched n where "cron w = Inr sched" "next_law sched (fires w)" "sched since = Some n"
      using assms(2) [OF mem] by auto
    with next_law_due [of sched "fires w" since n ?now] show ?thesis
      by auto
  qed
  then have fires: "(\<exists>w\<in>set ?ws. \<exists>sched n. cron w = Inr sched \<and> sched since = Some n \<and> n \<le> ?now) \<longleftrightarrow>
      (\<exists>w\<in>set ?ws. \<exists>t. fires w t \<and> since < t \<and> t \<le> ?now)"
    by blast
  have "untilNext nxt ?now > 0"
    by (auto simp: untilNext_def idleReevaluate_def minute_def second_def split: option.splits)
  moreover have "idleDecide cron i = idleDecideAsleep cron spec None (empty_status (in_lastWakeTime i)) since ?now"
    using assms(1) valid by (simp add: asleep_untouched_def idleDecide_def)
  ultimately show ?thesis
    unfolding fires [symmetric] by (simp add: idleDecideAsleep_def due Let_def)
qed

definition hourly :: schedule where
  "hourly t = Some ((t div (60 * minute) + 1) * (60 * minute))"

lemma grid_next:
  fixes h t u :: int
  assumes "0 < h"
  shows "t < (t div h + 1) * h" "t < u \<Longrightarrow> u < (t div h + 1) * h \<Longrightarrow> u mod h \<noteq> 0"
proof -
  have t: "t div h * h + t mod h = t" "0 \<le> t mod h" "t mod h < h"
    using assms by simp_all
  have step: "(t div h + 1) * h = t div h * h + h"
    by (simp add: distrib_right)
  show "t < (t div h + 1) * h"
    unfolding step using t by linarith
  assume u: "t < u" "u < (t div h + 1) * h"
  show "u mod h \<noteq> 0"
  proof
    assume "u mod h = 0"
    then have "u = u div h * h"
      using div_mult_mod_eq [of u h] by simp
    moreover have "t div h \<le> u div h"
      using u(1) assms by (intro zdiv_mono1) simp_all
    moreover have "u div h * h < (t div h + 1) * h"
      using u(2) \<open>u = u div h * h\<close> by simp
    then have "u div h < t div h + 1"
      using assms by (simp only: mult_less_cancel_right_pos)
    ultimately have "u = t div h * h"
      by simp
    with t u(1) show False
      by linarith
  qed
qed

lemma hourly_law: "next_law hourly (\<lambda>t. t mod (60 * minute) = 0)"
proof -
  have "0 < 60 * minute"
    by (simp add: minute_def second_def)
  note grid = grid_next [OF this]
  show ?thesis
    unfolding next_law_def hourly_def option.simps
  proof (intro allI conjI impI)
    fix t u
    show "t < (t div (60 * minute) + 1) * (60 * minute)"
      by (rule grid(1))
    show "(t div (60 * minute) + 1) * (60 * minute) mod (60 * minute) = 0"
      by (rule mod_mult_self2_is_0)
    assume "t < u \<and> u < (t div (60 * minute) + 1) * (60 * minute)"
    then show "u mod (60 * minute) \<noteq> 0"
      using grid(2) [of t u] by (elim conjE)
  qed
qed

theorem wake_window_exact_witness:
  "out_wake (idleDecide (\<lambda>_. Inr hourly) (idle_inputs_example\<lparr>in_asleepSince := Some 0, in_now := 60 * minute,
     in_spec := Some \<lparr>is_enabled = True, is_afterMinutes = None, is_wakeWindows = [''0 * * * *'']\<rparr>\<rparr>))"
proof -
  let ?spec = "\<lparr>is_enabled = True, is_afterMinutes = None, is_wakeWindows = [''0 * * * *'']\<rparr>"
  let ?i = "idle_inputs_example\<lparr>in_asleepSince := Some 0, in_now := 60 * minute, in_spec := Some ?spec\<rparr>"
  have "asleep_untouched ?i ?spec 0"
    by (simp add: asleep_untouched_def idle_inputs_example_def)
  moreover have "hourly 0 \<noteq> None"
    by (simp add: hourly_def)
  ultimately show ?thesis
    using wake_window_exact [of ?i ?spec 0 "\<lambda>_. Inr hourly" "\<lambda>_ t. t mod (60 * minute) = 0"] hourly_law
    by (auto simp: minute_def second_def intro!: exI [of _ "60 * minute"])
qed

text \<open>A window that parses but can never fire (the 30th of February), for which the schedule's next
  activation is the zero time, wakes the sleeping server at the very next reconcile: the zero time is
  not after now.\<close>

lemma impossible_window_wakes_at_once:
  assumes "asleep_untouched i spec since" "validateWakeWindows cron (is_wakeWindows spec) = None"
    and "is_wakeWindows spec = w # ws" "cron w = Inr sched" "sched since = None"
  shows "out_wake (idleDecide cron i) \<and> out_state (idleDecide cron i) = idleAwake"
  using assms by (simp add: asleep_untouched_def idleDecide_def idleDecideAsleep_def wakeWindowDue_def)

lemma impossible_window_example:
  "out_wake (idleDecide (\<lambda>_. Inr (\<lambda>_. None)) (idle_inputs_example\<lparr>in_asleepSince := Some 0,
     in_spec := Some \<lparr>is_enabled = True, is_afterMinutes = None, is_wakeWindows = [''0 0 30 2 *'']\<rparr>\<rparr>))"
proof -
  let ?spec = "\<lparr>is_enabled = True, is_afterMinutes = None, is_wakeWindows = [''0 0 30 2 *'']\<rparr>"
  let ?i = "idle_inputs_example\<lparr>in_asleepSince := Some 0, in_spec := Some ?spec\<rparr>"
  have "asleep_untouched ?i ?spec 0"
    by (simp add: asleep_untouched_def idle_inputs_example_def)
  then show ?thesis
    using impossible_window_wakes_at_once [of ?i ?spec 0 "\<lambda>_. Inr (\<lambda>_. None)" "''0 0 30 2 *''" "[]" "\<lambda>_. None"]
    by simp
qed

section \<open>Request tokens\<close>

text \<open>The request and acknowledgement protocol shared by wakes and restarts: a request stamps a fresh token,
  honouring it copies the token to the completed annotation and leaves the request where it is.\<close>

locale token_protocol =
  fixes requested completed :: string and ack :: "annotations \<Rightarrow> annotations"
  assumes keeps_request: "ann (ack m) requested = ann m requested"
    and echoes: "ann m requested \<noteq> [] \<Longrightarrow> ann (ack m) completed = ann m requested"
    and distinct_keys: "requested \<noteq> completed"
begin

lemma acked: "\<not> tokenPending (ack m) requested completed"
  using keeps_request echoes by (cases "ann m requested = []") (auto simp: tokenPending_def)

lemma fresh_request_pending:
  assumes "tok \<noteq> []" "tok \<noteq> ann m requested" "ann m requested \<noteq> []"
  shows "tokenPending ((ack m)(requested \<mapsto> tok)) requested completed"
  using assms echoes [OF assms(3)] distinct_keys by (simp add: tokenPending_def ann_def)

end

definition wake_ack :: "annotations \<Rightarrow> annotations" where
  "wake_ack = applyIdleTransition (outcome idleAwake False True None 0 None) 0"

interpretation wake_tokens: token_protocol IdleWakeRequestedAnnotation IdleWakeCompletedAnnotation wake_ack
  by unfold_locales
    (auto simp: wake_ack_def applyIdleTransition_def Let_def annotation_keys ann_def split: option.splits)

interpretation restart_tokens: token_protocol RestartRequestedAnnotation RestartCompletedAnnotation ackRestart
  by unfold_locales (auto simp: ackRestart_def annotation_keys ann_def split: option.splits)

lemma apply_wake: "out_wake out \<Longrightarrow> \<not> out_sleep out \<Longrightarrow> applyIdleTransition out now m = wake_ack m"
  by (simp add: wake_ack_def applyIdleTransition_def)

lemma apply_sleep: "out_sleep out \<Longrightarrow> applyIdleTransition out now m = m(IdleAsleepSinceAnnotation \<mapsto> format_rfc3339 now)"
  by (simp add: applyIdleTransition_def)

lemma wake_ack_clears: "wake_ack m IdleAsleepSinceAnnotation = None" "wake_ack m stopRequestedAtAnnotation = None"
  by (simp_all add: wake_ack_def applyIdleTransition_def Let_def annotation_keys)

text \<open>C37. For a server that has idling enabled, is not suspended by its user and is not owned by a lifecycle operation, a
  wake request stamped by the sentinel or the dashboard is honoured by the next reconcile that reaches the
  API server, whatever the wake windows and the idle clock say: the server is decided awake, the sleep marker and
  the soft-stop clock are gone, and the token is acknowledged in the same write, so it is never honoured twice.  A
  later, different token is pending again.\<close>

theorem wake_request_honoured_once:
  assumes "gs_idle gs = Some spec" "is_enabled spec" "\<not> gs_suspend gs"
    and "tokenPending (gs_annotations gs) IdleWakeRequestedAnnotation IdleWakeCompletedAnnotation"
  shows "\<exists>res gs'. reconcileIdle cron (Inr False) None hbNow now gs = (Inr res, gs') \<and> ir_state res = idleAwake
    \<and> \<not> tokenPending (gs_annotations gs') IdleWakeRequestedAnnotation IdleWakeCompletedAnnotation
    \<and> gs_annotations gs' IdleAsleepSinceAnnotation = None \<and> gs_annotations gs' stopRequestedAtAnnotation = None
    \<and> (\<forall>tok. tok \<noteq> [] \<and> tok \<noteq> ann (gs_annotations gs) IdleWakeRequestedAnnotation \<longrightarrow>
        tokenPending ((gs_annotations gs')(IdleWakeRequestedAnnotation \<mapsto> tok))
          IdleWakeRequestedAnnotation IdleWakeCompletedAnnotation)"
proof -
  let ?m = "gs_annotations gs" and ?out = "idleDecide cron (idleInputs hbNow now gs)"
  have out: "out_wake ?out" "\<not> out_sleep ?out" "out_state ?out = idleAwake"
    using assms by (simp_all add: idleDecide_def idleInputs_def Let_def)
  then have "reconcileIdle cron (Inr False) None hbNow now gs =
      (Inr \<lparr>ir_state = idleAwake, ir_status = out_status ?out, ir_requeue = out_requeue ?out, ir_schedule_err = out_err ?out\<rparr>,
       gs\<lparr>gs_annotations := wake_ack ?m\<rparr>)"
    by (simp add: reconcileIdle_def apply_wake Let_def)
  moreover have "ann ?m IdleWakeRequestedAnnotation \<noteq> []"
    using assms(4) by (simp add: tokenPending_def)
  ultimately show ?thesis
    using wake_tokens.acked wake_tokens.fresh_request_pending wake_ack_clears by simp
qed

definition wake_gs_example :: game_server where
  "wake_gs_example = \<lparr>gs_annotations = Map.empty(''gameplane.local/idle-wake-requested'' \<mapsto> ''t1''),
     gs_idle = Some \<lparr>is_enabled = True, is_afterMinutes = None, is_wakeWindows = []\<rparr>, gs_suspend = False,
     gs_phase = ''Suspended'', gs_agent = None, gs_status_idle = None\<rparr>"

theorem wake_request_honoured_once_witness:
  "\<exists>res gs'. reconcileIdle (\<lambda>_. Inl []) (Inr False) None 0 0 wake_gs_example = (Inr res, gs') \<and> ir_state res = idleAwake"
proof -
  have "gs_idle wake_gs_example = Some \<lparr>is_enabled = True, is_afterMinutes = None, is_wakeWindows = []\<rparr>"
    "\<not> gs_suspend wake_gs_example"
    "tokenPending (gs_annotations wake_gs_example) IdleWakeRequestedAnnotation IdleWakeCompletedAnnotation"
    by (simp_all add: wake_gs_example_def tokenPending_def ann_def annotation_keys)
  from wake_request_honoured_once [OF this(1) _ this(2,3), of "\<lambda>_. Inl []" 0 0] show ?thesis
    by (simp only: idle_spec.simps) blast
qed

section \<open>The marker and the read model\<close>

lemma decide_asleep_status:
  assumes "out_status (idleDecide cron i) = Some st"
  shows "st_asleep st \<longleftrightarrow> out_state (idleDecide cron i) = idleAsleep"
    "st_asleep st \<Longrightarrow> st_asleepSince st \<noteq> None \<and> st_emptySince st = None"
  using assms
  by (auto simp: idleDecide_def idleDecideAsleep_def idleDecideAwake_def empty_status_def Let_def
      split: option.splits if_splits sum.splits)

text \<open>How the decision and the marker it starts from determine the transition.\<close>

lemma decide_transition:
  "out_sleep (idleDecide cron i) \<Longrightarrow> out_state (idleDecide cron i) = idleAsleep \<and> \<not> out_wake (idleDecide cron i)"
  "out_wake (idleDecide cron i) \<Longrightarrow> out_state (idleDecide cron i) = idleAwake"
  "\<not> out_sleep (idleDecide cron i) \<Longrightarrow> \<not> out_wake (idleDecide cron i) \<Longrightarrow>
     out_state (idleDecide cron i) = idleAsleep \<longleftrightarrow> in_asleepSince i \<noteq> None"
  by (auto simp: idleDecide_def idleDecideAsleep_def idleDecideAwake_def Let_def
      split: option.splits if_splits sum.splits)

definition in_rfc3339_range :: "time \<Rightarrow> bool" where
  "in_rfc3339_range t \<longleftrightarrow> (case civil_of_days (t div second div 86400) of (y, _, _) \<Rightarrow> 0 \<le> y \<and> y \<le> 9999)"

lemma sleep_marker_parses:
  assumes "in_rfc3339_range now"
  shows "parseAnnotationTime (m(IdleAsleepSinceAnnotation \<mapsto> format_rfc3339 now)) IdleAsleepSinceAnnotation
    = Some (now div second * second)"
proof -
  obtain y mo d where "civil_of_days (now div second div 86400) = (y, mo, d)"
    by (cases "civil_of_days (now div second div 86400)")
  with assms rfc3339_roundtrip [OF this] show ?thesis
    by (simp add: parseAnnotationTime_def in_rfc3339_range_def)
qed

text \<open>After every reconcile that did not fail, the state it reports, on which the replica count is based,
  agrees with the persisted marker: asleep exactly when the marker on the GameServer parses.  So the
  decision survives an operator restart, and the next reconcile starts from it.  When the policy decided,
  the read model shows the same state and never an empty-clock on a sleeping server.\<close>

theorem reconcile_state_persisted:
  assumes "reconcileIdle cron (Inr held) patch_err hbNow now gs = (Inr res, gs')" "in_rfc3339_range now"
  shows "(ir_state res = idleAsleep \<longleftrightarrow> parseAnnotationTime (gs_annotations gs') IdleAsleepSinceAnnotation \<noteq> None)
    \<and> (\<not> held \<longrightarrow> (\<forall>st. ir_status res = Some st \<longrightarrow>
        (st_asleep st \<longleftrightarrow> ir_state res = idleAsleep) \<and> (st_asleep st \<longrightarrow> st_emptySince st = None)))"
proof (cases held)
  case True
  with assms(1) show ?thesis
    by (auto simp: reconcileIdle_def split: if_splits)
next
  case False
  let ?m = "gs_annotations gs" and ?i = "idleInputs hbNow now gs"
  let ?out = "idleDecide cron ?i"
  have res: "ir_state res = out_state ?out" "ir_status res = out_status ?out"
    and gs': "gs_annotations gs' = (if out_sleep ?out \<or> out_wake ?out then applyIdleTransition ?out now ?m else ?m)"
    using assms(1) False by (auto simp: reconcileIdle_def Let_def split: if_splits option.splits)
  have since: "in_asleepSince ?i = parseAnnotationTime ?m IdleAsleepSinceAnnotation"
    by (simp add: idleInputs_def Let_def)
  have "ir_state res = idleAsleep \<longleftrightarrow> parseAnnotationTime (gs_annotations gs') IdleAsleepSinceAnnotation \<noteq> None"
  proof (cases "out_sleep ?out")
    case True
    with decide_transition(1) [OF True] gs' sleep_marker_parses [OF assms(2)] show ?thesis
      by (simp add: res apply_sleep)
  next
    case no_sleep: False
    show ?thesis
    proof (cases "out_wake ?out")
      case True
      with decide_transition(2) [OF True] no_sleep gs' wake_ack_clears(1) show ?thesis
        by (simp add: res apply_wake parseAnnotationTime_def)
    next
      case False
      with decide_transition(3) [OF no_sleep False] gs' no_sleep show ?thesis
        by (simp add: res since)
    qed
  qed
  moreover have "(st_asleep st \<longleftrightarrow> ir_state res = idleAsleep) \<and> (st_asleep st \<longrightarrow> st_emptySince st = None)"
    if "ir_status res = Some st" for st
    using decide_asleep_status [of cron ?i st] that by (auto simp: res)
  ultimately show ?thesis
    by blast
qed

theorem reconcile_state_persisted_witness:
  "\<exists>res gs'. reconcileIdle (\<lambda>_. Inl []) (Inr False) None 0 0 wake_gs_example = (Inr res, gs') \<and>
     (ir_state res = idleAsleep \<longleftrightarrow> parseAnnotationTime (gs_annotations gs') IdleAsleepSinceAnnotation \<noteq> None)"
proof -
  obtain res gs' where r: "reconcileIdle (\<lambda>_. Inl []) (Inr False) None 0 0 wake_gs_example = (Inr res, gs')"
    by (cases "out_sleep (idleDecide (\<lambda>_. Inl []) (idleInputs 0 0 wake_gs_example))
        \<or> out_wake (idleDecide (\<lambda>_. Inl []) (idleInputs 0 0 wake_gs_example))") (simp_all add: reconcileIdle_def Let_def)
  have "in_rfc3339_range 0"
    by code_simp
  from reconcile_state_persisted [OF r this] r show ?thesis
    by blast
qed

text \<open>A pending restart is complete only when the pod is gone, drains otherwise, and once acknowledged is
  over: the same token never restarts the server again.\<close>

theorem restart_runs_once:
  "(restartPhase m ss = Inr restartComplete \<longleftrightarrow>
      tokenPending m RestartRequestedAnnotation RestartCompletedAnnotation \<and> (ss = NotFound \<or> ss = Replicas 0))
   \<and> (restartPhase m ss = Inr restartDraining \<longleftrightarrow>
      tokenPending m RestartRequestedAnnotation RestartCompletedAnnotation \<and> (\<exists>n. ss = Replicas n \<and> n \<noteq> 0))
   \<and> restartPhase (ackRestart m) ss = Inr restartNone"
proof -
  have "restartPhase (ackRestart m) ss = Inr restartNone"
    using restart_tokens.acked [of m] by (auto simp: restartPhase_def tokenPending_def)
  then show ?thesis
    by (auto simp: restartPhase_def tokenPending_def split: fetched.splits if_splits)
qed

end
