(* ===== verification/Lifecycle.thy ===== *)
theory Lifecycle
  imports Idle
begin

text \<open>
  Arbitration of backups, restores, wipes and rollouts on one GameServer,
  \<^verbatim>\<open>operator/internal/controller/lifecycle_operation.go\<close>: who owns the server, how ownership is claimed,
  how an orphaned owner is recovered, and how ownership is released.

  The GameServer is the arbitration object.  An annotation holding JSON is modelled by what it decodes
  to, or by the text that does not decode; an empty annotation counts as absent.  A write is an Update
  checked against the resourceVersion that was read, so a successful claim is atomic on the stored
  object and a failed one leaves it alone; whether each Update succeeds, and what the uncached reads of
  other objects return, is the environment of the call.
\<close>

section \<open>Identities and operations\<close>

record lifecycle_identity =
  li_kind :: string
  li_name :: string
  li_uid :: string
  li_target :: string
  li_generation :: int
  li_token :: string
  li_needsUnquiesce :: bool
  li_quiescePod :: string
  li_initialStartup :: bool
  li_baseline :: bool

record lifecycle_operation =
  lo_identity :: lifecycle_identity
  lo_recovery :: "lifecycle_identity list"

type_synonym 'a decoded = "string + 'a"

record lc_server =
  ls_name :: string
  ls_uid :: string
  ls_generation :: int
  ls_deleting :: bool
  ls_suspend :: bool
  ls_owner :: "lifecycle_operation decoded option"
  ls_backup_guard :: "(string \<times> string) decoded option"
  ls_lineage :: "(string \<times> string) list decoded option"
  ls_restore_guard :: "(string \<times> string) decoded option"
  ls_wipe_guard :: string
  ls_annotations :: annotations

datatype lc_error =
    DecodeOwner string | InvalidOwner | RecoveryTargetChanged | OwnerReplaced
  | DecodeIdentity string | IdentityIncomplete | OverlappingLegacy
  | UnknownOperation string | TargetGone | GenerationChanged | UnsupportedOrphan string
  | NoAgent | LegacyQuiesceProof | ReleaseBeforeRecovery | NotControlled | NoOwner
  | ApiError string

fun hex_value :: "char \<Rightarrow> nat option" where
  "hex_value c =
     (if in_rng 0x30 0x39 c then Some (of_char c - 0x30)
      else if in_rng 0x61 0x66 c then Some (of_char c - 0x61 + 10)
      else if in_rng 0x41 0x46 c then Some (of_char c - 0x41 + 10) else None)"

fun hex_decode :: "string \<Rightarrow> nat list option" where
  "hex_decode [] = Some []"
| "hex_decode [c] = None"
| "hex_decode (a # b # s) = (case (hex_value a, hex_value b, hex_decode s) of
      (Some x, Some y, Some bs) \<Rightarrow> Some ((16 * x + y) # bs) | _ \<Rightarrow> None)"

definition hex_char :: "nat \<Rightarrow> char" where
  "hex_char n = (if n < 10 then char_of (0x30 + n) else char_of (0x61 + (n - 10)))"

definition hex_encode :: "nat list \<Rightarrow> string" where
  "hex_encode bs = concat (map (\<lambda>b. [hex_char (b div 16), hex_char (b mod 16)]) bs)"

definition validTemplateRevision :: "string \<Rightarrow> bool" where
  "validTemplateRevision revision \<longleftrightarrow> (case hex_decode revision of
      None \<Rightarrow> False | Some bs \<Rightarrow> length bs = 32 \<and> hex_encode bs = revision)"

definition valid_identity :: "lifecycle_identity \<Rightarrow> bool" where
  "valid_identity i \<longleftrightarrow> \<not> (li_name i = [] \<or> li_uid i = [] \<or> li_target i = [] \<or>
     (li_kind i \<noteq> ''Backup'' \<and> li_kind i \<noteq> ''Restore'' \<and> li_kind i \<noteq> ''Wipe'' \<and> li_kind i \<noteq> ''Rollout'') \<or>
     (li_kind i = ''Wipe'' \<and> li_token i = []) \<or> (li_kind i = ''Rollout'' \<and> \<not> validTemplateRevision (li_token i)))"

fun checkIdentities :: "string \<Rightarrow> lifecycle_identity list \<Rightarrow> lc_error option" where
  "checkIdentities target [] = None"
| "checkIdentities target (i # ids) =
     (if \<not> valid_identity i then Some InvalidOwner
      else if li_target i \<noteq> target then Some RecoveryTargetChanged
      else checkIdentities target ids)"

definition parseLifecycleOperation :: "lifecycle_operation decoded \<Rightarrow> lc_error + lifecycle_operation" where
  "parseLifecycleOperation value = (case value of
      Inl bad \<Rightarrow> Inl (DecodeOwner bad)
    | Inr op \<Rightarrow> (case checkIdentities (li_target (lo_identity op)) (lo_identity op # lo_recovery op) of
          Some e \<Rightarrow> Inl e | None \<Rightarrow> Inr op))"

definition identity :: "string \<Rightarrow> string \<Rightarrow> string \<Rightarrow> string \<Rightarrow> int \<Rightarrow> string \<Rightarrow> bool \<Rightarrow> lifecycle_identity" where
  "identity kind name uid target gen token unquiesce =
     \<lparr>li_kind = kind, li_name = name, li_uid = uid, li_target = target, li_generation = gen, li_token = token,
      li_needsUnquiesce = unquiesce, li_quiescePod = [], li_initialStartup = False, li_baseline = False\<rparr>"

text \<open>The object an operation belongs to: name, UID and generation.\<close>

record lc_object =
  lb_name :: string
  lb_uid :: string
  lb_generation :: int

definition backupLifecycleIdentity :: "lc_server \<Rightarrow> lc_object \<Rightarrow> bool \<Rightarrow> lifecycle_identity" where
  "backupLifecycleIdentity gs b quiesce =
     identity ''Backup'' (lb_name b) (lb_uid b) (ls_uid gs) (lb_generation b) [] quiesce"

definition restoreLifecycleIdentity :: "lc_server \<Rightarrow> lc_object \<Rightarrow> lifecycle_identity" where
  "restoreLifecycleIdentity gs rs =
     identity ''Restore'' (lb_name rs) (lb_uid rs) (ls_uid gs) (lb_generation rs) [] False"

definition wipeLifecycleIdentity :: "lc_server \<Rightarrow> string \<Rightarrow> lifecycle_identity" where
  "wipeLifecycleIdentity gs token =
     identity ''Wipe'' (ls_name gs) (ls_uid gs) (ls_uid gs) (ls_generation gs) token False"

definition sameLifecycleOwner :: "lifecycle_identity \<Rightarrow> lifecycle_identity \<Rightarrow> bool" where
  "sameLifecycleOwner a b \<longleftrightarrow> li_kind a = li_kind b \<and> li_name a = li_name b \<and> li_uid a = li_uid b \<and>
     li_target a = li_target b \<and> li_token a = li_token b"

definition parseBackupIdentity :: "(string \<times> string) decoded \<Rightarrow> lc_error + string \<times> string" where
  "parseBackupIdentity value = (case value of
      Inl bad \<Rightarrow> Inl (DecodeIdentity bad)
    | Inr (name, uid) \<Rightarrow> if name = [] \<or> uid = [] then Inl IdentityIncomplete else Inr (name, uid))"

definition parseRestoreIdentity :: "(string \<times> string) decoded \<Rightarrow> lc_error + string \<times> string" where
  "parseRestoreIdentity value = (case value of
      Inl bad \<Rightarrow> Inl (DecodeIdentity bad)
    | Inr (name, uid) \<Rightarrow> if name = [] \<or> uid = [] then Inl IdentityIncomplete else Inr (name, uid))"

definition parseBackupRecoveryLineage ::
  "(string \<times> string) list decoded option \<Rightarrow> lc_error + (string \<times> string) list" where
  "parseBackupRecoveryLineage value = (case value of
      None \<Rightarrow> Inr []
    | Some (Inl bad) \<Rightarrow> Inl (DecodeIdentity bad)
    | Some (Inr ids) \<Rightarrow> if list_ex (\<lambda>(name, uid). name = [] \<or> uid = []) ids then Inl IdentityIncomplete else Inr ids)"

text \<open>The owner, if the server has one.\<close>

definition legacyBackupOwner :: "lc_server \<Rightarrow> lc_error + lifecycle_operation option" where
  "legacyBackupOwner gs = (case ls_backup_guard gs of
      None \<Rightarrow> Inr None
    | Some value \<Rightarrow>
        res_bind (parseBackupIdentity value) (\<lambda>(name, uid).
        res_bind (parseBackupRecoveryLineage (ls_lineage gs)) (\<lambda>lineage.
        Inr (Some \<lparr>lo_identity = identity ''Backup'' name uid (ls_uid gs) 0 [] True,
             lo_recovery = map (\<lambda>(n, u). identity ''Backup'' n u (ls_uid gs) 0 [] True) lineage\<rparr>))))"

definition legacyRestoreOwner :: "lc_server \<Rightarrow> lc_error + lifecycle_operation option" where
  "legacyRestoreOwner gs = (case ls_restore_guard gs of
      None \<Rightarrow> Inr None
    | Some value \<Rightarrow> res_bind (parseRestoreIdentity value) (\<lambda>(name, uid).
        Inr (Some \<lparr>lo_identity = identity ''Restore'' name uid (ls_uid gs) 0 [] False, lo_recovery = []\<rparr>)))"

definition legacyWipeOwner :: "lc_server \<Rightarrow> lifecycle_operation option" where
  "legacyWipeOwner gs =
     (if ls_wipe_guard gs = [] then None
      else Some \<lparr>lo_identity = wipeLifecycleIdentity gs (ls_wipe_guard gs), lo_recovery = []\<rparr>)"

definition lifecycleOwner :: "lc_server \<Rightarrow> lc_error + lifecycle_operation option" where
  "lifecycleOwner gs = (case ls_owner gs of
      Some value \<Rightarrow> res_bind (parseLifecycleOperation value) (\<lambda>op.
        if li_target (lo_identity op) \<noteq> ls_uid gs then Inl OwnerReplaced else Inr (Some op))
    | None \<Rightarrow>
        res_bind (legacyBackupOwner gs) (\<lambda>b.
        res_bind (legacyRestoreOwner gs) (\<lambda>r.
        (case filter (\<lambda>x. x \<noteq> None) [b, r, legacyWipeOwner gs] of
           [] \<Rightarrow> Inr None
         | [x] \<Rightarrow> Inr x
         | _ \<Rightarrow> Inl OverlappingLegacy))))"

section \<open>Observations of a call\<close>

datatype obj_lookup = ObjNotFound | ObjError string | ObjUID string

record lc_pod =
  pd_name :: string
  pd_uid :: string
  pd_deleting :: bool
  pd_phase :: string
  pd_claims :: "string list"

datatype pod_lookup = PodNotFound | PodError string | PodFound lc_pod

record lc_statefulset =
  sf_controlled :: bool
  sf_owner :: "lifecycle_operation decoded option"
  sf_replicas :: "int option"
  sf_statusReplicas :: int
  sf_observedGeneration :: int
  sf_generation :: int
  sf_currentRevision :: string
  sf_updateRevision :: string

datatype ss_lookup = SsNotFound | SsError string | SsFound lc_statefulset

record lc_backup =
  cb_server :: string
  cb_object :: lc_object
  cb_targetAnnotation :: string
  cb_quiesceAttempted :: string
  cb_unquiescedAt :: string

record lc_env =
  le_get :: "string option"
  le_object :: "lifecycle_identity \<Rightarrow> obj_lookup"
  le_wipeWorkers :: "string + bool"
  le_statefulset :: ss_lookup
  le_pods :: "string + lc_pod list"
  le_backups :: "string + lc_backup list"
  le_backupCopying :: "lc_object \<Rightarrow> string + bool"
  le_backupWorkers :: "lifecycle_identity \<Rightarrow> string + bool"
  le_restoreWorkers :: "lifecycle_identity \<Rightarrow> string + bool"
  le_targetStopped :: "string + bool"
  le_gamePod :: pod_lookup
  le_agent :: bool
  le_unquiesce :: "string \<Rightarrow> string option"
  le_claimUpdate :: "string option"
  le_recoverUpdate :: "string option"

definition liveRestorePod :: "lc_pod \<Rightarrow> bool" where
  "liveRestorePod p \<longleftrightarrow> pd_deleting p \<or> (pd_phase p \<noteq> ''Succeeded'' \<and> pd_phase p \<noteq> ''Failed'')"

definition podMountsRestoreTarget :: "lc_pod \<Rightarrow> string \<Rightarrow> bool" where
  "podMountsRestoreTarget p server \<longleftrightarrow> list_ex (\<lambda>claim. claim = server @ ''-data'') (pd_claims p)"

definition pendingWipe :: "lc_server \<Rightarrow> bool" where
  "pendingWipe gs \<longleftrightarrow> ann (ls_annotations gs) WipeRequestedAnnotation \<noteq> [] \<and>
     ann (ls_annotations gs) WipeRequestedAnnotation \<noteq> ann (ls_annotations gs) WipeCompletedAnnotation"

definition lifecycleOwnerExists :: "lc_env \<Rightarrow> lifecycle_identity \<Rightarrow> lc_error + bool" where
  "lifecycleOwnerExists env i =
     (if li_kind i = ''Backup'' \<or> li_kind i = ''Restore'' then
        (case le_object env i of
           ObjNotFound \<Rightarrow> Inr False
         | ObjError e \<Rightarrow> Inl (ApiError e)
         | ObjUID uid \<Rightarrow> Inr (uid = li_uid i))
      else if li_kind i = ''Wipe'' \<or> li_kind i = ''Rollout'' then Inr True
      else Inl (UnknownOperation (li_kind i)))"

definition legacyBackupOwesUnquiesce :: "lc_backup \<Rightarrow> bool" where
  "legacyBackupOwesUnquiesce b \<longleftrightarrow> cb_targetAnnotation b = [] \<and> cb_quiesceAttempted b \<noteq> [] \<and>
     cb_quiesceAttempted b \<noteq> ''unsupported'' \<and> cb_unquiescedAt b = []"

fun legacyCopiesLoop :: "lc_env \<Rightarrow> lc_server \<Rightarrow> lifecycle_identity \<Rightarrow> lc_backup list \<Rightarrow> lc_error + bool" where
  "legacyCopiesLoop env gs want [] = Inr False"
| "legacyCopiesLoop env gs want (b # bs) =
     (if cb_server b \<noteq> ls_name gs \<or> (li_kind want = ''Backup'' \<and> lb_uid (cb_object b) = li_uid want)
      then legacyCopiesLoop env gs want bs
      else if legacyBackupOwesUnquiesce b then Inr True
      else (case le_backupCopying env (cb_object b) of
          Inl e \<Rightarrow> Inl (ApiError e)
        | Inr busy \<Rightarrow> if busy then Inr True else legacyCopiesLoop env gs want bs))"

definition legacyLifecycleCopiesLive :: "lc_env \<Rightarrow> lc_server \<Rightarrow> lifecycle_identity \<Rightarrow> lc_error + bool" where
  "legacyLifecycleCopiesLive env gs want = (case le_backups env of
      Inl e \<Rightarrow> Inl (ApiError e) | Inr bs \<Rightarrow> legacyCopiesLoop env gs want bs)"

text \<open>The error of a failed read comes with \<^verbatim>\<open>true\<close>; callers look at the error first.\<close>

definition backupLifecycleTransitionPending :: "lc_env \<Rightarrow> lc_server \<Rightarrow> lc_error + bool" where
  "backupLifecycleTransitionPending env gs =
     (if tokenPending (ls_annotations gs) RestartRequestedAnnotation RestartCompletedAnnotation then Inr True
      else if ann (ls_annotations gs) stopRequestedAtAnnotation = [] then Inr False
      else (case le_statefulset env of
          SsNotFound \<Rightarrow> Inr True
        | SsError e \<Rightarrow> Inl (ApiError e)
        | SsFound ss \<Rightarrow>
            if \<not> sf_controlled ss \<or> sf_replicas ss \<noteq> Some 0 \<or> sf_statusReplicas ss \<noteq> 0 \<or>
               sf_observedGeneration ss < sf_generation ss
            then Inr True
            else (case le_pods env of
                Inl e \<Rightarrow> Inl (ApiError e)
              | Inr pods \<Rightarrow> Inr (list_ex (\<lambda>p. liveRestorePod p \<and>
                    (pd_name p = ls_name gs @ ''-0'' \<or> podMountsRestoreTarget p (ls_name gs))) pods))))"

section \<open>Recovery\<close>

definition lifecycleRecoveryNeedsStop :: "lifecycle_operation \<Rightarrow> bool" where
  "lifecycleRecoveryNeedsStop op \<longleftrightarrow> list_ex (\<lambda>p. li_kind p = ''Restore'') (lo_recovery op)"

text \<open>The first loop: \<open>True\<close> when no predecessor has a live worker.\<close>

fun drainPredecessors :: "lc_env \<Rightarrow> lifecycle_identity list \<Rightarrow> lc_error + bool" where
  "drainPredecessors env [] = Inr True"
| "drainPredecessors env (p # ps) =
     (if li_kind p \<noteq> ''Backup'' \<and> li_kind p \<noteq> ''Restore'' then Inl (UnsupportedOrphan (li_kind p))
      else (case (if li_kind p = ''Backup'' then le_backupWorkers env p else le_restoreWorkers env p) of
          Inl e \<Rightarrow> Inl (ApiError e)
        | Inr busy \<Rightarrow> if busy then Inr False else drainPredecessors env ps))"

definition backupQuiesceProcessGone :: "lc_env \<Rightarrow> string \<Rightarrow> lc_error + bool" where
  "backupQuiesceProcessGone env uid = (case le_gamePod env of
      PodNotFound \<Rightarrow> Inr True
    | PodError e \<Rightarrow> Inl (ApiError e)
    | PodFound p \<Rightarrow>
        if uid \<noteq> [] \<and> pd_uid p \<noteq> uid then Inr True
        else Inr (\<not> pd_deleting p \<and> (pd_phase p = ''Succeeded'' \<or> pd_phase p = ''Failed'')))"

text \<open>The second loop: every predecessor that paused saving has it resumed, or its process is gone.\<close>

fun unquiescePredecessors :: "lc_env \<Rightarrow> lifecycle_identity list \<Rightarrow> lc_error option" where
  "unquiescePredecessors env [] = None"
| "unquiescePredecessors env (p # ps) =
     (if \<not> li_needsUnquiesce p then unquiescePredecessors env ps
      else (case backupQuiesceProcessGone env (li_quiescePod p) of
          Inl e \<Rightarrow> Some e
        | Inr gone \<Rightarrow>
            if gone then unquiescePredecessors env ps
            else if \<not> le_agent env then Some NoAgent
            else if li_quiescePod p = [] then Some LegacyQuiesceProof
            else (case le_unquiesce env (li_quiescePod p) of
                Some e \<Rightarrow> Some (ApiError e)
              | None \<Rightarrow> unquiescePredecessors env ps)))"

text \<open>\<open>gs\<close> is the object in memory, \<open>store\<close> the stored one; the result is the stored one afterwards.\<close>

definition recoverLifecycleOperation ::
  "lc_env \<Rightarrow> lifecycle_operation \<Rightarrow> lc_server \<Rightarrow> lc_server \<Rightarrow> (lc_error + bool) \<times> lc_server" where
  "recoverLifecycleOperation env op gs store =
     (case drainPredecessors env (lo_recovery op) of
        Inl e \<Rightarrow> (Inl e, store)
      | Inr False \<Rightarrow> (Inr False, store)
      | Inr True \<Rightarrow>
          (case (if lifecycleRecoveryNeedsStop op then le_targetStopped env else Inr True) of
             Inl e \<Rightarrow> (Inl (ApiError e), store)
           | Inr False \<Rightarrow> (Inr False, store)
           | Inr True \<Rightarrow>
               (case unquiescePredecessors env (lo_recovery op) of
                  Some e \<Rightarrow> (Inl e, store)
                | None \<Rightarrow>
                    if lo_recovery op = [] then (Inr True, store)
                    else (case le_recoverUpdate env of
                        Some e \<Rightarrow> (Inl (ApiError e), store)
                      | None \<Rightarrow> (Inr True, gs\<lparr>ls_owner := Some (Inr (op\<lparr>lo_recovery := []\<rparr>)), ls_lineage := None\<rparr>)))))"

section \<open>Claiming and releasing\<close>

text \<open>The branch that admits a claimant: \<open>None\<close> when it has to wait, else the operation and the object
  before the annotations are written.\<close>

definition admitLifecycle ::
  "lc_env \<Rightarrow> lc_server \<Rightarrow> lifecycle_identity \<Rightarrow> lc_error + (lifecycle_operation \<times> lc_server) option" where
  "admitLifecycle env gs want =
     res_bind (lifecycleOwner gs) (\<lambda>owner. case owner of
        Some op \<Rightarrow>
          if \<not> sameLifecycleOwner (lo_identity op) want then
            res_bind (lifecycleOwnerExists env (lo_identity op)) (\<lambda>exists.
              if exists then Inr None
              else Inr (Some (\<lparr>lo_identity = want, lo_recovery = lo_recovery op @ [lo_identity op]\<rparr>,
                     if li_kind (lo_identity op) = ''Restore'' then gs\<lparr>ls_suspend := True\<rparr> else gs)))
          else if ls_owner gs \<noteq> None \<and> li_kind (lo_identity op) \<noteq> ''Wipe'' \<and> li_kind (lo_identity op) \<noteq> ''Rollout'' \<and>
                  li_generation (lo_identity op) \<noteq> li_generation want
          then Inl GenerationChanged
          else Inr (Some (if ls_owner gs = None then op\<lparr>lo_identity := want\<rparr> else op, gs))
      | None \<Rightarrow>
          res_bind (if li_kind want \<noteq> ''Wipe'' then (case le_wipeWorkers env of
                Inl e \<Rightarrow> Inl (ApiError e) | Inr busy \<Rightarrow> Inr (pendingWipe gs \<or> busy)) else Inr False) (\<lambda>wiping.
          if wiping then Inr None
          else res_bind (if li_kind want = ''Backup'' \<or> li_kind want = ''Rollout''
                then backupLifecycleTransitionPending env gs else Inr False) (\<lambda>pending.
          if pending then Inr None
          else res_bind (legacyLifecycleCopiesLive env gs want) (\<lambda>busy.
          if busy then Inr None
          else Inr (Some (\<lparr>lo_identity = want, lo_recovery = []\<rparr>, gs))))))"

definition stampOwner :: "lifecycle_operation \<Rightarrow> lifecycle_identity \<Rightarrow> lc_server \<Rightarrow> lc_server" where
  "stampOwner op want gs =
     (let gs = gs\<lparr>ls_owner := Some (Inr op), ls_backup_guard := None, ls_restore_guard := None, ls_wipe_guard := []\<rparr> in
      if li_kind want = ''Backup'' then gs\<lparr>ls_backup_guard := Some (Inr (li_name want, li_uid want))\<rparr>
      else if li_kind want = ''Restore'' then
        gs\<lparr>ls_restore_guard := Some (Inr (li_name want, li_uid want)),
           ls_suspend := ls_suspend gs \<or> \<not> li_initialStartup (lo_identity op)\<rparr>
      else if li_kind want = ''Wipe'' then
        gs\<lparr>ls_wipe_guard := li_token want, ls_suspend := ls_suspend gs \<or> pendingWipe gs\<rparr>
      else gs)"

text \<open>The code writes only when the text of the owner annotation or the suspension changed; the model compares the
  decoded owner, so an owner that is only spelt differently (field order, white space) is not rewritten.\<close>

definition claimLifecycleOperation ::
  "lc_env \<Rightarrow> lifecycle_identity \<Rightarrow> lc_server \<Rightarrow> (lc_error + bool) \<times> lc_server" where
  "claimLifecycleOperation env want live = (case le_get env of
      Some e \<Rightarrow> (Inl (ApiError e), live)
    | None \<Rightarrow>
        if ls_uid live \<noteq> li_target want \<or> ls_deleting live then (Inl TargetGone, live)
        else if li_kind want = ''Rollout'' \<and> ls_generation live \<noteq> li_generation want then (Inl GenerationChanged, live)
        else (case admitLifecycle env live want of
            Inl e \<Rightarrow> (Inl e, live)
          | Inr None \<Rightarrow> (Inr False, live)
          | Inr (Some (op, before)) \<Rightarrow>
              let gs = stampOwner op want before in
              if ls_owner before \<noteq> ls_owner gs \<or> ls_suspend before \<noteq> ls_suspend gs
              then (case le_claimUpdate env of
                  Some e \<Rightarrow> (Inl (ApiError e), live)
                | None \<Rightarrow> recoverLifecycleOperation env op gs gs)
              else recoverLifecycleOperation env op gs live))"

definition setLifecycleUnquiesceIntent :: "string option \<Rightarrow> bool \<Rightarrow> string \<Rightarrow> lc_server \<Rightarrow> lc_error option \<times> lc_server" where
  "setLifecycleUnquiesceIntent update needed podUID gs = (case ls_owner gs of
      None \<Rightarrow> (None, gs)
    | Some value \<Rightarrow> (case parseLifecycleOperation value of
          Inl e \<Rightarrow> (Some e, gs)
        | Inr op \<Rightarrow>
            let i = lo_identity op in
            if li_needsUnquiesce i = needed \<and> (\<not> needed \<or> li_quiescePod i = podUID) then (None, gs)
            else (case update of
                Some e \<Rightarrow> (Some (ApiError e), gs)
              | None \<Rightarrow> (None, gs\<lparr>ls_owner := Some (Inr (op\<lparr>lo_identity :=
                    i\<lparr>li_needsUnquiesce := needed, li_quiescePod := if needed then podUID else li_quiescePod i\<rparr>\<rparr>))\<rparr>))))"

text \<open>The fence on the workload: whether the copy may start, and the owner written to the StatefulSet.\<close>

definition fenceBackupWorkload :: "string option \<Rightarrow> ss_lookup \<Rightarrow> lc_server \<Rightarrow> (lc_error + bool) \<times> ss_lookup" where
  "fenceBackupWorkload update found gs = (case found of
      SsNotFound \<Rightarrow> (Inr False, found)
    | SsError e \<Rightarrow> (Inl (ApiError e), found)
    | SsFound ss \<Rightarrow>
        if \<not> sf_controlled ss then (Inl NotControlled, found)
        else if ls_owner gs = None then (Inl NoOwner, found)
        else
          (case (if sf_owner ss \<noteq> ls_owner gs then update else None) of
             Some e \<Rightarrow> (Inl (ApiError e), found)
           | None \<Rightarrow>
               (Inr (\<not> (sf_observedGeneration ss < sf_generation ss \<or>
                     (sf_currentRevision ss \<noteq> [] \<and> sf_currentRevision ss \<noteq> sf_updateRevision ss))),
                SsFound (ss\<lparr>sf_owner := ls_owner gs\<rparr>))))"

definition clearLifecycleOperation ::
  "string option \<Rightarrow> ss_lookup \<Rightarrow> lifecycle_identity \<Rightarrow> lc_server \<Rightarrow> (lc_error + lc_server) \<times> ss_lookup" where
  "clearLifecycleOperation update found want gs = (case ls_owner gs of
      None \<Rightarrow> (Inr gs, found)
    | Some value \<Rightarrow> (case parseLifecycleOperation value of
          Inl e \<Rightarrow> (Inl e, found)
        | Inr op \<Rightarrow>
            if \<not> sameLifecycleOwner (lo_identity op) want \<or> lo_recovery op \<noteq> [] then (Inl ReleaseBeforeRecovery, found)
            else (case found of
                SsError e \<Rightarrow> (Inl (ApiError e), found)
              | SsNotFound \<Rightarrow> (Inr (gs\<lparr>ls_owner := None\<rparr>), found)
              | SsFound ss \<Rightarrow>
                  if sf_controlled ss \<and> sf_owner ss = Some value
                  then (case update of
                      Some e \<Rightarrow> (Inl (ApiError e), found)
                    | None \<Rightarrow> (Inr (gs\<lparr>ls_owner := None\<rparr>), SsFound (ss\<lparr>sf_owner := None\<rparr>)))
                  else (Inr (gs\<lparr>ls_owner := None\<rparr>), found))))"

text \<open>\<^verbatim>\<open>releaseBackupTarget\<close>, on the GameServer \<^verbatim>\<open>ownedBackupTarget\<close> returned: the stored object afterwards.\<close>

definition releaseBackupTarget ::
  "string option \<Rightarrow> string option \<Rightarrow> ss_lookup \<Rightarrow> lc_object \<Rightarrow> lc_server \<Rightarrow> lc_error option \<times> lc_server" where
  "releaseBackupTarget ssUpdate update found b gs =
     (case fst (clearLifecycleOperation ssUpdate found (backupLifecycleIdentity gs b False) gs) of
        Inl e \<Rightarrow> (Some e, gs)
      | Inr gs' \<Rightarrow> (case update of
            Some e \<Rightarrow> (Some (ApiError e), gs)
          | None \<Rightarrow> (None, gs'\<lparr>ls_backup_guard := None, ls_lineage := None\<rparr>)))"

section \<open>What a claim does\<close>

lemma same_refl [simp]: "sameLifecycleOwner i i"
  by (simp add: sameLifecycleOwner_def)

lemma same_sym: "sameLifecycleOwner i j \<Longrightarrow> sameLifecycleOwner j i"
  by (simp add: sameLifecycleOwner_def)

lemma same_trans: "sameLifecycleOwner i j \<Longrightarrow> sameLifecycleOwner j k \<Longrightarrow> sameLifecycleOwner i k"
  by (simp add: sameLifecycleOwner_def)

lemma admit_cases:
  assumes "admitLifecycle env gs want = Inr (Some (op, before))"
  obtains (fresh) "lifecycleOwner gs = Inr None" "op = \<lparr>lo_identity = want, lo_recovery = []\<rparr>" "before = gs"
  | (same) op0 where "lifecycleOwner gs = Inr (Some op0)" "sameLifecycleOwner (lo_identity op0) want" "before = gs"
      "op = (if ls_owner gs = None then op0\<lparr>lo_identity := want\<rparr> else op0)"
  | (orphan) op0 where "lifecycleOwner gs = Inr (Some op0)" "\<not> sameLifecycleOwner (lo_identity op0) want"
      "lifecycleOwnerExists env (lo_identity op0) = Inr False"
      "op = \<lparr>lo_identity = want, lo_recovery = lo_recovery op0 @ [lo_identity op0]\<rparr>"
      "before = (if li_kind (lo_identity op0) = ''Restore'' then gs\<lparr>ls_suspend := True\<rparr> else gs)"
proof -
  obtain owner where owner: "lifecycleOwner gs = Inr owner"
    using assms by (auto simp: admitLifecycle_def)
  show ?thesis
  proof (cases owner)
    case None
    with assms owner have "op = \<lparr>lo_identity = want, lo_recovery = []\<rparr> \<and> before = gs"
      by (auto simp: admitLifecycle_def split: if_splits)
    with fresh owner None show ?thesis by blast
  next
    case (Some op0)
    show ?thesis
    proof (cases "sameLifecycleOwner (lo_identity op0) want")
      case True
      with assms owner Some
      have "before = gs \<and> op = (if ls_owner gs = None then op0\<lparr>lo_identity := want\<rparr> else op0)"
        unfolding admitLifecycle_def by (auto split: if_splits)
      with same owner Some True show ?thesis by blast
    next
      case False
      with assms owner Some obtain "lifecycleOwnerExists env (lo_identity op0) = Inr False"
        "op = \<lparr>lo_identity = want, lo_recovery = lo_recovery op0 @ [lo_identity op0]\<rparr>"
        "before = (if li_kind (lo_identity op0) = ''Restore'' then gs\<lparr>ls_suspend := True\<rparr> else gs)"
        by (auto simp: admitLifecycle_def split: if_splits)
      with orphan owner Some False show ?thesis by blast
    qed
  qed
qed

lemma recover_cases:
  assumes "recoverLifecycleOperation env op gs store = (res, store')"
  obtains (waiting) "res \<noteq> Inr True" "store' = store"
  | (clean) "res = Inr True" "lo_recovery op = []" "store' = store"
  | (recovered) "res = Inr True" "lo_recovery op \<noteq> []" "drainPredecessors env (lo_recovery op) = Inr True"
      "lifecycleRecoveryNeedsStop op \<longrightarrow> le_targetStopped env = Inr True"
      "unquiescePredecessors env (lo_recovery op) = None"
      "store' = gs\<lparr>ls_owner := Some (Inr (op\<lparr>lo_recovery := []\<rparr>)), ls_lineage := None\<rparr>"
proof (cases "res = Inr True")
  case True
  then have "lo_recovery op = [] \<and> store' = store \<or> lo_recovery op \<noteq> [] \<and> drainPredecessors env (lo_recovery op) = Inr True \<and>
      (lifecycleRecoveryNeedsStop op \<longrightarrow> le_targetStopped env = Inr True) \<and> unquiescePredecessors env (lo_recovery op) = None \<and>
      store' = gs\<lparr>ls_owner := Some (Inr (op\<lparr>lo_recovery := []\<rparr>)), ls_lineage := None\<rparr>"
    using assms unfolding recoverLifecycleOperation_def
    by (auto split: sum.splits bool.splits option.splits if_splits)
  then show ?thesis
    by (elim disjE conjE) (use True clean recovered in auto)
next
  case False
  then have "store' = store"
    using assms unfolding recoverLifecycleOperation_def
    by (auto split: sum.splits bool.splits option.splits if_splits)
  with False waiting show ?thesis by blast
qed

lemma owner_annotated:
  assumes "ls_owner gs = Some v" "lifecycleOwner gs = Inr (Some op)"
  shows "v = Inr op"
  using assms by (cases v) (auto simp: lifecycleOwner_def parseLifecycleOperation_def split: option.splits if_splits)

lemma stamp_fields [simp]:
  "ls_owner (stampOwner op want gs) = Some (Inr op)" "ls_uid (stampOwner op want gs) = ls_uid gs"
  "ls_name (stampOwner op want gs) = ls_name gs"
  by (simp_all add: stampOwner_def Let_def)

text \<open>Every claim either leaves the stored server as it was, or stores the claimant as its owner.\<close>

lemma claim_cases:
  assumes "claimLifecycleOperation env want live = (res, store)"
  obtains (refused) "res \<noteq> Inr True" "store = live"
  | (admitted) op before rec gs where "admitLifecycle env live want = Inr (Some (op, before))"
      "ls_uid live = li_target want" "gs = stampOwner op want before"
      "recoverLifecycleOperation env op gs rec = (res, store)" "ls_owner rec = Some (Inr op)"
      "rec = gs \<or> rec = live \<and> before = live"
proof -
  have stay: "before = live \<and> ls_owner live = Some (Inr op)"
    if "admitLifecycle env live want = Inr (Some (op, before))" "ls_owner before = Some (Inr op)" for op before
    using that(1)
  proof (cases rule: admit_cases)
    case (orphan op0)
    then have "ls_owner live = Some (Inr op)" using that(2) by (auto split: if_splits)
    from owner_annotated [OF this orphan(1)] orphan(4) show ?thesis by (metis append_self_conv list.distinct(1) lifecycle_operation.select_convs(2) sum.inject(2))
  qed (use that(2) in \<open>auto simp: lifecycleOwner_def\<close>)
  show ?thesis
  proof (cases "res = Inr True \<or> store \<noteq> live")
    case True
    then obtain op before where adm: "admitLifecycle env live want = Inr (Some (op, before))" and uid: "ls_uid live = li_target want"
      and rec: "(if ls_owner before \<noteq> Some (Inr op) \<or> ls_suspend before \<noteq> ls_suspend (stampOwner op want before)
        then (case le_claimUpdate env of Some e \<Rightarrow> (Inl (ApiError e), live)
           | None \<Rightarrow> recoverLifecycleOperation env op (stampOwner op want before) (stampOwner op want before))
        else recoverLifecycleOperation env op (stampOwner op want before) live) = (res, store)"
      using assms unfolding claimLifecycleOperation_def Let_def stamp_fields
      by (auto split: option.splits if_splits sum.splits)
    show ?thesis
    proof (cases "ls_owner before \<noteq> Some (Inr op) \<or> ls_suspend before \<noteq> ls_suspend (stampOwner op want before)")
      case True
      with rec \<open>res = Inr True \<or> store \<noteq> live\<close>
      have "recoverLifecycleOperation env op (stampOwner op want before) (stampOwner op want before) = (res, store)"
        by (auto split: option.splits)
      from admitted [OF adm uid refl this] show ?thesis by simp
    next
      case False
      with rec have "recoverLifecycleOperation env op (stampOwner op want before) live = (res, store)" by simp
      from admitted [OF adm uid refl this] stay [OF adm] False show ?thesis by auto
    qed
  qed (use refused in auto)
qed

lemma admitted_owner:
  assumes "admitLifecycle env live want = Inr (Some (op, before))"
  shows "sameLifecycleOwner (lo_identity op) want" "ls_uid before = ls_uid live" "ls_name before = ls_name live"
  using assms by (cases rule: admit_cases; auto simp: same_refl)+

lemma claim_owner:
  assumes "claimLifecycleOperation env want live = (res, store)"
  obtains (refused) "res \<noteq> Inr True" "store = live"
  | (admitted) op before op' where "admitLifecycle env live want = Inr (Some (op, before))"
      "ls_owner store = Some (Inr op')" "lo_identity op' = lo_identity op" "res = Inr True \<longrightarrow> lo_recovery op' = []"
      "lo_recovery op' = lo_recovery op \<or> lo_recovery op' = []" "ls_uid store = ls_uid live" "ls_uid live = li_target want"
  using assms
proof (cases rule: claim_cases)
  case (admitted op before rec gs)
  then have [simp]: "ls_uid rec = ls_uid live" "ls_uid gs = ls_uid live"
    using admitted_owner(2) [OF admitted(1)] by auto
  from admitted(4) show ?thesis
  proof (cases rule: recover_cases)
    case waiting
    with admitted that(2) [of op before op] show ?thesis by simp
  next
    case clean
    with admitted that(2) [of op before op] show ?thesis by simp
  next
    case recovered
    with admitted that(2) [of op before "op\<lparr>lo_recovery := []\<rparr>"] admitted_owner(2) [OF admitted(1)] show ?thesis by simp
  qed
qed (use that(1) in blast)

section \<open>Mutual exclusion\<close>

text \<open>A run of the cluster, as far as ownership goes: the stored GameServer, the operations authorised by
  a claim and not released since, and the objects that were deleted.\<close>

record lc_world =
  w_store :: lc_server
  w_running :: "lifecycle_identity set"
  w_deleted :: "lifecycle_identity set"

definition deleted :: "lc_world \<Rightarrow> lifecycle_identity \<Rightarrow> bool" where
  "deleted w i \<longleftrightarrow> (\<exists>d\<in>w_deleted w. sameLifecycleOwner d i)"

text \<open>An uncached read finds the object of an authorised operation unless it was deleted, or fails.\<close>

definition sees :: "lc_world \<Rightarrow> lc_env \<Rightarrow> bool" where
  "sees w env \<longleftrightarrow> (\<forall>i j. j \<in> w_running w \<and> sameLifecycleOwner i j \<and> \<not> deleted w j \<longrightarrow>
     le_object env i = ObjUID (li_uid i) \<or> (\<exists>e. le_object env i = ObjError e))"

inductive lc_step :: "lc_world \<Rightarrow> lc_world \<Rightarrow> bool" where
  claim: "sees w env \<Longrightarrow> claimLifecycleOperation env want (w_store w) = (res, store) \<Longrightarrow>
    lc_step w (w\<lparr>w_store := store, w_running := if res = Inr True then insert want (w_running w) else w_running w\<rparr>)"
| release: "clearLifecycleOperation ssUpdate found want (w_store w) = (Inr gs, found') \<Longrightarrow> ls_owner gs' = ls_owner gs \<Longrightarrow>
    lc_step w (w\<lparr>w_store := gs', w_running := {i \<in> w_running w. \<not> sameLifecycleOwner i want}\<rparr>)"
| delete: "lc_step w (w\<lparr>w_deleted := insert d (w_deleted w)\<rparr>)"
| intent: "setLifecycleUnquiesceIntent update needed pod (w_store w) = (err, gs') \<Longrightarrow> lc_step w (w\<lparr>w_store := gs'\<rparr>)"
| edit: "ls_owner gs' = ls_owner (w_store w) \<Longrightarrow> lc_step w (w\<lparr>w_store := gs'\<rparr>)"

definition owns :: "lc_server \<Rightarrow> lifecycle_identity \<Rightarrow> bool" where
  "owns gs i \<longleftrightarrow> (\<exists>op. ls_owner gs = Some (Inr op) \<and> sameLifecycleOwner (lo_identity op) i)"

definition exclusive :: "lc_world \<Rightarrow> bool" where
  "exclusive w \<longleftrightarrow> (\<forall>i\<in>w_running w. \<not> deleted w i \<longrightarrow> owns (w_store w) i)"

lemma owns_same: "owns gs i \<Longrightarrow> owns gs j \<Longrightarrow> sameLifecycleOwner i j"
  unfolding owns_def by (metis option.inject same_sym same_trans sum.inject(2))

lemma live_owner_not_displaced:
  assumes "sees w env" "i \<in> w_running w" "\<not> deleted w i" "sameLifecycleOwner o' i"
  shows "lifecycleOwnerExists env o' \<noteq> Inr False"
  using assms unfolding sees_def lifecycleOwnerExists_def by (auto split: obj_lookup.splits)

lemma claim_keeps_owner:
  assumes "admitLifecycle env (w_store w) want = Inr (Some (op, before))" "sees w env" "exclusive w"
    and "i \<in> w_running w" "\<not> deleted w i"
  shows "sameLifecycleOwner (lo_identity op) i"
proof -
  obtain op1 where op1: "ls_owner (w_store w) = Some (Inr op1)" "sameLifecycleOwner (lo_identity op1) i"
    using assms(3-5) by (auto simp: exclusive_def owns_def)
  from assms(1) show ?thesis
  proof (cases rule: admit_cases)
    case fresh
    with op1 show ?thesis by (auto simp: lifecycleOwner_def split: if_splits)
  next
    case (same op0)
    with op1 owner_annotated [OF op1(1)] show ?thesis by auto
  next
    case (orphan op0)
    with op1 owner_annotated [OF op1(1)] live_owner_not_displaced [OF assms(2,4,5)] show ?thesis by auto
  qed
qed

lemma intent_owner:
  assumes "setLifecycleUnquiesceIntent update needed pod gs = (err, gs')" "owns gs i"
  shows "owns gs' i"
  using assms
  by (auto simp: setLifecycleUnquiesceIntent_def owns_def parseLifecycleOperation_def sameLifecycleOwner_def Let_def
      split: option.splits if_splits)

lemma exclusive_step:
  assumes "lc_step w w'" "exclusive w"
  shows "exclusive w'"
  using assms
proof (cases rule: lc_step.cases)
  case (claim env want res store)
  from claim(3) show ?thesis
  proof (cases rule: claim_owner)
    case refused
    with assms(2) claim(1) show ?thesis by (simp add: exclusive_def deleted_def)
  next
    case (admitted op before op')
    have "owns store i" if "i \<in> w_running w \<or> i = want" "\<not> deleted w i" for i
      using that claim_keeps_owner [OF admitted(1) claim(2) assms(2)] admitted_owner(1) [OF admitted(1)] admitted(2,3)
      by (auto simp: owns_def)
    with claim(1) show ?thesis by (auto simp: exclusive_def deleted_def)
  qed
next
  case (release ssUpdate found want gs found' gs')
  have "False" if prem: "i \<in> w_running w" "\<not> deleted w i" "\<not> sameLifecycleOwner i want" for i
  proof -
    obtain op where op: "ls_owner (w_store w) = Some (Inr op)" "sameLifecycleOwner (lo_identity op) i"
      using assms(2) prem by (auto simp: exclusive_def owns_def)
    then have "sameLifecycleOwner (lo_identity op) want"
      using release(2) by (auto simp: clearLifecycleOperation_def parseLifecycleOperation_def split: option.splits if_splits)
    with op(2) prem(3) show False using same_sym same_trans by blast
  qed
  with release(1) show ?thesis by (auto simp: exclusive_def deleted_def)
next
  case (delete d)
  with assms(2) show ?thesis by (auto simp: exclusive_def deleted_def)
next
  case (intent update needed pod err gs')
  with assms(2) intent_owner [OF intent(2)] show ?thesis by (auto simp: exclusive_def deleted_def)
next
  case (edit gs')
  with assms(2) show ?thesis by (auto simp: exclusive_def deleted_def owns_def)
qed

text \<open>C7. Mutual exclusion.  From a server on which no operation has been authorised yet, and through any
  interleaving of claims, releases, deletions of backups and restores, changes of the unquiesce intent
  and edits of everything but the owner annotation, any two authorised operations whose objects still
  exist are the same operation, and it is the one the GameServer names as its owner.\<close>

theorem lifecycle_mutual_exclusion:
  assumes "lc_step\<^sup>*\<^sup>* w w'" "w_running w = {}" "i \<in> w_running w'" "j \<in> w_running w'" "\<not> deleted w' i" "\<not> deleted w' j"
  shows "sameLifecycleOwner i j \<and> owns (w_store w') i"
proof -
  from assms(1) have "exclusive w'"
  proof induction
    case base
    from assms(2) show ?case by (simp add: exclusive_def)
  qed (rule exclusive_step)
  with assms(3-) show ?thesis
    by (auto simp: exclusive_def intro: owns_same)
qed

section \<open>Recovery before new work\<close>

lemma drained:
  "drainPredecessors env ps = Inr True \<Longrightarrow> p \<in> set ps \<Longrightarrow>
     li_kind p = ''Backup'' \<and> le_backupWorkers env p = Inr False \<or>
     li_kind p = ''Restore'' \<and> le_restoreWorkers env p = Inr False"
  by (induction ps) (auto split: if_splits sum.splits)

lemma unquiesced:
  "unquiescePredecessors env ps = None \<Longrightarrow> p \<in> set ps \<Longrightarrow> li_needsUnquiesce p \<Longrightarrow>
     backupQuiesceProcessGone env (li_quiescePod p) = Inr True \<or>
     li_quiescePod p \<noteq> [] \<and> le_unquiesce env (li_quiescePod p) = None"
  by (induction ps) (auto split: if_splits sum.splits option.splits)

lemma claim_recovers:
  assumes "claimLifecycleOperation env want live = (Inr True, store)" "lifecycleOwner live = Inr (Some op)"
    and "\<not> sameLifecycleOwner (lo_identity op) want"
  shows "lifecycleOwnerExists env (lo_identity op) = Inr False
    \<and> ls_owner store = Some (Inr \<lparr>lo_identity = want, lo_recovery = []\<rparr>)
    \<and> (\<forall>p\<in>set (lo_recovery op @ [lo_identity op]).
         (li_kind p = ''Backup'' \<and> le_backupWorkers env p = Inr False \<or>
          li_kind p = ''Restore'' \<and> le_restoreWorkers env p = Inr False \<and> le_targetStopped env = Inr True)
       \<and> (li_needsUnquiesce p \<longrightarrow> backupQuiesceProcessGone env (li_quiescePod p) = Inr True \<or>
            li_quiescePod p \<noteq> [] \<and> le_unquiesce env (li_quiescePod p) = None))"
  using assms(1)
proof (cases rule: claim_cases)
  case (admitted op1 before rec gs)
  from admitted(1) have op1: "op1 = \<lparr>lo_identity = want, lo_recovery = lo_recovery op @ [lo_identity op]\<rparr>"
    "lifecycleOwnerExists env (lo_identity op) = Inr False"
    using assms(2,3) by (cases rule: admit_cases; simp)+
  from admitted(4) show ?thesis
  proof (cases rule: recover_cases)
    case recovered
    note d = drained [OF recovered(3)] and u = unquiesced [OF recovered(5)]
    have "le_targetStopped env = Inr True" if "p \<in> set (lo_recovery op1)" "li_kind p = ''Restore''" for p
      using recovered(4) that by (auto simp: lifecycleRecoveryNeedsStop_def list_ex_iff)
    then show ?thesis
      using d u recovered(6) op1 by auto
  qed (use op1 in simp_all)
qed simp

text \<open>C9. No new work before recovery.  When a claim is granted on a server owned by another operation,
  that operation's object is gone, and for it and for every predecessor it had inherited: its workers
  were seen to have ended; saving was resumed in the pod it was paused in, or that process is gone; and
  if one of them was a restore, the server was seen stopped.  The stored owner is then the claimant, with
  nothing left to recover.\<close>

theorem lifecycle_recovery_complete:
  assumes "claimLifecycleOperation env want live = (Inr True, store)" "lifecycleOwner live = Inr (Some op)"
    and "\<not> sameLifecycleOwner (lo_identity op) want"
  shows "lifecycleOwnerExists env (lo_identity op) = Inr False
    \<and> ls_owner store = Some (Inr \<lparr>lo_identity = want, lo_recovery = []\<rparr>)
    \<and> (\<forall>p\<in>set (lo_recovery op @ [lo_identity op]).
         (li_kind p = ''Backup'' \<and> le_backupWorkers env p = Inr False \<or>
          li_kind p = ''Restore'' \<and> le_restoreWorkers env p = Inr False \<and> le_targetStopped env = Inr True)
       \<and> (li_needsUnquiesce p \<longrightarrow> backupQuiesceProcessGone env (li_quiescePod p) = Inr True \<or>
            li_quiescePod p \<noteq> [] \<and> le_unquiesce env (li_quiescePod p) = None))"
  using assms by (rule claim_recovers)

section \<open>The owner record stays readable\<close>

lemma checkIdentities_None:
  "checkIdentities target ids = None \<longleftrightarrow> (\<forall>i\<in>set ids. valid_identity i \<and> li_target i = target)"
  by (induction ids) auto

lemma valid_identity_simps [simp]:
  "valid_identity (identity ''Backup'' n u t g tok q) \<longleftrightarrow> n \<noteq> [] \<and> u \<noteq> [] \<and> t \<noteq> []"
  "valid_identity (identity ''Restore'' n u t g tok q) \<longleftrightarrow> n \<noteq> [] \<and> u \<noteq> [] \<and> t \<noteq> []"
  "valid_identity (identity ''Wipe'' n u t g tok q) \<longleftrightarrow> n \<noteq> [] \<and> u \<noteq> [] \<and> t \<noteq> [] \<and> tok \<noteq> []"
  "li_target (identity k n u t g tok q) = t"
  by (simp_all add: valid_identity_def identity_def)

lemma parsed_identities:
  "parseBackupIdentity v = Inr (n, u) \<Longrightarrow> n \<noteq> [] \<and> u \<noteq> []"
  "parseRestoreIdentity v = Inr (n, u) \<Longrightarrow> n \<noteq> [] \<and> u \<noteq> []"
  "parseBackupRecoveryLineage l = Inr ids \<Longrightarrow> (n, u) \<in> set ids \<Longrightarrow> n \<noteq> [] \<and> u \<noteq> []"
  by (fastforce simp: parseBackupIdentity_def parseRestoreIdentity_def parseBackupRecoveryLineage_def list_ex_iff
      split: sum.splits if_splits option.splits)+

definition wf_operation :: "string \<Rightarrow> lifecycle_operation \<Rightarrow> bool" where
  "wf_operation uid op \<longleftrightarrow> (\<forall>i\<in>set (lo_identity op # lo_recovery op). valid_identity i \<and> li_target i = uid)"

lemma legacy_owners_wf:
  assumes "ls_uid gs \<noteq> []" "ls_name gs \<noteq> []"
  shows "legacyBackupOwner gs = Inr (Some op) \<Longrightarrow> wf_operation (ls_uid gs) op"
    "legacyRestoreOwner gs = Inr (Some op) \<Longrightarrow> wf_operation (ls_uid gs) op"
    "legacyWipeOwner gs = Some op \<Longrightarrow> wf_operation (ls_uid gs) op"
proof -
  show "wf_operation (ls_uid gs) op" if "legacyBackupOwner gs = Inr (Some op)"
    using that assms(1) parsed_identities(1,3) by (fastforce simp: legacyBackupOwner_def wf_operation_def split: option.splits)
  show "wf_operation (ls_uid gs) op" if "legacyRestoreOwner gs = Inr (Some op)"
    using that assms(1) parsed_identities(2) by (fastforce simp: legacyRestoreOwner_def wf_operation_def split: option.splits)
  show "wf_operation (ls_uid gs) op" if "legacyWipeOwner gs = Some op"
    using that assms by (auto simp: legacyWipeOwner_def wf_operation_def wipeLifecycleIdentity_def split: if_splits)
qed

lemma owner_wf:
  assumes "ls_uid gs \<noteq> []" "ls_name gs \<noteq> []" "lifecycleOwner gs = Inr (Some op)"
  shows "wf_operation (ls_uid gs) op"
proof (cases "ls_owner gs")
  case None
  with assms(3) obtain b r where b: "legacyBackupOwner gs = Inr b" and r: "legacyRestoreOwner gs = Inr r"
    and "Some op \<in> {b, r, legacyWipeOwner gs}"
    by (auto simp: lifecycleOwner_def split: list.splits if_splits)
  then show ?thesis
    using legacy_owners_wf [OF assms(1,2), of op] by auto
next
  case (Some v)
  with assms(3) owner_annotated [OF Some assms(3)] show ?thesis
    by (auto simp: lifecycleOwner_def parseLifecycleOperation_def checkIdentities_None wf_operation_def
        simp del: checkIdentities.simps split: option.splits if_splits)
qed

text \<open>C27. A claim never leaves an owner record nobody can read: whatever the outcome of the call, the stored
  server is unchanged, or its owner record decodes, is well formed, is bound to this GameServer and names
  the claimant.  So an operation interrupted at any point can be resumed, recovered or released.\<close>

theorem lifecycle_owner_readable:
  assumes "claimLifecycleOperation env want live = (res, store)" "valid_identity want" "ls_uid live \<noteq> []" "ls_name live \<noteq> []"
  shows "store = live \<or> (\<exists>op. lifecycleOwner store = Inr (Some op) \<and> sameLifecycleOwner (lo_identity op) want)"
  using assms(1)
proof (cases rule: claim_owner)
  case (admitted op before op')
  have "wf_operation (ls_uid live) op"
    using admitted(1)
  proof (cases rule: admit_cases)
    case fresh
    with assms(2) admitted(7) show ?thesis by (simp add: wf_operation_def)
  next
    case (same op0)
    with owner_wf [OF assms(3,4) same(1)] assms(2) admitted(7) show ?thesis by (auto simp: wf_operation_def)
  next
    case (orphan op0)
    with owner_wf [OF assms(3,4) orphan(1)] assms(2) admitted(7) show ?thesis by (auto simp: wf_operation_def)
  qed
  then have "wf_operation (ls_uid store) op'"
    using admitted(3,5,6) by (auto simp: wf_operation_def)
  then have "checkIdentities (li_target (lo_identity op')) (lo_identity op' # lo_recovery op') = None"
    "li_target (lo_identity op') = ls_uid store"
    by (simp_all add: checkIdentities_None wf_operation_def del: checkIdentities.simps)
  then have "lifecycleOwner store = Inr (Some op')"
    using admitted(2) by (simp add: lifecycleOwner_def parseLifecycleOperation_def)
  with admitted_owner(1) [OF admitted(1)] admitted(3) show ?thesis by auto
qed simp

section \<open>Witnesses\<close>

definition lc_env0 :: lc_env where
  "lc_env0 = \<lparr>le_get = None, le_object = (\<lambda>_. ObjNotFound), le_wipeWorkers = Inr False, le_statefulset = SsNotFound,
     le_pods = Inr [], le_backups = Inr [], le_backupCopying = (\<lambda>_. Inr False), le_backupWorkers = (\<lambda>_. Inr False),
     le_restoreWorkers = (\<lambda>_. Inr False), le_targetStopped = Inr True, le_gamePod = PodNotFound, le_agent = True,
     le_unquiesce = (\<lambda>_. None), le_claimUpdate = None, le_recoverUpdate = None\<rparr>"

definition lc_server0 :: lc_server where
  "lc_server0 = \<lparr>ls_name = ''s'', ls_uid = ''u'', ls_generation = 1, ls_deleting = False, ls_suspend = False, ls_owner = None,
     ls_backup_guard = None, ls_lineage = None, ls_restore_guard = None, ls_wipe_guard = [], ls_annotations = (\<lambda>_. None)\<rparr>"

definition backup_id :: "string \<Rightarrow> lifecycle_identity" where
  "backup_id uid = identity ''Backup'' ''b'' uid ''u'' 1 [] False"

lemma claim_example:
  "claimLifecycleOperation lc_env0 (backup_id uid) lc_server0 =
     (Inr True, stampOwner \<lparr>lo_identity = backup_id uid, lo_recovery = []\<rparr> (backup_id uid) lc_server0)"
  by (simp add: claimLifecycleOperation_def admitLifecycle_def lifecycleOwner_def legacyBackupOwner_def legacyRestoreOwner_def
      legacyWipeOwner_def lc_env0_def lc_server0_def backup_id_def identity_def pendingWipe_def ann_def
      backupLifecycleTransitionPending_def tokenPending_def legacyLifecycleCopiesLive_def recoverLifecycleOperation_def
      lifecycleRecoveryNeedsStop_def)

theorem lifecycle_mutual_exclusion_witness:
  "owns (stampOwner \<lparr>lo_identity = backup_id ''x'', lo_recovery = []\<rparr> (backup_id ''x'') lc_server0) (backup_id ''x'')"
proof -
  let ?w = "\<lparr>w_store = lc_server0, w_running = {}, w_deleted = {}\<rparr>"
  let ?w' = "\<lparr>w_store = stampOwner \<lparr>lo_identity = backup_id ''x'', lo_recovery = []\<rparr> (backup_id ''x'') lc_server0,
     w_running = {backup_id ''x''}, w_deleted = {}\<rparr>"
  have "lc_step ?w ?w'"
    using lc_step.claim [of ?w lc_env0 "backup_id ''x''" "Inr True"] by (simp add: sees_def claim_example)
  then have "lc_step\<^sup>*\<^sup>* ?w ?w'"
    by (rule r_into_rtranclp [where r = lc_step])
  from lifecycle_mutual_exclusion [OF this, of "backup_id ''x''" "backup_id ''x''"]
  show ?thesis by (simp add: deleted_def)
qed

definition orphaned_server :: lc_server where
  "orphaned_server = stampOwner \<lparr>lo_identity = backup_id ''x'', lo_recovery = []\<rparr> (backup_id ''x'') lc_server0"

lemma orphan_owner: "lifecycleOwner orphaned_server = Inr (Some \<lparr>lo_identity = backup_id ''x'', lo_recovery = []\<rparr>)"
  by (simp add: orphaned_server_def lifecycleOwner_def parseLifecycleOperation_def backup_id_def identity_def
      valid_identity_def lc_server0_def)

lemma orphan_admit:
  "\<not> sameLifecycleOwner (backup_id ''x'') (backup_id ''y'')" "lifecycleOwnerExists lc_env0 (backup_id ''x'') = Inr False"
  "admitLifecycle lc_env0 orphaned_server (backup_id ''y'') =
     Inr (Some (\<lparr>lo_identity = backup_id ''y'', lo_recovery = [backup_id ''x'']\<rparr>, orphaned_server))"
proof -
  show other: "\<not> sameLifecycleOwner (backup_id ''x'') (backup_id ''y'')"
    by (simp add: sameLifecycleOwner_def backup_id_def identity_def)
  show gone: "lifecycleOwnerExists lc_env0 (backup_id ''x'') = Inr False"
    by (simp add: lifecycleOwnerExists_def backup_id_def identity_def lc_env0_def)
  have "li_kind (backup_id ''x'') \<noteq> ''Restore''"
    by (simp add: backup_id_def identity_def)
  with other gone show "admitLifecycle lc_env0 orphaned_server (backup_id ''y'') =
     Inr (Some (\<lparr>lo_identity = backup_id ''y'', lo_recovery = [backup_id ''x'']\<rparr>, orphaned_server))"
    by (simp add: admitLifecycle_def orphan_owner)
qed

lemma lc_env0_fields: "le_get lc_env0 = None" "le_claimUpdate lc_env0 = None" "le_recoverUpdate lc_env0 = None"
  "le_backupWorkers lc_env0 i = Inr False"
  by (simp_all add: lc_env0_def)

lemma orphan_claim:
  "\<exists>store. claimLifecycleOperation lc_env0 (backup_id ''y'') orphaned_server = (Inr True, store)"
proof -
  have "ls_owner orphaned_server = Some (Inr \<lparr>lo_identity = backup_id ''x'', lo_recovery = []\<rparr>)"
    "ls_uid orphaned_server = li_target (backup_id ''y'')" "\<not> ls_deleting orphaned_server" "li_kind (backup_id ''y'') \<noteq> ''Rollout''"
    "li_kind (backup_id ''x'') = ''Backup''" "\<not> li_needsUnquiesce (backup_id ''x'')"
    by (simp_all add: orphaned_server_def stampOwner_def lc_server0_def backup_id_def identity_def)
  then show ?thesis
    by (simp add: claimLifecycleOperation_def orphan_admit(3) recoverLifecycleOperation_def lifecycleRecoveryNeedsStop_def Let_def
        lc_env0_fields)
qed

theorem lifecycle_recovery_complete_witness:
  "\<exists>store. claimLifecycleOperation lc_env0 (backup_id ''y'') orphaned_server = (Inr True, store) \<and>
     ls_owner store = Some (Inr \<lparr>lo_identity = backup_id ''y'', lo_recovery = []\<rparr>)"
proof -
  obtain store where store: "claimLifecycleOperation lc_env0 (backup_id ''y'') orphaned_server = (Inr True, store)"
    using orphan_claim by blast
  from lifecycle_recovery_complete [OF store orphan_owner] orphan_admit(1) store show ?thesis
    by auto
qed

theorem lifecycle_owner_readable_witness:
  "\<exists>op. lifecycleOwner orphaned_server = Inr (Some op) \<and> sameLifecycleOwner (lo_identity op) (backup_id ''x'')"
proof -
  have "orphaned_server \<noteq> lc_server0"
    by (auto simp: orphaned_server_def lc_server0_def stampOwner_def Let_def)
  then show ?thesis
    using lifecycle_owner_readable [OF claim_example [of "''x''"]]
    by (simp add: orphaned_server_def backup_id_def identity_def valid_identity_def lc_server0_def)
qed

end
