(* ===== verification/Agent_Quiesce.thy ===== *)
theory Agent_Quiesce
  imports GP_Prelude
begin

text \<open>
  Pausing and resuming the writes of a game around a backup: the agent's endpoints,
  \<^verbatim>\<open>agent/internal/quiesce/quiesce.go\<close>, the guard that binds them to a pod,
  \<^verbatim>\<open>agent/internal/target/target.go\<close>, and the operator's client of them,
  \<^verbatim>\<open>operator/internal/agent/client.go\<close>.

  The game's console is a parameter: \<open>exec cmd c\<close> is the answer to \<open>cmd\<close> (an error on the left) and the
  console afterwards.  Compiling a failure pattern is a parameter too, its result the match predicate.
\<close>

section \<open>The quiescer\<close>

type_synonym 'c console = "string \<Rightarrow> 'c \<Rightarrow> (string + string) \<times> 'c"

record quiesce_spec =
  qs_quiesce :: "string list"
  qs_unquiesce :: "string list"
  qs_failurePattern :: string

datatype quiescer =
    declaredQuiescer "string list" "string list" "(string \<Rightarrow> bool) option"
  | unsupportedQuiescer

definition newDeclaredQuiescer :: "(string \<Rightarrow> string + (string \<Rightarrow> bool)) \<Rightarrow> quiesce_spec \<Rightarrow> quiescer" where
  "newDeclaredQuiescer compile spec =
     declaredQuiescer (qs_quiesce spec) (qs_unquiesce spec)
       (if qs_failurePattern spec \<noteq> [] then
          (case compile (''(?i)'' @ qs_failurePattern spec) of Inl _ \<Rightarrow> None | Inr re \<Rightarrow> Some re)
        else None)"

definition Pick :: "(string \<Rightarrow> string + (string \<Rightarrow> bool)) \<Rightarrow> quiesce_spec option \<Rightarrow> quiescer" where
  "Pick compile spec = (case spec of
      None \<Rightarrow> unsupportedQuiescer
    | Some s \<Rightarrow> if qs_quiesce s \<noteq> [] \<and> qs_unquiesce s \<noteq> [] then newDeclaredQuiescer compile s else unsupportedQuiescer)"

fun Supported :: "quiescer \<Rightarrow> bool" where
  "Supported (declaredQuiescer _ _ _) = True"
| "Supported unsupportedQuiescer = False"

text \<open>Resuming issues every command, whatever fails; the first error is the result.\<close>

fun unquiesceLoop :: "'c console \<Rightarrow> string list \<Rightarrow> string option \<Rightarrow> 'c \<Rightarrow> string option \<times> 'c" where
  "unquiesceLoop exec [] firstErr c = (firstErr, c)"
| "unquiesceLoop exec (cmd # cmds) firstErr c = (case exec cmd c of
      (Inl e, c') \<Rightarrow> unquiesceLoop exec cmds (if firstErr = None then Some e else firstErr) c'
    | (Inr _, c') \<Rightarrow> unquiesceLoop exec cmds firstErr c')"

fun quiescer_Unquiesce :: "'c console \<Rightarrow> quiescer \<Rightarrow> 'c \<Rightarrow> string option \<times> 'c" where
  "quiescer_Unquiesce exec (declaredQuiescer _ unq _) c = unquiesceLoop exec unq None c"
| "quiescer_Unquiesce exec unsupportedQuiescer c = (None, c)"

definition exec_checked :: "'c console \<Rightarrow> (string \<Rightarrow> bool) option \<Rightarrow> 'c console" where
  "exec_checked exec failRE cmd c = (case exec cmd c of
      (Inl e, c') \<Rightarrow> (Inl e, c')
    | (Inr out, c') \<Rightarrow> (case failRE of
          Some re \<Rightarrow> if re out then (Inl (''quiesce command '' @ cmd @ '' reported failure''), c') else (Inr out, c')
        | None \<Rightarrow> (Inr out, c')))"

text \<open>The loop of \<^verbatim>\<open>Quiesce\<close>, at index \<open>i\<close>: a failure after the first command resumes before it is reported.\<close>

fun quiesceLoop ::
  "'c console \<Rightarrow> (string \<Rightarrow> bool) option \<Rightarrow> string list \<Rightarrow> nat \<Rightarrow> string list \<Rightarrow> 'c \<Rightarrow> string option \<times> 'c" where
  "quiesceLoop exec failRE unq i [] c = (None, c)"
| "quiesceLoop exec failRE unq i (cmd # cmds) c = (case exec_checked exec failRE cmd c of
      (Inl e, c') \<Rightarrow> (Some e, if i > 0 then snd (unquiesceLoop exec unq None c') else c')
    | (Inr _, c') \<Rightarrow> quiesceLoop exec failRE unq (Suc i) cmds c')"

fun quiescer_Quiesce :: "'c console \<Rightarrow> quiescer \<Rightarrow> 'c \<Rightarrow> string option \<times> 'c" where
  "quiescer_Quiesce exec (declaredQuiescer qui unq failRE) c = quiesceLoop exec failRE unq 0 qui c"
| "quiescer_Quiesce exec unsupportedQuiescer c = (None, c)"

section \<open>The endpoints\<close>

record quiesce_response =
  qr_status :: int
  qr_quiesced :: bool
  qr_reason :: string

definition unsupportedReason :: string where
  "unsupportedReason = ''game does not support quiesce''"

definition reply :: "int \<Rightarrow> bool \<Rightarrow> string \<Rightarrow> quiesce_response" where
  "reply status quiesced reason = \<lparr>qr_status = status, qr_quiesced = quiesced, qr_reason = reason\<rparr>"

definition post_quiesce :: "'c console \<Rightarrow> quiescer \<Rightarrow> 'c \<Rightarrow> quiesce_response \<times> 'c" where
  "post_quiesce exec q c =
     (if \<not> Supported q then (reply 200 False unsupportedReason, c)
      else (case quiescer_Quiesce exec q c of
          (Some _, c') \<Rightarrow> (reply 502 False ''rcon error'', c')
        | (None, c') \<Rightarrow> (reply 200 True [], c')))"

definition post_unquiesce :: "'c console \<Rightarrow> quiescer \<Rightarrow> 'c \<Rightarrow> quiesce_response \<times> 'c" where
  "post_unquiesce exec q c =
     (if \<not> Supported q then (reply 200 False unsupportedReason, c)
      else (case quiescer_Unquiesce exec q c of
          (Some _, c') \<Rightarrow> (reply 502 True ''unquiesce rcon error'', c')
        | (None, c') \<Rightarrow> (reply 200 False [], c')))"

text \<open>The versioned routes answer only for the pod the agent was started in.\<close>

definition Guard :: "string \<Rightarrow> string \<Rightarrow> ('c \<Rightarrow> quiesce_response \<times> 'c) \<Rightarrow> 'c \<Rightarrow> quiesce_response \<times> 'c" where
  "Guard resourceUID uid next c =
     (if resourceUID = [] \<or> uid \<noteq> resourceUID then (reply 404 False [], c) else next c)"

section \<open>The operator's client\<close>

datatype quiesce_error = ErrUnsupported | AgentError string

text \<open>What comes back: a transport error, or a status with a body that is empty, unreadable or decoded.\<close>

datatype quiesce_body = NoBody | BadBody | Body bool string

datatype http_result = Transport string | Response int quiesce_body

definition callQuiesce :: "bool \<Rightarrow> bool \<Rightarrow> http_result \<Rightarrow> quiesce_error option" where
  "callQuiesce disabled expectQuiesced answer =
     (if disabled then None
      else (case answer of
          Transport e \<Rightarrow> Some (AgentError e)
        | Response status body \<Rightarrow>
            if status \<noteq> 200 then Some (AgentError ''status'')
            else if body = BadBody then Some (AgentError ''decode response'')
            else
              let quiesced = (case body of Body q _ \<Rightarrow> q | _ \<Rightarrow> False);
                  reason = (case body of Body _ r \<Rightarrow> r | _ \<Rightarrow> []) in
              if \<not> quiesced \<and> expectQuiesced then
                (if reason = unsupportedReason then Some ErrUnsupported else Some (AgentError reason))
              else None))"

definition callPodQuiesce :: "bool \<Rightarrow> string \<Rightarrow> bool \<Rightarrow> http_result \<Rightarrow> quiesce_error option" where
  "callPodQuiesce disabled podUID expectQuiesced answer =
     (if disabled \<or> podUID = [] then Some (AgentError ''requires an enabled client and pod UID'')
      else callQuiesce disabled expectQuiesced answer)"

text \<open>An answered call: the body is the response the agent wrote.\<close>

definition delivered :: "quiesce_response \<Rightarrow> http_result" where
  "delivered r = Response (qr_status r) (if qr_status r = 404 then NoBody else Body (qr_quiesced r) (qr_reason r))"

text \<open>What the network does with a call: it is answered; the request never arrives; the agent serves it and the reply
  is lost, as when the client gives up waiting; or the status arrives and the body, whose read errors the
  client ignores, does not, or only in part.\<close>

datatype transport = Answered | RequestLost string | ReplyLost string | BodyLost | BodyCut

definition over :: "transport \<Rightarrow> ('c \<Rightarrow> quiesce_response \<times> 'c) \<Rightarrow> 'c \<Rightarrow> http_result \<times> 'c" where
  "over net handler c = (case net of
      RequestLost e \<Rightarrow> (Transport e, c)
    | Answered \<Rightarrow> apfst delivered (handler c)
    | ReplyLost e \<Rightarrow> apfst (\<lambda>_. Transport e) (handler c)
    | BodyLost \<Rightarrow> apfst (\<lambda>r. Response (qr_status r) NoBody) (handler c)
    | BodyCut \<Rightarrow> apfst (\<lambda>r. Response (qr_status r) BadBody) (handler c))"

definition QuiescePod ::
  "transport \<Rightarrow> 'c console \<Rightarrow> quiescer \<Rightarrow> string \<Rightarrow> bool \<Rightarrow> string \<Rightarrow> 'c \<Rightarrow> quiesce_error option \<times> 'c" where
  "QuiescePod net exec q resourceUID disabled podUID c =
     (if disabled \<or> podUID = [] then (callPodQuiesce disabled podUID True (Transport []), c)
      else apfst (callPodQuiesce disabled podUID True) (over net (Guard resourceUID podUID (post_quiesce exec q)) c))"

definition UnquiescePod ::
  "transport \<Rightarrow> 'c console \<Rightarrow> quiescer \<Rightarrow> string \<Rightarrow> bool \<Rightarrow> string \<Rightarrow> 'c \<Rightarrow> quiesce_error option \<times> 'c" where
  "UnquiescePod net exec q resourceUID disabled podUID c =
     (if disabled \<or> podUID = [] then (callPodQuiesce disabled podUID False (Transport []), c)
      else apfst (callPodQuiesce disabled podUID False) (over net (Guard resourceUID podUID (post_unquiesce exec q)) c))"

lemmas rpc_defs = QuiescePod_def UnquiescePod_def Guard_def callPodQuiesce_def callQuiesce_def delivered_def reply_def over_def

section \<open>What the console sees\<close>

text \<open>A console that records its commands and answers.\<close>

definition recording :: "'c console \<Rightarrow> ((string \<times> (string + string)) list \<times> 'c) console" where
  "recording exec cmd s = (case exec cmd (snd s) of (r, c') \<Rightarrow> (r, (fst s @ [(cmd, r)], c')))"


lemma recording_at [simp]:
  "exec cmd c = (r, c') \<Longrightarrow> recording exec cmd (log, c) = (r, log @ [(cmd, r)], c')"
  by (simp add: recording_def)

lemma unquiesce_trace:
  assumes "unquiesceLoop (recording exec) cmds e0 (log, c) = (e, log', c')"
  shows "\<exists>tr. log' = log @ tr \<and> map fst tr = cmds \<and>
     (e = None \<longleftrightarrow> e0 = None \<and> (\<forall>r\<in>snd ` set tr. \<exists>out. r = Inr out))"
  using assms
proof (induction cmds arbitrary: e0 log c)
  case (Cons cmd cmds)
  obtain r c1 where r: "exec cmd c = (r, c1)" by fastforce
  define e1 where "e1 = (case r of Inl x \<Rightarrow> if e0 = None then Some x else e0 | Inr _ \<Rightarrow> e0)"
  from Cons.prems r have "unquiesceLoop (recording exec) cmds e1 (log @ [(cmd, r)], c1) = (e, log', c')"
    by (cases r) (auto simp: e1_def)
  from Cons.IH [OF this] obtain tr where "log' = (log @ [(cmd, r)]) @ tr" "map fst tr = cmds"
    "(e = None) = (e1 = None \<and> (\<forall>r\<in>snd ` set tr. \<exists>out. r = Inr out))" by blast
  then show ?case
    by (intro exI [of _ "(cmd, r) # tr"]) (cases r; auto simp: e1_def)
qed simp



text \<open>Resuming: success means the request named the agent's own pod and, if the module declares a sequence,
  every resume command was issued and none failed.\<close>

lemma unquiesce_rpc:
  assumes "UnquiescePod net (recording exec) (Pick compile spec) resourceUID disabled podUID ([], c) = (None, log, c')"
  shows "podUID = resourceUID \<and> (\<forall>qui unq re. Pick compile spec = declaredQuiescer qui unq re \<longrightarrow>
    map fst log = unq \<and> (\<forall>r\<in>snd ` set log. \<exists>out. r = Inr out))"
proof -
  have uid: "\<not> (disabled \<or> podUID = [] \<or> resourceUID = [] \<or> podUID \<noteq> resourceUID)"
    using assms by (cases net) (auto simp: rpc_defs split: if_splits)
  moreover have "map fst log = unq \<and> (\<forall>r\<in>snd ` set log. \<exists>out. r = Inr out)"
    if q: "Pick compile spec = declaredQuiescer qui unq re" for qui unq re
  proof -
    from assms uid q have "unquiesceLoop (recording exec) unq None ([], c) = (None, log, c')"
      by (cases net) (auto simp: rpc_defs post_unquiesce_def split: prod.splits option.splits)
    from unquiesce_trace [OF this] show ?thesis by auto
  qed
  ultimately show ?thesis by blast
qed

section \<open>Witness\<close>

definition minecraft_spec :: quiesce_spec where
  "minecraft_spec = \<lparr>qs_quiesce = [''save-off'', ''save-all flush''], qs_unquiesce = [''save-on''], qs_failurePattern = []\<rparr>"



text \<open>A reply lost on the way: an error for the operator, and the game is paused.\<close>

lemma lost_reply_quiesce:
  "QuiescePod (ReplyLost ''timeout'') (recording (\<lambda>cmd c. (Inr [], c))) (Pick Inl (Some minecraft_spec)) ''u1'' False ''u1'' ([], ()) =
     (Some (AgentError ''timeout''), [(''save-off'', Inr []), (''save-all flush'', Inr [])], ())"
  by (simp add: rpc_defs Pick_def newDeclaredQuiescer_def minecraft_spec_def post_quiesce_def exec_checked_def recording_def)


end
