(* ===== verification/Backup_Quiesce.thy ===== *)
theory Backup_Quiesce
  imports Lifecycle Agent_Quiesce
begin

text \<open>
  The quiesce protocol of the backup controller, \<^verbatim>\<open>operator/internal/controller/backup_controller.go\<close>
  with \<^verbatim>\<open>backup_preparation.go\<close>, \<^verbatim>\<open>backup_guard.go\<close> and \<^verbatim>\<open>backup_budgets.go\<close>: how a Backup pauses the writes
  of a game, where it writes down that it owes the game their resumption, how it pays, and what deleting
  the Backup does about it.

  The state is one Backup, as stored and as the pass holds it in memory, the GameServer, the game's pod,
  and whether saving is off in that pod because of this Backup.  Every call to the API server takes its
  outcome from a list of faults (an exhausted list is success), and every call to the agent from a list of
  answers, so a property of all lists is a property of every pattern of failures; a crash is a pass of
  which every later call fails.  An Update writes metadata and reads the status back, a status update the
  reverse, as the status subresource has it.
\<close>

section \<open>State\<close>

record preparation =
  pr_outcome :: string
  pr_target :: string
  pr_workload :: string
  pr_generation :: int
  pr_pod :: string

datatype bq_error =
    LcError lc_error | AgentFailure quiesce_error | BqError string | SourceChanged string | SourceTimeout string
  | ForeignWorker

datatype bq_msg = NoMsg | Msg string | MsgErr string bq_error

record backup_meta =
  bm_object :: lc_object
  bm_server :: string
  bm_quiesce :: bool
  bm_deleting :: bool
  bm_finalizer :: bool
  bm_snapshotFinalizer :: bool
  bm_repo :: "string option"
  bm_target :: "(string \<times> string) decoded option"
  bm_attempted :: string
  bm_quiescedAt :: string
  bm_unquiescedAt :: "string option"
  bm_preparation :: "preparation decoded option"
  bm_cleanupOutcome :: string
  bm_retryFirstFailedAt :: "string option"
  bm_copyAbort :: bq_msg
  bm_snapshotAborted :: bool
  bm_recovery :: "(string \<times> string) decoded option"
  bm_deadlines :: "string \<rightharpoonup> time decoded"

record condition =
  cn_type :: string
  cn_status :: string
  cn_reason :: string
  cn_message :: bq_msg
  cn_generation :: int
  cn_since :: "time option"

record manifest =
  mf_state :: string
  mf_outcome :: string
  mf_strategy :: string

record backup_status =
  bs_phase :: string
  bs_message :: bq_msg
  bs_snapshotID :: string
  bs_size :: "int option"
  bs_start :: "time option"
  bs_completion :: "time option"
  bs_observed :: int
  bs_conditions :: "condition list"
  bs_manifest :: "manifest option"

datatype rpc_answer = Replied | Broken string bool

text \<open>\<open>Broken e off\<close>: the call failed with \<open>e\<close>; saving is off afterwards iff \<open>off\<close>, except that a failed
  resumption never pauses, and neither does a game that cannot.\<close>

record bq_workload = lc_statefulset +
  sf_uid :: string

record backup_job =
  jb_succeeded :: int
  jb_failed :: bool
  jb_active :: int
  jb_start :: "time option"
  jb_completion :: "time option"

record repo_secret =
  rs_data :: "string \<rightharpoonup> string"
  rs_stringData :: "string \<rightharpoonup> string"

datatype worker_lookup = WorkerNone | WorkerError string | WorkerForeign | WorkerOwn

record bq_world =
  bw_meta :: backup_meta
  bw_status :: backup_status
  bw_stored :: backup_meta
  bw_storedStatus :: backup_status
  bw_gs :: "lc_server option"
  bw_pod :: "lc_pod option"
  bw_podController :: string
  bw_workload :: "bq_workload option"
  bw_token :: "string option"
  bw_supports :: bool
  bw_frozen :: bool
  bw_faults :: "string option list"
  bw_rpc :: "rpc_answer list"
  bw_env :: lc_env
  bw_worker :: worker_lookup
  bw_job :: "string + backup_job option"
  bw_drained :: "string + bool"
  bw_secret :: "string + repo_secret option"
  bw_summary :: "bq_error + string \<times> int"
  bw_manifest :: "bq_error + string"
  bw_snapshotCleanup :: "string + duration"
  bw_lastBackup :: "time option"
  bw_now :: time
  bw_events :: "string list"

record bq_config =
  bc_agent :: bool
  bc_podBound :: bool
  bc_scrapeGrace :: duration

text \<open>A pointer that is set and whose object has a property.\<close>

definition set_with :: "'a option \<Rightarrow> ('a \<Rightarrow> bool) \<Rightarrow> bool" where
  "set_with p P = (case p of Some q \<Rightarrow> P q | None \<Rightarrow> False)"

lemma set_with [simp]: "set_with p P \<longleftrightarrow> (\<exists>q. p = Some q \<and> P q)"
  by (cases p) (auto simp: set_with_def)

section \<open>A pass as a state transformer\<close>

type_synonym 'a pass = "bq_world \<Rightarrow> (bq_error + 'a) \<times> bq_world"

definition ret :: "'a \<Rightarrow> 'a pass" where "ret x w = (Inr x, w)"

definition raise :: "bq_error \<Rightarrow> 'a pass" where "raise e w = (Inl e, w)"

definition bnd :: "'a pass \<Rightarrow> ('a \<Rightarrow> 'b pass) \<Rightarrow> 'b pass" where
  "bnd m f w = (case m w of (Inl e, w') \<Rightarrow> (Inl e, w') | (Inr x, w') \<Rightarrow> f x w')"

definition attempt :: "'a pass \<Rightarrow> (bq_error + 'a) pass" where
  "attempt m w = (case m w of (r, w') \<Rightarrow> (Inr r, w'))"

definition gets :: "(bq_world \<Rightarrow> 'a) \<Rightarrow> 'a pass" where "gets f w = (Inr (f w), w)"

definition modify :: "(bq_world \<Rightarrow> bq_world) \<Rightarrow> unit pass" where "modify f w = (Inr (), f w)"

definition lift :: "lc_error + 'a \<Rightarrow> 'a pass" where
  "lift r w = (case r of Inl e \<Rightarrow> (Inl (LcError e), w) | Inr x \<Rightarrow> (Inr x, w))"

definition nextFault :: "string option pass" where
  "nextFault w = (case bw_faults w of [] \<Rightarrow> (Inr None, w) | f # fs \<Rightarrow> (Inr f, w\<lparr>bw_faults := fs\<rparr>))"

definition api :: "unit pass" where
  "api = bnd nextFault (\<lambda>f. case f of None \<Rightarrow> ret () | Some e \<Rightarrow> raise (LcError (ApiError e)))"

definition patchMeta :: "(backup_meta \<Rightarrow> backup_meta) \<Rightarrow> unit pass" where
  "patchMeta f = modify (\<lambda>w. w\<lparr>bw_meta := f (bw_meta w)\<rparr>)"

definition patchStatus :: "(backup_status \<Rightarrow> backup_status) \<Rightarrow> unit pass" where
  "patchStatus f = modify (\<lambda>w. w\<lparr>bw_status := f (bw_status w)\<rparr>)"

definition updateBackup :: "unit pass" where
  "updateBackup = bnd api (\<lambda>_. modify (\<lambda>w. w\<lparr>bw_stored := bw_meta w, bw_status := bw_storedStatus w\<rparr>))"

definition updateBackupStatus :: "unit pass" where
  "updateBackupStatus = bnd api (\<lambda>_. modify (\<lambda>w. w\<lparr>bw_storedStatus := bw_status w, bw_meta := bw_stored w\<rparr>))"

section \<open>Conditions and failing\<close>

fun replaceCondition :: "time \<Rightarrow> condition list \<Rightarrow> condition \<Rightarrow> condition list" where
  "replaceCondition now [] c = [if cn_since c = None then c\<lparr>cn_since := Some now\<rparr> else c]"
| "replaceCondition now (d # ds) c =
     (if cn_type d \<noteq> cn_type c then d # replaceCondition now ds c
      else c\<lparr>cn_since := if cn_status d \<noteq> cn_status c then Some now else cn_since d\<rparr> # ds)"

definition upsertCondition :: "time \<Rightarrow> condition list \<Rightarrow> condition \<Rightarrow> condition list" where
  "upsertCondition now conds c = replaceCondition now conds c"

definition sameConditions :: "condition list \<Rightarrow> condition list \<Rightarrow> bool" where
  "sameConditions a b \<longleftrightarrow> map (\<lambda>c. c\<lparr>cn_since := None\<rparr>) a = map (\<lambda>c. c\<lparr>cn_since := None\<rparr>) b"

definition condition :: "string \<Rightarrow> string \<Rightarrow> string \<Rightarrow> bq_msg \<Rightarrow> int \<Rightarrow> condition" where
  "condition typ status reason msg gen =
     \<lparr>cn_type = typ, cn_status = status, cn_reason = reason, cn_message = msg, cn_generation = gen, cn_since = None\<rparr>"

definition removeCondition :: "string \<Rightarrow> condition list \<Rightarrow> condition list" where
  "removeCondition typ conds = filter (\<lambda>c. cn_type c \<noteq> typ) conds"

text \<open>The reason of the Consistency condition; its message is the reason's fixed explanation.\<close>

definition consistencyReason :: "backup_status \<Rightarrow> string \<times> string" where
  "consistencyReason st =
     (if bs_phase st = ''Failed'' then (''False'', ''CaptureFailed'')
      else (case bs_manifest st of
          None \<Rightarrow> (''Unknown'', ''LegacyMetadataUnknown'')
        | Some m \<Rightarrow>
            if mf_state m \<noteq> ''Recorded'' then (''Unknown'', ''LegacyMetadataUnknown'')
            else if bs_phase st \<noteq> ''Succeeded'' \<or> bs_snapshotID st = [] then (''Unknown'', ''CapturePending'')
            else if mf_outcome m = ''confirmed'' then (''True'', ''Quiesced'')
            else if mf_outcome m = ''already-stopped'' then (''True'', ''StoppedSource'')
            else if mf_strategy m = ''volume-snapshot'' then (''False'', ''CrashConsistentSnapshot'')
            else if mf_outcome m = ''unsupported'' then (''False'', ''UnsupportedRawCopy'')
            else if mf_outcome m = ''agent-unavailable'' then (''False'', ''AgentUnavailableRawCopy'')
            else (''False'', ''RawCopy'')))"

definition backupConsistencyCondition :: "backup_meta \<Rightarrow> backup_status \<Rightarrow> condition" where
  "backupConsistencyCondition m st =
     condition ''Consistency'' (fst (consistencyReason st)) (snd (consistencyReason st))
       (Msg (snd (consistencyReason st))) (lb_generation (bm_object m))"

definition setFailed :: "time \<Rightarrow> bq_msg \<Rightarrow> backup_meta \<Rightarrow> backup_status \<Rightarrow> backup_status" where
  "setFailed now msg m st =
     (let gen = lb_generation (bm_object m);
          st = st\<lparr>bs_phase := ''Failed'', bs_conditions := removeCondition ''CaptureReady'' (bs_conditions st),
                  bs_observed := gen, bs_message := msg,
                  bs_completion := if bs_completion st = None then Some now else bs_completion st\<rparr>;
          st = st\<lparr>bs_conditions := upsertCondition now (bs_conditions st) (condition ''Completed'' ''False'' ''Failed'' msg gen)\<rparr>
      in st\<lparr>bs_conditions := upsertCondition now (bs_conditions st) (backupConsistencyCondition m st)\<rparr>)"

definition failBackup :: "bq_msg \<Rightarrow> duration pass" where
  "failBackup msg =
     bnd (modify (\<lambda>w. w\<lparr>bw_status := setFailed (bw_now w) msg (bw_meta w) (bw_status w)\<rparr>)) (\<lambda>_.
     bnd updateBackupStatus (\<lambda>_. ret 0))"

section \<open>The target and the source\<close>

definition parseBackupPreparation :: "backup_meta \<Rightarrow> bq_error + preparation option" where
  "parseBackupPreparation b = (case bm_preparation b of
      None \<Rightarrow> Inr None
    | Some (Inl bad) \<Rightarrow> Inl (BqError (''decode backup preparation: '' @ bad))
    | Some (Inr p) \<Rightarrow>
        if pr_target p = [] \<or> pr_workload p = [] \<or> (pr_outcome p \<noteq> ''live'' \<and> pr_outcome p \<noteq> ''already-stopped'') \<or>
           (pr_outcome p = ''live'' \<and> pr_pod p = []) \<or> (pr_outcome p = ''already-stopped'' \<and> pr_pod p \<noteq> [])
        then Inl (BqError ''invalid backup preparation identity'') else Inr (Some p))"

definition preparationOf :: "preparation option pass" where
  "preparationOf w = (parseBackupPreparation (bw_meta w), w)"

definition preparedPod :: "preparation option \<Rightarrow> string" where
  "preparedPod p = (case p of None \<Rightarrow> [] | Some q \<Rightarrow> pr_pod q)"

definition getServer :: "string \<Rightarrow> lc_server option pass" where
  "getServer name = bnd api (\<lambda>_. gets (\<lambda>w. case bw_gs w of
      Some g \<Rightarrow> if ls_name g = name then Some g else None | None \<Rightarrow> None))"

definition ownsTarget :: "lc_object \<Rightarrow> string \<Rightarrow> lc_server \<Rightarrow> lc_error + bool" where
  "ownsTarget b uid g =
     (if ls_uid g \<noteq> uid \<or> ls_backup_guard g \<noteq> Some (Inr (lb_name b, lb_uid b)) then Inr False
      else (case ls_owner g of
          None \<Rightarrow> Inr True
        | Some value \<Rightarrow> (case parseLifecycleOperation value of
              Inl e \<Rightarrow> Inl e
            | Inr op \<Rightarrow> Inr (sameLifecycleOwner (lo_identity op) (backupLifecycleIdentity g b False)))))"

definition ownedBackupTarget :: "lc_server option pass" where
  "ownedBackupTarget = bnd (gets bw_meta) (\<lambda>b. case bm_target b of
      None \<Rightarrow> ret None
    | Some value \<Rightarrow>
        bnd (lift (parseBackupIdentity value)) (\<lambda>(name, uid).
        bnd (getServer name) (\<lambda>found. case found of
            None \<Rightarrow> ret None
          | Some g \<Rightarrow> bnd (lift (ownsTarget (bm_object b) uid g)) (\<lambda>mine. ret (if mine then Some g else None)))))"

definition setUnquiesceIntent :: "bool \<Rightarrow> unit pass" where
  "setUnquiesceIntent needed =
     bnd ownedBackupTarget (\<lambda>found. case found of
        None \<Rightarrow> ret ()
      | Some g \<Rightarrow> (case ls_owner g of
            None \<Rightarrow> ret ()
          | Some value \<Rightarrow>
              bnd (lift (parseLifecycleOperation value)) (\<lambda>_.
              bnd (if needed then bnd preparationOf (\<lambda>p. ret (preparedPod p)) else ret []) (\<lambda>pod.
              bnd nextFault (\<lambda>f. case setLifecycleUnquiesceIntent f needed pod g of
                  (Some e, _) \<Rightarrow> raise (LcError e)
                | (None, g') \<Rightarrow> modify (\<lambda>w. w\<lparr>bw_gs := Some g'\<rparr>))))))"

text \<open>What an uncached read finds.\<close>

definition seen_env :: "bq_world \<Rightarrow> lc_env" where
  "seen_env w = (bw_env w)\<lparr>le_gamePod := (case bw_pod w of None \<Rightarrow> PodNotFound | Some p \<Rightarrow> PodFound p),
     le_statefulset := (case bw_workload w of None \<Rightarrow> SsNotFound | Some ss \<Rightarrow> SsFound (lc_statefulset.truncate ss))\<rparr>"

definition processGone :: "string \<Rightarrow> bool pass" where
  "processGone uid = bnd api (\<lambda>_. bnd (gets (\<lambda>w. backupQuiesceProcessGone (seen_env w) uid)) lift)"

definition unquiesceTargetGone :: "bool pass" where
  "unquiesceTargetGone = bnd (gets bw_meta) (\<lambda>b.
     bnd (case bm_target b of
            Some value \<Rightarrow> bnd (lift (parseBackupIdentity value)) (\<lambda>id. ret (fst id))
          | None \<Rightarrow> ret (bm_server b)) (\<lambda>name.
     if name = [] then ret True
     else bnd preparationOf (\<lambda>p. processGone (preparedPod p))))"

section \<open>Calling the agent\<close>

definition exited :: "lc_pod \<Rightarrow> bool" where
  "exited p \<longleftrightarrow> \<not> pd_deleting p \<and> (pd_phase p = ''Succeeded'' \<or> pd_phase p = ''Failed'')"

text \<open>A call reaches the agent of the current pod, if its process runs and, for a bound call, if it is the
  pod the call names.\<close>

definition reachable :: "string \<Rightarrow> bq_world \<Rightarrow> bool" where
  "reachable uid w \<longleftrightarrow> set_with (bw_pod w) (\<lambda>p. \<not> exited p \<and> (uid = [] \<or> uid = pd_uid p))"

definition nextAnswer :: "rpc_answer pass" where
  "nextAnswer w = (case bw_rpc w of [] \<Rightarrow> (Inr Replied, w) | a # as \<Rightarrow> (Inr a, w\<lparr>bw_rpc := as\<rparr>))"

definition answered :: "bool \<Rightarrow> rpc_answer \<Rightarrow> unit pass" where
  "answered undo a = (case a of
      Broken e off \<Rightarrow> bnd (modify (\<lambda>w. w\<lparr>bw_frozen := if bw_supports w \<and> \<not> undo then off else bw_frozen w \<and> off\<rparr>))
          (\<lambda>_. raise (AgentFailure (AgentError e)))
    | Replied \<Rightarrow>
        if undo then modify (\<lambda>w. w\<lparr>bw_frozen := False\<rparr>)
        else bnd (gets bw_supports) (\<lambda>sup.
          if sup then modify (\<lambda>w. w\<lparr>bw_frozen := True\<rparr>) else raise (AgentFailure ErrUnsupported)))"

definition checked :: "rpc_answer \<Rightarrow> unit pass" where
  "checked a = (case a of Broken e _ \<Rightarrow> raise (AgentFailure (AgentError e)) | Replied \<Rightarrow> ret ())"

definition call :: "string \<Rightarrow> (rpc_answer \<Rightarrow> unit pass) \<Rightarrow> unit pass" where
  "call uid handle w =
     (if \<not> reachable uid w then (Inl (AgentFailure (AgentError ''unreachable'')), w) else bnd nextAnswer handle w)"

definition rpc :: "string \<Rightarrow> bool \<Rightarrow> unit pass" where
  "rpc uid undo = call uid (answered undo)"

definition CheckPod :: "string \<Rightarrow> unit pass" where
  "CheckPod uid = call uid checked"

definition callBackupQuiesce :: "bq_config \<Rightarrow> string \<Rightarrow> bool \<Rightarrow> unit pass" where
  "callBackupQuiesce cfg podUID undo =
     (if undo \<and> podUID = [] then raise (BqError ''cannot recover legacy quiesce'')
      else if \<not> bc_agent cfg then raise (BqError ''agent quiesce client is not configured'')
      else if podUID \<noteq> [] \<and> \<not> bc_podBound cfg then raise (BqError ''agent client does not support pod-bound quiesce'')
      else rpc podUID undo)"

section \<open>Pausing\<close>

definition quiesceCheck :: "bq_config \<Rightarrow> preparation option \<Rightarrow> unit pass" where
  "quiesceCheck cfg p =
     bnd (attempt (if \<not> bc_podBound cfg then raise (BqError ''agent client does not support pod-bound quiesce'')
                   else CheckPod (preparedPod p))) (\<lambda>r. case r of
        Inr _ \<Rightarrow> ret ()
      | Inl e \<Rightarrow> bnd (failBackup (MsgErr ''quiesce identity check failed: '' e)) (\<lambda>_. raise e))"

definition quiesceCall :: "bq_config \<Rightarrow> preparation option \<Rightarrow> unit pass" where
  "quiesceCall cfg p =
     bnd (attempt (callBackupQuiesce cfg (preparedPod p) False)) (\<lambda>r. case r of
        Inr _ \<Rightarrow>
          bnd (gets bw_now) (\<lambda>now.
          bnd (patchMeta (\<lambda>b. b\<lparr>bm_attempted := ''true'', bm_quiescedAt := format_rfc3339 now\<rparr>)) (\<lambda>_. updateBackup))
      | Inl e \<Rightarrow>
          if e = AgentFailure ErrUnsupported then
            bnd (patchMeta (\<lambda>b. b\<lparr>bm_attempted := ''unsupported''\<rparr>)) (\<lambda>_.
            bnd (setUnquiesceIntent False) (\<lambda>_. updateBackup))
          else bnd (failBackup (MsgErr ''quiesce failed: '' e)) (\<lambda>_. raise e))"

text \<open>The intent is durable on the GameServer and on the Backup before the agent is called.\<close>

definition pauseSaving :: "bq_config \<Rightarrow> preparation option \<Rightarrow> unit pass" where
  "pauseSaving cfg p =
     bnd (setUnquiesceIntent True) (\<lambda>_.
     bnd (patchMeta (\<lambda>b. b\<lparr>bm_attempted := ''pending''\<rparr>)) (\<lambda>_.
     bnd updateBackup (\<lambda>_. quiesceCall cfg p)))"

definition maybeQuiesce :: "bq_config \<Rightarrow> unit pass" where
  "maybeQuiesce cfg =
     bnd preparationOf (\<lambda>p. bnd (gets bw_meta) (\<lambda>b.
     if set_with p (\<lambda>q. pr_outcome q = ''already-stopped'') then ret ()
     else if \<not> bm_quiesce b then ret ()
     else if \<not> bc_agent cfg then
       (if set_with p (\<lambda>q. pr_outcome q = ''live'') \<and> bm_attempted b \<noteq> ''true'' \<and> bm_attempted b \<noteq> ''unsupported''
        then bnd (failBackup (Msg ''agent quiesce client was disabled after live preparation''))
               (\<lambda>_. raise (BqError ''agent quiesce client was disabled after live preparation''))
        else ret ())
     else if bm_attempted b \<noteq> [] \<and> bm_attempted b \<noteq> ''pending'' then ret ()
     else
       bnd (if p \<noteq> None \<and> bm_attempted b = [] then quiesceCheck cfg p else ret ()) (\<lambda>_. pauseSaving cfg p)))"

section \<open>Resuming\<close>

definition recordBackupUnquiesced :: "unit pass" where
  "recordBackupUnquiesced =
     bnd (setUnquiesceIntent False) (\<lambda>_.
     bnd (gets bw_now) (\<lambda>now.
     bnd (patchMeta (\<lambda>b. b\<lparr>bm_unquiescedAt := Some (format_rfc3339 now)\<rparr>)) (\<lambda>_. updateBackup)))"

text \<open>The game server whose saving this Backup may resume: \<open>None\<close> when it is no longer this Backup's.\<close>

definition unquiesceTarget :: "string option pass" where
  "unquiesceTarget = bnd (gets bw_meta) (\<lambda>b.
     if bm_target b \<noteq> None then bnd ownedBackupTarget (\<lambda>found. ret (map_option ls_name found))
     else if bm_server b \<noteq> [] then
       bnd (getServer (bm_server b)) (\<lambda>found. case found of
          Some g \<Rightarrow> if ls_backup_guard g \<noteq> None then raise (BqError ''legacy quiesce cleanup is blocked by a protected backup'')
                    else ret (Some (bm_server b))
        | None \<Rightarrow> ret (Some (bm_server b)))
     else ret (Some (bm_server b)))"

definition resumeSaving :: "bq_config \<Rightarrow> string \<Rightarrow> unit pass" where
  "resumeSaving cfg name =
     bnd (if name \<noteq> [] then unquiesceTargetGone else ret False) (\<lambda>gone.
     if gone then bnd (patchMeta (\<lambda>b. b\<lparr>bm_cleanupOutcome := ''source-gone''\<rparr>)) (\<lambda>_. recordBackupUnquiesced)
     else if \<not> bc_agent cfg then raise (BqError ''cannot release quiesced world without an agent client'')
     else bnd preparationOf (\<lambda>p.
          bnd (callBackupQuiesce cfg (preparedPod p) True) (\<lambda>_. recordBackupUnquiesced)))"

definition maybeUnquiesce :: "bq_config \<Rightarrow> unit pass" where
  "maybeUnquiesce cfg = bnd (gets bw_meta) (\<lambda>b.
     if bm_attempted b = [] \<or> bm_attempted b = ''unsupported'' then ret ()
     else if bm_unquiescedAt b \<noteq> None then ret ()
     else bnd unquiesceTarget (\<lambda>target. case target of
        None \<Rightarrow> ret ()
      | Some name \<Rightarrow> resumeSaving cfg name))"

definition setUnquiescedCondition :: "bool \<Rightarrow> bq_msg \<Rightarrow> unit pass" where
  "setUnquiescedCondition ok msg = bnd (gets id) (\<lambda>w.
     let gen = lb_generation (bm_object (bw_meta w));
         c = (if ok then
                (if bm_cleanupOutcome (bw_meta w) = ''source-gone''
                 then condition ''Unquiesced'' ''True'' ''SourceProcessGone''
                        (Msg ''original process no longer exists; no unquiesce RPC was sent'') gen
                 else condition ''Unquiesced'' ''True'' ''Unquiesced'' NoMsg gen)
              else condition ''Unquiesced'' ''False'' ''Failed'' msg gen);
         conds = upsertCondition (bw_now w) (bs_conditions (bw_status w)) c in
     if sameConditions (bs_conditions (bw_status w)) conds then ret ()
     else bnd (patchStatus (\<lambda>st. st\<lparr>bs_conditions := conds\<rparr>)) (\<lambda>_. updateBackupStatus))"

definition releaseOwned :: "lc_server \<Rightarrow> unit pass" where
  "releaseOwned g =
     bnd nextFault (\<lambda>f. bnd nextFault (\<lambda>f'. bnd (gets id) (\<lambda>w.
     case releaseBackupTarget f f' (le_statefulset (seen_env w)) (bm_object (bw_meta w)) g of
       (Some e, _) \<Rightarrow> raise (LcError e)
     | (None, g') \<Rightarrow> modify (\<lambda>w. w\<lparr>bw_gs := Some g'\<rparr>))))"

definition releaseTarget :: "unit pass" where
  "releaseTarget = bnd ownedBackupTarget (\<lambda>found. case found of None \<Rightarrow> ret () | Some g \<Rightarrow> releaseOwned g)"

text \<open>Whether a worker that may still read the volume is alive.  Looking cancels Jobs and their start tokens
  when asked to; the Backup and the GameServer change only by the recovery of an inherited owner.\<close>

definition worker_id :: "string \<times> string \<Rightarrow> lifecycle_identity" where
  "worker_id i = identity ''Backup'' (fst i) (snd i) [] 0 [] False"

definition backupWorkersLive :: "string \<times> string \<Rightarrow> bool pass" where
  "backupWorkersLive i = bnd (gets (\<lambda>w. le_backupWorkers (bw_env w) (worker_id i))) (\<lambda>r. case r of
      Inl e \<Rightarrow> raise (LcError (ApiError e)) | Inr busy \<Rightarrow> ret busy)"

fun anyWorkersLive :: "(string \<times> string) list \<Rightarrow> bool pass" where
  "anyWorkersLive [] = ret False"
| "anyWorkersLive (i # ids) = bnd (backupWorkersLive i) (\<lambda>busy. if busy then ret True else anyWorkersLive ids)"

definition legacy_view :: "backup_meta \<Rightarrow> lc_backup" where
  "legacy_view b = \<lparr>cb_server = bm_server b, cb_object = bm_object b,
     cb_targetAnnotation = (if bm_target b = None then [] else ''set''), cb_quiesceAttempted = bm_attempted b,
     cb_unquiescedAt = (case bm_unquiescedAt b of None \<Rightarrow> [] | Some t \<Rightarrow> t)\<rparr>"

definition legacyQuiescedBackups :: "backup_meta \<Rightarrow> lc_backup list pass" where
  "legacyQuiescedBackups b = bnd (gets (\<lambda>w. le_backups (bw_env w))) (\<lambda>r. case r of
      Inl e \<Rightarrow> raise (LcError (ApiError e))
    | Inr bs \<Rightarrow> ret (filter (\<lambda>c. cb_server c = bm_server b \<and> legacyBackupOwesUnquiesce c) bs))"

definition backupRecoveryIdentities :: "(string \<times> string) list pass" where
  "backupRecoveryIdentities = bnd ownedBackupTarget (\<lambda>found. bnd (gets bw_meta) (\<lambda>b.
     if set_with found (\<lambda>g. ls_lineage g \<noteq> None) then lift (parseBackupRecoveryLineage (ls_lineage (the found)))
     else (case bm_recovery b of
        None \<Rightarrow> ret []
      | Some value \<Rightarrow> bnd (lift (parseBackupIdentity value)) (\<lambda>i. ret [i]))))"

definition recoverInherited :: "lc_server option \<Rightarrow> bool pass" where
  "recoverInherited found = (case found of
      None \<Rightarrow> ret True
    | Some g \<Rightarrow> (case ls_owner g of
          None \<Rightarrow> ret True
        | Some value \<Rightarrow>
            bnd (lift (parseLifecycleOperation value)) (\<lambda>op.
            bnd (gets seen_env) (\<lambda>env. case recoverLifecycleOperation env op g g of
                (r, g') \<Rightarrow> bnd (modify (\<lambda>w. w\<lparr>bw_gs := Some g'\<rparr>)) (\<lambda>_. lift r)))))"

definition copyWorkersLive :: "bool pass" where
  "copyWorkersLive =
     bnd (gets bw_meta) (\<lambda>b.
     bnd (backupWorkersLive (lb_name (bm_object b), lb_uid (bm_object b))) (\<lambda>busy.
     if busy then ret True
     else bnd (if legacyBackupOwesUnquiesce (legacy_view b)
               then bnd (legacyQuiescedBackups b) (\<lambda>legacy.
                    anyWorkersLive (map (\<lambda>c. (lb_name (cb_object c), lb_uid (cb_object c))) legacy))
               else ret False) (\<lambda>busy.
     if busy then ret True
     else bnd backupRecoveryIdentities anyWorkersLive)))"

definition backupCleanupWorkersLive :: "bool pass" where
  "backupCleanupWorkersLive =
     bnd ownedBackupTarget (\<lambda>found.
     bnd (recoverInherited found) (\<lambda>ready. if \<not> ready then ret True else copyWorkersLive))"

definition runUnquiesce :: "bq_config \<Rightarrow> duration pass" where
  "runUnquiesce cfg = bnd backupCleanupWorkersLive (\<lambda>busy.
     if busy then ret (5 * second)
     else bnd (attempt (maybeUnquiesce cfg)) (\<lambda>r. case r of
        Inl e \<Rightarrow> bnd (setUnquiescedCondition False (MsgErr [] e)) (\<lambda>_. ret (30 * second))
      | Inr _ \<Rightarrow> bnd (gets bw_meta) (\<lambda>b.
          bnd (if bm_unquiescedAt b \<noteq> None then setUnquiescedCondition True NoMsg else ret ()) (\<lambda>_.
          bnd releaseTarget (\<lambda>_. ret 0)))))"

definition snapshotUnavailableMsg :: bq_msg where
  "snapshotUnavailableMsg = Msg (''backup job completed but its restic snapshot id could not be '' @
     ''read from the pod logs; the backup is not restorable'')"

definition failUnrestorable :: "bq_config \<Rightarrow> duration pass" where
  "failUnrestorable cfg = bnd (runUnquiesce cfg) (\<lambda>res.
     if res > 0 then ret res else failBackup snapshotUnavailableMsg)"

section \<open>Deleting the Backup\<close>

definition maxUnquiesceFinalizeRetry :: duration where
  "maxUnquiesceFinalizeRetry = 10 * minute"

definition unquiesceRetryExpired :: "bool pass" where
  "unquiesceRetryExpired = bnd (gets id) (\<lambda>w. case bm_retryFirstFailedAt (bw_meta w) of
      None \<Rightarrow>
        bnd (patchMeta (\<lambda>b. b\<lparr>bm_retryFirstFailedAt := Some (format_rfc3339 (bw_now w))\<rparr>)) (\<lambda>_.
        bnd updateBackup (\<lambda>_. ret False))
    | Some since \<Rightarrow> (case parse_rfc3339 since of
          Some first \<Rightarrow> ret (time_sub (bw_now w) first \<ge> maxUnquiesceFinalizeRetry)
        | None \<Rightarrow> ret True))"

datatype unquiesce_outcome = Confirmed | Abandoned | Retry

text \<open>What to do after a failed resumption: release without confirmation, or come back.\<close>

definition unquiesceFailed :: "unquiesce_outcome pass" where
  "unquiesceFailed = bnd (attempt unquiesceTargetGone) (\<lambda>r. case r of
      Inl _ \<Rightarrow> ret Retry
    | Inr True \<Rightarrow> ret Abandoned
    | Inr False \<Rightarrow> bnd unquiesceRetryExpired (\<lambda>expired.
        if expired then bnd (modify (\<lambda>w. w\<lparr>bw_events := bw_events w @ [''UnquiesceAbandoned'']\<rparr>)) (\<lambda>_. ret Abandoned)
        else ret Retry))"

text \<open>Removing an aborted volume snapshot touches only that snapshot; its answer is an observation.\<close>

definition cleanupAbortedSnapshot :: "duration pass" where
  "cleanupAbortedSnapshot = bnd (gets bw_snapshotCleanup) (\<lambda>r. case r of
      Inl e \<Rightarrow> raise (LcError (ApiError e)) | Inr res \<Rightarrow> ret res)"

definition resumeOnDelete :: "bq_config \<Rightarrow> unquiesce_outcome pass" where
  "resumeOnDelete cfg = bnd (attempt (maybeUnquiesce cfg)) (\<lambda>r. case r of
      Inr _ \<Rightarrow> ret Confirmed | Inl _ \<Rightarrow> unquiesceFailed)"

text \<open>An abandoned resumption leaves the owner record on the GameServer behind.\<close>

definition releaseFinalizer :: "unquiesce_outcome \<Rightarrow> duration pass" where
  "releaseFinalizer how =
     (if how = Retry then ret (30 * second)
      else
        bnd (if how = Confirmed then releaseTarget else ret ()) (\<lambda>_.
        bnd (gets bw_meta) (\<lambda>b.
        bnd (if bm_snapshotAborted b then cleanupAbortedSnapshot else ret 0) (\<lambda>res.
        if res > 0 then ret res
        else bnd (patchMeta (\<lambda>b. b\<lparr>bm_finalizer := False\<rparr>)) (\<lambda>_.
             bnd updateBackup (\<lambda>_. ret 0))))))"

definition finalizeUnquiesce :: "bq_config \<Rightarrow> duration pass" where
  "finalizeUnquiesce cfg = bnd (gets bw_meta) (\<lambda>b.
     if \<not> bm_finalizer b then ret 0
     else bnd backupCleanupWorkersLive (\<lambda>busy.
     if busy then ret (5 * second)
     else bnd (resumeOnDelete cfg) releaseFinalizer))"

end
