(* ===== verification/Backup_Debt.thy ===== *)
theory Backup_Debt
  imports Backup_Quiesce
begin

text \<open>
  What the quiesce protocol of \<open>Backup_Quiesce\<close> guarantees: a small calculus of passes, the invariant that
  saving is never off without the debt being written down on the Backup and on the GameServer, and what
  follows for releasing the GameServer, deleting the Backup and the next owner.
\<close>

section \<open>Reasoning about passes\<close>

definition valid :: "(bq_world \<Rightarrow> bool) \<Rightarrow> 'a pass \<Rightarrow> (bq_error + 'a \<Rightarrow> bq_world \<Rightarrow> bool) \<Rightarrow> bool" where
  "valid P m Q \<longleftrightarrow> (\<forall>w. P w \<longrightarrow> Q (fst (m w)) (snd (m w)))"

abbreviation keeps :: "(bq_world \<Rightarrow> bool) \<Rightarrow> 'a pass \<Rightarrow> bool" where
  "keeps P m \<equiv> valid P m (\<lambda>_. P)"

named_theorems pass_rule

lemma valid_bnd:
  assumes "valid P m R" "\<And>x. valid (R (Inr x)) (f x) Q" "\<And>e w. R (Inl e) w \<Longrightarrow> Q (Inl e) w"
  shows "valid P (bnd m f) Q"
  unfolding valid_def
proof (intro allI impI)
  fix w assume "P w"
  then have "R (fst (m w)) (snd (m w))" using assms(1) by (simp add: valid_def)
  then show "Q (fst (bnd m f w)) (snd (bnd m f w))"
    using assms(2,3) by (cases "m w"; cases "fst (m w)") (auto simp: bnd_def valid_def)
qed

lemma keeps_bnd [pass_rule]: "keeps P m \<Longrightarrow> (\<And>x. keeps P (f x)) \<Longrightarrow> keeps P (bnd m f)"
  by (erule valid_bnd) auto

lemma valid_attempt: "valid P m (\<lambda>r. Q (Inr r)) \<Longrightarrow> valid P (attempt m) Q"
  by (auto simp: valid_def attempt_def split: prod.splits)

lemma keeps_attempt [pass_rule]: "keeps P m \<Longrightarrow> keeps P (attempt m)"
  by (rule valid_attempt)

lemma valid_pre: "valid P m Q \<Longrightarrow> (\<And>w. P' w \<Longrightarrow> P w) \<Longrightarrow> valid P' m Q"
  by (auto simp: valid_def)

lemma valid_post: "valid P m Q \<Longrightarrow> (\<And>r w. Q r w \<Longrightarrow> Q' r w) \<Longrightarrow> valid P m Q'"
  by (auto simp: valid_def)

lemma valid_ret: "(\<And>w. P w \<Longrightarrow> Q (Inr x) w) \<Longrightarrow> valid P (ret x) Q"
  by (simp add: valid_def ret_def)

lemma valid_raise: "(\<And>w. P w \<Longrightarrow> Q (Inl e) w) \<Longrightarrow> valid P (raise e) Q"
  by (simp add: valid_def raise_def)

lemma valid_modify: "(\<And>w. P w \<Longrightarrow> Q (Inr ()) (f w)) \<Longrightarrow> valid P (modify f) Q"
  by (simp add: valid_def modify_def)

lemma valid_gets: "(\<And>w. P w \<Longrightarrow> Q (Inr (f w)) w) \<Longrightarrow> valid P (gets f) Q"
  by (simp add: valid_def gets_def)

lemma valid_lift: "(\<And>w. P w \<Longrightarrow> Q (map_sum LcError id r) w) \<Longrightarrow> valid P (lift r) Q"
  by (cases r) (simp_all add: valid_def lift_def)

lemma keeps_simple [pass_rule]:
  "keeps P (ret x)" "keeps P (raise e)" "keeps P (gets f)" "keeps P (lift r)" "keeps P preparationOf"
  by (auto simp: valid_def ret_def raise_def gets_def lift_def preparationOf_def split: sum.splits)

lemma keeps_if [pass_rule]: "(c \<Longrightarrow> keeps P m) \<Longrightarrow> (\<not> c \<Longrightarrow> keeps P n) \<Longrightarrow> keeps P (if c then m else n)"
  by simp

lemma keeps_case [pass_rule]:
  "(o' = None \<Longrightarrow> keeps P m) \<Longrightarrow> (\<And>x. o' = Some x \<Longrightarrow> keeps P (f x)) \<Longrightarrow> keeps P (case_option m f o')"
  "(\<And>x. keeps P (g x)) \<Longrightarrow> (\<And>y. keeps P (h y)) \<Longrightarrow> keeps P (case_sum g h s)"
  "(\<And>x y. keeps P (k x y)) \<Longrightarrow> keeps P (case_prod k pr)"
  by (auto split: option.splits sum.splits prod.splits)

section \<open>The debt\<close>

definition owes :: "backup_meta \<Rightarrow> bool" where
  "owes b \<longleftrightarrow> bm_attempted b \<noteq> [] \<and> bm_attempted b \<noteq> ''unsupported'' \<and> bm_unquiescedAt b = None"

text \<open>The GameServer's owner record carries the debt: it names the Backup, says saving has to be resumed, and
  in which pod.\<close>

definition carries :: "lc_object \<Rightarrow> string \<Rightarrow> lc_server \<Rightarrow> bool" where
  "carries b pod g \<longleftrightarrow> ls_backup_guard g = Some (Inr (lb_name b, lb_uid b)) \<and>
     (\<exists>op. ls_owner g = Some (Inr op) \<and> parseLifecycleOperation (Inr op) = Inr op \<and>
        sameLifecycleOwner (lo_identity op) (backupLifecycleIdentity g b False) \<and>
        li_needsUnquiesce (lo_identity op) \<and> li_quiescePod (lo_identity op) = pod)"

definition bound_to :: "backup_meta \<Rightarrow> lc_server \<Rightarrow> bool" where
  "bound_to b g \<longleftrightarrow> bm_target b = Some (Inr (ls_name g, ls_uid g))"

definition debt_recorded :: "bq_world \<Rightarrow> bool" where
  "debt_recorded w \<longleftrightarrow> owes (bw_stored w) \<and>
     (\<exists>p prep. bw_pod w = Some p \<and> \<not> exited p \<and> parseBackupPreparation (bw_stored w) = Inr prep \<and> prep \<noteq> None \<and>
        (\<forall>q. prep = Some q \<longrightarrow> pr_pod q = pd_uid p) \<and>
        (\<exists>id. bm_target (bw_stored w) = Some (Inr id) \<and> fst id \<noteq> [] \<and> snd id \<noteq> []) \<and>
        (\<forall>g. bw_gs w = Some g \<and> bound_to (bw_stored w) g \<longrightarrow> carries (bm_object (bw_stored w)) (preparedPod prep) g))"

definition core :: "backup_meta \<Rightarrow> lc_object \<times> string \<times> (string \<times> string) decoded option \<times> preparation decoded option" where
  "core b = (bm_object b, bm_server b, bm_target b, bm_preparation b)"

text \<open>What holds inside a pass: the copy in memory has the identities of the stored one, and as long as
  saving is off neither of the two has lost the debt.\<close>

definition in_pass :: "bq_world \<Rightarrow> bool" where
  "in_pass w \<longleftrightarrow> core (bw_meta w) = core (bw_stored w) \<and>
     (bw_frozen w \<longrightarrow> bw_supports w \<and> owes (bw_meta w) \<and> debt_recorded w)"

lemma parse_core: "core b = core b' \<Longrightarrow> parseBackupPreparation b = parseBackupPreparation b'"
  by (simp add: parseBackupPreparation_def core_def)

lemma keeps_nextFault [pass_rule]: "keeps in_pass nextFault"
  by (auto simp: valid_def nextFault_def in_pass_def debt_recorded_def split: list.splits)

lemma keeps_api [pass_rule]: "keeps in_pass api"
  unfolding api_def by (intro pass_rule)

lemma keeps_updateBackup [pass_rule]: "keeps in_pass updateBackup"
  unfolding updateBackup_def
  by (intro pass_rule valid_modify) (auto simp: in_pass_def debt_recorded_def core_def parseBackupPreparation_def bound_to_def)

lemma keeps_updateBackupStatus [pass_rule]: "keeps in_pass updateBackupStatus"
  unfolding updateBackupStatus_def
  by (intro pass_rule valid_modify) (auto simp: in_pass_def debt_recorded_def)

lemma keeps_patchStatus [pass_rule]: "keeps in_pass (patchStatus f)"
  unfolding patchStatus_def by (intro valid_modify) (simp add: in_pass_def debt_recorded_def)

lemma keeps_patchMeta:
  "(\<And>b. core (f b) = core b) \<Longrightarrow> (\<And>b. owes b \<Longrightarrow> owes (f b)) \<Longrightarrow> keeps in_pass (patchMeta f)"
  unfolding patchMeta_def by (intro valid_modify) (simp add: in_pass_def debt_recorded_def)

lemma keeps_failBackup [pass_rule]: "keeps in_pass (failBackup msg)"
  unfolding failBackup_def by (intro pass_rule valid_modify) (simp add: in_pass_def debt_recorded_def)

lemma keeps_getServer [pass_rule]: "keeps in_pass (getServer name)"
  unfolding getServer_def by (intro pass_rule)

lemma keeps_ownedBackupTarget [pass_rule]: "keeps in_pass ownedBackupTarget"
  unfolding ownedBackupTarget_def by (intro pass_rule)


definition thawed :: "bq_world \<Rightarrow> bool" where
  "thawed w \<longleftrightarrow> core (bw_meta w) = core (bw_stored w) \<and> \<not> bw_frozen w"

lemma thawed_in_pass: "thawed w \<longleftrightarrow> in_pass w \<and> \<not> bw_frozen w"
  by (auto simp: thawed_def in_pass_def)

lemma keeps_thawed [pass_rule]:
  "keeps thawed nextFault" "keeps thawed (modify (\<lambda>w. w\<lparr>bw_gs := h w\<rparr>))" "keeps thawed (patchStatus f)"
  by (auto simp: valid_def nextFault_def thawed_def modify_def patchStatus_def split: list.splits)

lemma keeps_thawed_api [pass_rule]: "keeps thawed api"
  unfolding api_def by (intro pass_rule)

lemma keeps_thawed_update [pass_rule]: "keeps thawed updateBackup"
  unfolding updateBackup_def by (intro pass_rule valid_modify) (simp add: thawed_def)

lemma keeps_thawed_patch: "(\<And>b. core (f b) = core b) \<Longrightarrow> keeps thawed (patchMeta f)"
  unfolding patchMeta_def by (intro valid_modify) (simp add: thawed_def)

lemma keeps_thawed_owned [pass_rule]: "keeps thawed ownedBackupTarget"
  unfolding ownedBackupTarget_def getServer_def by (intro pass_rule)

lemma keeps_thawed_intent [pass_rule]: "keeps thawed (setUnquiesceIntent needed)"
  unfolding setUnquiesceIntent_def by (intro pass_rule)

lemma keeps_thawed_recorded [pass_rule]: "keeps thawed recordBackupUnquiesced"
  unfolding recordBackupUnquiesced_def by (intro pass_rule keeps_thawed_patch) (simp add: core_def)

text \<open>What \<^verbatim>\<open>ownedBackupTarget\<close> returns.\<close>

definition owned_ok :: "lc_server option \<Rightarrow> bq_world \<Rightarrow> bool" where
  "owned_ok found w \<longleftrightarrow> (case found of
      Some g \<Rightarrow> bw_gs w = Some g \<and> bound_to (bw_meta w) g \<and> ls_name g \<noteq> [] \<and> ls_uid g \<noteq> [] \<and> ownsTarget (bm_object (bw_meta w)) (ls_uid g) g = Inr True
    | None \<Rightarrow> \<forall>g. bw_gs w = Some g \<and> bound_to (bw_meta w) g \<longrightarrow> ownsTarget (bm_object (bw_meta w)) (ls_uid g) g \<noteq> Inr True)"

lemma getServer_run:
  "getServer name w = (case api w of (Inl e, w') \<Rightarrow> (Inl e, w')
     | (Inr _, w') \<Rightarrow> (Inr (case bw_gs w of Some g \<Rightarrow> if ls_name g = name then Some g else None | None \<Rightarrow> None), w'))"
  by (auto simp: getServer_def bnd_def gets_def api_def nextFault_def ret_def raise_def split: sum.splits prod.splits list.splits option.splits)

lemma api_frame:
  "api w = (r, w') \<Longrightarrow> bw_meta w' = bw_meta w \<and> bw_gs w' = bw_gs w \<and> bw_stored w' = bw_stored w \<and> bw_pod w' = bw_pod w"
  by (auto simp: api_def bnd_def nextFault_def ret_def raise_def split: list.splits option.splits)

lemma owns_uid: "ownsTarget b uid g = Inr True \<Longrightarrow> uid = ls_uid g"
  by (simp add: ownsTarget_def split: if_splits)

lemma owned_result: "ownedBackupTarget w = (Inr found, w') \<Longrightarrow> owned_ok found w'"
  by (auto simp: ownedBackupTarget_def bnd_def gets_def getServer_run lift_def ret_def owned_ok_def bound_to_def
      parseBackupIdentity_def raise_def dest!: api_frame split: option.splits sum.splits prod.splits if_splits)
    (metis owns_uid)+

lemma valid_owned: "valid P ownedBackupTarget (\<lambda>_. P) \<Longrightarrow>
    valid P ownedBackupTarget (\<lambda>r w. P w \<and> (\<forall>found. r = Inr found \<longrightarrow> owned_ok found w))"
  unfolding valid_def by (metis owned_result prod.collapse)

lemma carries_owns: "carries b pod g \<Longrightarrow> ownsTarget b (ls_uid g) g = Inr True"
  by (auto simp: carries_def ownsTarget_def)

lemma owned_None_orphaned:
  assumes "in_pass w" "bw_frozen w" "owned_ok None w"
  shows "\<not> (bw_gs w = Some g \<and> bound_to (bw_stored w) g)"
  using assms carries_owns [of "bm_object (bw_stored w)" _ g]
  by (auto simp: in_pass_def owned_ok_def debt_recorded_def core_def bound_to_def)


text \<open>Pausing writes the intent first.\<close>

lemma intent_carries:
  assumes "ownsTarget b (ls_uid g) g = Inr True" "ls_owner g \<noteq> None" "setLifecycleUnquiesceIntent f True pod g = (None, g')"
  shows "carries b pod g' \<and> ls_name g' = ls_name g \<and> ls_uid g' = ls_uid g"
proof -
  obtain op where op: "ls_owner g = Some (Inr op)" "parseLifecycleOperation (Inr op) = Inr op"
    "sameLifecycleOwner (lo_identity op) (backupLifecycleIdentity g b False)"
    using assms(1,2) by (auto simp: ownsTarget_def parseLifecycleOperation_def split: if_splits option.splits sum.splits)
  let ?i = "(lo_identity op)\<lparr>li_needsUnquiesce := True, li_quiescePod := pod\<rparr>"
  have parse: "parseLifecycleOperation (Inr (op\<lparr>lo_identity := ?i\<rparr>)) = Inr (op\<lparr>lo_identity := ?i\<rparr>)"
    using op(2) by (auto simp: parseLifecycleOperation_def valid_identity_def split: option.splits if_splits)
  have same: "sameLifecycleOwner ?i (backupLifecycleIdentity g b False)"
    using op(3) by (simp add: sameLifecycleOwner_def)
  show ?thesis
    using assms op parse same
    by (auto simp: setLifecycleUnquiesceIntent_def carries_def ownsTarget_def backupLifecycleIdentity_def Let_def
        split: if_splits option.splits)
qed

lemma intent_idle:
  assumes "carries b pod g"
  shows "setLifecycleUnquiesceIntent f True pod g = (None, g)"
  using assms by (auto simp: carries_def setLifecycleUnquiesceIntent_def)

text \<open>Ready to pause: whatever the call to the agent does, the debt is on record.\<close>

definition set_up :: "preparation option \<Rightarrow> bq_world \<Rightarrow> bool" where
  "set_up prep w \<longleftrightarrow> in_pass w \<and> owes (bw_meta w) \<and> owes (bw_stored w) \<and> parseBackupPreparation (bw_stored w) = Inr prep \<and>
     prep \<noteq> None \<and> (\<forall>q. prep = Some q \<longrightarrow> pr_pod q \<noteq> []) \<and>
     (\<exists>id. bm_target (bw_stored w) = Some (Inr id) \<and> fst id \<noteq> [] \<and> snd id \<noteq> []) \<and>
     (\<forall>g. bw_gs w = Some g \<and> bound_to (bw_stored w) g \<longrightarrow> carries (bm_object (bw_stored w)) (preparedPod prep) g)"

lemma rpc_quiesce:
  "valid (set_up prep) (rpc (preparedPod prep) False)
     (\<lambda>r w. set_up prep w \<and> (r = Inl (AgentFailure ErrUnsupported) \<longrightarrow> \<not> bw_frozen w))"
proof -
  have "set_up prep (w\<lparr>bw_rpc := as, bw_frozen := off\<rparr>)"
    if "set_up prep w" "reachable (preparedPod prep) w" "off \<longrightarrow> bw_supports w" for w as off
    using that by (cases prep)
      (fastforce simp: set_up_def in_pass_def debt_recorded_def reachable_def preparedPod_def)+
  note freeze = this
  have same: "w\<lparr>bw_frozen := off\<rparr> = w\<lparr>bw_rpc := bw_rpc w, bw_frozen := off\<rparr>" for w :: bq_world and off by simp
  have "set_up prep (w\<lparr>bw_rpc := as\<rparr>)" if "set_up prep w" for w as
    using that by (auto simp: set_up_def in_pass_def debt_recorded_def)
  moreover have "\<not> bw_frozen w" if "set_up prep w" "\<not> bw_supports w" for w
    using that by (auto simp: set_up_def in_pass_def)
  moreover have "set_up prep (w\<lparr>bw_frozen := True\<rparr>)"
    if "set_up prep w" "reachable (preparedPod prep) w" "bw_supports w" for w
    using that by (subst same) (rule freeze; simp)
  ultimately show ?thesis
    by (auto simp: valid_def rpc_def call_def answered_def nextAnswer_def bnd_def modify_def raise_def gets_def freeze(1)
        split: list.splits rpc_answer.splits)
qed

lemma set_up_in_pass: "set_up prep w \<Longrightarrow> in_pass w"
  by (simp add: set_up_def)

lemma from_set_up: "valid in_pass m Q \<Longrightarrow> valid (set_up p) m Q"
  by (auto simp: valid_def set_up_def)

lemma keeps_quiesceCall: "valid (set_up p) (quiesceCall cfg p) (\<lambda>_. in_pass)"
proof -
  have call: "valid (set_up p) (callBackupQuiesce cfg (preparedPod p) False)
     (\<lambda>r w. set_up p w \<and> (r = Inl (AgentFailure ErrUnsupported) \<longrightarrow> \<not> bw_frozen w))"
    unfolding callBackupQuiesce_def using rpc_quiesce [of p] by (auto intro!: valid_raise)
  have ok: "valid (set_up p) (bnd (gets bw_now) (\<lambda>now. bnd (patchMeta (\<lambda>b. b\<lparr>bm_attempted := ''true'',
      bm_quiescedAt := format_rfc3339 now\<rparr>)) (\<lambda>_. updateBackup))) (\<lambda>_. in_pass)"
    by (intro from_set_up pass_rule keeps_patchMeta; simp add: core_def owes_def)
  have unsup: "valid thawed (bnd (patchMeta (\<lambda>b. b\<lparr>bm_attempted := ''unsupported''\<rparr>)) (\<lambda>_.
      bnd (setUnquiesceIntent False) (\<lambda>_. updateBackup))) (\<lambda>_. in_pass)"
    by (rule valid_post [where Q = "\<lambda>_. thawed"]) (intro pass_rule keeps_thawed_patch, simp add: core_def, simp add: thawed_in_pass)
  have unsup': "valid (\<lambda>w. set_up p w \<and> \<not> bw_frozen w) (bnd (patchMeta (\<lambda>b. b\<lparr>bm_attempted := ''unsupported''\<rparr>)) (\<lambda>_.
      bnd (setUnquiesceIntent False) (\<lambda>_. updateBackup))) (\<lambda>_. in_pass)"
    by (rule valid_pre [OF unsup]) (auto simp: thawed_in_pass dest: set_up_in_pass)
  have fail: "valid (set_up p) (bnd (failBackup m) (\<lambda>_. raise e)) (\<lambda>_. in_pass)" for m :: bq_msg and e
    by (intro from_set_up pass_rule)
  from call have "valid (set_up p) (attempt (callBackupQuiesce cfg (preparedPod p) False))
     (\<lambda>r w. set_up p w \<and> (r = Inr (Inl (AgentFailure ErrUnsupported)) \<longrightarrow> \<not> bw_frozen w))"
    by (intro valid_attempt) simp
  then show ?thesis
    unfolding quiesceCall_def
  proof (rule valid_bnd)
    fix r :: "bq_error + unit"
    show "valid (\<lambda>w. set_up p w \<and> (Inr r = Inr (Inl (AgentFailure ErrUnsupported)) \<longrightarrow> \<not> bw_frozen w))
      (case r of Inl e \<Rightarrow> if e = AgentFailure ErrUnsupported then
            bnd (patchMeta (\<lambda>b. b\<lparr>bm_attempted := ''unsupported''\<rparr>)) (\<lambda>_.
            bnd (setUnquiesceIntent False) (\<lambda>_. updateBackup))
          else bnd (failBackup (MsgErr ''quiesce failed: '' e)) (\<lambda>_. raise e)
        | Inr _ \<Rightarrow> bnd (gets bw_now) (\<lambda>now.
          bnd (patchMeta (\<lambda>b. b\<lparr>bm_attempted := ''true'', bm_quiescedAt := format_rfc3339 now\<rparr>)) (\<lambda>_. updateBackup)))
      (\<lambda>_. in_pass)"
      using unsup' fail ok by (cases r) auto
  qed (auto dest: set_up_in_pass)
qed


text \<open>The GameServer is claimed for the Backup.\<close>

definition claimed :: "bq_world \<Rightarrow> bool" where
  "claimed w \<longleftrightarrow> (\<exists>g. bw_gs w = Some g \<and> bound_to (bw_meta w) g \<and> ls_name g \<noteq> [] \<and> ls_uid g \<noteq> [] \<and> ls_owner g \<noteq> None \<and>
     ownsTarget (bm_object (bw_meta w)) (ls_uid g) g = Inr True)"

text \<open>Before the pause call: nothing was resumed yet.\<close>

definition may_pause :: "preparation option \<Rightarrow> bq_world \<Rightarrow> bool" where
  "may_pause prep w \<longleftrightarrow> in_pass w \<and> claimed w \<and> bm_unquiescedAt (bw_meta w) = None \<and>
     parseBackupPreparation (bw_meta w) = Inr prep \<and> prep \<noteq> None \<and> (\<forall>q. prep = Some q \<longrightarrow> pr_pod q \<noteq> []) \<and> bw_meta w = bw_stored w"

lemma faults_frame [simp]:
  "in_pass (w\<lparr>bw_faults := fs\<rparr>) = in_pass w" "claimed (w\<lparr>bw_faults := fs\<rparr>) = claimed w"
  "may_pause prep (w\<lparr>bw_faults := fs\<rparr>) = may_pause prep w"
  by (simp_all add: in_pass_def claimed_def may_pause_def debt_recorded_def)

lemma nextFault_faults: "\<exists>f fs. nextFault w = (Inr f, w\<lparr>bw_faults := fs\<rparr>)"
  by (cases "bw_faults w") (auto simp: nextFault_def intro: exI [of _ "bw_faults w"])

lemma api_faults: "\<exists>r fs. api w = (r, w\<lparr>bw_faults := fs\<rparr>)"
  using nextFault_faults [of w] by (auto simp: api_def bnd_def ret_def raise_def split: option.splits)

lemma owned_faults: "\<exists>r fs. ownedBackupTarget w = (r, w\<lparr>bw_faults := fs\<rparr>)"
proof -
  have same: "\<exists>fs. w = w\<lparr>bw_faults := fs\<rparr>" by (rule exI [of _ "bw_faults w"]) simp
  obtain r fs where "api w = (r, w\<lparr>bw_faults := fs\<rparr>)" using api_faults by blast
  with same show ?thesis
    by (cases r) (auto simp: ownedBackupTarget_def bnd_def gets_def getServer_run lift_def ret_def
        split: option.splits sum.splits prod.splits)
qed

lemma owned_claimed:
  assumes "claimed w"
  obtains (failed) e fs where "ownedBackupTarget w = (Inl e, w\<lparr>bw_faults := fs\<rparr>)"
  | (found) g op fs where "ownedBackupTarget w = (Inr (Some g), w\<lparr>bw_faults := fs\<rparr>)" "bw_gs w = Some g" "bound_to (bw_meta w) g"
      "ownsTarget (bm_object (bw_meta w)) (ls_uid g) g = Inr True" "ls_owner g = Some (Inr op)" "parseLifecycleOperation (Inr op) = Inr op"
proof -
  obtain r fs where own: "ownedBackupTarget w = (r, w\<lparr>bw_faults := fs\<rparr>)" using owned_faults by blast
  show ?thesis
  proof (cases r)
    case (Inl e)
    with own failed show ?thesis by simp
  next
    case (Inr f)
    obtain g where g: "bw_gs w = Some g" "bound_to (bw_meta w) g" "ls_owner g \<noteq> None"
      "ownsTarget (bm_object (bw_meta w)) (ls_uid g) g = Inr True" using assms by (auto simp: claimed_def)
    with owned_result [OF own [unfolded Inr]] have "f = Some g" by (auto simp: owned_ok_def split: option.splits)
    moreover obtain op where "ls_owner g = Some (Inr op)" "parseLifecycleOperation (Inr op) = Inr op"
      using g(3,4) by (auto simp: ownsTarget_def parseLifecycleOperation_def split: if_splits option.splits sum.splits)
    ultimately show ?thesis using own Inr g found by blast
  qed
qed

lemma set_intent:
  assumes "may_pause prep w" "setUnquiesceIntent True w = (r, w')"
  shows "in_pass w' \<and> (r = Inr () \<longrightarrow> may_pause prep w' \<and>
     (\<forall>g. bw_gs w' = Some g \<and> bound_to (bw_stored w') g \<longrightarrow> carries (bm_object (bw_stored w')) (preparedPod prep) g))"
proof -
  have pre: "in_pass w" "claimed w" "parseBackupPreparation (bw_meta w) = Inr prep" "bw_meta w = bw_stored w"
    using assms(1) by (auto simp: may_pause_def)
  from pre(2) show ?thesis
  proof (cases rule: owned_claimed)
    case (failed e fs)
    with assms(2) pre(1) show ?thesis by (auto simp: setUnquiesceIntent_def bnd_def)
  next
    case (found g op fs)
    obtain f fs' where f: "nextFault (w\<lparr>bw_faults := fs\<rparr>) = (Inr f, w\<lparr>bw_faults := fs'\<rparr>)"
      using nextFault_faults [of "w\<lparr>bw_faults := fs\<rparr>"] by auto
    obtain e g' where set: "setLifecycleUnquiesceIntent f True (preparedPod prep) g = (e, g')" by fastforce
    have run: "setUnquiesceIntent True w = (case e of Some x \<Rightarrow> (Inl (LcError x), w\<lparr>bw_faults := fs'\<rparr>)
        | None \<Rightarrow> (Inr (), w\<lparr>bw_faults := fs', bw_gs := Some g'\<rparr>))"
      using found f set pre(3)
      by (auto simp: setUnquiesceIntent_def bnd_def lift_def preparationOf_def ret_def raise_def modify_def split: option.splits)
    show ?thesis
    proof (cases e)
      case (Some x)
      with run assms(2) pre(1) show ?thesis by auto
    next
      case None
      from intent_carries [OF found(4) _ set [unfolded None]] found(5)
      have g': "carries (bm_object (bw_meta w)) (preparedPod prep) g'" "ls_name g' = ls_name g" "ls_uid g' = ls_uid g" by auto
      then have "ls_owner g' \<noteq> None" by (auto simp: carries_def)
      with None run assms found g' carries_owns [OF g'(1)] pre show ?thesis
        by (auto simp: may_pause_def in_pass_def claimed_def debt_recorded_def bound_to_def)
    qed
  qed
qed


text \<open>Pausing keeps the invariant, whatever fails.\<close>

lemma may_pause_set_up:
  assumes "may_pause p w" "\<forall>g. bw_gs w = Some g \<and> bound_to (bw_stored w) g \<longrightarrow> carries (bm_object (bw_stored w)) (preparedPod p) g"
    and "updateBackup (w\<lparr>bw_meta := (bw_meta w)\<lparr>bm_attempted := ''pending''\<rparr>\<rparr>) = (Inr x, w')"
  shows "set_up p w'"
proof -
  let ?w = "w\<lparr>bw_meta := (bw_meta w)\<lparr>bm_attempted := ''pending''\<rparr>\<rparr>"
  obtain r fs where "api ?w = (r, ?w\<lparr>bw_faults := fs\<rparr>)" using api_faults by blast
  with assms(3) have w': "w' = w\<lparr>bw_meta := (bw_meta w)\<lparr>bm_attempted := ''pending''\<rparr>, bw_faults := fs,
     bw_stored := (bw_meta w)\<lparr>bm_attempted := ''pending''\<rparr>, bw_status := bw_storedStatus w\<rparr>"
    by (cases r) (auto simp: updateBackup_def bnd_def modify_def)
  have eq: "bw_meta w = bw_stored w" using assms(1) by (simp add: may_pause_def)
  have "parseBackupPreparation ((bw_meta w)\<lparr>bm_attempted := ''pending''\<rparr>) = parseBackupPreparation (bw_meta w)"
    by (simp add: parseBackupPreparation_def)
  moreover have "owes ((bw_meta w)\<lparr>bm_attempted := ''pending''\<rparr>)" using assms(1) by (auto simp: owes_def may_pause_def)
  ultimately show ?thesis
    using assms(1,2) eq
    by (auto simp: w' set_up_def may_pause_def in_pass_def debt_recorded_def bound_to_def claimed_def core_def)
qed

lemma pause_rest: "valid (may_pause p) (pauseSaving cfg p) (\<lambda>_. in_pass)"
  unfolding valid_def
proof (intro allI impI)
  fix w assume pre: "may_pause p w"
  obtain r w1 where int: "setUnquiesceIntent True w = (r, w1)" by fastforce
  note i = set_intent [OF pre int]
  let ?w = "w1\<lparr>bw_meta := (bw_meta w1)\<lparr>bm_attempted := ''pending''\<rparr>\<rparr>"
  obtain r' w2 where upd: "updateBackup ?w = (r', w2)" by fastforce
  show "in_pass (snd (pauseSaving cfg p w))"
  proof (cases r)
    case (Inl e)
    with int i show ?thesis by (simp add: pauseSaving_def bnd_def)
  next
    case (Inr u)
    then have may: "may_pause p w1" using i by simp
    then have "in_pass ?w" by (auto simp: may_pause_def in_pass_def debt_recorded_def core_def owes_def)
    then have "in_pass w2" using keeps_updateBackup upd by (fastforce simp: valid_def)
    moreover have "in_pass (snd (quiesceCall cfg p w2))" if "r' = Inr ()"
      using keeps_quiesceCall [of p cfg] may_pause_set_up [OF may _ upd [unfolded that]] i Inr by (simp add: valid_def)
    ultimately show ?thesis
      using int Inr upd by (cases r') (simp_all add: pauseSaving_def bnd_def patchMeta_def modify_def)
  qed
qed

lemma keeps_call: "keeps P nextAnswer \<Longrightarrow> (\<And>a. keeps P (handle a)) \<Longrightarrow> keeps P (call uid handle)"
  using keeps_bnd [of P nextAnswer handle] by (simp add: call_def valid_def)

lemma keeps_checked [pass_rule]: "keeps P (checked a)"
  by (cases a) (simp_all add: checked_def keeps_simple)

lemma keeps_CheckPod [pass_rule]: "keeps P nextAnswer \<Longrightarrow> keeps P (CheckPod uid)"
  unfolding CheckPod_def by (intro keeps_call pass_rule)

lemma keeps_nextAnswer [pass_rule]: "keeps in_pass nextAnswer"
  by (auto simp: valid_def nextAnswer_def in_pass_def debt_recorded_def split: list.splits)

lemma CheckPod_ok: "CheckPod uid w = (Inr x, w') \<Longrightarrow> \<exists>as. w' = w\<lparr>bw_rpc := as\<rparr>"
  by (auto simp: CheckPod_def call_def checked_def nextAnswer_def bnd_def ret_def raise_def split: if_splits list.splits rpc_answer.splits
      intro: exI [of _ "bw_rpc w"])

lemma quiesceCheck_kept: "valid (may_pause p) (quiesceCheck cfg p) (\<lambda>r w. in_pass w \<and> (r = Inr () \<longrightarrow> may_pause p w))"
  unfolding valid_def
proof (intro allI impI)
  fix w assume pre: "may_pause p w"
  have "keeps in_pass (quiesceCheck cfg p)"
    unfolding quiesceCheck_def by (intro pass_rule)
  then have "in_pass (snd (quiesceCheck cfg p w))" using pre by (simp add: valid_def may_pause_def)
  moreover have "may_pause p (snd (quiesceCheck cfg p w))" if "fst (quiesceCheck cfg p w) = Inr ()"
    using that pre
    by (auto simp: quiesceCheck_def attempt_def bnd_def ret_def raise_def may_pause_def in_pass_def claimed_def debt_recorded_def
        dest!: CheckPod_ok split: if_splits sum.splits prod.splits)
  ultimately show "in_pass (snd (quiesceCheck cfg p w)) \<and>
    (fst (quiesceCheck cfg p w) = Inr () \<longrightarrow> may_pause p (snd (quiesceCheck cfg p w)))" by simp
qed

lemma keeps_maybeQuiesce:
  assumes "in_pass w" "claimed w" "bw_meta w = bw_stored w"
    and "bm_attempted (bw_meta w) \<in> {[], ''pending''} \<longrightarrow> bm_unquiescedAt (bw_meta w) = None"
    and "bm_quiesce (bw_meta w) \<and> bc_agent cfg \<longrightarrow> bm_preparation (bw_meta w) \<noteq> None"
  shows "in_pass (snd (maybeQuiesce cfg w))"
proof (cases "parseBackupPreparation (bw_meta w)")
  case (Inl e)
  with assms(1) show ?thesis by (simp add: maybeQuiesce_def bnd_def preparationOf_def)
next
  case (Inr p)
  have "keeps in_pass (bnd (failBackup m) (\<lambda>_. raise e :: unit pass))" for m e
    by (intro pass_rule)
  then have fail: "in_pass (snd (bnd (failBackup m) (\<lambda>_. raise e :: unit pass) w))" for m e
    using assms(1) by (simp add: valid_def)
  have live: "\<forall>q. p = Some q \<and> pr_outcome q \<noteq> ''already-stopped'' \<longrightarrow> pr_pod q \<noteq> []" "p = None \<longleftrightarrow> bm_preparation (bw_meta w) = None"
    using Inr by (auto simp: parseBackupPreparation_def split: option.splits sum.splits if_splits)
  have pause: "in_pass (snd (bnd (if c then quiesceCheck cfg p else ret ()) (\<lambda>_. pauseSaving cfg p) w))" if "may_pause p w" for c
  proof -
    have "valid (may_pause p) (if c then quiesceCheck cfg p else ret ())
        (\<lambda>r w. in_pass w \<and> (r = Inr () \<longrightarrow> may_pause p w))"
      using quiesceCheck_kept by (auto intro!: valid_ret simp: may_pause_def)
    then have "valid (may_pause p) (bnd (if c then quiesceCheck cfg p else ret ()) (\<lambda>_. pauseSaving cfg p)) (\<lambda>_. in_pass)"
      by (rule valid_bnd) (rule valid_pre [OF pause_rest], auto)
    with that show ?thesis by (simp add: valid_def)
  qed
  show ?thesis
    using assms Inr fail live pause [of True, simplified] pause [of False, simplified]
    by (auto simp: maybeQuiesce_def bnd_def [of preparationOf] preparationOf_def bnd_def [of "gets bw_meta"] gets_def ret_def may_pause_def)
qed

section \<open>Resuming\<close>

lemma carries_recovered:
  assumes "carries b pod g" "ls_owner g = Some (Inr op)"
  shows "carries b pod (g\<lparr>ls_owner := Some (Inr (op\<lparr>lo_recovery := []\<rparr>)), ls_lineage := None\<rparr>)"
proof -
  have "parseLifecycleOperation (Inr (op\<lparr>lo_recovery := []\<rparr>)) = Inr (op\<lparr>lo_recovery := []\<rparr>)"
    using assms by (auto simp: carries_def parseLifecycleOperation_def split: option.splits if_splits)
  with assms show ?thesis by (auto simp: carries_def backupLifecycleIdentity_def)
qed

lemma recover_carries:
  assumes "recoverLifecycleOperation env op g g = (r, g')" "carries b pod g" "ls_owner g = Some (Inr op)"
  shows "carries b pod g' \<and> ls_name g' = ls_name g \<and> ls_uid g' = ls_uid g"
  using assms(1) by (cases rule: recover_cases) (use assms(2) carries_recovered [OF assms(2,3)] in auto)

lemma recover_name: "recoverLifecycleOperation env op g g = (r, g') \<Longrightarrow> ls_name g' = ls_name g \<and> ls_uid g' = ls_uid g"
  by (erule recover_cases) simp_all

lemma keeps_recoverInherited:
  "valid (\<lambda>w. in_pass w \<and> owned_ok found w) (recoverInherited found) (\<lambda>_. in_pass)"
proof (cases "\<exists>g v. found = Some g \<and> ls_owner g = Some v")
  case False
  then have "recoverInherited found = ret True" by (auto simp: recoverInherited_def split: option.splits)
  then show ?thesis by (auto intro: valid_ret)
next
  case True
  then obtain g v where g: "found = Some g" "ls_owner g = Some v" by blast
  have "in_pass (w\<lparr>bw_gs := Some g'\<rparr>)"
    if "in_pass w" "owned_ok found w" "v = Inr op" "recoverLifecycleOperation env op g g = (r, g')" for w op env r g'
    using that g recover_carries [OF that(4)] recover_name [OF that(4)]
    by (auto simp: in_pass_def debt_recorded_def owned_ok_def bound_to_def)
  then show ?thesis
    using g by (auto simp: valid_def recoverInherited_def bnd_def lift_def gets_def modify_def parseLifecycleOperation_def
        split: sum.splits option.splits prod.splits)
qed

lemma keeps_anyWorkersLive [pass_rule]: "keeps in_pass (anyWorkersLive ids)"
  by (induction ids) (auto simp: backupWorkersLive_def intro!: pass_rule)

lemma keeps_copyWorkersLive: "keeps in_pass copyWorkersLive"
  unfolding copyWorkersLive_def backupWorkersLive_def legacyQuiescedBackups_def backupRecoveryIdentities_def
  by (intro pass_rule)

lemma keeps_backupCleanupWorkersLive [pass_rule]: "keeps in_pass backupCleanupWorkersLive"
  unfolding backupCleanupWorkersLive_def
proof (rule valid_bnd [OF valid_owned [OF keeps_ownedBackupTarget]])
  fix found
  have "valid (\<lambda>w. in_pass w \<and> owned_ok found w)
     (bnd (recoverInherited found) (\<lambda>ready. if \<not> ready then ret True else copyWorkersLive)) (\<lambda>_. in_pass)"
    by (rule valid_bnd [OF keeps_recoverInherited]) (auto intro: keeps_copyWorkersLive pass_rule)
  then show "valid (\<lambda>w. in_pass w \<and> (\<forall>f. Inr found = Inr f \<longrightarrow> owned_ok f w))
     (bnd (recoverInherited found) (\<lambda>ready. if \<not> ready then ret True else copyWorkersLive)) (\<lambda>_. in_pass)"
    by (rule valid_pre) auto
qed simp


text \<open>Saving is on, or the GameServer the Backup was bound to is gone.\<close>

definition settled :: "bq_world \<Rightarrow> bool" where
  "settled w \<longleftrightarrow> in_pass w \<and> (bw_frozen w \<longrightarrow> \<not> (\<exists>g. bw_gs w = Some g \<and> bound_to (bw_stored w) g))"

lemma keeps_rpc_undo: "valid in_pass (rpc pod True) (\<lambda>r w. in_pass w \<and> (r = Inr () \<longrightarrow> \<not> bw_frozen w))"
proof -
  have "in_pass (w\<lparr>bw_rpc := as, bw_frozen := bw_frozen w \<and> off\<rparr>)" "in_pass (w\<lparr>bw_rpc := as, bw_frozen := False\<rparr>)"
    "in_pass (w\<lparr>bw_frozen := False\<rparr>)" if "in_pass w" for w as off
    using that by (auto simp: in_pass_def debt_recorded_def)
  then show ?thesis
    by (auto simp: valid_def rpc_def call_def answered_def nextAnswer_def bnd_def modify_def raise_def split: list.splits rpc_answer.splits)
qed

lemma gone_not_frozen:
  assumes "in_pass w" "parseBackupPreparation (bw_meta w) = Inr p" "processGone (preparedPod p) w = (Inr True, w')"
  shows "thawed w'"
proof -
  obtain r fs where api: "api w = (r, w\<lparr>bw_faults := fs\<rparr>)" using api_faults by blast
  with assms(3) have w': "w' = w\<lparr>bw_faults := fs\<rparr>"
    and gone: "backupQuiesceProcessGone (seen_env (w\<lparr>bw_faults := fs\<rparr>)) (preparedPod p) = Inr True"
    by (cases r; auto simp: processGone_def bnd_def gets_def lift_def split: sum.splits)+
  have "parseBackupPreparation (bw_stored w) = Inr p"
    using assms(1,2) parse_core [of "bw_meta w" "bw_stored w"] by (simp add: in_pass_def)
  then have "\<not> bw_frozen w"
    using gone assms(1)
    by (auto simp: in_pass_def debt_recorded_def backupQuiesceProcessGone_def preparedPod_def exited_def seen_env_def
        split: option.splits if_splits)
  with assms(1) w' show ?thesis by (simp add: thawed_in_pass)
qed

lemma target_gone:
  assumes "in_pass w" "unquiesceTargetGone w = (r, w')"
  shows "in_pass w' \<and> (bm_target (bw_meta w) \<noteq> None \<or> bm_server (bw_meta w) \<noteq> [] \<longrightarrow> r = Inr True \<longrightarrow> thawed w')"
proof -
  have "keeps in_pass unquiesceTargetGone"
    unfolding unquiesceTargetGone_def processGone_def by (intro pass_rule)
  then have "in_pass w'" using assms by (fastforce simp: valid_def)
  moreover have "thawed w'" if r: "r = Inr True" and name: "bm_target (bw_meta w) \<noteq> None \<or> bm_server (bw_meta w) \<noteq> []"
  proof (cases "parseBackupPreparation (bw_meta w)")
    case (Inl e)
    with assms(2) r name show ?thesis
      by (auto simp: unquiesceTargetGone_def bnd_def gets_def preparationOf_def lift_def ret_def parseBackupIdentity_def
          split: option.splits sum.splits if_splits)
  next
    case (Inr p)
    with assms(2) r name have "processGone (preparedPod p) w = (Inr True, w')"
      by (auto simp: unquiesceTargetGone_def bnd_def gets_def preparationOf_def lift_def ret_def parseBackupIdentity_def
          split: option.splits sum.splits if_splits)
    with Inr assms(1) show ?thesis by (intro gone_not_frozen)
  qed
  ultimately show ?thesis by blast
qed


lemma thawed_settled: "thawed w \<Longrightarrow> settled w"
  by (simp add: settled_def thawed_in_pass)

definition paid :: "bq_error + unit \<Rightarrow> bq_world \<Rightarrow> bool" where
  "paid r w \<longleftrightarrow> in_pass w \<and> (r = Inr () \<longrightarrow> settled w)"

lemma unquiesceTarget_ok:
  assumes "in_pass w" "unquiesceTarget w = (r, w')"
  shows "in_pass w' \<and> bw_meta w' = bw_meta w \<and> (r = Inr None \<longrightarrow> settled w') \<and>
    (\<forall>name. r = Inr (Some name) \<longrightarrow> name \<noteq> [] \<longrightarrow> bm_target (bw_meta w) \<noteq> None \<or> bm_server (bw_meta w) \<noteq> [])"
proof (cases "bm_target (bw_meta w) = None")
  case True
  obtain r' fs where "api w = (r', w\<lparr>bw_faults := fs\<rparr>)" using api_faults by blast
  with True assms show ?thesis
    by (cases r') (auto simp: unquiesceTarget_def bnd_def gets_def getServer_run ret_def raise_def split: if_splits option.splits)
next
  case False
  obtain r' fs where own: "ownedBackupTarget w = (r', w\<lparr>bw_faults := fs\<rparr>)" using owned_faults by blast
  with False assms(2) have w': "w' = w\<lparr>bw_faults := fs\<rparr>" and r: "r = map_sum id (map_option ls_name) r'"
    by (cases r'; auto simp: unquiesceTarget_def bnd_def gets_def ret_def)+
  have "settled w'" if "r = Inr None"
  proof -
    from that r have "r' = Inr None" by (cases r') auto
    then have "owned_ok None w'" using own owned_result w' by blast
    with assms(1) w' owned_None_orphaned [of w'] show ?thesis by (auto simp: settled_def)
  qed
  with False assms(1) w' show ?thesis by simp
qed

lemma keeps_resumeSaving:
  "valid (\<lambda>w. in_pass w \<and> (name \<noteq> [] \<longrightarrow> bm_target (bw_meta w) \<noteq> None \<or> bm_server (bw_meta w) \<noteq> [])) (resumeSaving cfg name) paid"
proof -
  have recorded: "valid thawed recordBackupUnquiesced paid"
    by (rule valid_post [OF keeps_thawed_recorded]) (auto simp: paid_def thawed_settled thawed_in_pass)
  have gone: "valid thawed (bnd (patchMeta (\<lambda>b. b\<lparr>bm_cleanupOutcome := ''source-gone''\<rparr>)) (\<lambda>_. recordBackupUnquiesced)) paid"
    by (rule valid_bnd [OF keeps_thawed_patch]) (auto simp: core_def paid_def thawed_in_pass intro: recorded)
  have call: "valid in_pass (bnd preparationOf (\<lambda>p. bnd (callBackupQuiesce cfg (preparedPod p) True) (\<lambda>_. recordBackupUnquiesced))) paid"
  proof (rule valid_bnd [OF keeps_simple(5)])
    fix p
    have "valid in_pass (callBackupQuiesce cfg (preparedPod p) True) (\<lambda>r w. in_pass w \<and> (r = Inr () \<longrightarrow> \<not> bw_frozen w))"
      unfolding callBackupQuiesce_def using keeps_rpc_undo by (auto intro!: valid_raise)
    then show "valid in_pass (bnd (callBackupQuiesce cfg (preparedPod p) True) (\<lambda>_. recordBackupUnquiesced)) paid"
      by (rule valid_bnd) (rule valid_pre [OF recorded], auto simp: thawed_in_pass paid_def)
  qed (simp add: paid_def)
  have "valid (\<lambda>w. in_pass w \<and> (name \<noteq> [] \<longrightarrow> bm_target (bw_meta w) \<noteq> None \<or> bm_server (bw_meta w) \<noteq> []))
     (if name \<noteq> [] then unquiesceTargetGone else ret False) (\<lambda>r w. in_pass w \<and> (r = Inr True \<longrightarrow> thawed w))"
    using target_gone [OF _ surjective_pairing] by (auto simp: valid_def ret_def)
  then show ?thesis
    unfolding resumeSaving_def
  proof (rule valid_bnd)
    fix gone
    show "valid (\<lambda>w. in_pass w \<and> (Inr gone = Inr True \<longrightarrow> thawed w))
      (if gone then bnd (patchMeta (\<lambda>b. b\<lparr>bm_cleanupOutcome := ''source-gone''\<rparr>)) (\<lambda>_. recordBackupUnquiesced)
       else if \<not> bc_agent cfg then raise (BqError ''cannot release quiesced world without an agent client'')
       else bnd preparationOf (\<lambda>p. bnd (callBackupQuiesce cfg (preparedPod p) True) (\<lambda>_. recordBackupUnquiesced))) paid"
      using valid_pre [OF gone, of "\<lambda>w. in_pass w \<and> thawed w"] call by (cases gone) (auto simp: paid_def intro!: valid_raise)
  qed (simp add: paid_def)
qed

lemma keeps_maybeUnquiesce: "valid in_pass (maybeUnquiesce cfg) paid"
  unfolding valid_def
proof (intro allI impI)
  fix w assume w: "in_pass w"
  obtain r w1 where tg: "unquiesceTarget w = (r, w1)" by fastforce
  note t = unquiesceTarget_ok [OF w tg]
  have "settled w" if "\<not> owes (bw_meta w)" using w that by (auto simp: settled_def in_pass_def)
  then show "paid (fst (maybeUnquiesce cfg w)) (snd (maybeUnquiesce cfg w))"
    using tg t keeps_resumeSaving [unfolded valid_def] w
    by (cases r) (auto simp: maybeUnquiesce_def bnd_def [of "gets bw_meta"] gets_def bnd_def [of unquiesceTarget] ret_def
        paid_def owes_def split: option.splits)
qed

lemma settled_faults [simp]: "settled (w\<lparr>bw_faults := fs\<rparr>) = settled w"
  by (simp add: settled_def)

lemma keeps_settled_owned: "keeps settled ownedBackupTarget"
  unfolding valid_def using owned_faults settled_faults by (metis snd_conv)

lemma keeps_releaseTarget: "valid settled releaseTarget (\<lambda>_. in_pass)"
  unfolding releaseTarget_def
proof (rule valid_bnd [OF valid_owned [OF keeps_settled_owned]])
  fix found
  have rel: "in_pass (w\<lparr>bw_faults := fs, bw_gs := Some g'\<rparr>)" if "settled w" "owned_ok (Some g) w" for w g g' fs
    using that by (auto simp: settled_def in_pass_def owned_ok_def bound_to_def core_def)
  have "in_pass (snd (releaseOwned g w))" if pre: "settled w" "owned_ok (Some g) w" for g w
  proof -
    obtain f fs where f: "nextFault w = (Inr f, w\<lparr>bw_faults := fs\<rparr>)" using nextFault_faults by blast
    obtain f' fs' where f': "nextFault (w\<lparr>bw_faults := fs\<rparr>) = (Inr f', w\<lparr>bw_faults := fs'\<rparr>)"
      using nextFault_faults [of "w\<lparr>bw_faults := fs\<rparr>"] by auto
    from f f' rel [OF pre] pre(1) show ?thesis
      by (auto simp: releaseOwned_def bnd_def gets_def raise_def modify_def settled_def split: prod.splits option.splits)
  qed
  then show "valid (\<lambda>w. settled w \<and> (\<forall>f. Inr found = Inr f \<longrightarrow> owned_ok f w))
     (case found of None \<Rightarrow> ret () | Some g \<Rightarrow> releaseOwned g) (\<lambda>_. in_pass)"
    by (auto simp: valid_def ret_def settled_def split: option.splits)
qed (simp add: settled_def)


text \<open>The passes of a finished and of a deleted Backup.\<close>

lemma keeps_setUnquiescedCondition [pass_rule]: "keeps in_pass (setUnquiescedCondition ok msg)"
  unfolding setUnquiescedCondition_def Let_def by (intro pass_rule)

lemma keeps_settled_condition: "keeps settled (setUnquiescedCondition ok msg)"
proof -
  have f: "keeps settled nextFault"
    unfolding valid_def using nextFault_faults settled_faults by (metis snd_conv)
  show ?thesis
    unfolding setUnquiescedCondition_def Let_def updateBackupStatus_def patchStatus_def api_def
    by (intro pass_rule f valid_modify) (auto simp: settled_def in_pass_def debt_recorded_def)
qed

lemma attempt_unquiesce:
  "valid in_pass (attempt (maybeUnquiesce cfg)) (\<lambda>r w. in_pass w \<and> (r = Inr (Inr ()) \<longrightarrow> settled w))"
  by (rule valid_attempt) (rule valid_post [OF keeps_maybeUnquiesce], auto simp: paid_def)

lemma keeps_runUnquiesce [pass_rule]: "keeps in_pass (runUnquiesce cfg)"
  unfolding runUnquiesce_def
proof (rule keeps_bnd [OF keeps_backupCleanupWorkersLive], rule keeps_if)
  have ok: "valid settled (bnd (if c then setUnquiescedCondition True NoMsg else ret ()) (\<lambda>_. bnd releaseTarget (\<lambda>_. ret 0)))
      (\<lambda>_. in_pass)" for c
    by (rule valid_bnd [where R = "\<lambda>_. settled"])
      (auto intro: keeps_settled_condition pass_rule valid_bnd [OF keeps_releaseTarget] simp: settled_def)
  show "keeps in_pass (bnd (attempt (maybeUnquiesce cfg)) (\<lambda>r. case r of
        Inl e \<Rightarrow> bnd (setUnquiescedCondition False (MsgErr [] e)) (\<lambda>_. ret (30 * second))
      | Inr _ \<Rightarrow> bnd (gets bw_meta) (\<lambda>b.
          bnd (if bm_unquiescedAt b \<noteq> None then setUnquiescedCondition True NoMsg else ret ()) (\<lambda>_.
          bnd releaseTarget (\<lambda>_. ret 0)))))"
  proof (rule valid_bnd [OF attempt_unquiesce])
    fix r :: "bq_error + unit"
    show "valid (\<lambda>w. in_pass w \<and> (Inr r = Inr (Inr ()) \<longrightarrow> settled w)) (case r of
        Inl e \<Rightarrow> bnd (setUnquiescedCondition False (MsgErr [] e)) (\<lambda>_. ret (30 * second))
      | Inr _ \<Rightarrow> bnd (gets bw_meta) (\<lambda>b.
          bnd (if bm_unquiescedAt b \<noteq> None then setUnquiescedCondition True NoMsg else ret ()) (\<lambda>_.
          bnd releaseTarget (\<lambda>_. ret 0)))) (\<lambda>_. in_pass)"
    proof (cases r)
      case (Inl e)
      then show ?thesis by (auto intro!: pass_rule elim: valid_pre [rotated])
    next
      case (Inr u)
      have "valid settled (bnd (gets bw_meta) (\<lambda>b.
          bnd (if bm_unquiescedAt b \<noteq> None then setUnquiescedCondition True NoMsg else ret ()) (\<lambda>_.
          bnd releaseTarget (\<lambda>_. ret 0)))) (\<lambda>_. in_pass)"
        by (rule valid_bnd [OF keeps_simple(3)], rule ok, simp add: settled_def)
      with Inr show ?thesis by (auto elim: valid_pre)
    qed
  qed simp
qed (intro pass_rule)

lemma keeps_unquiesceFailed [pass_rule]: "keeps in_pass unquiesceFailed"
proof -
  have "keeps in_pass unquiesceTargetGone"
    unfolding unquiesceTargetGone_def processGone_def by (intro pass_rule)
  moreover have "keeps in_pass unquiesceRetryExpired"
    unfolding unquiesceRetryExpired_def by (intro pass_rule keeps_patchMeta) (auto simp: core_def owes_def)
  moreover have "keeps in_pass (modify (\<lambda>w. w\<lparr>bw_events := bw_events w @ [x]\<rparr>))" for x
    by (rule valid_modify) (simp add: in_pass_def debt_recorded_def)
  ultimately show ?thesis
    unfolding unquiesceFailed_def by (intro pass_rule) (auto split: bool.split intro!: pass_rule)
qed


lemma unquiesceFailed_outcome: "fst (unquiesceFailed w) \<noteq> Inr Confirmed"
  by (auto simp: unquiesceFailed_def bnd_def attempt_def ret_def modify_def split: sum.splits prod.splits bool.splits)

lemma keeps_resumeOnDelete: "valid in_pass (resumeOnDelete cfg) (\<lambda>r w. in_pass w \<and> (r = Inr Confirmed \<longrightarrow> settled w))"
  unfolding resumeOnDelete_def
proof (rule valid_bnd [OF attempt_unquiesce])
  fix r :: "bq_error + unit"
  show "valid (\<lambda>w. in_pass w \<and> (Inr r = Inr (Inr ()) \<longrightarrow> settled w)) (case r of Inl _ \<Rightarrow> unquiesceFailed | Inr _ \<Rightarrow> ret Confirmed)
    (\<lambda>r w. in_pass w \<and> (r = Inr Confirmed \<longrightarrow> settled w))"
    using keeps_unquiesceFailed unquiesceFailed_outcome by (cases r) (auto simp: valid_def ret_def)
qed simp

lemma keeps_releaseFinalizer:
  "valid (\<lambda>w. in_pass w \<and> (how = Confirmed \<longrightarrow> settled w)) (releaseFinalizer how) (\<lambda>_. in_pass)"
proof -
  have "valid (\<lambda>w. in_pass w \<and> (how = Confirmed \<longrightarrow> settled w)) (if how = Confirmed then releaseTarget else ret ()) (\<lambda>_. in_pass)"
    using valid_pre [OF keeps_releaseTarget, of "\<lambda>w. in_pass w \<and> settled w"] by (auto intro!: valid_ret)
  moreover have "keeps in_pass (bnd (gets bw_meta) (\<lambda>b.
        bnd (if bm_snapshotAborted b then cleanupAbortedSnapshot else ret 0) (\<lambda>res.
        if res > 0 then ret res
        else bnd (patchMeta (\<lambda>b. b\<lparr>bm_finalizer := False\<rparr>)) (\<lambda>_. bnd updateBackup (\<lambda>_. ret 0)))))"
    unfolding cleanupAbortedSnapshot_def by (intro pass_rule keeps_patchMeta) (auto simp: core_def owes_def)
  ultimately show ?thesis
    unfolding releaseFinalizer_def
    by (cases "how = Retry") (simp add: valid_ret, simp only: if_False, rule valid_bnd, assumption, assumption, simp)
qed

lemma keeps_finalizeUnquiesce [pass_rule]: "keeps in_pass (finalizeUnquiesce cfg)"
proof -
  have fin: "keeps in_pass (bnd (resumeOnDelete cfg) releaseFinalizer)"
    by (rule valid_bnd [OF keeps_resumeOnDelete]) (rule valid_pre [OF keeps_releaseFinalizer], auto)
  show ?thesis
    unfolding finalizeUnquiesce_def
    by (intro keeps_bnd [OF keeps_simple(3)] keeps_if keeps_simple(1) keeps_bnd [OF keeps_backupCleanupWorkersLive] fin)
qed

end
