(* ===== verification/Backup_Pass.thy ===== *)
theory Backup_Pass
  imports Backup_Debt
begin

text \<open>
  The passes of the backup controller around the quiesce protocol: claiming the GameServer, pinning the
  process that is paused, aborting a copy, following the copy Job, and the dispatch of a pass
  (\<^verbatim>\<open>operator/internal/controller/backup_controller.go\<close>, \<^verbatim>\<open>backup_guard.go\<close>, \<^verbatim>\<open>backup_preparation.go\<close>,
  \<^verbatim>\<open>backup_budgets.go\<close>), for the restic strategy.  What the copy Job reports, whether other writers have
  drained and the volume layout in the capture manifest are observations of the pass.
\<close>

section \<open>Claiming the GameServer\<close>

definition dropLineage :: "bool pass" where
  "dropLineage = bnd ownedBackupTarget (\<lambda>found. case found of
      None \<Rightarrow> raise (BqError ''backup lost recovery ownership'')
    | Some g \<Rightarrow> bnd api (\<lambda>_. bnd (modify (\<lambda>w. w\<lparr>bw_gs := Some (g\<lparr>ls_lineage := None\<rparr>)\<rparr>)) (\<lambda>_. ret True)))"

definition forgetLegacy :: "bool pass" where
  "forgetLegacy =
     bnd (bnd (patchMeta (\<lambda>b. b\<lparr>bm_recovery := None, bm_attempted := [], bm_unquiescedAt := None\<rparr>)) (\<lambda>_. updateBackup))
       (\<lambda>_. dropLineage)"

definition recoverBackupTarget :: "bool pass" where
  "recoverBackupTarget = bnd backupRecoveryIdentities (\<lambda>ids.
     if ids = [] then ret True
     else bnd (anyWorkersLive ids) (\<lambda>busy.
     if busy then ret False
     else bnd (processGone []) (\<lambda>gone.
     if \<not> gone then raise (BqError ''cannot recover legacy quiesce without proof that the original process is gone'')
     else forgetLegacy)))"

definition pinTarget :: "lc_server \<Rightarrow> unit pass" where
  "pinTarget g = bnd (gets bw_meta) (\<lambda>b. case bm_target b of
      Some value \<Rightarrow> bnd (lift (parseBackupIdentity value)) (\<lambda>id.
        if fst id \<noteq> ls_name g \<or> snd id \<noteq> ls_uid g then raise (BqError ''backup target was replaced'') else ret ())
    | None \<Rightarrow> bnd (patchMeta (\<lambda>b. b\<lparr>bm_target := Some (Inr (ls_name g, ls_uid g))\<rparr>)) (\<lambda>_. updateBackup))"

definition claimTarget :: "lc_server \<Rightarrow> bool pass" where
  "claimTarget g = bnd (gets id) (\<lambda>w.
     case claimLifecycleOperation (seen_env w) (backupLifecycleIdentity g (bm_object (bw_meta w)) (owes (bw_meta w))) g of
       (res, g') \<Rightarrow> bnd (modify (\<lambda>w. w\<lparr>bw_gs := Some g'\<rparr>)) (\<lambda>_. lift res))"

definition claimBackupTarget :: "bool pass" where
  "claimBackupTarget = bnd (gets bw_meta) (\<lambda>b.
     bnd (legacyQuiescedBackups b) (\<lambda>legacy.
     if legacy \<noteq> [] \<and> \<not> legacyBackupOwesUnquiesce (legacy_view b) then ret False
     else bnd (getServer (bm_server b)) (\<lambda>found. case found of
         None \<Rightarrow> raise (LcError (ApiError ''not found''))
       | Some g \<Rightarrow>
           if ls_deleting g then raise (BqError ''backup target is being deleted'')
           else bnd (pinTarget g) (\<lambda>_.
                bnd (claimTarget g) (\<lambda>ok. if \<not> ok then ret False else recoverBackupTarget)))))"

section \<open>The source\<close>

definition preparationDeadlineKey :: string where
  "preparationDeadlineKey = ''backup.gameplane.local/preparation-deadline''"

definition startupDeadlineKey :: string where
  "startupDeadlineKey = ''backup.gameplane.local/source-startup-deadline''"

definition backupSourceStartupGracePeriod :: duration where
  "backupSourceStartupGracePeriod = 2 * minute"

definition backupDeadline :: "string \<Rightarrow> duration \<Rightarrow> time pass" where
  "backupDeadline key dur = bnd (gets id) (\<lambda>w. case bm_deadlines (bw_meta w) key of
      Some (Inl bad) \<Rightarrow> raise (BqError (''invalid persisted backup deadline '' @ key))
    | Some (Inr deadline) \<Rightarrow> ret deadline
    | None \<Rightarrow>
        bnd (patchMeta (\<lambda>b. b\<lparr>bm_deadlines := (bm_deadlines b)(key \<mapsto> Inr (bw_now w + dur))\<rparr>)) (\<lambda>_.
        bnd updateBackup (\<lambda>_. ret (bw_now w + dur))))"

definition waitForBackupSource :: "string \<Rightarrow> bool pass" where
  "waitForBackupSource reason = bnd (gets bw_meta) (\<lambda>b.
     let key = (if bm_deadlines b preparationDeadlineKey \<noteq> None then preparationDeadlineKey else startupDeadlineKey) in
     bnd (attempt (backupDeadline key backupSourceStartupGracePeriod)) (\<lambda>r. case r of
        Inl e \<Rightarrow> if bm_deadlines b key \<noteq> None then raise (SourceTimeout ''cannot read source startup deadline'') else raise e
      | Inr deadline \<Rightarrow> bnd (gets bw_now) (\<lambda>now. if now < deadline then ret False else raise (SourceTimeout reason))))"

text \<open>The process a copy may be taken of, or that the source is not there yet.\<close>

definition stoppedSource :: "preparation option \<Rightarrow> bq_workload \<Rightarrow> (string \<times> string) option pass" where
  "stoppedSource p ss =
     (if sf_statusReplicas ss \<noteq> 0 then
        (if p \<noteq> None then raise (SourceChanged ''stopped workload has replicas'') else ret None)
      else bnd (gets bw_drained) (\<lambda>r. case r of
          Inl e \<Rightarrow> raise (LcError (ApiError e))
        | Inr drained \<Rightarrow>
            if drained then ret (Some (''already-stopped'', []))
            else if p \<noteq> None then raise (SourceChanged ''stopped source acquired a writer'') else ret None))"

definition liveSource :: "preparation option \<Rightarrow> bq_workload \<Rightarrow> (string \<times> string) option pass" where
  "liveSource p ss = bnd api (\<lambda>_. bnd (gets id) (\<lambda>w. case bw_pod w of
      None \<Rightarrow> if p \<noteq> None then raise (SourceChanged ''original pod absent'')
              else bnd (waitForBackupSource ''source pod absent'') (\<lambda>_. ret None)
    | Some pod \<Rightarrow>
        if set_with p (\<lambda>q. pr_pod q \<noteq> pd_uid pod \<or> pd_deleting pod \<or> pd_phase pod \<noteq> ''Running'')
        then raise (SourceChanged ''original process no longer running'')
        else if bw_podController w \<noteq> sf_uid ss \<or> pd_uid pod = []
        then raise (BqError ''backup source pod is not owned by the bound workload'')
        else if pd_deleting pod \<or> pd_phase pod \<noteq> ''Running''
        then bnd (waitForBackupSource ''source pod is not Running or is terminating'') (\<lambda>_. ret None)
        else ret (Some (''live'', pd_uid pod))))"

definition checkSource :: "preparation option \<Rightarrow> lc_server \<Rightarrow> bq_workload \<Rightarrow> bool pass" where
  "checkSource p g ss =
     (if set_with p (\<lambda>q. pr_target q \<noteq> ls_uid g \<or> pr_workload q \<noteq> sf_uid ss \<or> pr_generation q \<noteq> sf_generation ss)
      then raise (SourceChanged ''workload identity'')
      else if \<not> sf_controlled ss then raise (BqError ''backup source workload is not owned by the bound GameServer'')
      else if sf_replicas ss = None \<or> sf_observedGeneration ss < sf_generation ss then ret False
      else if set_with p (\<lambda>q. (pr_outcome q = ''already-stopped'') \<noteq> (sf_replicas ss = Some 0))
      then raise (SourceChanged ''desired replicas'')
      else bnd (if sf_replicas ss = Some 0 then stoppedSource p ss else liveSource p ss) (\<lambda>candidate. case candidate of
          None \<Rightarrow> ret False
        | Some (what, pod) \<Rightarrow> (case p of
              Some q \<Rightarrow> if pr_outcome q \<noteq> what \<or> pr_pod q \<noteq> pod then raise (SourceChanged ''process identity'') else ret True
            | None \<Rightarrow>
                bnd (patchMeta (\<lambda>b. b\<lparr>bm_preparation := Some (Inr \<lparr>pr_outcome = what, pr_target = ls_uid g,
                       pr_workload = sf_uid ss, pr_generation = sf_generation ss, pr_pod = pod\<rparr>)\<rparr>)) (\<lambda>_.
                bnd updateBackup (\<lambda>_. ret True)))))"

definition prepareBackupSource :: "bq_config \<Rightarrow> lc_server \<Rightarrow> bool pass" where
  "prepareBackupSource cfg g = bnd (gets bw_meta) (\<lambda>b.
     if \<not> bm_quiesce b then ret True
     else bnd preparationOf (\<lambda>p.
     if p = None \<and> \<not> bc_agent cfg then ret True
     else if p = None \<and> bm_attempted b \<noteq> [] then ret True
     else bnd api (\<lambda>_. bnd (gets bw_workload) (\<lambda>found. case found of
         None \<Rightarrow> if p \<noteq> None then raise (SourceChanged ''workload absent'') else ret False
       | Some ss \<Rightarrow> checkSource p g ss))))"


section \<open>Aborting a copy\<close>

definition revokeBackupStart :: "unit pass" where
  "revokeBackupStart = bnd api (\<lambda>_. bnd (gets bw_token) (\<lambda>token.
     if token \<noteq> None \<and> token \<noteq> Some [] then bnd api (\<lambda>_. modify (\<lambda>w. w\<lparr>bw_token := Some []\<rparr>)) else ret ()))"

definition setBackupProgress :: "string \<Rightarrow> string \<Rightarrow> unit pass" where
  "setBackupProgress reason message = bnd (gets id) (\<lambda>w.
     let c = condition ''CaptureReady'' (if reason = ''WorkerAuthorized'' then ''True'' else ''False'') reason (Msg message)
               (lb_generation (bm_object (bw_meta w)));
         conds = upsertCondition (bw_now w) (bs_conditions (bw_status w)) c in
     if sameConditions (bs_conditions (bw_status w)) conds then ret ()
     else bnd (patchStatus (\<lambda>st. st\<lparr>bs_conditions := conds\<rparr>)) (\<lambda>_. updateBackupStatus))"

definition cleanupResticCopy :: "bq_config \<Rightarrow> duration pass" where
  "cleanupResticCopy cfg =
     bnd revokeBackupStart (\<lambda>_.
     bnd backupCleanupWorkersLive (\<lambda>busy.
     if busy then
       bnd (setBackupProgress ''WorkerDrainPending'' ''copy invalidated; waiting for workers to stop before restoring saving'')
         (\<lambda>_. ret (5 * second))
     else bnd (gets bw_status) (\<lambda>st.
       bnd (if removeCondition ''CaptureReady'' (bs_conditions st) \<noteq> bs_conditions st
            then bnd (patchStatus (\<lambda>st. st\<lparr>bs_conditions := removeCondition ''CaptureReady'' (bs_conditions st)\<rparr>))
                   (\<lambda>_. updateBackupStatus)
            else ret ()) (\<lambda>_. runUnquiesce cfg))))"

text \<open>The abort is on record before anything is revoked or cancelled.\<close>

definition markAborted :: "bq_msg \<Rightarrow> unit pass" where
  "markAborted message = bnd (gets bw_meta) (\<lambda>b.
     if bm_copyAbort b = NoMsg then bnd (patchMeta (\<lambda>b. b\<lparr>bm_copyAbort := message\<rparr>)) (\<lambda>_. updateBackup) else ret ())"

definition finishAbort :: "bq_config \<Rightarrow> duration pass" where
  "finishAbort cfg = bnd (gets id) (\<lambda>w. let message = bm_copyAbort (bw_meta w); st = bw_status w in
     bnd (if bs_phase st \<noteq> ''Failed'' \<or> bs_snapshotID st \<noteq> [] \<or> bs_message st \<noteq> message
          then bnd (patchStatus (\<lambda>st. st\<lparr>bs_snapshotID := []\<rparr>)) (\<lambda>_. bnd (failBackup message) (\<lambda>_. ret ()))
          else ret ()) (\<lambda>_. cleanupResticCopy cfg))"

definition abortResticCopy :: "bq_config \<Rightarrow> bq_msg \<Rightarrow> duration pass" where
  "abortResticCopy cfg message =
     bnd (markAborted (if message = NoMsg then Msg ''backup copy invalidated'' else message)) (\<lambda>_. finishAbort cfg)"

section \<open>Preparing and pausing\<close>

definition waitForForeignBackupWorker :: "bq_config \<Rightarrow> duration pass" where
  "waitForForeignBackupWorker cfg = bnd ownedBackupTarget (\<lambda>found. case found of
      None \<Rightarrow> ret (5 * second)
    | Some _ \<Rightarrow> abortResticCopy cfg (Msg ''capture worker was replaced after lifecycle admission''))"

definition fenceWorkload :: "lc_server \<Rightarrow> bool pass" where
  "fenceWorkload g = bnd nextFault (\<lambda>f. bnd (gets seen_env) (\<lambda>env.
     case fenceBackupWorkload f (le_statefulset env) g of
       (r, SsFound ss) \<Rightarrow> bnd (modify (\<lambda>w. w\<lparr>bw_workload := map_option (\<lambda>x. x\<lparr>sf_owner := sf_owner ss\<rparr>) (bw_workload w)\<rparr>)) (\<lambda>_. lift r)
     | (r, _) \<Rightarrow> lift r))"

text \<open>\<open>Go\<close> to carry on, \<open>Later d\<close> to leave the pass and come back.\<close>

datatype admission = Go | Later duration

definition failAndReturn :: "bq_error \<Rightarrow> admission pass" where
  "failAndReturn e = bnd (failBackup (MsgErr [] e)) (\<lambda>_. ret (Later 1))"

fun sourceChanged :: "bq_error \<Rightarrow> bool" where
  "sourceChanged (SourceChanged _) = True"
| "sourceChanged _ = False"

fun sourceGone :: "bq_error \<Rightarrow> bool" where
  "sourceGone (SourceChanged _) = True"
| "sourceGone (SourceTimeout _) = True"
| "sourceGone _ = False"

definition admitSource :: "bq_config \<Rightarrow> lc_server \<Rightarrow> admission pass" where
  "admitSource cfg g =
     bnd (fenceWorkload g) (\<lambda>fenced.
     bnd (attempt (if fenced then prepareBackupSource cfg g
                   else waitForBackupSource ''source workload is absent or has not observed its fenced rollout'')) (\<lambda>r. case r of
         Inl e \<Rightarrow> if sourceGone e then failAndReturn e else raise e
       | Inr ready \<Rightarrow> if fenced \<and> ready then ret Go else ret (Later (5 * second))))"

definition admitClaimed :: "bq_config \<Rightarrow> admission pass" where
  "admitClaimed cfg = bnd (attempt claimBackupTarget) (\<lambda>r. case r of
      Inl e \<Rightarrow> if e = LcError GenerationChanged then failAndReturn e else raise e
    | Inr False \<Rightarrow> ret (Later (10 * second))
    | Inr True \<Rightarrow> bnd ownedBackupTarget (\<lambda>found. case found of
          None \<Rightarrow> ret (Later (5 * second))
        | Some g \<Rightarrow> admitSource cfg g))"

definition foreignWorker :: "bq_config \<Rightarrow> admission pass" where
  "foreignWorker cfg = bnd (waitForForeignBackupWorker cfg) (\<lambda>d. ret (if d > 0 then Later d else Go))"

definition prepareBackupWorkload :: "bq_config \<Rightarrow> admission pass" where
  "prepareBackupWorkload cfg = bnd (gets bw_worker) (\<lambda>worker. case worker of
      WorkerError e \<Rightarrow> raise (LcError (ApiError e))
    | WorkerForeign \<Rightarrow> foreignWorker cfg
    | _ \<Rightarrow> admitClaimed cfg)"

definition backupQuiesceOutcome :: "backup_meta \<Rightarrow> string" where
  "backupQuiesceOutcome b =
     (if (case parseBackupPreparation b of Inr p \<Rightarrow> set_with p (\<lambda>q. pr_outcome q = ''already-stopped'') | Inl _ \<Rightarrow> False) then ''already-stopped''
      else if bm_attempted b = ''true'' then ''confirmed''
      else if bm_attempted b = ''unsupported'' then ''unsupported''
      else if bm_attempted b = ''pending'' then ''unknown''
      else if \<not> bm_quiesce b then ''not-requested'' else ''agent-unavailable'')"

definition recordBackupManifest :: "unit pass" where
  "recordBackupManifest = bnd (gets id) (\<lambda>w.
     if bs_manifest (bw_status w) \<noteq> None then ret ()
     else (case bw_manifest w of
         Inl e \<Rightarrow> raise e
       | Inr state \<Rightarrow>
           bnd (patchStatus (\<lambda>st. st\<lparr>bs_manifest := Some \<lparr>mf_state = state,
              mf_outcome = (if state = ''Recorded'' then backupQuiesceOutcome (bw_meta w) else []),
              mf_strategy = (if state = ''Recorded'' then ''restic-snapshot'' else [])\<rparr>\<rparr>)) (\<lambda>_. updateBackupStatus)))"

definition confirmSource :: "bq_config \<Rightarrow> lc_server \<Rightarrow> admission pass" where
  "confirmSource cfg g = bnd (attempt (prepareBackupSource cfg g)) (\<lambda>r. case r of
      Inl e \<Rightarrow> if sourceChanged e then failAndReturn e else raise e
    | Inr ready \<Rightarrow>
        if \<not> ready then ret (Later (5 * second))
        else bnd (attempt recordBackupManifest) (\<lambda>r. case r of
            Inr _ \<Rightarrow> ret Go
          | Inl e \<Rightarrow> if e = ForeignWorker then foreignWorker cfg
                     else bnd (failBackup (MsgErr ''cannot record capture metadata: '' e)) (\<lambda>_. ret (Later second))))"

definition prepareBackupQuiesce :: "bq_config \<Rightarrow> admission pass" where
  "prepareBackupQuiesce cfg = bnd (prepareBackupWorkload cfg) (\<lambda>a. if a \<noteq> Go then ret a
     else bnd ownedBackupTarget (\<lambda>found. case found of
         None \<Rightarrow> ret (Later (5 * second))
       | Some g \<Rightarrow> bnd (maybeQuiesce cfg) (\<lambda>_. confirmSource cfg g)))"


section \<open>Following the copy\<close>

definition defaultSnapshotScrapeGracePeriod :: duration where
  "defaultSnapshotScrapeGracePeriod = 3 * minute"

definition snapshotScrapeGracePeriod :: "bq_config \<Rightarrow> duration" where
  "snapshotScrapeGracePeriod cfg = (if bc_scrapeGrace cfg > 0 then bc_scrapeGrace cfg else defaultSnapshotScrapeGracePeriod)"

definition completedSince :: "time \<Rightarrow> backup_job \<Rightarrow> backup_status \<Rightarrow> duration" where
  "completedSince now job st = (case jb_completion job of
      Some t \<Rightarrow> time_sub now t
    | None \<Rightarrow> (case bs_completion st of Some t \<Rightarrow> time_sub now t | None \<Rightarrow> 0))"

definition terminal :: "string \<Rightarrow> bool" where
  "terminal phase \<longleftrightarrow> phase = ''Succeeded'' \<or> phase = ''Failed''"

definition jobPhase :: "backup_job \<Rightarrow> string \<Rightarrow> string" where
  "jobPhase job phase =
     (if jb_succeeded job > 0 then ''Succeeded'' else if jb_failed job then ''Failed''
      else if jb_active job > 0 then ''Running'' else if phase = [] then ''Pending'' else phase)"

definition mirrorTimes :: "backup_meta \<Rightarrow> backup_job \<Rightarrow> backup_status \<Rightarrow> backup_status" where
  "mirrorTimes b job st = st\<lparr>bs_phase := jobPhase job (bs_phase st), bs_observed := lb_generation (bm_object b),
     bs_start := (if bs_start st = None then jb_start job else bs_start st),
     bs_completion := (if bs_completion st = None then jb_completion job else bs_completion st)\<rparr>"

datatype scrape = Scraped backup_status | Missing backup_status | Unrestorable

text \<open>Reading the snapshot id of a finished copy out of the Job's log.\<close>

definition scrapeSnapshot :: "duration \<Rightarrow> time \<Rightarrow> backup_job \<Rightarrow> bq_error + string \<times> int \<Rightarrow> backup_status \<Rightarrow> scrape" where
  "scrapeSnapshot grace now job summary st =
     (if \<not> (bs_phase st = ''Succeeded'' \<and> bs_snapshotID st = []) then Scraped st
      else (case summary of
          Inr (snapshot, bytes) \<Rightarrow>
            if snapshot \<noteq> [] then
              Scraped (st\<lparr>bs_snapshotID := snapshot, bs_size := (if bytes > 0 then Some bytes else bs_size st), bs_message := NoMsg\<rparr>)
            else if completedSince now job st > grace then Unrestorable else Missing st
        | Inl e \<Rightarrow>
            if completedSince now job st > grace then Unrestorable
            else Missing (if e \<noteq> BqError ''no restic summary'' then st\<lparr>bs_message := MsgErr [] e\<rparr> else st)))"

definition mirrorConditions :: "time \<Rightarrow> backup_meta \<Rightarrow> backup_status \<Rightarrow> backup_status" where
  "mirrorConditions now b st =
     (let gen = lb_generation (bm_object b); failed = Msg ''backup job reported Failed'';
          st = (if bs_phase st = ''Failed'' \<and> bs_message st = NoMsg then st\<lparr>bs_message := failed\<rparr> else st);
          c = (if bs_phase st = ''Succeeded'' then condition ''Completed'' ''True'' ''Succeeded'' NoMsg gen
               else if bs_phase st = ''Failed'' then condition ''Completed'' ''False'' ''JobFailed'' failed gen
               else condition ''Completed'' ''False'' (bs_phase st) NoMsg gen);
          conds = upsertCondition now (bs_conditions st) c;
          conds = (if terminal (bs_phase st) then removeCondition ''CaptureReady'' conds else conds);
          conds = upsertCondition now conds (backupConsistencyCondition b st)
      in if sameConditions (bs_conditions st) conds then st else st\<lparr>bs_conditions := conds\<rparr>)"

definition recordServerBackupTime :: "unit pass" where
  "recordServerBackupTime = bnd (gets id) (\<lambda>w. case bs_completion (bw_status w) of
      None \<Rightarrow> ret ()
    | Some t \<Rightarrow>
        if bm_server (bw_meta w) = [] then ret ()
        else bnd (getServer (bm_server (bw_meta w))) (\<lambda>found.
          if found = None \<or> set_with (bw_lastBackup w) (\<lambda>l. \<not> l < t) then ret ()
          else bnd api (\<lambda>_. modify (\<lambda>w. w\<lparr>bw_lastBackup := Some t\<rparr>))))"

definition mirrorResult :: "bq_config \<Rightarrow> bool \<Rightarrow> backup_status \<Rightarrow> duration pass" where
  "mirrorResult cfg missing st = bnd (gets id) (\<lambda>w.
     bnd (let st = mirrorConditions (bw_now w) (bw_meta w) st in
          if st = bw_status w then ret () else bnd (patchStatus (\<lambda>_. st)) (\<lambda>_. updateBackupStatus)) (\<lambda>_.
     bnd (if bs_phase st = ''Succeeded'' \<and> \<not> missing then recordServerBackupTime else ret ()) (\<lambda>_.
     if terminal (bs_phase st) then
       bnd (runUnquiesce cfg) (\<lambda>res. ret (if missing \<and> res = 0 then 10 * second else res))
     else ret (10 * second))))"

definition mirrorJobStatus :: "bq_config \<Rightarrow> backup_job \<Rightarrow> duration pass" where
  "mirrorJobStatus cfg job = bnd (gets id) (\<lambda>w.
     let st = mirrorTimes (bw_meta w) job (bw_status w) in
     case scrapeSnapshot (snapshotScrapeGracePeriod cfg) (bw_now w) job (bw_summary w) st of
       Scraped st \<Rightarrow> mirrorResult cfg False st
     | Missing st \<Rightarrow> mirrorResult cfg True st
     | Unrestorable \<Rightarrow> bnd (patchStatus (\<lambda>_. st)) (\<lambda>_. failUnrestorable cfg))"

definition retrySnapshotScrape :: "bq_config \<Rightarrow> duration pass" where
  "retrySnapshotScrape cfg = bnd (gets bw_job) (\<lambda>r. case r of
      Inl e \<Rightarrow> raise (LcError (ApiError e))
    | Inr None \<Rightarrow> failUnrestorable cfg
    | Inr (Some job) \<Rightarrow> mirrorJobStatus cfg job)"

section \<open>A pass\<close>

definition finalizeDelete :: "bq_config \<Rightarrow> duration pass" where
  "finalizeDelete cfg = bnd (gets id) (\<lambda>w.
     let prepared = bm_deadlines (bw_meta w) preparationDeadlineKey \<noteq> None in
     bnd (if prepared then revokeBackupStart else ret ()) (\<lambda>_.
     bnd (if prepared \<and> bs_phase (bw_status w) \<noteq> ''Succeeded''
          then abortResticCopy cfg (Msg ''copy cancelled by Backup deletion'') else ret 0) (\<lambda>res.
     if res > 0 then ret res else finalizeUnquiesce cfg)))"

definition syncBackupConsistency :: "unit pass" where
  "syncBackupConsistency = bnd (gets id) (\<lambda>w.
     let conds = upsertCondition (bw_now w) (bs_conditions (bw_status w)) (backupConsistencyCondition (bw_meta w) (bw_status w)) in
     if sameConditions (bs_conditions (bw_status w)) conds then ret ()
     else bnd (patchStatus (\<lambda>st. st\<lparr>bs_conditions := conds\<rparr>)) (\<lambda>_. updateBackupStatus))"

definition reconcileFinished :: "bq_config \<Rightarrow> duration pass" where
  "reconcileFinished cfg = bnd syncBackupConsistency (\<lambda>_. bnd (gets id) (\<lambda>w.
     let st = bw_status w; b = bw_meta w in
     if bs_phase st = ''Succeeded'' \<and> bs_snapshotID st = [] then retrySnapshotScrape cfg
     else if bs_phase st = ''Failed'' \<and> (bm_deadlines b preparationDeadlineKey \<noteq> None \<or> bm_deadlines b startupDeadlineKey \<noteq> None)
     then abortResticCopy cfg (bs_message st)
     else runUnquiesce cfg))"

definition wantsSnapshotFinalizer :: "backup_meta \<Rightarrow> backup_status \<Rightarrow> bool" where
  "wantsSnapshotFinalizer b st \<longleftrightarrow> bm_repo b \<noteq> None \<and> bs_phase st \<noteq> ''Failed''"

definition addFinalizers :: "unit pass" where
  "addFinalizers =
     bnd (gets bw_meta) (\<lambda>b.
     bnd (if bm_finalizer b then ret () else bnd (patchMeta (\<lambda>b. b\<lparr>bm_finalizer := True\<rparr>)) (\<lambda>_. updateBackup)) (\<lambda>_.
     bnd (gets id) (\<lambda>w.
     if wantsSnapshotFinalizer (bw_meta w) (bw_status w) \<and> \<not> bm_snapshotFinalizer (bw_meta w)
     then bnd (patchMeta (\<lambda>b. b\<lparr>bm_snapshotFinalizer := True\<rparr>)) (\<lambda>_. updateBackup) else ret ())))"

definition missingRepoSecretKeys :: "repo_secret \<Rightarrow> string list" where
  "missingRepoSecretKeys s = filter (\<lambda>k. \<not> (set_with (rs_data s k) (\<lambda>v. v \<noteq> [])) \<and> rs_stringData s k = None) [''repo'', ''password'']"

text \<open>The checks before a copy: the GameServer, the repository and its Secret have to be there.\<close>

definition checkRepository :: "bq_config \<Rightarrow> duration pass \<Rightarrow> duration pass" where
  "checkRepository cfg copy = bnd (gets bw_meta) (\<lambda>b. case bm_repo b of
      None \<Rightarrow> failBackup (Msg ''repoRef is required for the restic-snapshot strategy'')
    | Some repo \<Rightarrow> bnd (gets bw_secret) (\<lambda>r. case r of
          Inl e \<Rightarrow> raise (LcError (ApiError e))
        | Inr None \<Rightarrow> failBackup (Msg (''repo Secret not found: '' @ repo))
        | Inr (Some s) \<Rightarrow>
            if missingRepoSecretKeys s \<noteq> []
            then failBackup (Msg (''repo Secret is missing required key(s): '' @ concat (missingRepoSecretKeys s)))
            else copy))"

definition reconcileTarget :: "bq_config \<Rightarrow> duration pass" where
  "reconcileTarget cfg = bnd (gets bw_meta) (\<lambda>b.
     bnd (getServer (bm_server b)) (\<lambda>found. case found of
        None \<Rightarrow> failBackup (Msg (''GameServer not found: '' @ bm_server b))
      | Some _ \<Rightarrow> checkRepository cfg
          (bnd (prepareBackupQuiesce cfg) (\<lambda>a. ret (case a of Go \<Rightarrow> 10 * second | Later d \<Rightarrow> d)))))"

text \<open>A Backup from before targets were pinned is followed by its existing Job.\<close>

definition reconcileOpen :: "bq_config \<Rightarrow> duration pass" where
  "reconcileOpen cfg = bnd (gets id) (\<lambda>w.
     if \<not> legacyBackupOwesUnquiesce (legacy_view (bw_meta w)) then reconcileTarget cfg
     else (case bw_job w of
         Inl e \<Rightarrow> raise (LcError (ApiError e))
       | Inr (Some job) \<Rightarrow> if bw_worker w = WorkerOwn then mirrorJobStatus cfg job else reconcileTarget cfg
       | Inr None \<Rightarrow> reconcileTarget cfg))"

text \<open>A Backup that is neither deleted, aborted nor finished prepares and pauses; then its copy runs.\<close>

definition reconcileBackup :: "bq_config \<Rightarrow> duration pass" where
  "reconcileBackup cfg = bnd (gets bw_meta) (\<lambda>b.
     if bm_deleting b then finalizeDelete cfg
     else if bm_copyAbort b \<noteq> NoMsg then abortResticCopy cfg (bm_copyAbort b)
     else bnd addFinalizers (\<lambda>_. bnd (gets bw_status) (\<lambda>st.
       if terminal (bs_phase st) then reconcileFinished cfg else reconcileOpen cfg)))"

end
