(* ===== verification/Backup_Safety.thy ===== *)
theory Backup_Safety
  imports Backup_Pass
begin

text \<open>
  Safety of the passes of \<open>Backup_Pass\<close>: in every run, with every pattern of failures, saving is off only
  while the debt is on record, and what that means for the next owner of the GameServer.
\<close>

section \<open>Passes that resume\<close>

lemma keeps_revokeBackupStart [pass_rule]: "keeps in_pass revokeBackupStart"
  unfolding revokeBackupStart_def by (intro pass_rule valid_modify) (simp add: in_pass_def debt_recorded_def)

lemma keeps_setBackupProgress [pass_rule]: "keeps in_pass (setBackupProgress reason message)"
  unfolding setBackupProgress_def Let_def by (intro pass_rule)

lemma keeps_cleanupResticCopy [pass_rule]: "keeps in_pass (cleanupResticCopy cfg)"
  unfolding cleanupResticCopy_def by (intro pass_rule)

lemma keeps_abortResticCopy [pass_rule]: "keeps in_pass (finishAbort cfg)" "keeps in_pass (abortResticCopy cfg message)"
  unfolding abortResticCopy_def markAborted_def finishAbort_def Let_def
  by (intro pass_rule keeps_patchMeta; auto simp: core_def owes_def)+

lemma keeps_failUnrestorable [pass_rule]: "keeps in_pass (failUnrestorable cfg)"
  unfolding failUnrestorable_def by (intro pass_rule)

lemma keeps_recordServerBackupTime [pass_rule]: "keeps in_pass recordServerBackupTime"
  unfolding recordServerBackupTime_def by (intro pass_rule valid_modify) (simp add: in_pass_def debt_recorded_def)

lemma keeps_mirrorResult [pass_rule]: "keeps in_pass (mirrorResult cfg missing st)"
  unfolding mirrorResult_def Let_def by (intro pass_rule)

lemma keeps_mirrorJobStatus [pass_rule]: "keeps in_pass (mirrorJobStatus cfg job)"
  unfolding mirrorJobStatus_def Let_def
  by (rule keeps_bnd [OF keeps_simple(3)]) (auto split: scrape.split intro!: pass_rule)

lemma keeps_retrySnapshotScrape [pass_rule]: "keeps in_pass (retrySnapshotScrape cfg)"
  unfolding retrySnapshotScrape_def by (intro pass_rule)

lemma keeps_finalizeDelete [pass_rule]: "keeps in_pass (finalizeDelete cfg)"
  unfolding finalizeDelete_def Let_def by (intro pass_rule)

lemma keeps_reconcileFinished [pass_rule]: "keeps in_pass (reconcileFinished cfg)"
  unfolding reconcileFinished_def syncBackupConsistency_def Let_def by (intro pass_rule)

section \<open>Claiming keeps the debt\<close>

lemma claim_carries:
  assumes "carries b pod g" "claimLifecycleOperation env (backupLifecycleIdentity g b q) g = (res, g')"
  shows "carries b pod g' \<and> ls_name g' = ls_name g \<and> ls_uid g' = ls_uid g"
  using assms(2)
proof (cases rule: claim_cases)
  case refused
  with assms(1) show ?thesis by simp
next
  case (admitted op before rec gs)
  obtain op1 where op1: "ls_owner g = Some (Inr op1)" "parseLifecycleOperation (Inr op1) = Inr op1"
    "sameLifecycleOwner (lo_identity op1) (backupLifecycleIdentity g b False)"
    using assms(1) by (auto simp: carries_def)
  have owner: "lifecycleOwner g = Inr (Some op1)" using op1 by (simp add: lifecycleOwner_def sameLifecycleOwner_def backupLifecycleIdentity_def identity_def)
  from admitted(1) have "op = op1 \<and> before = g"
  proof (cases rule: admit_cases)
    case (orphan op0)
    with owner op1(3) show ?thesis
      by (auto simp: sameLifecycleOwner_def backupLifecycleIdentity_def identity_def)
  qed (use owner op1(1) in auto)
  then have adm: "op = op1" "before = g" by auto
  have stamped: "carries b pod gs \<and> ls_name gs = ls_name g \<and> ls_uid gs = ls_uid g"
    using assms(1) op1 adm admitted(3)
    by (auto simp: carries_def stampOwner_def backupLifecycleIdentity_def identity_def Let_def)
  from admitted(4) show ?thesis
  proof (cases rule: recover_cases)
    case recovered
    with stamped carries_recovered [of b pod gs op] admitted(3) show ?thesis by simp
  qed (use stamped assms(1) admitted(6) in auto)
qed


section \<open>What resuming leaves alone\<close>

text \<open>A property of the Backup that survives writing it, changing its conditions, failing it and noting how the
  clean-up went survives every step up to the record of the resumption.\<close>

locale pass_frame =
  fixes I :: "bq_world \<Rightarrow> bool"
  assumes prims: "keeps I nextFault" "keeps I nextAnswer" "keeps I (modify (\<lambda>w. w\<lparr>bw_gs := h w\<rparr>))"
      "keeps I (modify (\<lambda>w. w\<lparr>bw_frozen := i w\<rparr>))" "keeps I (modify (\<lambda>w. w\<lparr>bw_token := t w\<rparr>))"
      "keeps I (modify (\<lambda>w. w\<lparr>bw_events := ev w\<rparr>))" "keeps I (modify (\<lambda>w. w\<lparr>bw_lastBackup := lb w\<rparr>))"
    and updates: "keeps I updateBackup" "keeps I updateBackupStatus"
    and conditions: "(\<And>st. bs_phase (f st) = bs_phase st) \<Longrightarrow> keeps I (patchStatus f)"
    and outcome_noted: "keeps I (patchMeta (\<lambda>b. b\<lparr>bm_cleanupOutcome := o'\<rparr>))"
    and fails: "keeps I (failBackup msg)"
begin

lemmas basics [pass_rule] = prims updates outcome_noted fails

lemma api_kept [pass_rule]: "keeps I api"
  unfolding api_def by (intro pass_rule)

lemma owned_kept [pass_rule]: "keeps I ownedBackupTarget" "keeps I (getServer name)"
  unfolding ownedBackupTarget_def getServer_def by (intro pass_rule)+

lemma intent_kept [pass_rule]: "keeps I (setUnquiesceIntent needed)"
  unfolding setUnquiesceIntent_def by (intro pass_rule)

lemma gone_kept [pass_rule]: "keeps I unquiesceTargetGone" "keeps I (processGone uid)"
  unfolding unquiesceTargetGone_def processGone_def by (intro pass_rule)+

lemma rpc_kept [pass_rule]: "keeps I (rpc uid undo)"
proof -
  have "keeps I (answered undo a)" for a
    by (cases a) (auto simp: answered_def intro!: pass_rule)
  then show ?thesis unfolding rpc_def by (intro keeps_call prims)
qed

lemma maybeUnquiesce_kept: "keeps I recordBackupUnquiesced \<Longrightarrow> keeps I (maybeUnquiesce cfg)"
  unfolding maybeUnquiesce_def unquiesceTarget_def resumeSaving_def callBackupQuiesce_def
  by (intro pass_rule)

lemma condition_kept [pass_rule]: "keeps I (setUnquiescedCondition ok m)" "keeps I (setBackupProgress reason message)"
  unfolding setUnquiescedCondition_def setBackupProgress_def Let_def by (intro pass_rule conditions; simp)+

lemma release_kept [pass_rule]: "keeps I releaseTarget"
  unfolding releaseTarget_def releaseOwned_def by (intro pass_rule)

lemma anyWorkersLive_kept [pass_rule]: "keeps I (anyWorkersLive ids)"
  by (induction ids) (auto simp: backupWorkersLive_def intro!: pass_rule)

lemma cleanup_kept [pass_rule]: "keeps I backupCleanupWorkersLive"
  unfolding backupCleanupWorkersLive_def recoverInherited_def copyWorkersLive_def backupWorkersLive_def legacyQuiescedBackups_def
    backupRecoveryIdentities_def by (intro pass_rule)

end

locale resume_frame = pass_frame +
  assumes resumed: "keeps I (maybeUnquiesce cfg)"
begin

lemma run_kept [pass_rule]: "keeps I (runUnquiesce cfg)"
  unfolding runUnquiesce_def by (intro pass_rule resumed)

lemma unrestorable_kept [pass_rule]: "keeps I (failUnrestorable cfg)"
  unfolding failUnrestorable_def by (intro pass_rule)

lemma copy_kept [pass_rule]: "keeps I revokeBackupStart" "keeps I (cleanupResticCopy cfg)"
  unfolding cleanupResticCopy_def revokeBackupStart_def by (intro pass_rule conditions; simp)+

lemma time_kept [pass_rule]: "keeps I recordServerBackupTime"
  unfolding recordServerBackupTime_def by (intro pass_rule)

end

section \<open>A Backup that is closed stays closed\<close>

text \<open>Deleted, aborted or finished, as stored and as held in memory.\<close>

definition closed :: "bq_world \<Rightarrow> bool" where
  "closed w \<longleftrightarrow> bm_copyAbort (bw_stored w) \<noteq> NoMsg \<or> bm_deleting (bw_stored w) \<or> terminal (bs_phase (bw_storedStatus w))"

definition closing :: "bq_world \<Rightarrow> bool" where
  "closing w \<longleftrightarrow> bm_copyAbort (bw_stored w) \<noteq> NoMsg \<and> bm_copyAbort (bw_meta w) \<noteq> NoMsg \<or>
     bm_deleting (bw_stored w) \<and> bm_deleting (bw_meta w) \<or>
     terminal (bs_phase (bw_storedStatus w)) \<and> terminal (bs_phase (bw_status w))"

lemma closing_closed: "closing w \<Longrightarrow> closed w"
  by (auto simp: closing_def closed_def)

lemma closing_patchStatus:
  "(\<And>st. bs_phase (f st) = bs_phase st) \<Longrightarrow> keeps closing (patchStatus f)"
  unfolding patchStatus_def by (intro valid_modify) (auto simp: closing_def)

lemma closing_patchMeta:
  "(\<And>b. bm_copyAbort b \<noteq> NoMsg \<Longrightarrow> bm_copyAbort (f b) \<noteq> NoMsg) \<Longrightarrow> (\<And>b. bm_deleting (f b) = bm_deleting b) \<Longrightarrow>
   keeps closing (patchMeta f)"
  unfolding patchMeta_def by (intro valid_modify) (auto simp: closing_def)

lemma setFailed_phase [simp]: "bs_phase (setFailed now msg m st) = ''Failed''"
  by (simp add: setFailed_def Let_def)

lemma closing_prims:
  "keeps closing nextFault" "keeps closing nextAnswer" "keeps closing (modify (\<lambda>w. w\<lparr>bw_gs := h w\<rparr>))"
  "keeps closing (modify (\<lambda>w. w\<lparr>bw_frozen := i w\<rparr>))" "keeps closing (modify (\<lambda>w. w\<lparr>bw_token := t w\<rparr>))"
  "keeps closing (modify (\<lambda>w. w\<lparr>bw_events := ev w\<rparr>))" "keeps closing (modify (\<lambda>w. w\<lparr>bw_lastBackup := lb w\<rparr>))"
  by (auto simp: valid_def nextFault_def nextAnswer_def modify_def closing_def split: list.splits)

lemma closing_updates: "keeps closing updateBackup" "keeps closing updateBackupStatus"
  unfolding updateBackup_def updateBackupStatus_def api_def
  by (intro keeps_bnd closing_prims keeps_case keeps_simple valid_modify; auto simp: closing_def)+

lemma closing_failBackup: "keeps closing (failBackup msg)"
  unfolding failBackup_def by (intro pass_rule closing_updates valid_modify) (auto simp: closing_def terminal_def)

interpretation cl: pass_frame closing
  by unfold_locales (auto intro: closing_prims closing_updates closing_patchStatus closing_patchMeta closing_failBackup)

lemma closing_recorded: "keeps closing recordBackupUnquiesced"
  unfolding recordBackupUnquiesced_def by (intro pass_rule closing_patchMeta) auto

interpretation cl: resume_frame closing
  by unfold_locales (rule cl.maybeUnquiesce_kept [OF closing_recorded])

lemma closing_finishAbort [pass_rule]: "keeps closing (finishAbort cfg)"
  unfolding finishAbort_def Let_def by (intro pass_rule closing_patchStatus) simp

lemma closing_abortResticCopy [pass_rule]: "keeps closing (abortResticCopy cfg message)"
  unfolding abortResticCopy_def markAborted_def by (intro pass_rule closing_patchMeta) auto

lemma closing_finalizeUnquiesce [pass_rule]: "keeps closing (finalizeUnquiesce cfg)"
proof -
  have "keeps closing unquiesceRetryExpired"
    unfolding unquiesceRetryExpired_def by (intro pass_rule cl.resumed closing_patchMeta) auto
  then have "keeps closing unquiesceFailed"
    unfolding unquiesceFailed_def by (intro pass_rule) (auto split: bool.split intro!: pass_rule)
  then show ?thesis
    unfolding finalizeUnquiesce_def resumeOnDelete_def releaseFinalizer_def cleanupAbortedSnapshot_def
    by (intro pass_rule cl.resumed closing_patchMeta) auto
qed

lemma closing_finalizeDelete [pass_rule]: "keeps closing (finalizeDelete cfg)"
  unfolding finalizeDelete_def Let_def by (intro pass_rule)


section \<open>Passes that pause\<close>

definition stored_ok :: "bq_world \<Rightarrow> bool" where
  "stored_ok w \<longleftrightarrow> (bw_frozen w \<longrightarrow> bw_supports w \<and> debt_recorded w)"

definition unresumed :: "backup_meta \<Rightarrow> bool" where
  "unresumed b \<longleftrightarrow> (bm_attempted b \<in> {[], ''pending''} \<longrightarrow> bm_unquiescedAt b = None) \<and> (bm_attempted b \<noteq> [] \<longrightarrow> bm_target b \<noteq> None \<and> bm_preparation b \<noteq> None)"

definition open_pass :: "bq_world \<Rightarrow> bool" where
  "open_pass w \<longleftrightarrow> in_pass w \<and> bw_meta w = bw_stored w \<and> unresumed (bw_stored w)"

text \<open>Between passes: the debt is on record, and a Backup that may still pause has resumed nothing and pauses
  only the GameServer it is bound to.\<close>

definition safe :: "bq_world \<Rightarrow> bool" where
  "safe w \<longleftrightarrow> stored_ok w \<and> (closed w \<or> unresumed (bw_stored w))"

text \<open>In a pass that may pause, with a property of the stored GameServer and of saving.\<close>

definition opn :: "(lc_server option \<Rightarrow> bool \<Rightarrow> bool) \<Rightarrow> bq_world \<Rightarrow> bool" where
  "opn H w \<longleftrightarrow> open_pass w \<and> H (bw_gs w) (bw_frozen w)"

definition tidy :: "(lc_server option \<Rightarrow> bool \<Rightarrow> bool) \<Rightarrow> bq_error + 'a \<Rightarrow> bq_world \<Rightarrow> bool" where
  "tidy H r w \<longleftrightarrow> safe w \<and> (\<forall>x. r = Inr x \<longrightarrow> opn H w)"

lemma open_safe: "opn H w \<Longrightarrow> safe w"
  by (auto simp: opn_def open_pass_def safe_def stored_ok_def in_pass_def)

lemma in_pass_stored: "in_pass w \<Longrightarrow> stored_ok w"
  by (auto simp: in_pass_def stored_ok_def)

lemma tidy_bnd: "valid P m (tidy H) \<Longrightarrow> (\<And>x. valid (opn H) (f x) (tidy K)) \<Longrightarrow> valid P (bnd m f) (tidy K)"
  by (rule valid_bnd [where R = "tidy H"]) (auto simp: tidy_def valid_def)

lemma tidy_keeps: "keeps (opn H) m \<Longrightarrow> valid (opn H) m (tidy H)"
  by (auto simp: valid_def tidy_def open_safe)

lemma tidy_stop: "valid safe (raise e) (tidy H)" "valid (opn H) (raise e) (tidy H)" "valid (opn H) (ret x) (tidy H)"
  by (auto simp: valid_def raise_def ret_def tidy_def open_safe)

lemma valid_if: "valid P m Q \<Longrightarrow> valid P n Q \<Longrightarrow> valid P (if c then m else n) Q"
  by simp

lemma open_faults [simp]: "open_pass (w\<lparr>bw_faults := fs\<rparr>) = open_pass w"
  by (simp add: open_pass_def)

lemma opn_faults [simp]: "opn H (w\<lparr>bw_faults := fs\<rparr>) = opn H w"
  by (simp add: opn_def open_pass_def)

lemma open_prims [pass_rule]: "keeps (opn H) nextFault" "keeps (opn H) api" "keeps (opn H) ownedBackupTarget"
  unfolding valid_def using opn_faults nextFault_faults api_faults owned_faults by (metis snd_conv)+

lemma open_getServer [pass_rule]: "keeps (opn H) (getServer name)"
  unfolding getServer_def by (intro pass_rule)

lemma open_updateStatus [pass_rule]: "keeps (opn H) updateBackupStatus" "keeps (opn H) (patchStatus f)"
  unfolding updateBackupStatus_def patchStatus_def
  by (intro pass_rule valid_modify; auto simp: opn_def open_pass_def in_pass_def debt_recorded_def)+

lemma tidy_update:
  assumes "\<And>w. P w \<Longrightarrow> opn H w \<and> unresumed (f (bw_meta w)) \<and>
    (bw_frozen w \<longrightarrow> core (f (bw_meta w)) = core (bw_meta w) \<and> owes (f (bw_meta w)))"
  shows "valid P (bnd (patchMeta f) (\<lambda>_. updateBackup)) (tidy H)"
  unfolding valid_def
proof (intro allI impI)
  fix w assume "P w"
  note w = assms [OF this]
  let ?w = "w\<lparr>bw_meta := f (bw_meta w)\<rparr>"
  obtain r fs where api: "api ?w = (r, ?w\<lparr>bw_faults := fs\<rparr>)" using api_faults by blast
  have bad: "safe (?w\<lparr>bw_faults := fs\<rparr>)"
    using w by (auto simp: safe_def opn_def open_pass_def stored_ok_def in_pass_def debt_recorded_def)
  have good: "opn H (w\<lparr>bw_meta := f (bw_meta w), bw_faults := fs, bw_stored := f (bw_meta w), bw_status := bw_storedStatus w\<rparr>)"
    using w by (auto simp: opn_def open_pass_def in_pass_def debt_recorded_def core_def bound_to_def parseBackupPreparation_def)
  show "tidy H (fst (bnd (patchMeta f) (\<lambda>_. updateBackup) w)) (snd (bnd (patchMeta f) (\<lambda>_. updateBackup) w))"
    using api bad good open_safe [OF good]
    by (cases r) (simp_all add: tidy_def bnd_def patchMeta_def modify_def updateBackup_def)
qed

lemma bnd_assoc: "bnd m (\<lambda>x. bnd (f x) g) = bnd (bnd m f) g"
  by (rule ext) (simp add: bnd_def split: sum.splits prod.splits)

lemma safe_fail: "keeps safe (failBackup msg)"
  unfolding valid_def
proof (intro allI impI)
  fix w assume w: "safe w"
  let ?st = "setFailed (bw_now w) msg (bw_meta w) (bw_status w)"
  obtain r fs where api: "api (w\<lparr>bw_status := ?st\<rparr>) = (r, w\<lparr>bw_status := ?st, bw_faults := fs\<rparr>)"
    using api_faults [of "w\<lparr>bw_status := ?st\<rparr>"] by auto
  with w show "safe (snd (failBackup msg w))"
    by (cases r) (auto simp: failBackup_def bnd_def modify_def updateBackupStatus_def ret_def safe_def stored_ok_def
        debt_recorded_def closed_def terminal_def)
qed

section \<open>Admission\<close>

definition owner_set :: "lc_server option \<Rightarrow> bool \<Rightarrow> bool" where
  "owner_set found off \<longleftrightarrow> (\<exists>g. found = Some g \<and> ls_owner g \<noteq> None)"

lemma gone_open:
  assumes "opn H w" "processGone [] w = (Inr True, w')"
  shows "opn H w' \<and> \<not> bw_frozen w'"
proof -
  obtain r fs where api: "api w = (r, w\<lparr>bw_faults := fs\<rparr>)" using api_faults by blast
  with assms(2) have w': "w' = w\<lparr>bw_faults := fs\<rparr>" and g: "backupQuiesceProcessGone (seen_env w') [] = Inr True"
    by (cases r; auto simp: processGone_def bnd_def gets_def lift_def split: sum.splits)+
  from g have "\<not> bw_frozen w'"
    using assms(1) by (auto simp: w' opn_def open_pass_def in_pass_def debt_recorded_def backupQuiesceProcessGone_def exited_def
        seen_env_def split: option.splits if_splits)
  with assms(1) w' show ?thesis by simp
qed

lemma open_anyWorkersLive [pass_rule]: "keeps (opn H) (anyWorkersLive ids)" "keeps (opn H) backupRecoveryIdentities"
  "keeps (opn H) (processGone uid)" "keeps (opn H) (legacyQuiescedBackups b)"
proof -
  show "keeps (opn H) (anyWorkersLive ids)"
    by (induction ids) (auto simp: backupWorkersLive_def intro!: pass_rule)
qed (auto simp: backupRecoveryIdentities_def processGone_def legacyQuiescedBackups_def intro!: pass_rule)

lemma opn_gs:
  assumes "opn H w" "bw_gs w = Some g" "ls_name g' = ls_name g" "ls_uid g' = ls_uid g" "K (Some g') (bw_frozen w)"
    and "\<And>b pod. carries b pod g \<Longrightarrow> carries b pod g'"
  shows "opn K (w\<lparr>bw_gs := Some g'\<rparr>)"
  using assms by (auto simp: opn_def open_pass_def in_pass_def debt_recorded_def bound_to_def)

lemma owned_ok_faults [simp]: "owned_ok found (w\<lparr>bw_faults := fs\<rparr>) = owned_ok found w"
  by (simp add: owned_ok_def split: option.splits)

lemma tidy_dropLineage: "valid (opn owner_set) dropLineage (tidy owner_set)"
  unfolding dropLineage_def
proof (rule valid_bnd [OF valid_owned [OF open_prims(3)]])
  fix found
  have drop: "tidy owner_set (fst (m w)) (snd (m w))"
    if "opn owner_set w" "owned_ok (Some g) w" and m: "m = bnd api (\<lambda>_. bnd (modify (\<lambda>w. w\<lparr>bw_gs := Some (g\<lparr>ls_lineage := None\<rparr>)\<rparr>)) (\<lambda>_. ret True))"
    for w g and m :: "bool pass"
  proof -
    obtain r fs where api: "api w = (r, w\<lparr>bw_faults := fs\<rparr>)" using api_faults by blast
    have "opn owner_set ((w\<lparr>bw_faults := fs\<rparr>)\<lparr>bw_gs := Some (g\<lparr>ls_lineage := None\<rparr>)\<rparr>)"
      by (rule opn_gs [of owner_set _ g]) (use that(1,2) in \<open>auto simp: owned_ok_def owner_set_def opn_def carries_def backupLifecycleIdentity_def\<close>)
    with api that(1) show ?thesis
      by (cases r) (auto simp: m tidy_def bnd_def modify_def ret_def open_safe)
  qed
  then show "valid (\<lambda>w. opn owner_set w \<and> (\<forall>f. Inr found = Inr f \<longrightarrow> owned_ok f w)) (case found of
      None \<Rightarrow> raise (BqError ''backup lost recovery ownership'')
    | Some g \<Rightarrow> bnd api (\<lambda>_. bnd (modify (\<lambda>w. w\<lparr>bw_gs := Some (g\<lparr>ls_lineage := None\<rparr>)\<rparr>)) (\<lambda>_. ret True))) (tidy owner_set)"
    by (cases found) (auto simp: valid_def raise_def tidy_def open_safe)
qed (simp add: tidy_def open_safe)

lemma tidy_forgetLegacy: "valid (\<lambda>w. opn owner_set w \<and> \<not> bw_frozen w) forgetLegacy (tidy owner_set)"
  unfolding forgetLegacy_def
  by (rule tidy_bnd [OF tidy_update tidy_dropLineage]) (simp add: unresumed_def)

lemma tidy_recoverBackupTarget: "valid (opn owner_set) recoverBackupTarget (tidy owner_set)"
proof -
  have "valid (opn owner_set) (processGone []) (\<lambda>r w. opn owner_set w \<and> (r = Inr True \<longrightarrow> \<not> bw_frozen w))"
    unfolding valid_def
  proof (intro allI impI conjI)
    fix w assume w: "opn owner_set w"
    then show "opn owner_set (snd (processGone [] w))" using open_anyWorkersLive(3) by (simp add: valid_def)
    assume "fst (processGone [] w) = Inr True"
    with gone_open [OF w, of "snd (processGone [] w)"] show "\<not> bw_frozen (snd (processGone [] w))" by (simp add: prod_eq_iff)
  qed
  then have gone: "valid (opn owner_set) (bnd (processGone []) (\<lambda>gone.
     if \<not> gone then raise (BqError ''cannot recover legacy quiesce without proof that the original process is gone'')
     else forgetLegacy)) (tidy owner_set)"
    by (rule valid_bnd) (use tidy_forgetLegacy in \<open>auto simp: valid_def raise_def tidy_def open_safe\<close>)
  show ?thesis
    unfolding recoverBackupTarget_def
    by (intro tidy_bnd [OF tidy_keeps [OF open_anyWorkersLive(2)]] tidy_bnd [OF tidy_keeps [OF open_anyWorkersLive(1)]]
        valid_if tidy_stop(3) gone)
qed

lemma tidy_pinTarget:
  "valid (\<lambda>w. opn (\<lambda>found _. found = Some g) w) (pinTarget g) (tidy (\<lambda>found _. found = Some g))"
  unfolding pinTarget_def
proof (rule valid_bnd [where R = "\<lambda>r w. opn (\<lambda>found _. found = Some g) w \<and> r = Inr (bw_meta w)"])
  fix b
  show "valid (\<lambda>w. opn (\<lambda>found _. found = Some g) w \<and> Inr b = Inr (bw_meta w)) (case bm_target b of
      None \<Rightarrow> bnd (patchMeta (\<lambda>b. b\<lparr>bm_target := Some (Inr (ls_name g, ls_uid g))\<rparr>)) (\<lambda>_. updateBackup)
    | Some v \<Rightarrow> bnd (lift (parseBackupIdentity v)) (\<lambda>id.
        if fst id \<noteq> ls_name g \<or> snd id \<noteq> ls_uid g then raise (BqError ''backup target was replaced'') else ret ()))
     (tidy (\<lambda>found _. found = Some g))"
  proof (cases "bm_target b")
    case None
    have "valid (\<lambda>w. opn (\<lambda>found _. found = Some g) w \<and> Inr b = Inr (bw_meta w))
      (bnd (patchMeta (\<lambda>b. b\<lparr>bm_target := Some (Inr (ls_name g, ls_uid g))\<rparr>)) (\<lambda>_. updateBackup)) (tidy (\<lambda>found _. found = Some g))"
      by (rule tidy_update) (use None in \<open>auto simp: opn_def open_pass_def unresumed_def in_pass_def debt_recorded_def\<close>)
    with None show ?thesis by simp
  next
    case (Some v)
    have "keeps (opn (\<lambda>found _. found = Some g)) (bnd (lift (parseBackupIdentity v)) (\<lambda>id.
        if fst id \<noteq> ls_name g \<or> snd id \<noteq> ls_uid g then raise (BqError ''backup target was replaced'') else ret ()))"
      by (intro pass_rule)
    from tidy_keeps [OF this] Some show ?thesis by (auto intro: valid_pre)
  qed
qed (auto simp: valid_def gets_def tidy_def)


lemma claim_names:
  assumes "claimLifecycleOperation env want g = (res, g')"
  shows "ls_name g' = ls_name g \<and> ls_uid g' = ls_uid g"
  using assms
proof (cases rule: claim_cases)
  case (admitted op before rec gs)
  have "ls_name gs = ls_name g \<and> ls_uid gs = ls_uid g" using admitted(3) admitted_owner [OF admitted(1)] by simp
  moreover from admitted(4) have "g' = rec \<or> (ls_name g' = ls_name gs \<and> ls_uid g' = ls_uid gs)"
    by (cases rule: recover_cases) auto
  ultimately show ?thesis using admitted(6) by auto
qed simp

definition claim_post :: "bq_error + bool \<Rightarrow> bq_world \<Rightarrow> bool" where
  "claim_post r w \<longleftrightarrow> safe w \<and> (\<forall>x. r = Inr x \<longrightarrow> opn (\<lambda>_ _. True) w \<and> (x \<longrightarrow> owner_set (bw_gs w) (bw_frozen w)))"

lemma tidy_claimTarget: "valid (opn (\<lambda>found _. found = Some g)) (claimTarget g) claim_post"
  unfolding valid_def
proof (intro allI impI)
  fix w assume w: "opn (\<lambda>found _. found = Some g) w"
  obtain res g' where claim: "claimLifecycleOperation (seen_env w)
      (backupLifecycleIdentity g (bm_object (bw_meta w)) (owes (bw_meta w))) g = (res, g')" by fastforce
  have gs: "bw_gs w = Some g" using w by (simp add: opn_def)
  have "carries b pod g'" if "carries b pod g" "b = bm_object (bw_meta w)" for b pod
    using claim_carries [OF that(1)] claim that(2) by blast
  then have opn: "opn (\<lambda>_ _. True) (w\<lparr>bw_gs := Some g'\<rparr>)"
    using w gs claim_names [OF claim]
    by (auto simp: opn_def open_pass_def in_pass_def debt_recorded_def bound_to_def)
  moreover have "owner_set (Some g') off" if "res = Inr True" for off
    using claim that by (cases rule: claim_owner) (auto simp: owner_set_def)
  ultimately show "claim_post (fst (claimTarget g w)) (snd (claimTarget g w))"
    using claim open_safe [OF opn]
    by (cases res) (auto simp: claim_post_def claimTarget_def bnd_def gets_def modify_def lift_def)
qed

lemma tidy_claimBackupTarget: "valid (opn (\<lambda>_ _. True)) claimBackupTarget claim_post"
proof -
  have recover: "valid (opn owner_set) recoverBackupTarget claim_post"
    by (rule valid_post [OF tidy_recoverBackupTarget]) (auto simp: tidy_def claim_post_def opn_def)
  have claim: "valid (opn (\<lambda>found _. found = Some g))
      (bnd (claimTarget g) (\<lambda>ok. if \<not> ok then ret False else recoverBackupTarget)) claim_post" for g
    by (rule valid_bnd [OF tidy_claimTarget])
      (use recover in \<open>auto simp: valid_def ret_def claim_post_def opn_def\<close>)
  have pin: "valid (opn (\<lambda>found _. found = Some g)) (bnd (pinTarget g) (\<lambda>_.
      bnd (claimTarget g) (\<lambda>ok. if \<not> ok then ret False else recoverBackupTarget))) claim_post" for g
    by (rule valid_bnd [OF tidy_pinTarget]) (use claim in \<open>auto simp: valid_def tidy_def claim_post_def\<close>)
  have get: "valid (opn (\<lambda>_ _. True)) (getServer name)
      (\<lambda>r w. opn (\<lambda>_ _. True) w \<and> (\<forall>g. r = Inr (Some g) \<longrightarrow> bw_gs w = Some g))" for name
    unfolding valid_def
  proof (intro allI impI)
    fix w assume w: "opn (\<lambda>_ _. True) w"
    obtain r fs where "api w = (r, w\<lparr>bw_faults := fs\<rparr>)" using api_faults by blast
    with w show "opn (\<lambda>_ _. True) (snd (getServer name w)) \<and>
       (\<forall>g. fst (getServer name w) = Inr (Some g) \<longrightarrow> bw_gs (snd (getServer name w)) = Some g)"
      by (cases r) (auto simp: getServer_run split: option.splits if_splits)
  qed
  have step: "keeps (opn (\<lambda>_ _. True)) m \<Longrightarrow> (\<And>x. valid (opn (\<lambda>_ _. True)) (f x) claim_post) \<Longrightarrow>
      valid (opn (\<lambda>_ _. True)) (bnd m f) claim_post" for m :: "'x pass" and f
    by (erule valid_bnd) (auto simp: claim_post_def open_safe)
  have stop: "valid (opn (\<lambda>_ _. True)) (raise e) claim_post" "valid (opn (\<lambda>_ _. True)) (ret False) claim_post" for e
    by (auto simp: valid_def raise_def ret_def claim_post_def open_safe)
  have found: "valid (opn (\<lambda>_ _. True)) (bnd (getServer name) (\<lambda>found. case found of
         None \<Rightarrow> raise (LcError (ApiError ''not found''))
       | Some g \<Rightarrow>
           if ls_deleting g then raise (BqError ''backup target is being deleted'')
           else bnd (pinTarget g) (\<lambda>_.
                bnd (claimTarget g) (\<lambda>ok. if \<not> ok then ret False else recoverBackupTarget)))) claim_post" for name
    by (rule valid_bnd [OF get])
      (use pin stop in \<open>auto simp: valid_def opn_def claim_post_def open_safe split: option.split\<close>)
  show ?thesis
    unfolding claimBackupTarget_def
    by (intro step keeps_simple(3) open_anyWorkersLive(4)) (auto intro: found stop)
qed


section \<open>Pinning the source\<close>

lemma tidy_attempt:
  assumes "valid P m (tidy H)" "\<And>e. valid safe (h e) Q" "\<And>x. valid (opn H) (k x) Q"
  shows "valid P (bnd (attempt m) (\<lambda>r. case r of Inl e \<Rightarrow> h e | Inr x \<Rightarrow> k x)) Q"
  unfolding valid_def
proof (intro allI impI)
  fix w assume "P w"
  then have t: "tidy H (fst (m w)) (snd (m w))" using assms(1) by (simp add: valid_def)
  show "Q (fst (bnd (attempt m) (\<lambda>r. case r of Inl e \<Rightarrow> h e | Inr x \<Rightarrow> k x) w))
     (snd (bnd (attempt m) (\<lambda>r. case r of Inl e \<Rightarrow> h e | Inr x \<Rightarrow> k x) w))"
    using t assms(2,3) by (cases "m w"; cases "fst (m w)") (auto simp: tidy_def bnd_def attempt_def valid_def)
qed

lemma tidy_update_then:
  assumes "\<And>w. P w \<Longrightarrow> opn H w \<and> unresumed (f (bw_meta w)) \<and>
    (bw_frozen w \<longrightarrow> core (f (bw_meta w)) = core (bw_meta w) \<and> owes (f (bw_meta w)))"
  shows "valid P (bnd (patchMeta f) (\<lambda>_. bnd updateBackup (\<lambda>_. ret x))) (tidy H)"
  unfolding bnd_assoc by (rule tidy_bnd [OF tidy_update [OF assms] tidy_stop(3)])

lemma tidy_backupDeadline: "valid (opn H) (backupDeadline key dur) (tidy H)"
  unfolding backupDeadline_def
proof (rule tidy_bnd [OF tidy_keeps [OF keeps_simple(3)]])
  fix w0
  have "valid (opn H) (bnd (patchMeta (\<lambda>b. b\<lparr>bm_deadlines := (bm_deadlines b)(key \<mapsto> Inr (bw_now w0 + dur))\<rparr>)) (\<lambda>_.
        bnd updateBackup (\<lambda>_. ret (bw_now w0 + dur)))) (tidy H)"
    by (rule tidy_update_then) (auto simp: opn_def open_pass_def in_pass_def unresumed_def core_def owes_def)
  then show "valid (opn H) (case bm_deadlines (bw_meta w0) key of
      None \<Rightarrow> bnd (patchMeta (\<lambda>b. b\<lparr>bm_deadlines := (bm_deadlines b)(key \<mapsto> Inr (bw_now w0 + dur))\<rparr>)) (\<lambda>_.
        bnd updateBackup (\<lambda>_. ret (bw_now w0 + dur)))
    | Some (Inl bad) \<Rightarrow> raise (BqError (''invalid persisted backup deadline '' @ key))
    | Some (Inr deadline) \<Rightarrow> ret deadline) (tidy H)"
    by (auto split: option.split sum.split intro: tidy_stop)
qed

lemma tidy_waitForBackupSource: "valid (opn H) (waitForBackupSource reason) (tidy H)"
  unfolding waitForBackupSource_def Let_def
  by (rule tidy_bnd [OF tidy_keeps [OF keeps_simple(3)]])
    (auto intro!: tidy_attempt [OF tidy_backupDeadline] tidy_bnd [OF tidy_keeps [OF keeps_simple(3)]] intro: tidy_stop)

lemma tidy_candidate:
  "valid (opn H) (stoppedSource p ss) (tidy H)" "valid (opn H) (liveSource p ss) (tidy H)"
proof -
  show "valid (opn H) (stoppedSource p ss) (tidy H)"
    unfolding stoppedSource_def by (intro tidy_keeps pass_rule)
  have wait: "valid (opn H) (bnd (waitForBackupSource reason) (\<lambda>_. ret None)) (tidy H)" for reason
    by (rule tidy_bnd [OF tidy_waitForBackupSource tidy_stop(3)])
  show "valid (opn H) (liveSource p ss) (tidy H)"
    unfolding liveSource_def
    by (rule tidy_bnd [OF tidy_keeps [OF open_prims(2)]], rule tidy_bnd [OF tidy_keeps [OF keeps_simple(3)]])
      (auto split: option.split intro: tidy_stop wait)
qed

lemma tidy_checkSource:
  assumes "p = None \<Longrightarrow> \<forall>found off. H found off \<longrightarrow> \<not> off"
  shows "valid (opn H) (checkSource p g ss) (tidy H)"
proof -
  have pin: "valid (opn H) (bnd (patchMeta (\<lambda>b. b\<lparr>bm_preparation := Some (Inr \<lparr>pr_outcome = what, pr_target = ls_uid g,
      pr_workload = sf_uid ss, pr_generation = sf_generation ss, pr_pod = pod\<rparr>)\<rparr>)) (\<lambda>_. bnd updateBackup (\<lambda>_. ret True))) (tidy H)"
    if "p = None" for what pod
    by (rule tidy_update_then) (use assms [OF that] in \<open>auto simp: opn_def open_pass_def unresumed_def\<close>)
  show ?thesis
    unfolding checkSource_def
    by (auto intro!: tidy_stop tidy_bnd [OF tidy_candidate(1)] tidy_bnd [OF tidy_candidate(2)] pin split: option.split)
qed


lemma tidy_prepareBackupSource: "valid (opn owner_set) (prepareBackupSource cfg g) (tidy owner_set)"
  unfolding valid_def
proof (intro allI impI)
  fix w assume w: "opn owner_set w"
  obtain r fs where api: "api w = (r, w\<lparr>bw_faults := fs\<rparr>)" using api_faults by blast
  show "tidy owner_set (fst (prepareBackupSource cfg g w)) (snd (prepareBackupSource cfg g w))"
  proof (cases "parseBackupPreparation (bw_meta w)")
    case (Inl e)
    with w show ?thesis
      by (auto simp: prepareBackupSource_def bnd_def gets_def preparationOf_def ret_def tidy_def open_safe)
  next
    case (Inr p)
    let ?H = "\<lambda>found off. owner_set found off \<and> (p = None \<longrightarrow> \<not> off)"
    have "tidy owner_set (fst (checkSource p g ss (w\<lparr>bw_faults := fs\<rparr>))) (snd (checkSource p g ss (w\<lparr>bw_faults := fs\<rparr>)))"
      if "p = None \<longrightarrow> bm_attempted (bw_meta w) = []" for ss
    proof -
      have "opn ?H w" using w that by (auto simp: opn_def open_pass_def in_pass_def owes_def)
      then have "opn ?H (w\<lparr>bw_faults := fs\<rparr>)" by simp
      with tidy_checkSource [of p ?H g ss] show ?thesis by (auto simp: valid_def tidy_def opn_def)
    qed
    with Inr w api show ?thesis
      by (cases r) (auto simp: prepareBackupSource_def bnd_def gets_def preparationOf_def ret_def raise_def tidy_def open_safe
          split: option.split)
  qed
qed

section \<open>Admission and pausing\<close>

lemma bnd_Inr: "bnd m f w = (Inr y, w') \<Longrightarrow> \<exists>x w1. m w = (Inr x, w1) \<and> f x w1 = (Inr y, w')"
  by (auto simp: bnd_def split: sum.splits prod.splits)

text \<open>A Backup that may pause knows which process.\<close>

definition pinned :: "bq_config \<Rightarrow> bq_world \<Rightarrow> bool" where
  "pinned cfg w \<longleftrightarrow> (bm_quiesce (bw_meta w) \<and> bc_agent cfg \<longrightarrow> bm_preparation (bw_meta w) \<noteq> None)"

definition has_preparation :: "bq_world \<Rightarrow> bool" where
  "has_preparation w \<longleftrightarrow> bm_preparation (bw_meta w) \<noteq> None"

lemma has_preparation_prims [pass_rule]: "keeps has_preparation nextFault"
  by (auto simp: valid_def nextFault_def has_preparation_def split: list.splits)

lemma has_preparation_api [pass_rule]: "keeps has_preparation api"
  unfolding api_def by (intro pass_rule)

lemma has_preparation_update [pass_rule]: "keeps has_preparation updateBackup"
  unfolding updateBackup_def by (intro pass_rule valid_modify) (simp add: has_preparation_def)

lemma has_preparation_sources [pass_rule]:
  "keeps has_preparation (stoppedSource p ss)" "keeps has_preparation (liveSource p ss)"
proof -
  have "keeps has_preparation (patchMeta (\<lambda>b. b\<lparr>bm_deadlines := f b\<rparr>))" for f
    unfolding patchMeta_def by (intro valid_modify) (simp add: has_preparation_def)
  then have "keeps has_preparation (waitForBackupSource reason)" for reason
    unfolding waitForBackupSource_def backupDeadline_def Let_def by (intro pass_rule)
  then show "keeps has_preparation (liveSource p ss)" unfolding liveSource_def by (intro pass_rule)
  show "keeps has_preparation (stoppedSource p ss)" unfolding stoppedSource_def by (intro pass_rule)
qed

lemma source_pinned:
  assumes "p \<noteq> None \<longrightarrow> has_preparation w" "checkSource p g ss w = (Inr True, w')"
  shows "has_preparation w'"
proof -
  obtain c w1 where c: "(if sf_replicas ss = Some 0 then stoppedSource p ss else liveSource p ss) w = (Inr c, w1)"
    and rest: "(case c of None \<Rightarrow> ret False
        | Some (what, pod) \<Rightarrow> (case p of
              Some q \<Rightarrow> if pr_outcome q \<noteq> what \<or> pr_pod q \<noteq> pod then raise (SourceChanged ''process identity'') else ret True
            | None \<Rightarrow>
                bnd (patchMeta (\<lambda>b. b\<lparr>bm_preparation := Some (Inr \<lparr>pr_outcome = what, pr_target = ls_uid g,
                       pr_workload = sf_uid ss, pr_generation = sf_generation ss, pr_pod = pod\<rparr>)\<rparr>)) (\<lambda>_.
                bnd updateBackup (\<lambda>_. ret True)))) w1 = (Inr True, w')"
    using assms(2) by (auto simp: checkSource_def raise_def ret_def dest!: bnd_Inr split: if_splits)
  show ?thesis
  proof (cases p)
    case None
    with rest show ?thesis
      by (auto simp: ret_def patchMeta_def updateBackup_def modify_def has_preparation_def dest!: bnd_Inr api_frame split: option.splits prod.splits)
  next
    case (Some q)
    then have "has_preparation w1"
      using assms(1) c has_preparation_sources [of p ss] by (auto simp: valid_def split: if_splits)
    with Some rest show ?thesis by (auto simp: ret_def raise_def split: option.splits prod.splits if_splits)
  qed
qed

lemma prepared_pinned:
  assumes "unresumed (bw_meta w)" "prepareBackupSource cfg g w = (Inr True, w')"
  shows "pinned cfg w'"
proof (cases "bm_quiesce (bw_meta w) \<and> parseBackupPreparation (bw_meta w) \<noteq> Inr None \<or> bm_quiesce (bw_meta w) \<and> bc_agent cfg")
  case True
  obtain p where p: "parseBackupPreparation (bw_meta w) = Inr p"
    using assms(2) True by (auto simp: prepareBackupSource_def preparationOf_def gets_def dest!: bnd_Inr)
  have prep: "p = None \<longleftrightarrow> bm_preparation (bw_meta w) = None"
    using p by (auto simp: parseBackupPreparation_def split: option.splits sum.splits if_splits)
  have "\<exists>w1 ss. api w = (Inr (), w1) \<and> checkSource p g ss w1 = (Inr True, w')"
    using assms True p prep
    by (auto simp: prepareBackupSource_def preparationOf_def gets_def ret_def raise_def unresumed_def dest!: bnd_Inr split: if_splits option.splits) blast+
  then obtain w1 ss where w1: "api w = (Inr (), w1)" and src: "checkSource p g ss w1 = (Inr True, w')" by blast
  have "has_preparation w'"
    by (rule source_pinned [OF _ src]) (use prep api_frame [OF w1] in \<open>auto simp: has_preparation_def\<close>)
  then show ?thesis by (simp add: pinned_def has_preparation_def)
next
  case False
  then have "w' = w" using assms(2)
    by (auto simp: prepareBackupSource_def preparationOf_def gets_def ret_def dest!: bnd_Inr split: if_splits)
  with False show ?thesis by (auto simp: pinned_def)
qed

text \<open>Admitted: the GameServer has its owner and the source is pinned, or the Backup was aborted on the way and owns
  nothing.\<close>

definition admitted :: "bq_config \<Rightarrow> bq_error + admission \<Rightarrow> bq_world \<Rightarrow> bool" where
  "admitted cfg r w \<longleftrightarrow> safe w \<and> (r = Inr Go \<longrightarrow> opn owner_set w \<and> pinned cfg w \<or> in_pass w \<and> closing w \<and> owned_ok None w)"

lemma admitted_stop: "valid safe (raise e) (admitted cfg)" "valid safe (failAndReturn e) (admitted cfg)"
  "valid (opn H) (ret (Later d)) (admitted cfg)" "valid (opn H) (raise e) (admitted cfg)"
proof -
  show "valid safe (failAndReturn e) (admitted cfg)"
    unfolding failAndReturn_def
    by (rule valid_bnd [OF safe_fail]) (auto simp: admitted_def intro!: valid_ret)
qed (auto simp: valid_def raise_def ret_def admitted_def open_safe)

lemma open_fence: "keeps (opn H) (fenceWorkload g)"
proof -
  have "keeps (opn H) (modify (\<lambda>w. w\<lparr>bw_workload := h w\<rparr>))" for h
    by (rule valid_modify) (simp add: opn_def open_pass_def in_pass_def debt_recorded_def)
  then show ?thesis
    unfolding fenceWorkload_def by (intro pass_rule) (auto split: ss_lookup.split intro!: pass_rule)
qed

lemma admitted_source: "valid (opn owner_set) (admitSource cfg g) (admitted cfg)"
  unfolding admitSource_def
proof (rule valid_bnd [OF open_fence])
  fix fenced
  have src: "valid (opn owner_set) (if fenced then prepareBackupSource cfg g
      else waitForBackupSource ''source workload is absent or has not observed its fenced rollout'') (tidy owner_set)"
    by (rule valid_if [OF tidy_prepareBackupSource tidy_waitForBackupSource])
  let ?src = "if fenced then prepareBackupSource cfg g
      else waitForBackupSource ''source workload is absent or has not observed its fenced rollout''"
  show "valid (opn owner_set) (bnd (attempt ?src) (\<lambda>r. case r of
         Inl e \<Rightarrow> if sourceGone e then failAndReturn e else raise e
       | Inr ready \<Rightarrow> if fenced \<and> ready then ret Go else ret (Later (5 * second)))) (admitted cfg)"
    unfolding valid_def
  proof (intro allI impI)
    fix w assume w: "opn owner_set w"
    obtain r w1 where run: "?src w = (r, w1)" by fastforce
    have t: "tidy owner_set r w1" using src w run by (fastforce simp: valid_def)
    have "pinned cfg w1" if "r = Inr True" "fenced"
      by (rule prepared_pinned [of w]) (use w run that in \<open>auto simp: opn_def open_pass_def\<close>)
    with t run admitted_stop(1,2) show "admitted cfg (fst (bnd (attempt ?src) (\<lambda>r. case r of
         Inl e \<Rightarrow> if sourceGone e then failAndReturn e else raise e
       | Inr ready \<Rightarrow> if fenced \<and> ready then ret Go else ret (Later (5 * second))) w))
      (snd (bnd (attempt ?src) (\<lambda>r. case r of
         Inl e \<Rightarrow> if sourceGone e then failAndReturn e else raise e
       | Inr ready \<Rightarrow> if fenced \<and> ready then ret Go else ret (Later (5 * second))) w))"
      by (cases r) (auto simp: bnd_def [of "attempt _"] attempt_def tidy_def ret_def admitted_def valid_def)
  qed
qed (simp add: admitted_def open_safe)

lemma admitted_claimed: "valid (opn (\<lambda>_ _. True)) (admitClaimed cfg) (admitted cfg)"
  unfolding valid_def
proof (intro allI impI)
  fix w assume w: "opn (\<lambda>_ _. True) w"
  obtain r w1 where claim: "claimBackupTarget w = (r, w1)" by fastforce
  have post: "claim_post r w1" using tidy_claimBackupTarget w claim by (fastforce simp: valid_def)
  have rest: "valid (opn owner_set) (bnd ownedBackupTarget (\<lambda>found. case found of
          None \<Rightarrow> ret (Later (5 * second)) | Some g \<Rightarrow> admitSource cfg g)) (admitted cfg)"
    by (rule valid_bnd [OF open_prims(3)])
      (auto split: option.split intro: admitted_stop admitted_source simp: admitted_def open_safe)
  show "admitted cfg (fst (admitClaimed cfg w)) (snd (admitClaimed cfg w))"
  proof (cases r)
    case (Inl e)
    with post claim admitted_stop(1,2) show ?thesis
      by (auto simp: admitClaimed_def bnd_def [of "attempt claimBackupTarget"] attempt_def claim_post_def valid_def)
  next
    case (Inr ok)
    with post claim rest admitted_stop(3) show ?thesis
      by (cases ok) (auto simp: admitClaimed_def bnd_def [of "attempt claimBackupTarget"] attempt_def claim_post_def valid_def opn_def)
  qed
qed


text \<open>A pass that ends without asking to be called again has given up the GameServer.\<close>

lemma release_unowned:
  assumes "releaseTarget w = (Inr x, w')"
  shows "owned_ok None w'"
proof -
  obtain found w1 where own: "ownedBackupTarget w = (Inr found, w1)"
    and rest: "(case found of None \<Rightarrow> ret () | Some g \<Rightarrow> releaseOwned g) w1 = (Inr x, w')"
    using bnd_Inr [OF assms [unfolded releaseTarget_def]] by blast
  show ?thesis
  proof (cases found)
    case None
    with own rest owned_result show ?thesis by (auto simp: ret_def)
  next
    case (Some g)
    with rest obtain g' where "bw_gs w' = Some g'" "ls_backup_guard g' = None"
      by (auto simp: releaseOwned_def bnd_def gets_def raise_def modify_def releaseBackupTarget_def nextFault_def
          split: prod.splits option.splits sum.splits list.splits)
    then show ?thesis by (auto simp: owned_ok_def ownsTarget_def)
  qed
qed

lemma run_unowned:
  assumes "runUnquiesce cfg w = (Inr d, w')"
  shows "d > 0 \<or> owned_ok None w'"
  using assms release_unowned
  by (auto simp: runUnquiesce_def ret_def second_def gets_def dest!: bnd_Inr split: if_splits sum.splits)

lemma abort_unowned:
  assumes "abortResticCopy cfg msg w = (Inr d, w')"
  shows "d > 0 \<or> owned_ok None w'"
proof -
  obtain w1 where "cleanupResticCopy cfg w1 = (Inr d, w')"
    using assms by (auto simp: abortResticCopy_def finishAbort_def Let_def dest!: bnd_Inr)
  then show ?thesis
    by (auto simp: cleanupResticCopy_def ret_def second_def dest!: bnd_Inr dest: run_unowned split: if_splits)
qed

definition aborted :: "bq_error + 'a \<Rightarrow> bq_world \<Rightarrow> bool" where
  "aborted r w \<longleftrightarrow> safe w \<and> ((\<exists>x. r = Inr x) \<longrightarrow> in_pass w \<and> closing w)"

lemma mark_open:
  assumes m: "m \<noteq> NoMsg"
  shows "valid (opn H) (markAborted m) aborted"
  unfolding valid_def
proof (intro allI impI)
  let ?upd = "bnd (patchMeta (\<lambda>b. b\<lparr>bm_copyAbort := m\<rparr>)) (\<lambda>_. updateBackup)"
  fix w assume w: "opn H w"
  have "valid (opn H) ?upd (tidy H)"
    by (rule tidy_update) (auto simp: opn_def open_pass_def in_pass_def unresumed_def core_def owes_def)
  then have t: "tidy H (fst (?upd w)) (snd (?upd w))" using w by (simp add: valid_def)
  have cl: "closing w'" if "?upd w = (Inr x, w')" for w' x
    using that m by (auto simp: closing_def updateBackup_def patchMeta_def modify_def dest!: bnd_Inr api_frame)
  show "aborted (fst (markAborted m w)) (snd (markAborted m w))"
  proof (cases "bm_copyAbort (bw_meta w) = NoMsg")
    case True
    with t cl show ?thesis
      by (auto simp: markAborted_def bnd_def [of "gets bw_meta"] gets_def aborted_def tidy_def opn_def open_pass_def prod_eq_iff)
  next
    case False
    with w have "closing w" by (auto simp: closing_def opn_def open_pass_def)
    with False w show ?thesis
      by (auto simp: markAborted_def bnd_def gets_def ret_def aborted_def opn_def open_pass_def open_safe)
  qed
qed

lemma abort_open: "valid (opn H) (abortResticCopy cfg msg) aborted"
proof -
  have "valid (\<lambda>w. in_pass w \<and> closing w) (finishAbort cfg) aborted"
    using keeps_abortResticCopy(1) closing_finishAbort
    by (auto simp: valid_def aborted_def safe_def in_pass_stored closing_closed)
  then show ?thesis
    unfolding abortResticCopy_def
    by (intro valid_bnd [OF mark_open]) (auto simp: valid_def aborted_def)
qed

lemma admitted_foreign: "valid (opn H) (foreignWorker cfg) (admitted cfg)"
  unfolding valid_def
proof (intro allI impI)
  fix w assume w: "opn H w"
  obtain r w1 where run: "waitForForeignBackupWorker cfg w = (r, w1)" by fastforce
  have "valid (opn H) (waitForForeignBackupWorker cfg) (\<lambda>r w. safe w \<and> (\<forall>d. r = Inr d \<longrightarrow> d > 0 \<or> in_pass w \<and> closing w))"
    unfolding waitForForeignBackupWorker_def
    by (rule valid_bnd [OF open_prims(3)])
      (auto split: option.split simp: open_safe second_def aborted_def intro!: valid_ret valid_post [OF abort_open])
  then have "safe w1 \<and> (\<forall>d. r = Inr d \<longrightarrow> d > 0 \<or> in_pass w1 \<and> closing w1)" using w run by (fastforce simp: valid_def)
  moreover have "d > 0 \<or> owned_ok None w1" if "r = Inr d" for d
    using run that by (auto simp: waitForForeignBackupWorker_def ret_def second_def dest!: bnd_Inr dest: abort_unowned split: option.splits)
  ultimately show "admitted cfg (fst (foreignWorker cfg w)) (snd (foreignWorker cfg w))"
    using run by (cases r) (auto simp: foreignWorker_def bnd_def ret_def admitted_def)
qed

lemma admitted_workload: "valid (opn (\<lambda>_ _. True)) (prepareBackupWorkload cfg) (admitted cfg)"
  unfolding prepareBackupWorkload_def
  by (rule valid_bnd [OF keeps_simple(3)])
    (auto split: worker_lookup.split intro: admitted_stop admitted_foreign admitted_claimed simp: admitted_def open_safe)


text \<open>Pausing: a success leaves the pass in step with the store; nothing on this path resumes.\<close>

lemma update_sync: "updateBackup w = (Inr x, w') \<Longrightarrow> bw_meta w' = bw_stored w'"
  by (auto simp: updateBackup_def modify_def dest!: bnd_Inr)

lemma quiesceCheck_ok: "quiesceCheck cfg p w = (Inr x, w') \<Longrightarrow> \<exists>as. w' = w\<lparr>bw_rpc := as\<rparr>"
  by (auto simp: quiesceCheck_def attempt_def ret_def raise_def dest!: bnd_Inr CheckPod_ok split: sum.splits prod.splits if_splits)

lemma maybeQuiesce_sync:
  assumes "bw_meta w = bw_stored w" "maybeQuiesce cfg w = (Inr x, w')"
  shows "bw_meta w' = bw_stored w'"
proof -
  have call: "bw_meta w2 = bw_stored w2" if "quiesceCall cfg p w1 = (Inr y, w2)" for p w1 y w2
    using that by (auto simp: quiesceCall_def raise_def dest!: bnd_Inr dest: update_sync split: sum.splits if_splits)
  have "bw_meta w2 = bw_stored w2" if "pauseSaving cfg p w1 = (Inr y, w2)" for p w1 y w2
    using that call by (auto simp: pauseSaving_def dest!: bnd_Inr)
  with assms show ?thesis
    by (auto simp: maybeQuiesce_def gets_def preparationOf_def ret_def raise_def dest!: bnd_Inr split: if_splits)
qed

definition unpaid :: "bq_world \<Rightarrow> bool" where
  "unpaid w \<longleftrightarrow> bm_unquiescedAt (bw_meta w) = None \<and> bm_unquiescedAt (bw_stored w) = None \<and>
     bm_target (bw_meta w) \<noteq> None \<and> bm_target (bw_stored w) \<noteq> None \<and>
     bm_preparation (bw_meta w) \<noteq> None \<and> bm_preparation (bw_stored w) \<noteq> None \<and> owner_set (bw_gs w) True"

lemma unpaid_prims [pass_rule]: "keeps unpaid nextFault" "keeps unpaid nextAnswer" "keeps unpaid (modify (\<lambda>w. w\<lparr>bw_frozen := i w\<rparr>))"
  "keeps unpaid (modify (\<lambda>w. w\<lparr>bw_status := st w\<rparr>))"
  by (auto simp: valid_def nextFault_def nextAnswer_def modify_def unpaid_def split: list.splits)

lemma unpaid_api [pass_rule]: "keeps unpaid api"
  unfolding api_def by (intro pass_rule)

lemma unpaid_updates [pass_rule]: "keeps unpaid updateBackup" "keeps unpaid updateBackupStatus"
  unfolding updateBackup_def updateBackupStatus_def by (intro pass_rule valid_modify; auto simp: unpaid_def)+

lemma unpaid_patch:
  "(\<And>b. bm_unquiescedAt (f b) = bm_unquiescedAt b) \<Longrightarrow> (\<And>b. bm_target (f b) = bm_target b) \<Longrightarrow>
    (\<And>b. bm_preparation (f b) = bm_preparation b) \<Longrightarrow> keeps unpaid (patchMeta f)"
  unfolding patchMeta_def by (intro valid_modify) (auto simp: unpaid_def)

lemma unpaid_fail [pass_rule]: "keeps unpaid (failBackup msg)"
  unfolding failBackup_def by (intro pass_rule)

lemma unpaid_owned [pass_rule]: "keeps unpaid ownedBackupTarget"
  unfolding ownedBackupTarget_def getServer_def by (intro pass_rule)

lemma intent_owner_set: "setLifecycleUnquiesceIntent f needed pod g = (e, g') \<Longrightarrow> ls_owner g = Some v \<Longrightarrow> ls_owner g' \<noteq> None"
  by (auto simp: setLifecycleUnquiesceIntent_def Let_def split: sum.splits if_splits option.splits)

lemma unpaid_intent [pass_rule]: "keeps unpaid (setUnquiesceIntent needed)"
proof -
  have "keeps unpaid (modify (\<lambda>w. w\<lparr>bw_gs := Some g'\<rparr>))" if "ls_owner g' \<noteq> None" for g'
    using that by (intro valid_modify) (auto simp: unpaid_def owner_set_def)
  then have set: "keeps unpaid (case setLifecycleUnquiesceIntent f needed pod g of
      (Some e, _) \<Rightarrow> raise (LcError e) | (None, g') \<Rightarrow> modify (\<lambda>w. w\<lparr>bw_gs := Some g'\<rparr>))" if "ls_owner g = Some v" for f pod g v
    by (auto split: prod.split option.split intro: keeps_simple dest: intent_owner_set [OF _ that])
  show ?thesis
    unfolding setUnquiesceIntent_def
    by (intro keeps_bnd [OF unpaid_owned] keeps_case(1) keeps_simple keeps_bnd [OF keeps_simple(4)] keeps_bnd [OF unpaid_prims(1)] set
        keeps_bnd [OF keeps_if] keeps_bnd [OF keeps_simple(5)])
qed

lemma unpaid_rpc [pass_rule]: "keeps unpaid (rpc uid undo)"
proof -
  have "keeps unpaid (answered undo a)" for a
    by (cases a) (auto simp: answered_def intro!: pass_rule)
  then show ?thesis unfolding rpc_def by (intro keeps_call unpaid_prims)
qed

lemma unpaid_maybeQuiesce: "keeps unpaid (maybeQuiesce cfg)"
  unfolding maybeQuiesce_def quiesceCheck_def pauseSaving_def quiesceCall_def callBackupQuiesce_def
  by (intro pass_rule unpaid_patch) auto

text \<open>A Backup whose state is neither empty nor pending does not pause again.\<close>

lemma maybeQuiesce_idle:
  assumes "bm_attempted (bw_meta w) \<notin> {[], ''pending''}"
  shows "bw_stored (snd (maybeQuiesce cfg w)) = bw_stored w" "bw_gs (snd (maybeQuiesce cfg w)) = bw_gs w"
proof -
  have "bw_stored (snd (maybeQuiesce cfg w)) = bw_stored w \<and> bw_gs (snd (maybeQuiesce cfg w)) = bw_gs w"
  proof (cases "parseBackupPreparation (bw_meta w)")
    case (Inr p)
    have fail: "bw_stored (snd (bnd (failBackup m) (\<lambda>_. raise e :: unit pass) w)) = bw_stored w \<and>
        bw_gs (snd (bnd (failBackup m) (\<lambda>_. raise e :: unit pass) w)) = bw_gs w" for m e
      by (auto simp: failBackup_def updateBackupStatus_def api_def nextFault_def bnd_def modify_def ret_def raise_def
          split: list.splits option.splits)
    with Inr assms show ?thesis
      by (simp add: maybeQuiesce_def bnd_def [of preparationOf] preparationOf_def bnd_def [of "gets bw_meta"] gets_def ret_def)
  qed (simp add: maybeQuiesce_def bnd_def preparationOf_def)
  then show "bw_stored (snd (maybeQuiesce cfg w)) = bw_stored w" "bw_gs (snd (maybeQuiesce cfg w)) = bw_gs w" by simp_all
qed

text \<open>A Backup that does not pause, or not with this controller, needs no preparation.\<close>

lemma maybeQuiesce_unpinned:
  assumes "bm_preparation (bw_meta w) = None" "\<not> (bm_quiesce (bw_meta w) \<and> bc_agent cfg)"
  shows "maybeQuiesce cfg w = (Inr (), w)"
  using assms by (auto simp: maybeQuiesce_def bnd_def preparationOf_def parseBackupPreparation_def gets_def ret_def)

lemma pausing:
  assumes "opn owner_set w" "pinned cfg w" "owned_ok (Some g) w" "maybeQuiesce cfg w = (r, w')"
  shows "tidy owner_set r w'"
proof (cases "bm_preparation (bw_meta w) = None")
  case True
  with assms(2) maybeQuiesce_unpinned [of w cfg] assms(4) have "r = Inr ()" "w' = w" by (auto simp: pinned_def)
  with assms(1) show ?thesis by (simp add: tidy_def open_safe)
next
  case pin: False
  have w: "in_pass w" "bw_meta w = bw_stored w" "unresumed (bw_meta w)" "owner_set (bw_gs w) True"
    using assms(1) by (auto simp: opn_def open_pass_def owner_set_def)
  have "claimed w"
    using assms(3) w(4) by (auto simp: claimed_def owned_ok_def owner_set_def)
  then have ip: "in_pass w'"
    using keeps_maybeQuiesce [OF w(1) _ w(2), of cfg] w(3) pin assms(4) by (simp add: unresumed_def)
  have st: "unresumed (bw_stored w') \<and> owner_set (bw_gs w') True"
  proof (cases "bm_attempted (bw_meta w) \<in> {[], ''pending''}")
    case True
    then have "unpaid w" using w pin assms(3) by (auto simp: unpaid_def unresumed_def owned_ok_def bound_to_def)
    then have "unpaid w'" using unpaid_maybeQuiesce [of cfg] assms(4) by (fastforce simp: valid_def)
    then show ?thesis by (simp add: unpaid_def unresumed_def)
  next
    case False
    with maybeQuiesce_idle [OF this, of cfg] assms(4) w show ?thesis by simp
  qed
  have "opn owner_set w'" if "r = Inr x" for x
    using ip st maybeQuiesce_sync [OF w(2) assms(4) [unfolded that]] by (simp add: opn_def open_pass_def owner_set_def)
  with ip st show ?thesis by (auto simp: tidy_def safe_def in_pass_stored)
qed


lemma safe_confirm: "valid (opn owner_set) (confirmSource cfg g) (\<lambda>_. safe)"
proof -
  have man: "keeps (opn owner_set) recordBackupManifest"
    unfolding recordBackupManifest_def by (intro pass_rule)
  have adm: "valid P m (\<lambda>_. safe)" if "valid P m (admitted cfg)" for P and m :: "admission pass"
    by (rule valid_post [OF that]) (simp add: admitted_def)
  have fail: "valid (opn owner_set) (bnd (failBackup msg) (\<lambda>_. ret x)) (\<lambda>_. safe)" for msg and x :: admission
    by (rule valid_pre [OF _ open_safe], rule keeps_bnd [OF safe_fail keeps_simple(1)])
  have rec: "valid (opn owner_set) (bnd (attempt recordBackupManifest) (\<lambda>r. case r of
            Inr _ \<Rightarrow> ret Go
          | Inl e \<Rightarrow> if e = ForeignWorker then foreignWorker cfg
                     else bnd (failBackup (MsgErr ''cannot record capture metadata: '' e)) (\<lambda>_. ret (Later second)))) (\<lambda>_. safe)"
    by (rule valid_bnd [OF keeps_attempt [OF man]])
      (auto split: sum.split intro!: valid_ret adm [OF admitted_foreign] fail simp: open_safe)
  show ?thesis
    unfolding confirmSource_def
    by (rule tidy_attempt [OF tidy_prepareBackupSource])
      (auto intro!: adm admitted_stop rec valid_ret simp: open_safe)
qed

lemma pinned_faults [simp]: "pinned cfg (w\<lparr>bw_faults := fs\<rparr>) = pinned cfg w"
  by (simp add: pinned_def)

lemma safe_prepareBackupQuiesce: "valid (opn (\<lambda>_ _. True)) (prepareBackupQuiesce cfg) (\<lambda>_. safe)"
  unfolding prepareBackupQuiesce_def
proof (rule valid_bnd [OF admitted_workload])
  fix a
  let ?rest = "bnd ownedBackupTarget (\<lambda>found. case found of
         None \<Rightarrow> ret (Later (5 * second))
       | Some g \<Rightarrow> bnd (maybeQuiesce cfg) (\<lambda>_. confirmSource cfg g))"
  have own: "keeps (\<lambda>w. opn owner_set w \<and> pinned cfg w) ownedBackupTarget"
    unfolding valid_def
  proof (intro allI impI)
    fix w assume "opn owner_set w \<and> pinned cfg w"
    then show "opn owner_set (snd (ownedBackupTarget w)) \<and> pinned cfg (snd (ownedBackupTarget w))"
      using owned_faults [of w] by auto
  qed
  have mine: "valid (\<lambda>w. opn owner_set w \<and> pinned cfg w) ?rest (\<lambda>_. safe)"
  proof (rule valid_bnd [OF valid_owned [OF own]])
    fix found
    have "valid (\<lambda>w. opn owner_set w \<and> pinned cfg w \<and> owned_ok (Some g) w) (bnd (maybeQuiesce cfg) (\<lambda>_. confirmSource cfg g)) (\<lambda>_. safe)" for g
    proof (rule valid_bnd [where R = "tidy owner_set"])
      show "valid (\<lambda>w. opn owner_set w \<and> pinned cfg w \<and> owned_ok (Some g) w) (maybeQuiesce cfg) (tidy owner_set)"
        using pausing [OF _ _ _ surjective_pairing] by (auto simp: valid_def)
    qed (use safe_confirm in \<open>auto simp: valid_def tidy_def\<close>)
    then show "valid (\<lambda>w. (opn owner_set w \<and> pinned cfg w) \<and> (\<forall>f. Inr found = Inr f \<longrightarrow> owned_ok f w)) (case found of
         None \<Rightarrow> ret (Later (5 * second))
       | Some g \<Rightarrow> bnd (maybeQuiesce cfg) (\<lambda>_. confirmSource cfg g)) (\<lambda>_. safe)"
      by (cases found) (auto simp: valid_def ret_def open_safe)
  qed (use open_safe in blast)
  have gone: "safe (snd (?rest w))" if w: "in_pass w" "closing w" "owned_ok None w" for w
  proof -
    obtain r fs where own: "ownedBackupTarget w = (r, w\<lparr>bw_faults := fs\<rparr>)" using owned_faults by blast
    have none: "r = Inr None" if "r = Inr found" for found
      using owned_result [OF own [unfolded that]] w(3) that by (cases found) (auto simp: owned_ok_def)
    have "safe (w\<lparr>bw_faults := fs\<rparr>)"
      using w(1,2) by (auto simp: safe_def in_pass_def stored_ok_def debt_recorded_def closing_def closed_def)
    with own none show ?thesis by (cases r) (auto simp: bnd_def ret_def)
  qed
  show "valid (admitted cfg (Inr a)) (if a \<noteq> Go then ret a else ?rest) (\<lambda>_. safe)"
    using mine gone by (auto simp: valid_def admitted_def ret_def)
qed (simp add: admitted_def)

section \<open>Whole passes\<close>

definition load :: "bq_world \<Rightarrow> bq_world" where
  "load w = w\<lparr>bw_meta := bw_stored w, bw_status := bw_storedStatus w\<rparr>"

lemma load_in_pass: "stored_ok w \<Longrightarrow> in_pass (load w)"
  by (auto simp: stored_ok_def load_def in_pass_def debt_recorded_def)

lemma load_closing: "closed w \<Longrightarrow> closing (load w)"
  by (auto simp: closed_def closing_def load_def)

lemma closing_mirror:
  assumes "jb_succeeded job > 0"
  shows "keeps closing (mirrorJobStatus cfg job)"
proof -
  have st: "keeps closing (patchStatus (\<lambda>_. st))" if "terminal (bs_phase st)" for st
    using that unfolding patchStatus_def by (intro valid_modify) (auto simp: closing_def)
  have cond: "bs_phase (mirrorConditions now b st) = bs_phase st" for now b st
    by (simp add: mirrorConditions_def Let_def)
  have res: "keeps closing (mirrorResult cfg missing st)" if "bs_phase st = ''Succeeded''" for missing st
    unfolding mirrorResult_def recordServerBackupTime_def Let_def
    by (intro pass_rule st) (simp add: cond that terminal_def)
  have times: "bs_phase (mirrorTimes b job st) = ''Succeeded''" for b st
    using assms by (simp add: mirrorTimes_def jobPhase_def)
  have scr: "bs_phase st' = ''Succeeded''"
    if "scrapeSnapshot grace now job sm st = Scraped st' \<or> scrapeSnapshot grace now job sm st = Missing st'" "bs_phase st = ''Succeeded''" for grace now sm st st'
    using that by (auto simp: scrapeSnapshot_def split: if_splits sum.splits prod.splits)
  show ?thesis
    unfolding mirrorJobStatus_def Let_def
    by (rule keeps_bnd [OF keeps_simple(3)])
      (auto split: scrape.split simp: terminal_def times intro!: res cl.unrestorable_kept st keeps_bnd
         dest: scr [OF disjI1 times] scr [OF disjI2 times])
qed

text \<open>A Job that copied a Backup that counts as succeeded has itself succeeded.\<close>

definition job_ok :: "bq_world \<Rightarrow> bool" where
  "job_ok w \<longleftrightarrow> (\<forall>job. bs_phase (bw_storedStatus w) = ''Succeeded'' \<and> bw_job w = Inr (Some job) \<longrightarrow> jb_succeeded job > 0)"

definition same_job :: "bq_world \<Rightarrow> bool" where
  "same_job w \<longleftrightarrow> (\<forall>job. bs_phase (bw_status w) = ''Succeeded'' \<and> bw_job w = Inr (Some job) \<longrightarrow> jb_succeeded job > 0)"

lemma closing_finished: "valid (\<lambda>w. closing w \<and> same_job w) (reconcileFinished cfg) (\<lambda>_. closing)"
proof -
  have sync: "keeps (\<lambda>w. closing w \<and> same_job w) syncBackupConsistency"
  proof -
    have p: "keeps (\<lambda>w. closing w \<and> same_job w) (patchStatus (\<lambda>st. st\<lparr>bs_conditions := c\<rparr>))" for c
      unfolding patchStatus_def by (rule valid_modify) (auto simp: closing_def same_job_def)
    have u: "keeps (\<lambda>w. closing w \<and> same_job w) updateBackupStatus"
      unfolding updateBackupStatus_def api_def
      by (intro pass_rule valid_modify; auto simp: closing_def same_job_def valid_def nextFault_def split: list.split)
    show ?thesis unfolding syncBackupConsistency_def Let_def by (intro pass_rule p u)
  qed
  have retry: "closing (snd (retrySnapshotScrape cfg w))"
    if "closing w" "same_job w" "bs_phase (bw_status w) = ''Succeeded''" for w
  proof -
    show ?thesis
    proof (cases "bw_job w")
      case (Inr found)
      with that cl.unrestorable_kept closing_mirror show ?thesis
        by (cases found) (auto simp: retrySnapshotScrape_def bnd_def gets_def valid_def same_job_def)
    qed (use that in \<open>simp add: retrySnapshotScrape_def bnd_def gets_def raise_def\<close>)
  qed
  have rest: "closing (snd (abortResticCopy cfg m w))" "closing (snd (runUnquiesce cfg w))" if "closing w" for m w
    using that closing_abortResticCopy cl.run_kept by (auto simp: valid_def)
  show ?thesis
    unfolding reconcileFinished_def
    by (rule valid_bnd [OF sync]) (auto simp: valid_def bnd_def gets_def Let_def retry rest)
qed

section \<open>The controller's passes keep the debt\<close>

lemma closed_safe: "in_pass w \<Longrightarrow> closing w \<Longrightarrow> safe w"
  by (simp add: safe_def in_pass_stored closing_closed)

lemma load_open: "safe w \<Longrightarrow> \<not> closed w \<Longrightarrow> opn (\<lambda>_ _. True) (load w)"
  using load_in_pass [of w] by (auto simp: safe_def opn_def open_pass_def load_def)

end
