(* ===== verification/Backup_Life.thy ===== *)
theory Backup_Life
  imports Backup_Safety
begin

text \<open>
  The life of a Backup as a sequence of passes and of changes in the cluster, and what holds in every state
  it can reach: game saving is never off without a record of it.
\<close>

section \<open>The controller's passes keep the debt\<close>

lemma safe_finished:
  assumes "in_pass w" "closing w" "same_job w"
  shows "safe (snd (reconcileFinished cfg w))"
  using assms keeps_reconcileFinished closing_finished by (auto simp: valid_def intro: closed_safe)

lemma finalizers_in_pass: "keeps in_pass addFinalizers"
  unfolding addFinalizers_def by (intro pass_rule keeps_patchMeta) (auto simp: core_def owes_def)

text \<open>A pass over a finished Backup sees the status as stored until it writes it.\<close>

definition finished_as :: "bq_world \<Rightarrow> bool" where
  "finished_as w \<longleftrightarrow> closing w \<and> same_job w \<and> terminal (bs_phase (bw_status w)) \<and> bw_status w = bw_storedStatus w"

lemma finalizers_finished: "keeps finished_as addFinalizers"
proof -
  have p: "keeps finished_as (patchMeta (\<lambda>b. b\<lparr>bm_finalizer := True\<rparr>))" "keeps finished_as (patchMeta (\<lambda>b. b\<lparr>bm_snapshotFinalizer := True\<rparr>))"
    by (auto simp: patchMeta_def valid_def modify_def finished_as_def closing_def same_job_def)
  have f: "keeps finished_as nextFault"
    by (auto simp: valid_def nextFault_def finished_as_def closing_def same_job_def split: list.split)
  have "keeps finished_as updateBackup"
    unfolding updateBackup_def api_def
    by (intro keeps_bnd keeps_case keeps_simple f valid_modify) (auto simp: finished_as_def closing_def same_job_def)
  with p show ?thesis unfolding addFinalizers_def by (intro keeps_bnd keeps_if keeps_simple)
qed

lemma finalizers_open: "valid (\<lambda>w. opn H w \<and> \<not> terminal (bs_phase (bw_storedStatus w)) \<and> bw_status w = bw_storedStatus w) addFinalizers
   (\<lambda>r w. safe w \<and> (\<forall>x. r = Inr x \<longrightarrow> opn H w \<and> \<not> terminal (bs_phase (bw_status w))))"
proof -
  let ?P = "\<lambda>w. opn H w \<and> \<not> terminal (bs_phase (bw_storedStatus w)) \<and> bw_status w = bw_storedStatus w"
  let ?Q = "\<lambda>r w. safe w \<and> (\<forall>x. r = Inr x \<longrightarrow> ?P w)"
  have upd: "valid ?P (bnd (patchMeta f) (\<lambda>_. updateBackup)) ?Q"
    if "\<And>b. core (f b) = core b \<and> bm_attempted (f b) = bm_attempted b \<and> bm_unquiescedAt (f b) = bm_unquiescedAt b" for f
  proof -
    have t: "valid (opn H) (bnd (patchMeta f) (\<lambda>_. updateBackup)) (tidy H)"
      using that by (intro tidy_update) (auto simp: opn_def open_pass_def in_pass_def unresumed_def owes_def core_def)
    have "bw_storedStatus (snd (bnd (patchMeta f) (\<lambda>_. updateBackup) w)) = bw_storedStatus w \<and>
        (\<forall>x. fst (bnd (patchMeta f) (\<lambda>_. updateBackup) w) = Inr x \<longrightarrow> bw_status (snd (bnd (patchMeta f) (\<lambda>_. updateBackup) w)) = bw_storedStatus w)" for w
      by (auto simp: bnd_def patchMeta_def modify_def updateBackup_def api_def nextFault_def ret_def raise_def split: list.splits option.splits)
    with t show ?thesis by (auto simp: valid_def tidy_def)
  qed
  have stop: "valid ?P (ret x) ?Q" for x :: unit
    by (auto simp: valid_def ret_def open_safe)
  have "valid ?P addFinalizers ?Q"
    unfolding addFinalizers_def
  proof (rule valid_bnd [OF keeps_simple(3)])
    fix b :: backup_meta
    have one: "valid ?P (if bm_finalizer b then ret () else bnd (patchMeta (\<lambda>b. b\<lparr>bm_finalizer := True\<rparr>)) (\<lambda>_. updateBackup)) ?Q"
      by (intro valid_if stop upd) (simp add: core_def)
    have two: "valid ?P (bnd (gets id) (\<lambda>w. if wantsSnapshotFinalizer (bw_meta w) (bw_status w) \<and> \<not> bm_snapshotFinalizer (bw_meta w)
        then bnd (patchMeta (\<lambda>b. b\<lparr>bm_snapshotFinalizer := True\<rparr>)) (\<lambda>_. updateBackup) else ret ())) ?Q"
      by (rule valid_bnd [OF keeps_simple(3)], rule valid_if, rule upd, simp add: core_def, rule stop, use open_safe in blast)
    show "valid ?P (bnd (if bm_finalizer b then ret () else bnd (patchMeta (\<lambda>b. b\<lparr>bm_finalizer := True\<rparr>)) (\<lambda>_. updateBackup))
        (\<lambda>_. bnd (gets id) (\<lambda>w. if wantsSnapshotFinalizer (bw_meta w) (bw_status w) \<and> \<not> bm_snapshotFinalizer (bw_meta w)
        then bnd (patchMeta (\<lambda>b. b\<lparr>bm_snapshotFinalizer := True\<rparr>)) (\<lambda>_. updateBackup) else ret ()))) ?Q"
      by (rule valid_bnd [OF one]) (rule valid_pre [OF two], auto)
  qed (use open_safe in blast)
  then show ?thesis by (rule valid_post) auto
qed

lemma safe_reconcileOpen: "valid (opn (\<lambda>_ _. True)) (reconcileOpen cfg) (\<lambda>_. safe)"
proof -
  let ?P = "opn (\<lambda>_ _. True)"
  have legacy: "\<not> legacyBackupOwesUnquiesce (legacy_view (bw_meta w))" if "?P w" for w
    using that by (auto simp: opn_def open_pass_def unresumed_def legacyBackupOwesUnquiesce_def legacy_view_def)
  have fail: "valid ?P (failBackup m) (\<lambda>_. safe)" for m
    by (rule valid_pre [OF safe_fail open_safe])
  have copy: "valid ?P (bnd (prepareBackupQuiesce cfg) (\<lambda>a. ret (case a of Go \<Rightarrow> 10 * second | Later d \<Rightarrow> d))) (\<lambda>_. safe)"
    by (rule valid_bnd [OF safe_prepareBackupQuiesce]) (auto intro: keeps_simple)
  have repo: "valid ?P (checkRepository cfg m) (\<lambda>_. safe)" if "valid ?P m (\<lambda>_. safe)" for m
    unfolding checkRepository_def
    by (rule valid_bnd [OF keeps_simple(3)])
      (auto split: option.split sum.split intro!: fail that valid_bnd [OF keeps_simple(3)] valid_raise simp: open_safe)
  have "valid ?P (reconcileTarget cfg) (\<lambda>_. safe)"
    unfolding reconcileTarget_def
    by (rule valid_bnd [OF keeps_simple(3)], rule valid_bnd [OF open_getServer])
      (auto split: option.split intro!: fail repo copy simp: open_safe)
  with legacy show ?thesis
    by (auto simp: valid_def reconcileOpen_def bnd_def gets_def)
qed

lemma safe_reconcileBackup:
  assumes "safe w" "job_ok w"
  shows "safe (snd (reconcileBackup cfg (load w)))"
proof -
  have ip: "in_pass (load w)" using assms(1) load_in_pass by (simp add: safe_def)
  have loaded: "bw_meta (load w) = bw_stored w" "bw_status (load w) = bw_storedStatus w" "bw_storedStatus (load w) = bw_storedStatus w"
    by (simp_all add: load_def)
  consider (deleting) "bm_deleting (bw_stored w)" | (aborting) "\<not> bm_deleting (bw_stored w)" "bm_copyAbort (bw_stored w) \<noteq> NoMsg"
    | (finished) "\<not> bm_deleting (bw_stored w)" "bm_copyAbort (bw_stored w) = NoMsg" "terminal (bs_phase (bw_storedStatus w))"
    | (live) "\<not> bm_deleting (bw_stored w)" "bm_copyAbort (bw_stored w) = NoMsg" "\<not> terminal (bs_phase (bw_storedStatus w))" by blast
  then show ?thesis
  proof cases
    case deleting
    then have "closing (load w)" by (simp add: load_closing closed_def)
    with ip deleting loaded keeps_finalizeDelete [of cfg] closing_finalizeDelete [of cfg] show ?thesis
      by (auto simp: reconcileBackup_def bnd_def gets_def valid_def intro: closed_safe)
  next
    case aborting
    then have "closing (load w)" by (simp add: load_closing closed_def)
    with ip aborting loaded keeps_abortResticCopy(2) [of cfg] closing_abortResticCopy [of cfg] show ?thesis
      by (auto simp: reconcileBackup_def bnd_def gets_def valid_def intro: closed_safe)
  next
    case finished
    have "same_job (load w)" using assms(2) by (simp add: job_ok_def same_job_def load_def)
    moreover have "closing (load w)" using finished by (simp add: load_closing closed_def)
    ultimately have "in_pass (load w) \<and> finished_as (load w)" using ip finished loaded by (simp add: finished_as_def)
    moreover have "valid (\<lambda>w. in_pass w \<and> finished_as w) (bnd addFinalizers (\<lambda>_. bnd (gets bw_status) (\<lambda>st.
        if terminal (bs_phase st) then reconcileFinished cfg else reconcileOpen cfg))) (\<lambda>_. safe)"
      by (rule valid_bnd [where R = "\<lambda>_ w. in_pass w \<and> finished_as w"])
        (use finalizers_in_pass finalizers_finished safe_finished in
          \<open>auto simp: valid_def bnd_def gets_def finished_as_def intro: closed_safe\<close>)
    ultimately show ?thesis
      using finished loaded by (simp add: reconcileBackup_def bnd_def [of "gets bw_meta"] gets_def valid_def)
  next
    case live
    then have "\<not> closed w" by (simp add: closed_def)
    then have "opn (\<lambda>_ _. True) (load w)" by (rule load_open [OF assms(1)])
    moreover have "valid (\<lambda>w. opn (\<lambda>_ _. True) w \<and> \<not> terminal (bs_phase (bw_storedStatus w)) \<and> bw_status w = bw_storedStatus w)
      (bnd addFinalizers (\<lambda>_. bnd (gets bw_status) (\<lambda>st. if terminal (bs_phase st) then reconcileFinished cfg else reconcileOpen cfg))) (\<lambda>_. safe)"
      by (rule valid_bnd [OF finalizers_open])
        (use safe_reconcileOpen in \<open>auto simp: valid_def bnd_def gets_def\<close>)
    ultimately show ?thesis
      using live loaded by (simp add: reconcileBackup_def bnd_def [of "gets bw_meta"] gets_def valid_def)
  qed
qed

lemma safe_abort:
  assumes "safe w"
  shows "safe (snd (abortResticCopy cfg m (load w)))"
proof (cases "closed w")
  case True
  then have "closing (load w)" by (rule load_closing)
  moreover have "in_pass (load w)" using assms load_in_pass by (simp add: safe_def)
  ultimately show ?thesis
    using keeps_abortResticCopy(2) [of cfg] closing_abortResticCopy [of cfg] by (auto simp: valid_def intro: closed_safe)
next
  case False
  from load_open [OF assms this] abort_open [of _ cfg m] show ?thesis by (auto simp: valid_def aborted_def)
qed

section \<open>Following the copy of a Backup that has paused\<close>

text \<open>Once pausing has an outcome, nothing that follows the copy changes it.\<close>

definition steady :: "string \<Rightarrow> bq_world \<Rightarrow> bool" where
  "steady a w \<longleftrightarrow> bm_attempted (bw_meta w) = a \<and> bm_attempted (bw_stored w) = a \<and>
     (a \<noteq> [] \<longrightarrow> bm_target (bw_meta w) \<noteq> None \<and> bm_target (bw_stored w) \<noteq> None \<and>
        bm_preparation (bw_meta w) \<noteq> None \<and> bm_preparation (bw_stored w) \<noteq> None) \<and>
     (a = [] \<longrightarrow> bm_unquiescedAt (bw_meta w) = None \<and> bm_unquiescedAt (bw_stored w) = None)"

interpretation sd: pass_frame "steady a" for a
proof unfold_locales
  show fault: "keeps (steady a) nextFault"
    by (auto simp: valid_def nextFault_def steady_def split: list.splits)
  have api: "keeps (steady a) api"
    unfolding api_def by (intro keeps_bnd keeps_case keeps_simple fault)
  show "keeps (steady a) updateBackup" "keeps (steady a) updateBackupStatus"
    unfolding updateBackup_def updateBackupStatus_def by (intro keeps_bnd api valid_modify; auto simp: steady_def)+
  then show "keeps (steady a) (failBackup msg)" for msg
    unfolding failBackup_def by (intro keeps_bnd keeps_simple valid_modify) (auto simp: steady_def)
qed (auto simp: valid_def nextAnswer_def modify_def steady_def patchStatus_def patchMeta_def split: list.splits)

lemma steady_resumed: "keeps (steady a) (maybeUnquiesce cfg)"
proof (cases "a = []")
  case True
  then show ?thesis by (simp add: valid_def maybeUnquiesce_def bnd_def gets_def steady_def ret_def)
next
  case False
  then have "keeps (steady a) (patchMeta (\<lambda>b. b\<lparr>bm_unquiescedAt := t\<rparr>))" for t
    by (auto simp: valid_def patchMeta_def modify_def steady_def)
  then have "keeps (steady a) recordBackupUnquiesced"
    unfolding recordBackupUnquiesced_def by (intro pass_rule)
  then show ?thesis by (rule sd.maybeUnquiesce_kept)
qed

interpretation sd: resume_frame "steady a" for a
  by unfold_locales (rule steady_resumed)

lemma steady_mirror: "keeps (steady a) (mirrorJobStatus cfg job)"
proof -
  have any: "keeps (steady a) (patchStatus f)" for f
    by (auto simp: valid_def patchStatus_def modify_def steady_def)
  have "keeps (steady a) (mirrorResult cfg missing st)" for missing st
    unfolding mirrorResult_def Let_def by (intro pass_rule any)
  with any show ?thesis
    unfolding mirrorJobStatus_def Let_def by (intro pass_rule) (auto split: scrape.split intro!: pass_rule)
qed

lemma safe_follow:
  assumes "safe w" "\<not> closed w" "bm_attempted (bw_stored w) \<noteq> ''pending''"
  shows "safe (snd (mirrorJobStatus cfg job (load w)))"
proof -
  let ?a = "bm_attempted (bw_stored w)"
  have "steady ?a (load w)"
    using assms(1,2) by (auto simp: steady_def load_def safe_def unresumed_def)
  then have "steady ?a (snd (mirrorJobStatus cfg job (load w)))"
    using steady_mirror [of ?a cfg job] by (simp add: valid_def)
  moreover have "in_pass (snd (mirrorJobStatus cfg job (load w)))"
    using assms(1) load_in_pass [of w] keeps_mirrorJobStatus [of cfg job] by (simp add: valid_def safe_def)
  ultimately show ?thesis
    using assms(3) by (auto simp: safe_def in_pass_stored steady_def unresumed_def)
qed

section \<open>The life of a Backup\<close>

text \<open>What may happen to a Backup: a pass of the controller, a pass that follows the copy of a Backup that has
  paused, a pass that aborts the copy; another operation's claim on the GameServer, while the Backup is
  seen to exist; the game's process ending, being replaced or changing phase; the GameServer being
  edited, deleted or created anew; the Backup being deleted by its user; and anything else a pass observes
  changing, the clock and the outcomes of calls included.  Only the agent can pause, so outside passes saving
  can only come back on.\<close>

definition same_process :: "lc_pod option \<Rightarrow> lc_pod option \<Rightarrow> bool" where
  "same_process was now \<longleftrightarrow> (\<exists>p q. was = Some p \<and> now = Some q \<and> pd_uid p = pd_uid q \<and> \<not> exited q)"

definition same_guards :: "backup_meta \<Rightarrow> lc_server option \<Rightarrow> lc_server option \<Rightarrow> bool" where
  "same_guards b was now \<longleftrightarrow> (\<forall>g'. now = Some g' \<and> bound_to b g' \<longrightarrow> (\<exists>g. was = Some g \<and> bound_to b g \<and>
     (ownsTarget (bm_object b) (ls_uid g) g = Inr True \<longrightarrow> ls_owner g' = ls_owner g \<and> ls_backup_guard g' = ls_backup_guard g)))"

definition same_objects :: "bq_world \<Rightarrow> bq_world \<Rightarrow> bool" where
  "same_objects w w' \<longleftrightarrow> bw_stored w' = bw_stored w \<and> bw_storedStatus w' = bw_storedStatus w \<and> bw_gs w' = bw_gs w \<and>
     bw_pod w' = bw_pod w \<and> bw_supports w' = bw_supports w \<and> bw_frozen w' = bw_frozen w"

definition seen_to_exist :: "lc_object \<Rightarrow> lc_env \<Rightarrow> bool" where
  "seen_to_exist b env \<longleftrightarrow> (\<forall>i. li_kind i = ''Backup'' \<and> li_name i = lb_name b \<and> li_uid i = lb_uid b \<longrightarrow>
     lifecycleOwnerExists env i \<noteq> Inr False)"

inductive bq_step :: "bq_world \<Rightarrow> bq_world \<Rightarrow> bool" where
  pass: "job_ok w \<Longrightarrow> bq_step w (snd (reconcileBackup cfg (load w)))"
| follow: "\<not> closed w \<Longrightarrow> bm_attempted (bw_stored w) \<noteq> ''pending'' \<Longrightarrow>
    bq_step w (snd (mirrorJobStatus cfg job (load w)))"
| abort: "bq_step w (snd (abortResticCopy cfg m (load w)))"
| claim: "bw_gs w = Some g \<Longrightarrow> seen_to_exist (bm_object (bw_stored w)) env \<Longrightarrow>
    \<not> (li_kind want = ''Backup'' \<and> li_uid want = lb_uid (bm_object (bw_stored w))) \<Longrightarrow>
    bq_step w (w\<lparr>bw_gs := Some (snd (claimLifecycleOperation env want g))\<rparr>)"
| process: "(off \<longrightarrow> bw_frozen w \<and> same_process (bw_pod w) p \<and> pauses) \<Longrightarrow>
    bq_step w (w\<lparr>bw_pod := p, bw_frozen := off, bw_supports := pauses\<rparr>)"
| server: "same_guards (bw_stored w) (bw_gs w) found \<Longrightarrow> bq_step w (w\<lparr>bw_gs := found\<rparr>)"
| deletion: "bq_step w (w\<lparr>bw_stored := (bw_stored w)\<lparr>bm_deleting := True\<rparr>\<rparr>)"
| elsewhere: "same_objects w w' \<Longrightarrow> bq_step w w'"

inductive_cases bq_stepE: "bq_step w w'"

lemma safe_frame:
  assumes "safe w" "bw_stored w' = bw_stored w" "bw_storedStatus w' = bw_storedStatus w" "stored_ok w'"
  shows "safe w'"
  using assms by (auto simp: safe_def closed_def)

lemma carries_same:
  assumes "carries b pod g" "ls_uid g' = ls_uid g" "ls_owner g' = ls_owner g" "ls_backup_guard g' = ls_backup_guard g"
  shows "carries b pod g'"
  using assms by (auto simp: carries_def backupLifecycleIdentity_def)

text \<open>A claim on a GameServer whose owner is seen to exist is refused.\<close>

lemma claim_refused:
  assumes "carries b pod g" "seen_to_exist b env" "\<not> (li_kind want = ''Backup'' \<and> li_uid want = lb_uid b)"
  shows "snd (claimLifecycleOperation env want g) = g"
proof -
  obtain op where op: "ls_owner g = Some (Inr op)" "parseLifecycleOperation (Inr op) = Inr op"
    "sameLifecycleOwner (lo_identity op) (backupLifecycleIdentity g b False)"
    using assms(1) by (auto simp: carries_def)
  have owner: "lifecycleOwner g = Inr (Some op)"
    using op by (simp add: lifecycleOwner_def sameLifecycleOwner_def backupLifecycleIdentity_def identity_def)
  have other: "\<not> sameLifecycleOwner (lo_identity op) want"
    using op(3) assms(3) by (auto simp: sameLifecycleOwner_def backupLifecycleIdentity_def identity_def)
  have alive: "lifecycleOwnerExists env (lo_identity op) \<noteq> Inr False"
    using op(3) assms(2) by (auto simp: seen_to_exist_def sameLifecycleOwner_def backupLifecycleIdentity_def identity_def)
  obtain res store where run: "claimLifecycleOperation env want g = (res, store)" by fastforce
  then show ?thesis
  proof (cases rule: claim_cases)
    case (admitted op1 before rec gs)
    from admitted(1) show ?thesis using owner other alive by (cases rule: admit_cases) auto
  qed (use run in simp)
qed

lemma debt_edited:
  assumes "debt_recorded w" "same_guards (bw_stored w) (bw_gs w) found"
  shows "debt_recorded (w\<lparr>bw_gs := found\<rparr>)"
proof -
  have "carries b pod g'" if "found = Some g'" "bound_to (bw_stored w) g'" "b = bm_object (bw_stored w)"
    "\<forall>g. bw_gs w = Some g \<and> bound_to (bw_stored w) g \<longrightarrow> carries b pod g" for b pod g'
  proof -
    obtain g where g: "bw_gs w = Some g" "bound_to (bw_stored w) g"
      "ownsTarget b (ls_uid g) g = Inr True \<longrightarrow> ls_owner g' = ls_owner g \<and> ls_backup_guard g' = ls_backup_guard g"
      using assms(2) \<open>found = Some g'\<close> \<open>bound_to (bw_stored w) g'\<close> \<open>b = _\<close> unfolding same_guards_def by blast
    with that(4) have c: "carries b pod g" by blast
    from g(2) that(2) have "ls_uid g' = ls_uid g" by (simp add: bound_to_def)
    with c g(3) carries_owns [OF c] show ?thesis by (intro carries_same [OF c]) simp_all
  qed
  with assms(1) show ?thesis unfolding debt_recorded_def by simp metis
qed

lemma safe_step:
  assumes "bq_step w w'" "safe w"
  shows "safe w'"
  using assms
proof (induction rule: bq_step.induct)
  case (claim w g env want)
  let ?g = "snd (claimLifecycleOperation env want g)"
  have "?g = g" if off: "bw_frozen w" "bound_to (bw_stored w) g"
  proof -
    obtain pod where "carries (bm_object (bw_stored w)) pod g"
      using claim.prems claim.hyps(1) off by (auto simp: safe_def stored_ok_def debt_recorded_def)
    then show ?thesis using claim.hyps(2,3) by (rule claim_refused)
  qed
  moreover have "bound_to (bw_stored w) ?g \<longleftrightarrow> bound_to (bw_stored w) g"
    using claim_names [OF surjective_pairing, of env want g] by (simp add: bound_to_def)
  ultimately have "stored_ok (w\<lparr>bw_gs := Some ?g\<rparr>)"
    using claim.prems claim.hyps(1) by (auto simp: safe_def stored_ok_def debt_recorded_def)
  then show ?case by (rule safe_frame [OF claim.prems, rotated 2]) simp_all
next
  case (process off w p pauses)
  then have "stored_ok (w\<lparr>bw_pod := p, bw_frozen := off, bw_supports := pauses\<rparr>)"
    by (auto simp: safe_def stored_ok_def debt_recorded_def same_process_def)
  then show ?case by (rule safe_frame [OF process.prems, rotated 2]) simp_all
next
  case (server w found)
  have "stored_ok (w\<lparr>bw_gs := found\<rparr>)"
    using server by (simp add: safe_def stored_ok_def debt_edited)
  then show ?case by (rule safe_frame [OF server.prems, rotated 2]) simp_all
next
  case (deletion w)
  then show ?case by (auto simp: safe_def stored_ok_def debt_recorded_def closed_def owes_def bound_to_def parseBackupPreparation_def)
next
  case (elsewhere w w')
  then have "stored_ok w'"
    by (auto simp: safe_def stored_ok_def debt_recorded_def same_objects_def)
  with elsewhere show ?case by (intro safe_frame [of w w']) (auto simp: same_objects_def)
qed (auto intro: safe_reconcileBackup safe_follow safe_abort)

text \<open>Before its first pass a Backup has paused nothing.\<close>

definition fresh :: "bq_world \<Rightarrow> bool" where
  "fresh w \<longleftrightarrow> \<not> bw_frozen w \<and> bm_attempted (bw_stored w) = [] \<and> bm_unquiescedAt (bw_stored w) = None"

lemma reachable_safe:
  assumes "bq_step\<^sup>*\<^sup>* w0 w" "fresh w0"
  shows "safe w"
  using assms(1)
proof (induction rule: rtranclp_induct)
  case base
  with assms(2) show ?case by (simp add: fresh_def safe_def stored_ok_def unresumed_def)
qed (rule safe_step)

lemma carries_owner:
  assumes "carries b pod g"
  obtains op where "lifecycleOwner g = Inr (Some op)" "ls_owner g = Some (Inr op)"
    "sameLifecycleOwner (lo_identity op) (backupLifecycleIdentity g b False)"
    "li_needsUnquiesce (lo_identity op)" "li_quiescePod (lo_identity op) = pod"
proof -
  obtain op where op: "ls_owner g = Some (Inr op)" "parseLifecycleOperation (Inr op) = Inr op"
    "sameLifecycleOwner (lo_identity op) (backupLifecycleIdentity g b False)"
    "li_needsUnquiesce (lo_identity op)" "li_quiescePod (lo_identity op) = pod"
    using assms by (auto simp: carries_def)
  moreover have "lifecycleOwner g = Inr (Some op)"
    using op by (simp add: lifecycleOwner_def sameLifecycleOwner_def backupLifecycleIdentity_def identity_def)
  ultimately show ?thesis using that by blast
qed

lemma debt_on_server:
  assumes "safe w" "bw_frozen w" "bw_gs w = Some g" "bound_to (bw_stored w) g"
  obtains p where "bw_pod w = Some p" "\<not> exited p" "carries (bm_object (bw_stored w)) (pd_uid p) g"
proof -
  obtain p prep where "bw_pod w = Some p" "\<not> exited p" "prep \<noteq> None" "\<forall>q. prep = Some q \<longrightarrow> pr_pod q = pd_uid p"
    "carries (bm_object (bw_stored w)) (preparedPod prep) g"
    using assms by (auto simp: safe_def stored_ok_def debt_recorded_def)
  then show ?thesis using that [of p] by (auto simp: preparedPod_def)
qed

section \<open>Saving is never off without a record of it\<close>

text \<open>C11. Whatever passes a Backup has been through, whichever of their calls failed and whatever happened to
  the game, the GameServer and the Backup in between: if saving is off because of this Backup, the stored
  Backup says that it has paused and not resumed, the paused process has not exited, and the GameServer it
  is bound to, if it still exists, names the Backup as its owner and says that saving has to be resumed, in
  the very pod that was paused.\<close>

theorem saving_never_forgotten:
  assumes "bq_step\<^sup>*\<^sup>* w0 w" "fresh w0" "bw_frozen w"
  shows "bm_attempted (bw_stored w) \<in> - {[], ''unsupported''} \<and> bm_unquiescedAt (bw_stored w) = None \<and>
    (\<exists>p. bw_pod w = Some p \<and> \<not> exited p \<and>
      (\<forall>g. bw_gs w = Some g \<and> bound_to (bw_stored w) g \<longrightarrow> (\<exists>op. lifecycleOwner g = Inr (Some op) \<and>
         sameLifecycleOwner (lo_identity op) (backupLifecycleIdentity g (bm_object (bw_stored w)) True) \<and>
         li_needsUnquiesce (lo_identity op) \<and> li_quiescePod (lo_identity op) = pd_uid p)))"
proof -
  have s: "safe w" using assms(1,2) by (rule reachable_safe)
  then have "debt_recorded w" using assms(3) by (simp add: safe_def stored_ok_def)
  then obtain p where p: "bw_pod w = Some p" "\<not> exited p" and o: "owes (bw_stored w)" by (auto simp: debt_recorded_def)
  have "\<exists>op. lifecycleOwner g = Inr (Some op) \<and>
      sameLifecycleOwner (lo_identity op) (backupLifecycleIdentity g (bm_object (bw_stored w)) True) \<and>
      li_needsUnquiesce (lo_identity op) \<and> li_quiescePod (lo_identity op) = pd_uid p"
    if g: "bw_gs w = Some g" "bound_to (bw_stored w) g" for g
  proof -
    have "carries (bm_object (bw_stored w)) (pd_uid p) g"
      using debt_on_server [OF s assms(3) g] p(1) by (metis option.inject)
    then show ?thesis
      by (rule carries_owner) (use p(1) in \<open>auto simp: sameLifecycleOwner_def backupLifecycleIdentity_def identity_def\<close>)
  qed
  with p o show ?thesis by (auto simp: owes_def)
qed

text \<open>C12. The hand-over after a deletion that was abandoned with saving off: an operation that is not this
  Backup is granted the GameServer only when the Backup is seen to be gone and the agent has confirmed, in
  the very pod that was paused, that saving is resumed.\<close>

theorem abandoned_debt_handed_on:
  assumes "bq_step\<^sup>*\<^sup>* w0 w" "fresh w0" "bw_frozen w" "bw_gs w = Some g" "bound_to (bw_stored w) g" "bw_pod w = Some p"
    and "le_gamePod env = PodFound p" "\<not> (li_kind want = ''Backup'' \<and> li_uid want = lb_uid (bm_object (bw_stored w)))"
    and "claimLifecycleOperation env want g = (Inr True, store)"
  shows "\<not> seen_to_exist (bm_object (bw_stored w)) env \<and> pd_uid p \<noteq> [] \<and> le_unquiesce env (pd_uid p) = None \<and>
    ls_owner store = Some (Inr \<lparr>lo_identity = want, lo_recovery = []\<rparr>)"
proof -
  let ?b = "bm_object (bw_stored w)"
  have pod: "\<not> exited p" "carries ?b (pd_uid p) g"
    using debt_on_server [OF reachable_safe [OF assms(1,2)] assms(3-5)] assms(6) by (metis option.inject)+
  obtain op where op: "lifecycleOwner g = Inr (Some op)" "sameLifecycleOwner (lo_identity op) (backupLifecycleIdentity g ?b False)"
    "li_needsUnquiesce (lo_identity op)" "li_quiescePod (lo_identity op) = pd_uid p"
    using carries_owner [OF pod(2)] by metis
  have other: "\<not> sameLifecycleOwner (lo_identity op) want"
    using op(2) assms(8) by (auto simp: sameLifecycleOwner_def backupLifecycleIdentity_def identity_def)
  note r = claim_recovers [OF assms(9) op(1) other]
  have "\<not> seen_to_exist ?b env"
    using r op(2) by (auto simp: seen_to_exist_def sameLifecycleOwner_def backupLifecycleIdentity_def identity_def)
  moreover have "backupQuiesceProcessGone env (pd_uid p) \<noteq> Inr True"
    using pod(1) assms(7) by (auto simp: backupQuiesceProcessGone_def exited_def)
  then have "pd_uid p \<noteq> [] \<and> le_unquiesce env (pd_uid p) = None"
    using r op(3,4) by auto
  ultimately show ?thesis using r by auto
qed

section \<open>Deleting a Backup, with an agent that does not answer\<close>



















section \<open>Runs\<close>

text \<open>One pass over a Backup of a running server, everything answering: it pauses saving.\<close>

definition bm0 :: backup_meta where
  "bm0 = \<lparr>bm_object = \<lparr>lb_name = ''b'', lb_uid = ''v'', lb_generation = 1\<rparr>, bm_server = ''s'', bm_quiesce = True, bm_deleting = False,
     bm_finalizer = False, bm_snapshotFinalizer = False, bm_repo = Some ''r'', bm_target = None, bm_attempted = [], bm_quiescedAt = [], bm_unquiescedAt = None, bm_preparation = None,
     bm_cleanupOutcome = [], bm_retryFirstFailedAt = None, bm_copyAbort = NoMsg, bm_snapshotAborted = False, bm_recovery = None,
     bm_deadlines = (\<lambda>_. None)\<rparr>"

definition bs0 :: backup_status where
  "bs0 = \<lparr>bs_phase = [], bs_message = NoMsg, bs_snapshotID = [], bs_size = None, bs_start = None, bs_completion = None,
     bs_observed = 0, bs_conditions = [], bs_manifest = None\<rparr>"

definition bw0 :: bq_world where
  "bw0 = \<lparr>bw_meta = bm0, bw_status = bs0, bw_stored = bm0, bw_storedStatus = bs0, bw_gs = Some lc_server0,
     bw_pod = Some \<lparr>pd_name = ''s-0'', pd_uid = ''p'', pd_deleting = False, pd_phase = ''Running'', pd_claims = []\<rparr>,
     bw_podController = ''w'',
     bw_workload = Some \<lparr>sf_controlled = True, sf_owner = None, sf_replicas = Some 1, sf_statusReplicas = 1,
        sf_observedGeneration = 1, sf_generation = 1, sf_currentRevision = [], sf_updateRevision = [], sf_uid = ''w''\<rparr>,
     bw_token = None, bw_supports = True, bw_frozen = False, bw_faults = [], bw_rpc = [], bw_env = lc_env0, bw_worker = WorkerNone,
     bw_job = Inr None, bw_drained = Inr True, bw_secret = Inr (Some \<lparr>rs_data = (\<lambda>_. Some ''x''), rs_stringData = (\<lambda>_. None)\<rparr>), bw_summary = Inl (BqError []), bw_manifest = Inr ''Recorded'',
     bw_snapshotCleanup = Inr 0, bw_lastBackup = None, bw_now = 0, bw_events = []\<rparr>"

definition bc0 :: bq_config where
  "bc0 = \<lparr>bc_agent = True, bc_podBound = True, bc_scrapeGrace = 0\<rparr>"

definition bw1 :: bq_world where
  "bw1 = snd (reconcileBackup bc0 (load bw0))"

definition game_pod :: lc_pod where
  "game_pod = \<lparr>pd_name = ''s-0'', pd_uid = ''p'', pd_deleting = False, pd_phase = ''Running'', pd_claims = []\<rparr>"

definition handover_env :: lc_env where
  "handover_env = lc_env0\<lparr>le_gamePod := PodFound game_pod\<rparr>"

definition next_owner :: lifecycle_identity where
  "next_owner = identity ''Backup'' ''c'' ''x'' ''u'' 1 [] False"

lemma first_pass:
  "bw_frozen bw1 \<and> bw_pod bw1 = Some game_pod \<and> lb_uid (bm_object (bw_stored bw1)) = ''v'' \<and>
   set_with (bw_gs bw1) (\<lambda>g. bound_to (bw_stored bw1) g \<and> fst (claimLifecycleOperation handover_env next_owner g) = Inr True)"
  unfolding game_pod_def by code_simp

lemma first_step: "bq_step\<^sup>*\<^sup>* bw0 bw1"
  unfolding bw1_def by (rule r_into_rtranclp, rule bq_step.pass) (simp_all add: job_ok_def bw0_def bm0_def)

lemma bw0_fresh: "fresh bw0"
  by (simp add: fresh_def bw0_def bm0_def)

theorem saving_never_forgotten_witness:
  "\<exists>w. bq_step\<^sup>*\<^sup>* bw0 w \<and> bw_frozen w \<and> bm_attempted (bw_stored w) \<noteq> [] \<and> bm_unquiescedAt (bw_stored w) = None"
  using saving_never_forgotten [OF first_step bw0_fresh] first_pass first_step by blast

theorem abandoned_debt_handed_on_witness:
  "\<exists>g store. bw_gs bw1 = Some g \<and> claimLifecycleOperation handover_env next_owner g = (Inr True, store) \<and>
     le_unquiesce handover_env ''p'' = None \<and> ls_owner store = Some (Inr \<lparr>lo_identity = next_owner, lo_recovery = []\<rparr>)"
proof -
  obtain g where g: "bw_gs bw1 = Some g" "bound_to (bw_stored bw1) g" "fst (claimLifecycleOperation handover_env next_owner g) = Inr True"
    using first_pass by auto
  then obtain store where st: "claimLifecycleOperation handover_env next_owner g = (Inr True, store)"
    by (cases "claimLifecycleOperation handover_env next_owner g") auto
  have "le_gamePod handover_env = PodFound game_pod" by (simp add: handover_env_def lc_env0_def)
  moreover have "\<not> (li_kind next_owner = ''Backup'' \<and> li_uid next_owner = lb_uid (bm_object (bw_stored bw1)))"
    using first_pass by (simp add: next_owner_def identity_def)
  ultimately show ?thesis
    using abandoned_debt_handed_on [OF first_step bw0_fresh _ g(1,2) _ _ _ st, of game_pod] first_pass g(1) st
    by (simp add: game_pod_def)
qed

text \<open>A Backup being deleted whose agent does not answer, and the same ten minutes later.\<close>

definition bmd :: backup_meta where
  "bmd = bm0\<lparr>bm_deleting := True, bm_finalizer := True, bm_target := Some (Inr (''s'', ''u'')), bm_attempted := ''true'',
     bm_preparation := Some (Inr \<lparr>pr_outcome = ''live'', pr_target = ''u'', pr_workload = ''w'', pr_generation = 1, pr_pod = ''p''\<rparr>)\<rparr>"

definition bwd :: bq_world where
  "bwd = bw0\<lparr>bw_meta := bmd, bw_stored := bmd, bw_frozen := True, bw_rpc := [Broken ''down'' True], bw_gs :=
     Some (lc_server0\<lparr>ls_backup_guard := Some (Inr (''b'', ''v'')), ls_owner := Some (Inr \<lparr>lo_identity =
       (identity ''Backup'' ''b'' ''v'' ''u'' 1 [] True)\<lparr>li_quiescePod := ''p''\<rparr>, lo_recovery = []\<rparr>)\<rparr>)\<rparr>"

definition later :: "bq_world \<Rightarrow> time \<Rightarrow> bq_world" where
  "later w t = (snd (reconcileBackup bc0 (load w)))\<lparr>bw_now := t, bw_rpc := [Broken ''down'' True]\<rparr>"




text \<open>With a prepared copy that has not succeeded, deletion aborts the copy first, and the abort comes back every thirty
  seconds for as long as the agent does not resume: a thousand minutes after the first attempt the Backup still
  has its finalizer, saving is still off, and nothing counts the time that has passed.\<close>

definition bwp :: bq_world where
  "bwp = bwd\<lparr>bw_stored := bmd\<lparr>bm_deadlines := [preparationDeadlineKey \<mapsto> Inr 0]\<rparr>\<rparr>"

lemma deletion_of_unfinished_copy_waits:
  "fst (reconcileBackup bc0 (load bwp)) = Inr (30 * second)"
  "fst (reconcileBackup bc0 (load (later bwp (1000 * minute)))) = Inr (30 * second)"
  "bm_finalizer (bw_stored (snd (reconcileBackup bc0 (load (later bwp (1000 * minute)))))) \<and>
   bw_frozen (snd (reconcileBackup bc0 (load (later bwp (1000 * minute))))) \<and>
   bm_retryFirstFailedAt (bw_stored (snd (reconcileBackup bc0 (load (later bwp (1000 * minute)))))) = None"
  by code_simp+

text \<open>Deleting the GameServer is taken as confirmation: with its object gone, the Backup is released at once, with
  no call to the agent and no event, while the paused process may still be running.\<close>

lemma deleted_server_unconfirmed:
  "fst (finalizeUnquiesce bc0 (bwd\<lparr>bw_gs := None\<rparr>)) = Inr 0 \<and>
   \<not> bm_finalizer (bw_stored (snd (finalizeUnquiesce bc0 (bwd\<lparr>bw_gs := None\<rparr>)))) \<and>
   bw_frozen (snd (finalizeUnquiesce bc0 (bwd\<lparr>bw_gs := None\<rparr>))) \<and>
   bw_pod (snd (finalizeUnquiesce bc0 (bwd\<lparr>bw_gs := None\<rparr>))) = Some game_pod \<and>
   bw_events (snd (finalizeUnquiesce bc0 (bwd\<lparr>bw_gs := None\<rparr>))) = []"
  by code_simp

end
