(* ===== verification/Retention.thy ===== *)
theory Retention
  imports Go_Time "HOL-Library.Multiset"
begin

text \<open>
  Backup retention, \<^verbatim>\<open>operator/internal/controller/retention.go\<close>: which of a schedule's backups the
  operator deletes.  The answers of the API server to the two list calls and to each delete call are
  arguments; \<^verbatim>\<open>sort.Slice\<close>, which leaves the order of equal elements open, is an argument required to return
  its input reordered newest first.
\<close>

section \<open>Definitions\<close>

record backup =
  b_name :: string
  b_phase :: string
  b_completion :: "time option"
  b_deleting :: bool

record retention =
  keepLast :: int
  keepHourly :: int
  keepDaily :: int
  keepWeekly :: int
  keepMonthly :: int
  keepYearly :: int

record restore_ref =
  r_phase :: string
  r_backup :: string

definition day_of :: "time \<Rightarrow> int" where
  "day_of t = t div second div 86400"

text \<open>\<^verbatim>\<open>Time.ISOWeek\<close>: the year and week of the Thursday of the day's week (day 0 is a Thursday).\<close>

definition thursday_of :: "int \<Rightarrow> int" where
  "thursday_of n = n - (n + 3) mod 7 + 3"

definition iso_week :: "int \<Rightarrow> int \<times> int" where
  "iso_week n =
     (let th = thursday_of n; y = year_of_days (th + days_before_year 1970)
      in (y, (th + days_before_year 1970 - days_before_year y) div 7 + 1))"

definition isoWeekKey :: "int \<Rightarrow> int \<Rightarrow> string" where
  "isoWeekKey year week = pad4 year @ ''-W'' @ pad2 week"

datatype bucket_kind = Hour | Day | Week | Month | Year

definition bucket :: "bucket_kind \<Rightarrow> time \<Rightarrow> string" where
  "bucket which t =
     (case civil_of_days (day_of t) of (y, m, d) \<Rightarrow>
      case which of
        Hour \<Rightarrow> pad4 y @ ''-'' @ pad2 m @ ''-'' @ pad2 d @ ''T'' @ pad2 (t div second mod 86400 div 3600)
      | Day \<Rightarrow> pad4 y @ ''-'' @ pad2 m @ ''-'' @ pad2 d
      | Week \<Rightarrow> (case iso_week (day_of t) of (wy, w) \<Rightarrow> isoWeekKey wy w)
      | Month \<Rightarrow> pad4 y @ ''-'' @ pad2 m
      | Year \<Rightarrow> pad4 y)"

definition completed_at :: "backup \<Rightarrow> time" where
  "completed_at b = the (b_completion b)"

text \<open>The loop of \<^verbatim>\<open>keepByBucket\<close>: the backups it adds to the kept set.\<close>

fun keepByBucket_loop :: "int \<Rightarrow> (backup \<Rightarrow> string) \<Rightarrow> string list \<Rightarrow> backup list \<Rightarrow> backup list" where
  "keepByBucket_loop n key seen [] = []"
| "keepByBucket_loop n key seen (b # bs) =
     (if key b \<in> set seen then keepByBucket_loop n key seen bs
      else let seen' = key b # seen in
        if int (length seen') \<ge> n then [b] else b # keepByBucket_loop n key seen' bs)"

definition keepByBucket :: "int \<Rightarrow> bucket_kind \<Rightarrow> backup list \<Rightarrow> backup list" where
  "keepByBucket n which newestFirst =
     (if n \<le> 0 then [] else keepByBucket_loop n (\<lambda>b. bucket which (completed_at b)) [] newestFirst)"

definition keepNewest :: "int \<Rightarrow> backup list \<Rightarrow> backup list" where
  "keepNewest n newestFirst = (if n > 0 then take (nat n) newestFirst else [])"

definition selectKept :: "backup list \<Rightarrow> retention \<Rightarrow> string set" where
  "selectKept newestFirst ret =
     b_name ` set (keepNewest (keepLast ret) newestFirst
       @ keepByBucket (keepHourly ret) Hour newestFirst
       @ keepByBucket (keepDaily ret) Day newestFirst
       @ keepByBucket (keepWeekly ret) Week newestFirst
       @ keepByBucket (keepMonthly ret) Month newestFirst
       @ keepByBucket (keepYearly ret) Year newestFirst)"

definition retention_enabled :: "retention \<Rightarrow> bool" where
  "retention_enabled ret \<longleftrightarrow> \<not> (keepLast ret \<le> 0 \<and> keepHourly ret \<le> 0 \<and> keepDaily ret \<le> 0
     \<and> keepWeekly ret \<le> 0 \<and> keepMonthly ret \<le> 0 \<and> keepYearly ret \<le> 0)"

definition pinned_names :: "restore_ref list \<Rightarrow> string set" where
  "pinned_names restores =
     r_backup ` set (filter (\<lambda>r. r_phase r \<noteq> ''Succeeded'' \<and> r_phase r \<noteq> ''Failed'') restores)"

definition trimmable :: "backup \<Rightarrow> bool" where
  "trimmable b \<longleftrightarrow> b_phase b = ''Succeeded'' \<and> b_completion b \<noteq> None \<and> \<not> b_deleting b"

text \<open>The final loop: the backups deleted, stopping at the first error.\<close>

fun deleteLoop :: "(backup \<Rightarrow> string option) \<Rightarrow> string set \<Rightarrow> backup list \<Rightarrow> backup list \<times> string option" where
  "deleteLoop del spared [] = ([], None)"
| "deleteLoop del spared (b # bs) =
     (if b_name b \<in> spared then deleteLoop del spared bs
      else (case del b of
          Some e \<Rightarrow> ([], Some e)
        | None \<Rightarrow> (case deleteLoop del spared bs of (ds, e) \<Rightarrow> (b # ds, e))))"

definition trimBackups ::
  "(backup list \<Rightarrow> backup list) \<Rightarrow> (backup \<Rightarrow> string option) \<Rightarrow> retention option \<Rightarrow> string + backup list
     \<Rightarrow> string + restore_ref list \<Rightarrow> backup list \<times> string option" where
  "trimBackups sorter del ret list_items list_restores =
     (case ret of
        None \<Rightarrow> ([], None)
      | Some ret \<Rightarrow>
          if \<not> retention_enabled ret then ([], None)
          else (case list_items of Inl e \<Rightarrow> ([], Some e)
            | Inr items \<Rightarrow> (case list_restores of Inl e \<Rightarrow> ([], Some e)
            | Inr restores \<Rightarrow>
                let succeeded = filter trimmable items in
                if succeeded = [] then ([], None)
                else let newestFirst = sorter succeeded
                  in deleteLoop del (selectKept newestFirst ret \<union> pinned_names restores) newestFirst)))"

text \<open>The contract of the sort.\<close>

definition newest_first :: "(backup list \<Rightarrow> backup list) \<Rightarrow> bool" where
  "newest_first sorter \<longleftrightarrow> (\<forall>xs. mset (sorter xs) = mset xs \<and> sorted_wrt (\<lambda>a b. completed_at b \<le> completed_at a) (sorter xs))"

section \<open>What is kept\<close>

lemma loop_subset: "set (keepByBucket_loop n key seen bs) \<subseteq> set bs"
  by (induction n key seen bs rule: keepByBucket_loop.induct) (auto simp: Let_def)

lemma loop_fresh: "b \<in> set (keepByBucket_loop n key seen bs) \<Longrightarrow> key b \<notin> set seen"
  by (induction n key seen bs rule: keepByBucket_loop.induct) (auto simp: Let_def split: if_splits)


text \<open>The newest backup of each bucket, newest bucket first.\<close>

fun leaders :: "(backup \<Rightarrow> string) \<Rightarrow> backup list \<Rightarrow> backup list" where
  "leaders key [] = []"
| "leaders key (b # bs) = b # filter (\<lambda>c. key c \<noteq> key b) (leaders key bs)"

lemma loop_leaders:
  "keepByBucket_loop n key seen bs =
     take (nat (max 1 (n - int (length seen)))) (filter (\<lambda>b. key b \<notin> set seen) (leaders key bs))"
proof (induction n key seen bs rule: keepByBucket_loop.induct)
  case (2 n key seen b bs)
  have step: "filter (\<lambda>c. key c \<notin> set seen) (filter (\<lambda>c. key c \<noteq> key b) (leaders key bs))
      = filter (\<lambda>c. key c \<notin> set (key b # seen)) (leaders key bs)"
    by (simp add: conj_commute)
  show ?case
  proof (cases "key b \<in> set seen")
    case True
    have "filter (\<lambda>c. key c \<noteq> key b \<and> key c \<notin> set seen) (leaders key bs) = filter (\<lambda>c. key c \<notin> set seen) (leaders key bs)"
      using True by (intro filter_cong) auto
    with True 2(1) show ?thesis
      by (simp add: conj_commute)
  next
    case False
    show ?thesis
    proof (cases "int (length (key b # seen)) \<ge> n")
      case True
      then have "nat (max 1 (n - int (length seen))) = Suc 0"
        by simp
      with False True show ?thesis
        by (simp only: keepByBucket_loop.simps leaders.simps Let_def filter.simps if_False if_True take_Suc_Cons take_0) simp
    next
      case short: False
      then have "nat (max 1 (n - int (length seen))) = Suc (nat (max 1 (n - int (length (key b # seen)))))"
        by simp
      with False short 2(2) step show ?thesis
        by (simp del: filter_filter)
    qed
  qed
qed simp

lemma keepByBucket_leaders:
  "keepByBucket n which bs = take (nat n) (leaders (\<lambda>b. bucket which (completed_at b)) bs)"
  by (simp add: keepByBucket_def loop_leaders)

lemma leaders_subset: "set (leaders key bs) \<subseteq> set bs"
  by (induction key bs rule: leaders.induct) auto

text \<open>Removing backups that were not picked changes no pick.\<close>

lemma loop_filter:
  "set (keepByBucket_loop n key seen bs) \<subseteq> Collect P \<Longrightarrow>
     keepByBucket_loop n key seen (filter P bs) = keepByBucket_loop n key seen bs"
  by (induction n key seen bs rule: keepByBucket_loop.induct) (auto simp: Let_def split: if_splits)

lemma keepByBucket_filter:
  "set (keepByBucket n which bs) \<subseteq> Collect P \<Longrightarrow> keepByBucket n which (filter P bs) = keepByBucket n which bs"
  by (cases "n \<le> 0") (simp_all add: keepByBucket_def loop_filter)

lemma take_filter_prefix: "set (take k xs) \<subseteq> Collect P \<Longrightarrow> take k (filter P xs) = take k xs"
  by (induction xs arbitrary: k) (auto simp: take_Cons split: nat.splits)

lemma keepNewest_filter:
  "set (keepNewest n bs) \<subseteq> Collect P \<Longrightarrow> keepNewest n (filter P bs) = keepNewest n bs"
  by (cases "n > 0") (simp_all add: keepNewest_def take_filter_prefix)

lemma selectKept_filter:
  assumes "\<And>b. b \<in> set bs \<Longrightarrow> b_name b \<in> selectKept bs ret \<Longrightarrow> P b"
  shows "selectKept (filter P bs) ret = selectKept bs ret"
proof -
  have sub: "set (keepByBucket n which bs) \<subseteq> set bs" "set (keepNewest n bs) \<subseteq> set bs" for n which
    using loop_subset set_take_subset [of "nat n" bs] by (auto simp: keepByBucket_def keepNewest_def)
  define picks where "picks = keepNewest (keepLast ret) bs @ keepByBucket (keepHourly ret) Hour bs
    @ keepByBucket (keepDaily ret) Day bs @ keepByBucket (keepWeekly ret) Week bs
    @ keepByBucket (keepMonthly ret) Month bs @ keepByBucket (keepYearly ret) Year bs"
  have "set picks \<subseteq> set bs"
    using sub by (auto simp: picks_def)
  moreover have "selectKept bs ret = b_name ` set picks"
    by (simp add: selectKept_def picks_def)
  ultimately have P: "set picks \<subseteq> Collect P"
    using assms by blast
  have "set (keepNewest (keepLast ret) bs) \<subseteq> Collect P" "set (keepByBucket (keepHourly ret) Hour bs) \<subseteq> Collect P"
    "set (keepByBucket (keepDaily ret) Day bs) \<subseteq> Collect P" "set (keepByBucket (keepWeekly ret) Week bs) \<subseteq> Collect P"
    "set (keepByBucket (keepMonthly ret) Month bs) \<subseteq> Collect P" "set (keepByBucket (keepYearly ret) Year bs) \<subseteq> Collect P"
    using P by (auto simp: picks_def)
  then show ?thesis
    unfolding selectKept_def by (simp only: keepByBucket_filter keepNewest_filter)
qed

section \<open>What is deleted\<close>

lemma deleteLoop_deleted: "deleteLoop del spared bs = (ds, e) \<Longrightarrow> set ds \<subseteq> {b \<in> set bs. b_name b \<notin> spared}"
  by (induction del spared bs arbitrary: ds e rule: deleteLoop.induct) (auto split: if_splits option.splits prod.splits)

lemma deleteLoop_all: "deleteLoop del spared bs = (ds, None) \<Longrightarrow> ds = filter (\<lambda>b. b_name b \<notin> spared) bs"
  by (induction del spared bs arbitrary: ds rule: deleteLoop.induct) (auto split: if_splits option.splits prod.splits)

lemma newest_kept:
  assumes "retention_enabled ret"
  shows "b_name b \<in> selectKept (b # bs) ret"
proof -
  have "b \<in> set (keepByBucket n which (b # bs))" if "n > 0" for n which
    using that by (simp add: keepByBucket_def Let_def)
  moreover have "b \<in> set (keepNewest n (b # bs))" if "n > 0" for n
  proof -
    from that have "nat n = Suc (nat (n - 1))"
      by simp
    with that show ?thesis
      by (simp add: keepNewest_def)
  qed
  ultimately show ?thesis
    using assms by (auto simp: retention_enabled_def selectKept_def not_le)
qed

definition keep_total :: "retention \<Rightarrow> nat" where
  "keep_total ret = nat (keepLast ret) + nat (keepHourly ret) + nat (keepDaily ret) + nat (keepWeekly ret)
     + nat (keepMonthly ret) + nat (keepYearly ret)"

lemma selectKept_card: "card (selectKept bs ret) \<le> keep_total ret"
proof -
  have "length (keepByBucket n which bs) \<le> nat n" "length (keepNewest n bs) \<le> nat n" for n which
    by (simp_all add: keepByBucket_leaders keepNewest_def)
  note len = this(2) [of "keepLast ret"] this(1) [of "keepHourly ret" Hour] this(1) [of "keepDaily ret" Day]
    this(1) [of "keepWeekly ret" Week] this(1) [of "keepMonthly ret" Month] this(1) [of "keepYearly ret" Year]
  from len have "length (keepNewest (keepLast ret) bs @ keepByBucket (keepHourly ret) Hour bs
      @ keepByBucket (keepDaily ret) Day bs @ keepByBucket (keepWeekly ret) Week bs
      @ keepByBucket (keepMonthly ret) Month bs @ keepByBucket (keepYearly ret) Year bs) \<le> keep_total ret"
    by (simp add: keep_total_def)
  then show ?thesis
    unfolding selectKept_def using card_image_le [OF finite_set] card_length by (meson le_trans)
qed

text \<open>C38. Retention never deletes a backup that is in flight, failed or already being deleted, nor one an
  unfinished restore reads from, nor one a keep rule selects; whatever it deletes, a completed backup at
  least as recent survives.  When every delete call succeeds, at most as many backups remain as the keep
  rules allow together, apart from those pinned by restores.\<close>

theorem retention_safe:
  assumes "trimBackups sorter del (Some ret) (Inr items) (Inr restores) = (ds, e)" "newest_first sorter" "retention_enabled ret"
  shows "(\<forall>b\<in>set ds. b \<in> set items \<and> trimmable b \<and> b_name b \<notin> pinned_names restores
      \<and> b_name b \<notin> selectKept (sorter (filter trimmable items)) ret
      \<and> (\<exists>c\<in>set items. trimmable c \<and> c \<notin> set ds \<and> completed_at b \<le> completed_at c))
    \<and> (e = None \<longrightarrow> card (b_name ` {b \<in> set items. trimmable b \<and> b \<notin> set ds \<and> b_name b \<notin> pinned_names restores})
        \<le> keep_total ret)"
proof -
  let ?nf = "sorter (filter trimmable items)"
  let ?kept = "selectKept ?nf ret"
  have mem: "set ?nf = {b \<in> set items. trimmable b}"
    using assms(2) by (metis newest_first_def set_filter set_mset_mset)
  have run: "ds = [] \<and> filter trimmable items = [] \<and> e = None \<or> filter trimmable items \<noteq> [] \<and>
      deleteLoop del (?kept \<union> pinned_names restores) ?nf = (ds, e)"
    using assms(1,3) by (auto simp: trimBackups_def Let_def split: if_splits)
  then have del: "set ds \<subseteq> {b \<in> set ?nf. b_name b \<notin> ?kept \<union> pinned_names restores}"
    using deleteLoop_deleted by fastforce
  have newer: "\<exists>c\<in>set items. trimmable c \<and> c \<notin> set ds \<and> completed_at b \<le> completed_at c" if b: "b \<in> set ds" for b
  proof -
    obtain c rest where nf: "?nf = c # rest"
      using del b by (cases ?nf) auto
    have "sorted_wrt (\<lambda>a b. completed_at b \<le> completed_at a) ?nf"
      using assms(2) by (simp add: newest_first_def)
    then have "completed_at b \<le> completed_at c"
      using del b unfolding nf by auto
    moreover have "c \<notin> set ds"
      using del newest_kept [OF assms(3), of c rest] unfolding nf by auto
    moreover have "c \<in> set ?nf"
      by (simp add: nf)
    ultimately show ?thesis
      using mem by blast
  qed
  have "card (b_name ` {b \<in> set items. trimmable b \<and> b \<notin> set ds \<and> b_name b \<notin> pinned_names restores}) \<le> keep_total ret"
    if "e = None"
  proof -
    have "b_name b \<in> ?kept" if "b \<in> set items" "trimmable b" "b \<notin> set ds" "b_name b \<notin> pinned_names restores" for b
    proof -
      have "b \<in> set ?nf"
        using that mem by simp
      with run \<open>e = None\<close> that show ?thesis
        using deleteLoop_all [of del "?kept \<union> pinned_names restores" ?nf ds] by (auto simp: filter_empty_conv)
    qed
    then have "b_name ` {b \<in> set items. trimmable b \<and> b \<notin> set ds \<and> b_name b \<notin> pinned_names restores} \<subseteq> ?kept"
      by blast
    then show ?thesis
      using selectKept_card [of ?nf ret] card_mono by (metis (no_types, lifting) finite_imageI finite_set le_trans selectKept_def)
  qed
  with del mem newer show ?thesis
    by blast
qed

definition sort_newest :: "backup list \<Rightarrow> backup list" where
  "sort_newest bs = sort_key (\<lambda>b. - completed_at b) bs"

lemma sort_newest_ok: "newest_first sort_newest"
proof -
  have "sorted_wrt (\<lambda>a b. completed_at b \<le> completed_at a) (sort_key (\<lambda>b. - completed_at b) xs)" for xs
    using sorted_sort_key [of "\<lambda>b. - completed_at b" xs] by (simp add: sorted_map)
  then show ?thesis
    by (simp add: newest_first_def sort_newest_def)
qed

definition backup_example :: "string \<Rightarrow> time \<Rightarrow> backup" where
  "backup_example n t = \<lparr>b_name = n, b_phase = ''Succeeded'', b_completion = Some t, b_deleting = False\<rparr>"

definition keep_one :: retention where
  "keep_one = \<lparr>keepLast = 1, keepHourly = 0, keepDaily = 0, keepWeekly = 0, keepMonthly = 0, keepYearly = 0\<rparr>"

theorem retention_safe_witness:
  "\<exists>ds e. trimBackups sort_newest (\<lambda>_. None) (Some keep_one) (Inr [backup_example ''a'' 1, backup_example ''b'' 2]) (Inr []) = (ds, e)
     \<and> (\<forall>b\<in>set ds. trimmable b)"
proof -
  obtain ds e where t: "trimBackups sort_newest (\<lambda>_. None) (Some keep_one) (Inr [backup_example ''a'' 1, backup_example ''b'' 2]) (Inr []) = (ds, e)"
    by fastforce
  have "retention_enabled keep_one"
    by (simp add: retention_enabled_def keep_one_def)
  from retention_safe [OF t sort_newest_ok this] t show ?thesis
    by blast
qed

section \<open>Running it again\<close>

lemma newest_first_unique:
  assumes "newest_first sorter" "inj_on completed_at (set ys)"
    and "sorted_wrt (\<lambda>a b. completed_at b \<le> completed_at a) ys" "mset xs = mset ys"
  shows "sorter xs = ys"
proof -
  let ?f = "\<lambda>b. - completed_at b"
  have sorted: "sorted (map ?f zs) \<longleftrightarrow> sorted_wrt (\<lambda>a b. completed_at b \<le> completed_at a) zs" for zs
    by (simp add: sorted_map)
  have m: "mset (sorter xs) = mset ys" and s: "sorted_wrt (\<lambda>a b. completed_at b \<le> completed_at a) (sorter xs)"
    using assms(1,4) by (auto simp: newest_first_def)
  have "sort (map ?f ys) = map ?f ys" "sort (map ?f ys) = map ?f (sorter xs)"
    using s assms(3) m by (auto intro!: properties_for_sort simp: sorted)
  then have "map ?f (sorter xs) = map ?f ys"
    by simp
  moreover have "inj_on ?f (set (sorter xs) \<union> set ys)"
    using assms(2) mset_eq_setD [OF m] by (auto simp: inj_on_def)
  ultimately show ?thesis
    by (rule map_inj_on)
qed

lemma deleteLoop_none: "\<forall>b\<in>set bs. b_name b \<in> spared \<Longrightarrow> deleteLoop del spared bs = ([], None)"
  by (induction bs) auto

text \<open>Retention is idempotent: once a run has completed, running it again on what remains deletes
  nothing, so repeated reconciles converge.  (Completion times are distinct, so that \<open>newest first\<close> is one
  order.)\<close>

theorem retention_idempotent:
  assumes "newest_first sorter" "inj_on completed_at {b \<in> set items. trimmable b}"
    and "trimBackups sorter del (Some ret) (Inr items) (Inr restores) = (ds, None)"
  shows "trimBackups sorter del' (Some ret) (Inr (filter (\<lambda>b. b \<notin> set ds) items)) (Inr restores) = ([], None)"
proof (cases "retention_enabled ret \<and> filter trimmable items \<noteq> []")
  case False
  then show ?thesis
    by (auto simp: trimBackups_def filter_empty_conv)
next
  case True
  let ?nf = "sorter (filter trimmable items)" and ?rest = "filter (\<lambda>b. b \<notin> set ds) items"
  define spared where "spared = selectKept ?nf ret \<union> pinned_names restores"
  have nf: "mset ?nf = mset (filter trimmable items)" "sorted_wrt (\<lambda>a b. completed_at b \<le> completed_at a) ?nf"
    using assms(1) by (auto simp: newest_first_def)
  have "deleteLoop del spared ?nf = (ds, None)"
    using assms(3) True by (auto simp: trimBackups_def spared_def Let_def split: if_splits)
  then have ds: "ds = filter (\<lambda>b. b_name b \<notin> spared) ?nf"
    by (rule deleteLoop_all)
  let ?nf' = "filter (\<lambda>b. b_name b \<in> spared) ?nf"
  have eq: "filter (\<lambda>b. b \<notin> set ds) ?nf = ?nf'"
    by (intro filter_cong) (auto simp: ds)
  have "mset (filter trimmable ?rest) = filter_mset (\<lambda>b. b \<notin> set ds) (mset (filter trimmable items))"
    by (simp add: filter_filter_mset conj_commute)
  also have "\<dots> = mset ?nf'"
    by (simp only: nf(1) [symmetric] mset_filter [symmetric] eq)
  finally have m: "mset (filter trimmable ?rest) = mset ?nf'" .
  moreover have "set ?nf \<subseteq> {b \<in> set items. trimmable b}"
    using mset_eq_setD [OF nf(1)] by auto
  then have "inj_on completed_at (set ?nf')"
    using assms(2) by (auto intro: inj_on_subset)
  ultimately have sorter: "sorter (filter trimmable ?rest) = ?nf'"
    using nf(2) by (intro newest_first_unique [OF assms(1)]) (simp_all add: sorted_wrt_filter)
  have "selectKept ?nf' ret = selectKept ?nf ret"
    by (rule selectKept_filter) (simp add: spared_def)
  then have "deleteLoop del' (selectKept ?nf' ret \<union> pinned_names restores) ?nf' = ([], None)"
    by (intro deleteLoop_none) (simp add: spared_def)
  then show ?thesis
    by (simp add: trimBackups_def sorter Let_def del: filter_filter)
qed

theorem retention_idempotent_witness:
  "\<exists>ds. trimBackups sort_newest (\<lambda>_. None) (Some keep_one) (Inr [backup_example ''a'' 1, backup_example ''b'' 2]) (Inr []) = (ds, None) \<and>
     trimBackups sort_newest (\<lambda>_. None) (Some keep_one)
       (Inr (filter (\<lambda>b. b \<notin> set ds) [backup_example ''a'' 1, backup_example ''b'' 2])) (Inr []) = ([], None)"
proof -
  let ?items = "[backup_example ''a'' 1, backup_example ''b'' 2]"
  have ok: "snd (deleteLoop (\<lambda>_. None) spared bs) = None" for spared bs
    by (induction bs) (auto split: prod.splits)
  have "snd (trimBackups sort_newest (\<lambda>_. None) (Some keep_one) (Inr ?items) (Inr [])) = None"
    by (simp add: trimBackups_def Let_def ok)
  then obtain ds where t: "trimBackups sort_newest (\<lambda>_. None) (Some keep_one) (Inr ?items) (Inr []) = (ds, None)"
    by (metis prod.collapse)
  have "inj_on completed_at {b \<in> set ?items. trimmable b}"
    by (auto simp: inj_on_def backup_example_def completed_at_def)
  from retention_idempotent [OF sort_newest_ok this t] t show ?thesis
    by blast
qed

end
