(* ===== verification/Capture.thy ===== *)
theory Capture
  imports Go_Time Wake_Plan "HOL-Library.Char_ord" "HOL-Library.List_Lexorder"
begin

text \<open>
  The network capture controller, \<^verbatim>\<open>operator/internal/controller/networkcapture_controller.go\<close> (captures
  through the sidecar; node captures have their own reconciler) with \<^verbatim>\<open>networkcapture_filter.go\<close>.

  The world holds the stored NetworkCapture objects of one namespace, its GameServers, and the log of calls
  made to sidecars.  What a reconcile cannot know in advance is its environment: the clock, the answers of
  the sidecar and the pod, and for each write whether it lands, conflicts or fails.  A write that lands has
  been made against the stored version of the object, so it replaces it.
\<close>

section \<open>Objects\<close>

datatype capture_phase = PhNone | PhPending | PhRunning | PhCompleted | PhFailed | PhExpired

record owner_ref =
  or_apiVersion :: string
  or_kind :: string
  or_name :: string
  or_uid :: string

record cap_cond =
  cc_reason :: string
  cc_message :: string
  cc_time :: time

record netcap =
  nc_name :: string
  nc_uid :: string
  nc_created :: "time option"
  nc_server :: string
  nc_filter :: string
  nc_maxDuration :: "duration option"
  nc_maxSize :: "int option"
  nc_ttl :: "int option"
  nc_stopRequested :: "string option"
  nc_podUID :: string
  nc_owners :: "owner_ref list"
  nc_phase :: capture_phase
  nc_startTime :: "time option"
  nc_completionTime :: "time option"
  nc_packets :: int
  nc_bytes :: "int option"
  nc_message :: string
  nc_conds :: "string \<Rightarrow> cap_cond option"

record cap_server =
  cs_name :: string
  cs_uid :: string
  cs_template :: string
  cs_enabled :: bool
  cs_active :: "string option"
  cs_lastCapture :: "time option"

datatype sc_error = HTTPError string int string | ErrCaptureClientDisabled | NetError string

datatype sidecar_call =
    CallStart string string string string string int int
  | CallStop string string string string
  | CallDeleteFile string string string string

record cap_world =
  w_caps :: "string \<Rightarrow> netcap option"
  w_servers :: "string \<Rightarrow> cap_server option"
  w_log :: "sidecar_call list"

record game_pod =
  pod_uid :: string
  pod_running :: bool
  pod_deleting :: bool
  pod_hasSidecar :: bool
  pod_sidecarExit :: "(int \<times> string) option"

datatype write_result = WOk | WConflict | WFail

datatype inject_result = InjectOk | InjectInvalid | InjectConflict | InjectFail

record sc_status =
  ss_phase :: string
  ss_packets :: int
  ss_bytes :: int
  ss_message :: string

record cap_env =
  e_now :: time
  e_getServer :: bool
  e_notFoundText :: string
  e_getServerAgain :: bool
  e_list :: "unit + netcap list"
  e_pod :: "unit + game_pod option"
  e_inject :: inject_result
  e_setOwner :: "cap_server \<Rightarrow> owner_ref list \<Rightarrow> owner_ref list option"
  e_template :: "bool + game_port list"
  e_status :: "sc_error + sc_status"
  e_statusAgain :: "sc_error + sc_status"
  e_start :: "sc_error option"
  e_stop :: "sc_error option"
  e_deleteFile :: "sc_error option"
  e_updateOwner :: write_result
  e_updatePod :: write_result
  e_patch :: write_result
  e_updateStatus :: write_result
  e_updateStatusAgain :: write_result
  e_delete :: write_result

record cap_config =
  cfg_enabled :: bool
  cfg_defaultMaxDuration :: int
  cfg_defaultMaxSize :: int
  cfg_defaultRetention :: int
  cfg_maxRetention :: int

datatype rec_result = RDone | RRequeue duration | RConflict | RError

text \<open>Times are stored with a resolution of one second.\<close>

definition stamp :: "time \<Rightarrow> time" where
  "stamp t = t - t mod second"

definition stopRequestedAnnotation :: string where
  "stopRequestedAnnotation = ''gameplane.local/stop-requested''"

definition userStoppedMessage :: string where
  "userStoppedMessage = ''stopped by user request''"

definition SidecarStoppedCondition :: string where
  "SidecarStoppedCondition = ''SidecarStopped''"

definition defaultCaptureRetentionSeconds :: int where
  "defaultCaptureRetentionSeconds = 86400"

definition maxCaptureRetentionSeconds :: int where
  "maxCaptureRetentionSeconds = 604800"

definition retentionPollInterval :: duration where
  "retentionPollInterval = 60 * second"

definition captureFileCleanupBudget :: duration where
  "captureFileCleanupBudget = 5 * minute"

definition pendingStopUnreachableTimeout :: duration where
  "pendingStopUnreachableTimeout = 2 * minute"

section \<open>Helpers\<close>

definition SetStatusCondition ::
  "(string \<Rightarrow> cap_cond option) \<Rightarrow> string \<Rightarrow> string \<Rightarrow> string \<Rightarrow> time \<Rightarrow> string \<Rightarrow> cap_cond option" where
  "SetStatusCondition conds ty reason msg t = conds(ty \<mapsto>
     \<lparr>cc_reason = reason, cc_message = msg, cc_time = (case conds ty of Some c \<Rightarrow> cc_time c | None \<Rightarrow> t)\<rparr>)"

definition contains_sub :: "string \<Rightarrow> string \<Rightarrow> bool" where
  "contains_sub s sub \<longleftrightarrow> list_ex (\<lambda>k. has_prefix (drop k s) sub) [0..<length s + 1]"

definition err_text :: "sc_error \<Rightarrow> string" where
  "err_text e = (case e of
      HTTPError op code body \<Rightarrow> ''capture sidecar: '' @ op @ '': status '' @ itoa code @ (if body \<noteq> [] then '': '' @ body else [])
    | ErrCaptureClientDisabled \<Rightarrow> ''capture sidecar client disabled''
    | NetError t \<Rightarrow> t)"

definition IsTransientError :: "sc_error \<Rightarrow> bool" where
  "IsTransientError e = (case e of
      HTTPError op code body \<Rightarrow> if code = 507 then False else code \<ge> 500 \<or> code = 429
    | _ \<Rightarrow> True)"

definition isTerminalCapturePhase :: "capture_phase \<Rightarrow> bool" where
  "isTerminalCapturePhase p \<longleftrightarrow> p = PhCompleted \<or> p = PhFailed \<or> p = PhExpired"

definition isCaptureAlreadyStoppedError :: "sc_error \<Rightarrow> bool" where
  "isCaptureAlreadyStoppedError e = (case e of
      HTTPError op code body \<Rightarrow> contains_sub (to_lower body) ''not running''
    | _ \<Rightarrow> False)"

definition captureOwnerUID :: "owner_ref list \<Rightarrow> string \<Rightarrow> string" where
  "captureOwnerUID refs name =
     (case find (\<lambda>r. or_apiVersion r = ''gameplane.local/v1alpha1'' \<and> or_kind r = ''GameServer'' \<and> or_name r = name) refs of
        Some r \<Rightarrow> or_uid r | None \<Rightarrow> [])"

definition stopRequestAge :: "netcap \<Rightarrow> time \<Rightarrow> duration" where
  "stopRequestAge nc now = (case parse_rfc3339 (case nc_stopRequested nc of Some v \<Rightarrow> v | None \<Rightarrow> []) of
      Some t \<Rightarrow> time_sub now t
    | None \<Rightarrow> (case nc_created nc of Some t \<Rightarrow> time_sub now t | None \<Rightarrow> dur_max))"

definition clampRetention :: "int \<Rightarrow> int \<Rightarrow> int \<Rightarrow> int" where
  "clampRetention requested clusterMax clusterDefault =
     (let clusterMax = (if clusterMax \<le> 0 then maxCaptureRetentionSeconds else clusterMax);
          clusterDefault = (if clusterDefault \<le> 0 then defaultCaptureRetentionSeconds else clusterDefault);
          requested = (if requested \<le> 0 then clusterDefault else requested)
      in if requested > clusterMax then clusterMax else requested)"

definition effectiveRetentionSeconds :: "int option \<Rightarrow> int \<Rightarrow> int \<Rightarrow> int" where
  "effectiveRetentionSeconds specTTL clusterDefault clusterMax =
     (let requested = (if clusterDefault \<le> 0 then defaultCaptureRetentionSeconds else clusterDefault);
          requested = (case specTTL of Some t \<Rightarrow> if t > 0 then t else requested | None \<Rightarrow> requested)
      in clampRetention requested clusterMax clusterDefault)"

definition captureExpiresAt :: "time option \<Rightarrow> int \<Rightarrow> time option" where
  "captureExpiresAt anchor ttl = map_option (\<lambda>t. t + dur_wrap (ttl * second)) anchor"

definition captureIsExpired :: "time option \<Rightarrow> time \<Rightarrow> bool" where
  "captureIsExpired expiresAt now = (case expiresAt of None \<Rightarrow> False | Some t \<Rightarrow> t < now)"

definition filter_term :: "game_port \<Rightarrow> string" where
  "filter_term p = (if gp_protocol p = ''UDP'' then ''udp'' else ''tcp'') @ '' port '' @ itoa (gp_container_port p)"

fun str_join_or :: "string list \<Rightarrow> string" where
  "str_join_or [] = []"
| "str_join_or [t] = t"
| "str_join_or (t # ts) = t @ '' or '' @ str_join_or ts"

fun first_seen :: "string list \<Rightarrow> string list \<Rightarrow> string list" where
  "first_seen seen [] = []"
| "first_seen seen (t # ts) = (if t \<in> set seen then first_seen seen ts else t # first_seen (t # seen) ts)"

definition defaultCaptureFilter :: "game_port list \<Rightarrow> string" where
  "defaultCaptureFilter ports =
     str_join_or (first_seen [] (map filter_term (filter (\<lambda>p. gp_advertise p \<and> gp_container_port p > 0) ports)))"

datatype filter_answer = UseFilter string | NoFilter string | FilterError

text \<open>\<open>e_template\<close> is the template lookup: not found (\<open>Inl True\<close>), failed, or the template's ports.\<close>

definition captureFilter :: "cap_env \<Rightarrow> netcap \<Rightarrow> cap_server \<Rightarrow> filter_answer" where
  "captureFilter e nc gs =
     (if nc_filter nc \<noteq> [] then UseFilter (nc_filter nc)
      else (case e_template e of
          Inl True \<Rightarrow> NoFilter (''gametemplate '' @ cs_template gs @ '' not found; cannot build the default capture filter'')
        | Inl False \<Rightarrow> FilterError
        | Inr ports \<Rightarrow>
            (let f = defaultCaptureFilter ports in
             if f = [] then NoFilter (''gametemplate '' @ cs_template gs @ '' advertises no ports; supply a capture filter'') else UseFilter f)))"

section \<open>Writes\<close>

type_synonym step_result = "cap_world \<times> rec_result"

definition after_write :: "write_result \<Rightarrow> cap_world \<Rightarrow> step_result \<Rightarrow> step_result" where
  "after_write r w k = (case r of WOk \<Rightarrow> k | WConflict \<Rightarrow> (w, RConflict) | WFail \<Rightarrow> (w, RError))"

definition put_cap :: "netcap \<Rightarrow> cap_world \<Rightarrow> cap_world" where
  "put_cap nc w = w\<lparr>w_caps := (w_caps w)(nc_name nc \<mapsto> nc)\<rparr>"

definition del_cap :: "string \<Rightarrow> cap_world \<Rightarrow> cap_world" where
  "del_cap name w = w\<lparr>w_caps := (w_caps w)(name := None)\<rparr>"

definition call :: "sidecar_call \<Rightarrow> cap_world \<Rightarrow> cap_world" where
  "call c w = w\<lparr>w_log := w_log w @ [c]\<rparr>"

definition patchGameServerActiveCapture :: "cap_server \<Rightarrow> string option \<Rightarrow> time option \<Rightarrow> cap_world \<Rightarrow> cap_world" where
  "patchGameServerActiveCapture gs active terminalTime w =
     w\<lparr>w_servers := (w_servers w)(cs_name gs \<mapsto>
        gs\<lparr>cs_active := active, cs_lastCapture := (case terminalTime of Some t \<Rightarrow> Some t | None \<Rightarrow> cs_lastCapture gs)\<rparr>)\<rparr>"

definition failWithReason :: "cap_env \<Rightarrow> cap_world \<Rightarrow> netcap \<Rightarrow> string \<Rightarrow> string \<Rightarrow> step_result" where
  "failWithReason e w nc reason message =
     (let now = stamp (e_now e);
          nc' = nc\<lparr>nc_phase := PhFailed, nc_completionTime := Some now, nc_message := message,
            nc_conds := SetStatusCondition (nc_conds nc) ''Failed'' reason message now\<rparr>;
          finish = (\<lambda>w. after_write (e_updateStatus e) w (put_cap nc' w, RDone))
      in case (if e_getServerAgain e then w_servers w (nc_server nc) else None) of
           None \<Rightarrow> finish w
         | Some gs \<Rightarrow>
             if cs_active gs = None \<or> cs_active gs = Some (nc_name nc)
             then after_write (e_patch e) w (finish (patchGameServerActiveCapture gs None (Some now) w))
             else finish w)"

definition fail :: "cap_env \<Rightarrow> cap_world \<Rightarrow> netcap \<Rightarrow> string \<Rightarrow> step_result" where
  "fail e w nc message = failWithReason e w nc ''failed'' message"

definition releaseActiveCaptureLock ::
  "cap_env \<Rightarrow> cap_world \<Rightarrow> netcap \<Rightarrow> time \<Rightarrow> (cap_world \<Rightarrow> step_result) \<Rightarrow> step_result" where
  "releaseActiveCaptureLock e w nc stopTime k =
     (if \<not> e_getServer e then (w, RError)
      else (case w_servers w (nc_server nc) of
          None \<Rightarrow> k w
        | Some gs \<Rightarrow>
            if cs_active gs = Some (nc_name nc)
            then after_write (e_patch e) w (k (patchGameServerActiveCapture gs None (Some stopTime) w))
            else k w))"

section \<open>Retention\<close>

definition expireCapture :: "cap_env \<Rightarrow> cap_world \<Rightarrow> netcap \<Rightarrow> step_result" where
  "expireCapture e w nc =
     (let now = stamp (e_now e);
          nc1 = nc\<lparr>nc_phase := PhExpired,
            nc_completionTime := (case nc_completionTime nc of Some t \<Rightarrow> Some t | None \<Rightarrow> Some now)\<rparr>;
          cleanup = (\<lambda>nc w.
            let w = call (CallDeleteFile (nc_server nc) (nc_name nc) (captureOwnerUID (nc_owners nc) (nc_server nc)) (nc_uid nc)) w in
            case e_deleteFile e of
              None \<Rightarrow> after_write (e_delete e) w (del_cap (nc_name nc) w, RDone)
            | Some err \<Rightarrow>
                (let firstFailure = (case nc_conds nc ''FileCleanupFailed'' of Some c \<Rightarrow> cc_time c | None \<Rightarrow> now) in
                 if time_sub (e_now e) firstFailure \<ge> captureFileCleanupBudget
                 then after_write (e_delete e) w (del_cap (nc_name nc) w, RDone)
                 else
                   (let nc' = nc\<lparr>nc_conds := SetStatusCondition (nc_conds nc) ''FileCleanupFailed'' ''delete_failed'' (err_text err) firstFailure\<rparr>
                    in after_write (e_updateStatusAgain e) w (put_cap nc' w, RRequeue (30 * second)))))
      in if nc_phase nc \<noteq> PhExpired then after_write (e_updateStatus e) w (cleanup nc1 (put_cap nc1 w)) else cleanup nc w)"

definition reconcileRetention :: "cap_config \<Rightarrow> cap_env \<Rightarrow> cap_world \<Rightarrow> netcap \<Rightarrow> step_result" where
  "reconcileRetention cfg e w nc =
     (let ttl = effectiveRetentionSeconds (nc_ttl nc) (cfg_defaultRetention cfg) (cfg_maxRetention cfg)
      in case captureExpiresAt (nc_completionTime nc) ttl of
           None \<Rightarrow> (w, RRequeue retentionPollInterval)
         | Some expiresAt \<Rightarrow>
             if \<not> captureIsExpired (Some expiresAt) (e_now e)
             then (let d = time_sub expiresAt (e_now e) in (w, RRequeue (if d \<le> 0 then second else d)))
             else expireCapture e w nc)"

definition expireStuckRunningCapture :: "cap_env \<Rightarrow> cap_world \<Rightarrow> cap_server \<Rightarrow> netcap \<Rightarrow> step_result" where
  "expireStuckRunningCapture e w gs nc =
     (let stopTime = stamp (e_now e);
          w1 = call (CallStop (nc_server nc) (nc_name nc) (captureOwnerUID (nc_owners nc) (nc_server nc)) (nc_uid nc)) w;
          nc1 = (case e_stop e of
              Some err \<Rightarrow> nc\<lparr>nc_conds := SetStatusCondition (nc_conds nc) ''RetentionStopFailed'' ''sidecar_stop_failed'' (err_text err) stopTime\<rparr>
            | None \<Rightarrow> nc)
      in after_write (e_patch e) w1
           (expireCapture e (patchGameServerActiveCapture gs None (Some stopTime) w1)
             (nc1\<lparr>nc_completionTime := Some stopTime,
                  nc_message := ''capture retention window elapsed while running; force-stopped''\<rparr>)))"

section \<open>Stopping\<close>

definition pendingCaptureNeverStarted :: "cap_env \<Rightarrow> netcap \<Rightarrow> time \<Rightarrow> unit + bool" where
  "pendingCaptureNeverStarted e nc now =
     (if nc_podUID nc = [] then Inr True
      else (case e_pod e of
          Inl _ \<Rightarrow> Inl ()
        | Inr None \<Rightarrow> Inr True
        | Inr (Some pod) \<Rightarrow>
            if pod_uid pod \<noteq> nc_podUID nc \<or> \<not> pod_running pod then Inr True
            else (case e_status e of
                Inr _ \<Rightarrow> Inr False
              | Inl err \<Rightarrow>
                  if err = ErrCaptureClientDisabled \<or> (case err of HTTPError op code body \<Rightarrow> code = 404 | _ \<Rightarrow> False) then Inr True
                  else if stopRequestAge nc now \<ge> pendingStopUnreachableTimeout then Inr False
                  else Inl ())))"

definition set_counts :: "int \<Rightarrow> int \<Rightarrow> netcap \<Rightarrow> netcap" where
  "set_counts packets bytes nc = nc\<lparr>nc_packets := packets, nc_bytes := Some bytes\<rparr>"

text \<open>The sidecar part of \<open>completeRequestedStop\<close>: the stop call, and what it leaves in the status.\<close>

definition stopSidecar :: "cap_env \<Rightarrow> cap_world \<Rightarrow> netcap \<Rightarrow> bool \<Rightarrow> cap_world \<times> netcap" where
  "stopSidecar e w nc neverStarted =
     (let now = stamp (e_now e);
          stopped = (\<lambda>reason msg nc. nc\<lparr>nc_conds := SetStatusCondition (nc_conds nc) SidecarStoppedCondition reason msg now\<rparr>)
      in if neverStarted then (w, stopped ''never_started'' ''stop requested before the sidecar started capturing'' nc)
         else
           (let w1 = call (CallStop (nc_server nc) (nc_name nc) (captureOwnerUID (nc_owners nc) (nc_server nc)) (nc_uid nc)) w;
                nc1 = (case e_stop e of
                    Some err \<Rightarrow>
                      if \<not> isCaptureAlreadyStoppedError err
                      then nc\<lparr>nc_conds := SetStatusCondition (nc_conds nc) ''SidecarStopFailed'' ''sidecar_stop_failed'' (err_text err) now\<rparr>
                      else (case e_statusAgain e of Inr s \<Rightarrow> set_counts (ss_packets s) (ss_bytes s) nc | Inl _ \<Rightarrow> nc)
                  | None \<Rightarrow> (case e_statusAgain e of Inr s \<Rightarrow> set_counts (ss_packets s) (ss_bytes s) nc | Inl _ \<Rightarrow> nc))
            in (w1, stopped ''stopped'' ''sidecar told to stop capturing'' nc1)))"

definition completeRequestedStop :: "cap_env \<Rightarrow> cap_world \<Rightarrow> netcap \<Rightarrow> step_result" where
  "completeRequestedStop e w nc =
     (let now = stamp (e_now e) in
      case (if nc_phase nc = PhNone \<or> nc_phase nc = PhPending then pendingCaptureNeverStarted e nc (e_now e) else Inr False) of
        Inl _ \<Rightarrow> (w, RError)
      | Inr neverStarted \<Rightarrow> (case stopSidecar e w nc neverStarted of (w1, nc1) \<Rightarrow>
          (let nc2 = nc1\<lparr>nc_phase := PhCompleted, nc_completionTime := Some now, nc_message := userStoppedMessage\<rparr>
           in releaseActiveCaptureLock e w1 nc2 now (\<lambda>w. after_write (e_updateStatus e) w (put_cap nc2 w, RDone)))))"

text \<open>The branch for a capture an older API completed on its own.\<close>

definition stopLegacyCompleted :: "cap_env \<Rightarrow> cap_world \<Rightarrow> netcap \<Rightarrow> step_result" where
  "stopLegacyCompleted e w nc =
     (let now = stamp (e_now e);
          w1 = call (CallStop (nc_server nc) (nc_name nc) (captureOwnerUID (nc_owners nc) (nc_server nc)) (nc_uid nc)) w;
          nc1 = (case e_stop e of
              Some err \<Rightarrow> nc\<lparr>nc_conds := SetStatusCondition (nc_conds nc) ''SidecarStopFailed'' ''sidecar_stop_failed'' (err_text err) now\<rparr>
            | None \<Rightarrow> nc);
          nc2 = nc1\<lparr>nc_conds := SetStatusCondition (nc_conds nc1) SidecarStoppedCondition ''stopped'' ''sidecar told to stop capturing'' now\<rparr>
      in releaseActiveCaptureLock e w1 nc2 now (\<lambda>w. after_write (e_updateStatus e) w (put_cap nc2 w, RDone)))"

section \<open>Starting\<close>

text \<open>\<open>e_setOwner\<close> is the library's \<^verbatim>\<open>SetControllerReference\<close>.\<close>

definition ensureOwnerReference :: "cap_env \<Rightarrow> cap_world \<Rightarrow> netcap \<Rightarrow> cap_server \<Rightarrow> (cap_world \<Rightarrow> netcap \<Rightarrow> step_result) \<Rightarrow> step_result" where
  "ensureOwnerReference e w nc gs k =
     (if list_ex (\<lambda>r. or_uid r = cs_uid gs) (nc_owners nc) then k w nc
      else (case e_setOwner e gs (nc_owners nc) of
          None \<Rightarrow> (w, RError)
        | Some owners \<Rightarrow>
            (let nc' = nc\<lparr>nc_owners := owners\<rparr> in after_write (e_updateOwner e) w (k (put_cap nc' w) nc'))))"

definition captureActive :: "string \<Rightarrow> netcap \<Rightarrow> bool" where
  "captureActive self other \<longleftrightarrow>
     nc_name other = self \<or> nc_phase other = PhNone \<or> nc_phase other = PhPending \<or> nc_phase other = PhRunning"

text \<open>\<open>None\<close> is the zero time, which is before every other.\<close>

definition created_before :: "time option \<Rightarrow> time option \<Rightarrow> bool" where
  "created_before a b = (case (a, b) of
      (Some x, Some y) \<Rightarrow> x < y
    | (None, Some y) \<Rightarrow> True
    | (_, None) \<Rightarrow> False)"

definition earlier :: "netcap \<Rightarrow> netcap \<Rightarrow> bool" where
  "earlier a b \<longleftrightarrow> created_before (nc_created a) (nc_created b) \<or> (nc_created a = nc_created b \<and> nc_name a < nc_name b)"

fun earliestActive :: "netcap \<Rightarrow> netcap option \<Rightarrow> netcap list \<Rightarrow> netcap option" where
  "earliestActive nc best [] = best"
| "earliestActive nc best (other # rest) =
     (if nc_server other \<noteq> nc_server nc \<or> \<not> captureActive (nc_name nc) other then earliestActive nc best rest
      else (case best of
          None \<Rightarrow> earliestActive nc (Some other) rest
        | Some b \<Rightarrow> earliestActive nc (if earlier other b then Some other else best) rest))"

definition trunc_seconds :: "duration \<Rightarrow> int" where
  "trunc_seconds d = (if d < 0 then - ((- d) div second) else d div second)"

text \<open>The last part of the Pending branch: make sure the sidecar captures, then record it.\<close>

definition startSidecar ::
  "cap_env \<Rightarrow> cap_world \<Rightarrow> netcap \<Rightarrow> cap_server \<Rightarrow> int \<Rightarrow> int \<Rightarrow> (cap_world \<Rightarrow> netcap \<Rightarrow> step_result) \<Rightarrow> step_result" where
  "startSidecar e w nc gs maxDurationSeconds maxSizeBytes k = (case e_status e of
      Inr s \<Rightarrow> k w (set_counts (ss_packets s) (ss_bytes s) nc)
    | Inl _ \<Rightarrow> (case captureFilter e nc gs of
        FilterError \<Rightarrow> (w, RError)
      | NoFilter msg \<Rightarrow> fail e w nc msg
      | UseFilter flt \<Rightarrow>
          (let w1 = call (CallStart (cs_name gs) (nc_name nc) (cs_uid gs) (nc_uid nc) flt maxDurationSeconds maxSizeBytes) w in
           case e_start e of
             None \<Rightarrow> k w1 nc
           | Some err \<Rightarrow>
               if IsTransientError err \<and> (case nc_created nc of None \<Rightarrow> True | Some t \<Rightarrow> time_sub (e_now e) t < 60 * second)
               then (w1, RRequeue (2 * second))
               else fail e w1 nc (''failed to start capture on sidecar: '' @ err_text err))))"

definition becomeRunning :: "cap_env \<Rightarrow> cap_world \<Rightarrow> netcap \<Rightarrow> cap_server \<Rightarrow> step_result" where
  "becomeRunning e w nc gs =
     (let nc' = nc\<lparr>nc_phase := PhRunning, nc_startTime := Some (stamp (e_now e)), nc_message := ''capture running''\<rparr>;
          w1 = patchGameServerActiveCapture gs (Some (nc_name nc)) None w
      in after_write (e_patch e) w (after_write (e_updateStatus e) w1 (put_cap nc' w1, RRequeue (5 * second))))"

definition recordPod :: "cap_env \<Rightarrow> cap_world \<Rightarrow> netcap \<Rightarrow> game_pod \<Rightarrow> (cap_world \<Rightarrow> netcap \<Rightarrow> step_result) \<Rightarrow> step_result" where
  "recordPod e w nc pod k =
     (if nc_podUID nc \<noteq> pod_uid pod
      then (let nc' = nc\<lparr>nc_podUID := pod_uid pod\<rparr> in after_write (e_updatePod e) w (k (put_cap nc' w) nc'))
      else k w nc)"

definition startPending :: "cap_env \<Rightarrow> cap_world \<Rightarrow> netcap \<Rightarrow> cap_server \<Rightarrow> int \<Rightarrow> int \<Rightarrow> step_result" where
  "startPending e w nc gs maxDurationSeconds maxSizeBytes = (case e_pod e of
      Inl _ \<Rightarrow> (w, RError)
    | Inr None \<Rightarrow> (w, RError)
    | Inr (Some pod) \<Rightarrow>
        if \<not> pod_hasSidecar pod \<and> e_inject e = InjectFail then (w, RError)
        else recordPod e w nc pod (\<lambda>w nc.
          startSidecar e w nc gs maxDurationSeconds maxSizeBytes (\<lambda>w nc. becomeRunning e w nc gs)))"

definition reconcilePending :: "cap_config \<Rightarrow> cap_env \<Rightarrow> cap_world \<Rightarrow> netcap \<Rightarrow> cap_server \<Rightarrow> step_result" where
  "reconcilePending cfg e w nc gs =
     (if \<not> cfg_enabled cfg then fail e w nc ''network capture disabled on this operator''
      else
        (let maxDurationSeconds = (case nc_maxDuration nc of Some d \<Rightarrow> trunc_seconds d | None \<Rightarrow> cfg_defaultMaxDuration cfg);
             maxSizeBytes = (case nc_maxSize nc of Some n \<Rightarrow> n | None \<Rightarrow> cfg_defaultMaxSize cfg)
         in if maxDurationSeconds \<le> 0 \<or> maxSizeBytes \<le> 0
            then fail e w nc ''capture has no maxDuration/maxSize and the operator has no configured default''
            else (case e_list e of
                Inl _ \<Rightarrow> (w, RError)
              | Inr captures \<Rightarrow>
                  (case earliestActive nc None captures of
                     Some earliest \<Rightarrow>
                       if nc_name earliest \<noteq> nc_name nc
                       then failWithReason e w nc ''capture_already_in_progress''
                         (''another capture ('' @ nc_name earliest @ '') is already in progress on this gameserver'')
                       else startPending e w nc gs maxDurationSeconds maxSizeBytes
                   | None \<Rightarrow> startPending e w nc gs maxDurationSeconds maxSizeBytes))))"

section \<open>Running\<close>

definition finishRunning :: "cap_env \<Rightarrow> cap_world \<Rightarrow> netcap \<Rightarrow> cap_server \<Rightarrow> capture_phase \<Rightarrow> step_result" where
  "finishRunning e w nc gs phase =
     (let now = stamp (e_now e);
          nc' = nc\<lparr>nc_phase := phase, nc_completionTime := Some now\<rparr>;
          w1 = patchGameServerActiveCapture gs None (Some now) w
      in after_write (e_patch e) w (after_write (e_updateStatus e) w1 (put_cap nc' w1, RDone)))"

definition pollRunning :: "cap_env \<Rightarrow> cap_world \<Rightarrow> netcap \<Rightarrow> cap_server \<Rightarrow> step_result" where
  "pollRunning e w nc gs = (case e_status e of
      Inl err \<Rightarrow> fail e w nc (''sidecar unreachable: '' @ err_text err)
    | Inr s \<Rightarrow>
        (let nc1 = (set_counts (ss_packets s) (ss_bytes s) nc)\<lparr>nc_message := ss_message s\<rparr>;
             phase = to_lower (trim_space (ss_phase s))
         in if phase = ''completed'' then finishRunning e w nc1 gs PhCompleted
            else if phase = ''failed'' then finishRunning e w nc1 gs PhFailed
            else after_write (e_updateStatus e) w (put_cap nc1 w, RRequeue (5 * second))))"

definition reconcileRunning :: "cap_config \<Rightarrow> cap_env \<Rightarrow> cap_world \<Rightarrow> netcap \<Rightarrow> cap_server \<Rightarrow> step_result" where
  "reconcileRunning cfg e w nc gs =
     (if nc_startTime nc \<noteq> None \<and>
         captureIsExpired (captureExpiresAt (nc_startTime nc)
           (effectiveRetentionSeconds (nc_ttl nc) (cfg_defaultRetention cfg) (cfg_maxRetention cfg))) (e_now e)
      then expireStuckRunningCapture e w gs nc
      else (case e_pod e of
          Inr None \<Rightarrow> failWithReason e w nc ''PodRestarted'' ''game pod was deleted while the capture was running''
        | Inl _ \<Rightarrow> (w, RError)
        | Inr (Some pod) \<Rightarrow>
            if nc_podUID nc \<noteq> [] \<and> nc_podUID nc \<noteq> pod_uid pod
            then failWithReason e w nc ''PodRestarted'' ''game pod was deleted and recreated while the capture was running''
            else if pod_deleting pod
            then failWithReason e w nc ''PodRestarted'' ''game pod is terminating (restart in progress)''
            else (case pod_sidecarExit pod of
                Some (code, reason) \<Rightarrow>
                  if code \<noteq> 0 then failWithReason e w nc ''SidecarCrashed''
                    (''capture sidecar exited unexpectedly (exit code '' @ itoa code @ '', reason '' @ reason @ '')'')
                  else pollRunning e w nc gs
              | None \<Rightarrow> pollRunning e w nc gs)))"

section \<open>Reconcile\<close>

definition reconcileEnabled :: "cap_config \<Rightarrow> cap_env \<Rightarrow> cap_server \<Rightarrow> cap_world \<Rightarrow> netcap \<Rightarrow> step_result" where
  "reconcileEnabled cfg e gs w nc =
     (if \<not> cs_enabled gs then fail e w nc ''capture not enabled on gameserver''
      else if nc_phase nc = PhNone \<or> nc_phase nc = PhPending then reconcilePending cfg e w nc gs
      else if nc_phase nc = PhRunning then reconcileRunning cfg e w nc gs
      else (w, RDone))"

definition reconcileActive :: "cap_config \<Rightarrow> cap_env \<Rightarrow> cap_world \<Rightarrow> netcap \<Rightarrow> step_result" where
  "reconcileActive cfg e w nc =
     (if \<not> e_getServer e then (w, RError)
      else (case w_servers w (nc_server nc) of
          None \<Rightarrow> fail e w nc (''gameserver '' @ nc_server nc @ '' not found: '' @ e_notFoundText e)
        | Some gs \<Rightarrow> ensureOwnerReference e w nc gs (reconcileEnabled cfg e gs)))"

definition capture_reconcile :: "cap_config \<Rightarrow> cap_env \<Rightarrow> cap_world \<Rightarrow> string \<Rightarrow> step_result" where
  "capture_reconcile cfg e w name = (case w_caps w name of
      None \<Rightarrow> (w, RDone)
    | Some nc \<Rightarrow>
        if nc_stopRequested nc \<noteq> None \<and> \<not> isTerminalCapturePhase (nc_phase nc) then completeRequestedStop e w nc
        else if nc_phase nc = PhCompleted \<and> nc_message nc = userStoppedMessage \<and> nc_conds nc SidecarStoppedCondition = None
        then stopLegacyCompleted e w nc
        else if nc_phase nc = PhCompleted \<or> nc_phase nc = PhFailed then reconcileRetention cfg e w nc
        else if nc_phase nc = PhExpired then expireCapture e w nc
        else reconcileActive cfg e w nc)"

definition requeueOnConflict :: "step_result \<Rightarrow> step_result" where
  "requeueOnConflict r = (case r of (w, RConflict) \<Rightarrow> (w, RRequeue second) | (w, x) \<Rightarrow> (w, x))"

definition Capture_Reconcile :: "cap_config \<Rightarrow> cap_env \<Rightarrow> cap_world \<Rightarrow> string \<Rightarrow> step_result" where
  "Capture_Reconcile cfg e w name = requeueOnConflict (capture_reconcile cfg e w name)"

text \<open>Which captures an event of a game pod wakes up: the label of the pod and the listed captures.\<close>

definition mapPodToNetworkCaptures :: "string \<Rightarrow> unit + netcap list \<Rightarrow> string list" where
  "mapPodToNetworkCaptures serverName captures =
     (if serverName = [] then []
      else (case captures of
          Inl _ \<Rightarrow> []
        | Inr cs \<Rightarrow> map nc_name (filter (\<lambda>c. nc_server c = serverName \<and> nc_phase c = PhRunning) cs)))"

section \<open>How a reconcile changes the stored captures\<close>

fun cap_rank :: "capture_phase \<Rightarrow> nat" where
  "cap_rank PhNone = 0"
| "cap_rank PhPending = 0"
| "cap_rank PhRunning = 1"
| "cap_rank PhCompleted = 2"
| "cap_rank PhFailed = 2"
| "cap_rank PhExpired = 3"

definition same_ids :: "netcap \<Rightarrow> netcap \<Rightarrow> bool" where
  "same_ids a b \<longleftrightarrow> nc_name b = nc_name a \<and> nc_uid b = nc_uid a \<and> nc_created b = nc_created a
     \<and> nc_server b = nc_server a \<and> nc_stopRequested b = nc_stopRequested a"

definition phase_moves :: "capture_phase \<Rightarrow> capture_phase \<Rightarrow> bool" where
  "phase_moves p q \<longleftrightarrow> q = p \<or> cap_rank p < cap_rank q"

text \<open>What a reconcile is allowed to do to its capture: make it Running, expire it, remove it.\<close>

record cap_perm =
  p_run :: bool
  p_expire :: bool
  p_remove :: bool

definition evolves :: "cap_perm \<Rightarrow> netcap \<Rightarrow> netcap \<Rightarrow> bool" where
  "evolves R a b \<longleftrightarrow> same_ids a b \<and> phase_moves (nc_phase a) (nc_phase b)
     \<and> (nc_phase b = PhRunning \<longrightarrow> nc_phase a = PhRunning \<or> p_run R)
     \<and> (nc_phase b = PhExpired \<longrightarrow> nc_phase a = PhExpired \<or> p_expire R)"

definition upd :: "cap_perm \<Rightarrow> netcap \<Rightarrow> cap_world \<Rightarrow> cap_world \<Rightarrow> bool" where
  "upd R nc w w' \<longleftrightarrow> (\<forall>n. n \<noteq> nc_name nc \<longrightarrow> w_caps w' n = w_caps w n)
     \<and> (w_caps w' (nc_name nc) = w_caps w (nc_name nc) \<or> (w_caps w' (nc_name nc) = None \<and> p_expire R \<and> p_remove R)
        \<or> (\<exists>nc'. w_caps w' (nc_name nc) = Some nc' \<and> evolves R nc nc'))"

definition file_cleanup_over :: "cap_env \<Rightarrow> netcap \<Rightarrow> bool" where
  "file_cleanup_over e nc \<longleftrightarrow> e_deleteFile e = None
     \<or> (case nc_conds nc ''FileCleanupFailed'' of
          Some c \<Rightarrow> time_sub (e_now e) (cc_time c) \<ge> captureFileCleanupBudget
        | None \<Rightarrow> False)"

lemma evolves_refl [simp]: "evolves R a a"
  by (simp add: evolves_def same_ids_def phase_moves_def)

lemma evolves_name: "evolves R a b \<Longrightarrow> nc_name b = nc_name a"
  by (simp add: evolves_def same_ids_def)

lemma upd_refl [simp]: "upd R nc w w"
  by (simp add: upd_def)

lemma upd_call [simp]: "upd R nc w0 (call c w) = upd R nc w0 w"
  by (simp add: upd_def call_def)

lemma upd_patch [simp]: "upd R nc w0 (patchGameServerActiveCapture gs a t w) = upd R nc w0 w"
  by (simp add: upd_def patchGameServerActiveCapture_def)

lemma upd_put: "upd R nc w0 w \<Longrightarrow> evolves R nc nc' \<Longrightarrow> upd R nc w0 (put_cap nc' w)"
  by (auto simp: upd_def put_cap_def dest: evolves_name)

lemma upd_del: "upd R nc w0 w \<Longrightarrow> n = nc_name nc \<Longrightarrow> p_expire R \<Longrightarrow> p_remove R \<Longrightarrow> upd R nc w0 (del_cap n w)"
  by (auto simp: upd_def del_cap_def)

lemma after_write_upd:
  "upd R nc w0 w \<Longrightarrow> upd R nc w0 (fst k) \<Longrightarrow> upd R nc w0 (fst (after_write r w k))"
  by (cases r) (simp_all add: after_write_def)

lemma evolves_terminal:
  assumes "evolves R a b" "cap_rank (nc_phase b) < cap_rank q" "same_ids b c" "nc_phase c = q" "q \<noteq> PhRunning" "q = PhExpired \<longrightarrow> p_expire R"
  shows "evolves R a c"
  using assms by (auto simp: evolves_def same_ids_def phase_moves_def)

lemma evolves_status:
  assumes "evolves R a b" "same_ids b c" "nc_phase c = nc_phase b"
  shows "evolves R a c"
  using assms by (auto simp: evolves_def same_ids_def phase_moves_def)

lemma same_ids_simps [simp]:
  "same_ids a (b\<lparr>nc_podUID := x1\<rparr>) = same_ids a b"
  "same_ids a (b\<lparr>nc_owners := x2\<rparr>) = same_ids a b"
  "same_ids a (b\<lparr>nc_phase := x3\<rparr>) = same_ids a b"
  "same_ids a (b\<lparr>nc_startTime := x4\<rparr>) = same_ids a b"
  "same_ids a (b\<lparr>nc_completionTime := x4\<rparr>) = same_ids a b"
  "same_ids a (b\<lparr>nc_packets := x5\<rparr>) = same_ids a b"
  "same_ids a (b\<lparr>nc_bytes := x6\<rparr>) = same_ids a b"
  "same_ids a (b\<lparr>nc_message := x7\<rparr>) = same_ids a b"
  "same_ids a (b\<lparr>nc_conds := x8\<rparr>) = same_ids a b"
  "same_ids a a"
  by (simp_all add: same_ids_def)

lemmas upd_rules = after_write_upd upd_put upd_del

lemma failWithReason_upd:
  assumes "upd R nc0 w0 w" "evolves R nc0 nc" "cap_rank (nc_phase nc) < 2"
  shows "upd R nc0 w0 (fst (failWithReason e w nc reason message))"
proof -
  have "evolves R nc0 (nc\<lparr>nc_phase := PhFailed, nc_completionTime := t, nc_message := m, nc_conds := c\<rparr>)" for t m c
    using assms(2,3) by (elim evolves_terminal [where q = PhFailed]) simp_all
  with assms(1) show ?thesis
    by (auto simp: failWithReason_def Let_def intro!: upd_rules split: option.split)
qed

lemma stamp_recent: "time_sub t (stamp t) < captureFileCleanupBudget"
proof -
  have "t - stamp t < second" by (simp add: stamp_def second_def)
  then show ?thesis by (auto simp: time_sub_def captureFileCleanupBudget_def minute_def second_def dur_min_def dur_max_def)
qed

lemma expireCapture_upd:
  assumes "upd R nc0 w0 w" "evolves R nc0 nc" "p_expire R" "p_remove R = file_cleanup_over e nc"
  shows "upd R nc0 w0 (fst (expireCapture e w nc))"
proof -
  have ph: "nc_phase nc \<noteq> PhExpired \<Longrightarrow> cap_rank (nc_phase nc) < 3" by (cases "nc_phase nc") auto
  have 1: "evolves R nc0 (nc\<lparr>nc_phase := PhExpired, nc_completionTime := t\<rparr>)" if "nc_phase nc \<noteq> PhExpired" for t
    using assms(2,3) ph [OF that] by (elim evolves_terminal [where q = PhExpired]) simp_all
  have 2: "evolves R nc0 (nc\<lparr>nc_conds := c\<rparr>)" for c
    using assms(2) by (elim evolves_status) simp_all
  have 3: "evolves R nc0 (nc\<lparr>nc_phase := PhExpired, nc_completionTime := t, nc_conds := c\<rparr>)" if "nc_phase nc \<noteq> PhExpired" for t c
    using assms(2,3) ph [OF that] by (elim evolves_terminal [where q = PhExpired]) simp_all
  have 4: "p_remove R" if "e_deleteFile e = Some err"
      "captureFileCleanupBudget \<le> time_sub (e_now e) (case nc_conds nc ''FileCleanupFailed'' of Some c \<Rightarrow> cc_time c | None \<Rightarrow> stamp (e_now e))" for err
    using that assms(4) stamp_recent [of "e_now e"] by (auto simp: file_cleanup_over_def split: option.splits)
  have 5: "p_remove R" if "e_deleteFile e = None" using that assms(4) by (simp add: file_cleanup_over_def)
  show ?thesis
    using assms(1-3) 1 2 3 4 5 evolves_name [OF assms(2)]
    by (auto simp: expireCapture_def Let_def intro!: upd_rules split: option.split)
qed

lemma fail_upd:
  assumes "upd R nc0 w0 w" "evolves R nc0 nc" "cap_rank (nc_phase nc) < 2"
  shows "upd R nc0 w0 (fst (fail e w nc message))"
  using failWithReason_upd [OF assms] by (simp add: fail_def)

definition elapsed :: "cap_config \<Rightarrow> cap_env \<Rightarrow> netcap \<Rightarrow> time option \<Rightarrow> bool" where
  "elapsed cfg e nc anchor = captureIsExpired (captureExpiresAt anchor
     (effectiveRetentionSeconds (nc_ttl nc) (cfg_defaultRetention cfg) (cfg_maxRetention cfg))) (e_now e)"

lemma reconcileRetention_upd:
  assumes "upd R nc0 w0 w" "evolves R nc0 nc" "p_remove R = file_cleanup_over e nc"
    and "elapsed cfg e nc (nc_completionTime nc) \<Longrightarrow> p_expire R"
  shows "upd R nc0 w0 (fst (reconcileRetention cfg e w nc))"
  using assms expireCapture_upd [OF assms(1,2) _ assms(3)] by (auto simp: reconcileRetention_def Let_def elapsed_def split: option.split)

lemma expireStuckRunningCapture_upd:
  assumes "upd R nc0 w0 w" "evolves R nc0 nc" "p_expire R" "p_remove R = file_cleanup_over e nc"
  shows "upd R nc0 w0 (fst (expireStuckRunningCapture e w gs nc))"
proof -
  let ?nc = "\<lambda>t m. (case e_stop e of
      Some err \<Rightarrow> nc\<lparr>nc_conds := SetStatusCondition (nc_conds nc) ''RetentionStopFailed'' ''sidecar_stop_failed'' (err_text err) t\<rparr>
    | None \<Rightarrow> nc)\<lparr>nc_completionTime := Some t, nc_message := m\<rparr>"
  have "evolves R nc0 (?nc t m)" for t m
    using assms(2) by (elim evolves_status) (simp_all split: option.split)
  moreover have "p_remove R = file_cleanup_over e (?nc t m)" for t m
    using assms(4) by (simp add: file_cleanup_over_def SetStatusCondition_def split: option.split)
  ultimately show ?thesis
    using assms(1,3) unfolding expireStuckRunningCapture_def Let_def by (intro after_write_upd expireCapture_upd) simp_all
qed

lemma releaseActiveCaptureLock_upd:
  assumes "upd R nc0 w0 w" "\<And>w'. upd R nc0 w0 w' \<Longrightarrow> upd R nc0 w0 (fst (k w'))"
  shows "upd R nc0 w0 (fst (releaseActiveCaptureLock e w nc t k))"
  using assms by (auto simp: releaseActiveCaptureLock_def intro!: after_write_upd split: option.split)

lemma stopSidecar_upd:
  assumes "upd R nc0 w0 w" "stopSidecar e w nc b = (w1, nc1)"
  shows "upd R nc0 w0 w1 \<and> same_ids nc nc1 \<and> nc_phase nc1 = nc_phase nc"
  using assms by (auto simp: stopSidecar_def Let_def set_counts_def split: if_splits option.splits sum.splits)

lemma completeRequestedStop_upd:
  assumes "upd R nc0 w0 w" "evolves R nc0 nc" "cap_rank (nc_phase nc) < 2"
  shows "upd R nc0 w0 (fst (completeRequestedStop e w nc))"
proof -
  let ?q = "if nc_phase nc = PhNone \<or> nc_phase nc = PhPending then pendingCaptureNeverStarted e nc (e_now e) else Inr False"
  show ?thesis
  proof (cases ?q)
    case (Inl u)
    with assms(1) show ?thesis by (simp add: completeRequestedStop_def)
  next
    case (Inr b)
    obtain w1 nc1 where st: "stopSidecar e w nc b = (w1, nc1)" by (cases "stopSidecar e w nc b")
    note s1 = stopSidecar_upd [OF assms(1) st]
    have "evolves R nc0 (nc1\<lparr>nc_phase := PhCompleted, nc_completionTime := t, nc_message := m\<rparr>)" for t m
      using assms(2,3) s1 by (elim evolves_terminal [where q = PhCompleted]) simp_all
    with s1 show ?thesis
      by (auto simp: completeRequestedStop_def Inr st Let_def intro!: releaseActiveCaptureLock_upd upd_rules)
  qed
qed

lemma stopLegacyCompleted_upd:
  assumes "upd R nc0 w0 w" "evolves R nc0 nc"
  shows "upd R nc0 w0 (fst (stopLegacyCompleted e w nc))"
proof -
  have "evolves R nc0 (nc\<lparr>nc_conds := c\<rparr>)" for c
    using assms(2) by (elim evolves_status) simp_all
  with assms(1) show ?thesis
    unfolding stopLegacyCompleted_def Let_def
    by (cases "e_stop e") (auto intro!: releaseActiveCaptureLock_upd upd_rules)
qed

lemma startSidecar_upd:
  assumes "upd R nc0 w0 w" "evolves R nc0 nc" "cap_rank (nc_phase nc) < 2"
    and "\<And>w' nc'. upd R nc0 w0 w' \<Longrightarrow> evolves R nc0 nc' \<Longrightarrow> nc_phase nc' = nc_phase nc \<Longrightarrow> upd R nc0 w0 (fst (k w' nc'))"
  shows "upd R nc0 w0 (fst (startSidecar e w nc gs d z k))"
proof -
  have "evolves R nc0 (set_counts p b nc)" "nc_phase (set_counts p b nc) = nc_phase nc" for p b
    using assms(2) by (auto elim!: evolves_status simp: set_counts_def)
  with assms show ?thesis
    by (auto simp: startSidecar_def Let_def intro!: fail_upd split: sum.split filter_answer.split option.split)
qed

lemma startPending_upd:
  assumes "upd R nc0 w0 w" "evolves R nc0 nc" "cap_rank (nc_phase nc) = 0" "p_run R"
  shows "upd R nc0 w0 (fst (startPending e w nc gs d z))"
proof -
  have run: "upd R nc0 w0 (fst (becomeRunning e w' nc' gs))"
    if "upd R nc0 w0 w'" "evolves R nc0 nc'" "cap_rank (nc_phase nc') = 0" for w' nc'
  proof -
    have "evolves R nc0 (nc'\<lparr>nc_phase := PhRunning, nc_startTime := t, nc_message := m\<rparr>)" for t m
      using that(2,3) assms(4) by (auto simp: evolves_def phase_moves_def)
    with that(1) show ?thesis by (auto simp: becomeRunning_def Let_def intro!: upd_rules)
  qed
  have start: "upd R nc0 w0 (fst (startSidecar e w' nc' gs d z (\<lambda>w nc. becomeRunning e w nc gs)))"
    if "upd R nc0 w0 w'" "evolves R nc0 nc'" "cap_rank (nc_phase nc') = 0" for w' nc'
    using that run by (intro startSidecar_upd) simp_all
  have "evolves R nc0 (nc\<lparr>nc_podUID := u\<rparr>)" for u
    using assms(2) by (elim evolves_status) simp_all
  with assms(1,3) have "upd R nc0 w0 (fst (startSidecar e (put_cap (nc\<lparr>nc_podUID := u\<rparr>) w) (nc\<lparr>nc_podUID := u\<rparr>) gs d z
      (\<lambda>w nc. becomeRunning e w nc gs)))" for u
    by (intro start upd_put) simp_all
  with assms(1-3) start show ?thesis
    by (auto simp: startPending_def recordPod_def Let_def intro!: upd_rules split: sum.split option.split)
qed

definition may_run :: "cap_env \<Rightarrow> netcap \<Rightarrow> bool" where
  "may_run e nc = (case e_list e of
      Inl _ \<Rightarrow> False
    | Inr captures \<Rightarrow> (case earliestActive nc None captures of Some b \<Rightarrow> nc_name b = nc_name nc | None \<Rightarrow> True))"

lemma reconcilePending_upd:
  assumes "upd R nc0 w0 w" "evolves R nc0 nc" "cap_rank (nc_phase nc) = 0" "p_run R = may_run e nc"
  shows "upd R nc0 w0 (fst (reconcilePending cfg e w nc gs))"
  using assms
  by (auto simp: reconcilePending_def Let_def may_run_def intro!: fail_upd failWithReason_upd startPending_upd
      split: sum.splits option.splits)

lemma reconcileRunning_upd:
  assumes "upd R nc0 w0 w" "evolves R nc0 nc" "nc_phase nc = PhRunning" "p_remove R = file_cleanup_over e nc"
    and "elapsed cfg e nc (nc_startTime nc) \<Longrightarrow> p_expire R"
  shows "upd R nc0 w0 (fst (reconcileRunning cfg e w nc gs))"
proof -
  have poll: "upd R nc0 w0 (fst (pollRunning e w nc gs))"
  proof -
    have "evolves R nc0 ((set_counts p b nc)\<lparr>nc_message := m, nc_phase := q, nc_completionTime := t\<rparr>)" if "cap_rank q = 2" for p b m q t
      using assms(2,3) that by (elim evolves_terminal [where q = q]) (auto simp: set_counts_def)
    moreover have "evolves R nc0 ((set_counts p b nc)\<lparr>nc_message := m\<rparr>)" for p b m
      using assms(2) by (elim evolves_status) (simp_all add: set_counts_def)
    ultimately show ?thesis
      using assms by (auto simp: pollRunning_def finishRunning_def Let_def intro!: fail_upd upd_rules split: sum.split)
  qed
  have over: "upd R nc0 w0 (fst (expireStuckRunningCapture e w gs nc))" if "elapsed cfg e nc (nc_startTime nc)"
    using assms that by (intro expireStuckRunningCapture_upd) simp_all
  have failed: "upd R nc0 w0 (fst (failWithReason e w nc r m))" for r m
    using assms by (intro failWithReason_upd) simp_all
  show ?thesis
    unfolding reconcileRunning_def elapsed_def [symmetric]
    using assms(1) poll over failed by (simp split: sum.split option.split)
qed

lemma earliestActive_cong:
  "nc_name nc' = nc_name nc \<Longrightarrow> nc_server nc' = nc_server nc \<Longrightarrow> earliestActive nc' b cs = earliestActive nc b cs"
  by (induction nc b cs rule: earliestActive.induct) (auto split: option.split)

lemma may_run_cong:
  "nc_name nc' = nc_name nc \<Longrightarrow> nc_server nc' = nc_server nc \<Longrightarrow> may_run e nc' = may_run e nc"
  by (auto simp: may_run_def earliestActive_cong [of nc' nc] split: sum.split option.split)

lemma nonterminal_rank: "\<not> isTerminalCapturePhase p \<longleftrightarrow> cap_rank p < 2"
  by (cases p) (auto simp: isTerminalCapturePhase_def)

text \<open>Adding the owner reference leaves alone everything the permissions look at.\<close>

definition same_state :: "netcap \<Rightarrow> netcap \<Rightarrow> bool" where
  "same_state a b \<longleftrightarrow> nc_phase b = nc_phase a \<and> nc_name b = nc_name a \<and> nc_server b = nc_server a \<and> nc_ttl b = nc_ttl a
     \<and> nc_startTime b = nc_startTime a \<and> nc_completionTime b = nc_completionTime a \<and> nc_conds b = nc_conds a"

definition retention_over :: "cap_config \<Rightarrow> cap_env \<Rightarrow> netcap \<Rightarrow> bool" where
  "retention_over cfg e nc = (case nc_phase nc of
      PhExpired \<Rightarrow> True
    | PhCompleted \<Rightarrow> elapsed cfg e nc (nc_completionTime nc)
    | PhFailed \<Rightarrow> elapsed cfg e nc (nc_completionTime nc)
    | PhRunning \<Rightarrow> elapsed cfg e nc (nc_startTime nc)
    | _ \<Rightarrow> False)"

definition permits :: "cap_config \<Rightarrow> cap_env \<Rightarrow> netcap \<Rightarrow> cap_perm" where
  "permits cfg e nc = \<lparr>p_run = may_run e nc, p_expire = retention_over cfg e nc, p_remove = file_cleanup_over e nc\<rparr>"

lemma permits_cong: "same_state a b \<Longrightarrow> permits cfg e b = permits cfg e a"
  by (auto simp: permits_def same_state_def retention_over_def elapsed_def file_cleanup_over_def may_run_cong [of b a]
      split: capture_phase.split)

lemma ensureOwnerReference_upd:
  assumes "upd R nc0 w0 w" "evolves R nc0 nc"
    and "\<And>w' nc'. upd R nc0 w0 w' \<Longrightarrow> evolves R nc0 nc' \<Longrightarrow> same_state nc nc' \<Longrightarrow> upd R nc0 w0 (fst (k w' nc'))"
  shows "upd R nc0 w0 (fst (ensureOwnerReference e w nc gs k))"
proof -
  have o: "evolves R nc0 (nc\<lparr>nc_owners := o'\<rparr>)" for o'
    using assms(2) by (elim evolves_status) simp_all
  have "upd R nc0 w0 (fst (k (put_cap (nc\<lparr>nc_owners := o'\<rparr>) w) (nc\<lparr>nc_owners := o'\<rparr>)))" for o'
    using assms(1,3) o upd_put by (simp add: same_state_def)
  with assms show ?thesis by (auto simp: ensureOwnerReference_def Let_def same_state_def intro!: after_write_upd split: option.split)
qed

lemma reconcileEnabled_upd:
  assumes "upd R nc0 w0 w" "evolves R nc0 nc" "\<not> isTerminalCapturePhase (nc_phase nc)" "R = permits cfg e nc"
  shows "upd R nc0 w0 (fst (reconcileEnabled cfg e gs w nc))"
proof -
  have R: "p_run R = may_run e nc" "p_remove R = file_cleanup_over e nc" "p_expire R = retention_over cfg e nc"
    using assms(4) by (simp_all add: permits_def)
  have rank: "cap_rank (nc_phase nc) < 2" using assms(3) by (simp add: nonterminal_rank)
  have failed: "upd R nc0 w0 (fst (fail e w nc m))" for m
    by (rule fail_upd [OF assms(1,2) rank])
  have pending: "upd R nc0 w0 (fst (reconcilePending cfg e w nc gs))" if "nc_phase nc = PhNone \<or> nc_phase nc = PhPending"
    using that by (intro reconcilePending_upd [OF assms(1,2) _ R(1)]) auto
  have running: "upd R nc0 w0 (fst (reconcileRunning cfg e w nc gs))" if "nc_phase nc = PhRunning"
    using that R(3) by (intro reconcileRunning_upd [OF assms(1,2) that R(2)]) (simp add: retention_over_def)
  show ?thesis
    unfolding reconcileEnabled_def using assms(1) failed pending running by simp
qed

lemma reconcileActive_upd:
  assumes "\<not> isTerminalCapturePhase (nc_phase nc)"
  shows "upd (permits cfg e nc) nc w (fst (reconcileActive cfg e w nc))"
proof -
  have "upd (permits cfg e nc) nc w (fst (ensureOwnerReference e w nc gs (reconcileEnabled cfg e gs)))" for gs
  proof (rule ensureOwnerReference_upd)
    fix w' nc'
    assume *: "upd (permits cfg e nc) nc w w'" "evolves (permits cfg e nc) nc nc'" "same_state nc nc'"
    have "\<not> isTerminalCapturePhase (nc_phase nc')" using assms *(3) by (simp add: same_state_def)
    then show "upd (permits cfg e nc) nc w (fst (reconcileEnabled cfg e gs w' nc'))"
      by (rule reconcileEnabled_upd [OF *(1,2) _ permits_cong [OF *(3), symmetric]])
  qed simp_all
  with assms show ?thesis
    by (auto simp: reconcileActive_def nonterminal_rank intro!: fail_upd split: option.split)
qed

lemma capture_reconcile_upd:
  assumes "w_caps w name = Some nc"
  shows "upd (permits cfg e nc) nc w (fst (capture_reconcile cfg e w name))"
proof -
  let ?R = "permits cfg e nc"
  have R: "p_remove ?R = file_cleanup_over e nc" "p_expire ?R = retention_over cfg e nc" by (simp_all add: permits_def)
  have stop: "upd ?R nc w (fst (completeRequestedStop e w nc))" if "\<not> isTerminalCapturePhase (nc_phase nc)"
    using that by (intro completeRequestedStop_upd) (simp_all add: nonterminal_rank)
  have kept: "upd ?R nc w (fst (reconcileRetention cfg e w nc))" if "nc_phase nc = PhCompleted \<or> nc_phase nc = PhFailed"
    using that R by (intro reconcileRetention_upd) (auto simp: retention_over_def)
  have over: "upd ?R nc w (fst (expireCapture e w nc))" if "nc_phase nc = PhExpired"
    using that R by (intro expireCapture_upd) (simp_all add: retention_over_def)
  have legacy: "upd ?R nc w (fst (stopLegacyCompleted e w nc))" by (rule stopLegacyCompleted_upd) simp_all
  have active: "upd ?R nc w (fst (reconcileActive cfg e w nc))" if "nc_phase nc \<noteq> PhCompleted" "nc_phase nc \<noteq> PhFailed" "nc_phase nc \<noteq> PhExpired"
    using that by (intro reconcileActive_upd) (simp add: isTerminalCapturePhase_def)
  show ?thesis
    unfolding capture_reconcile_def assms using stop kept over legacy active by simp
qed

section \<open>The concurrency lock\<close>

lemma not_earlier_trans: "\<not> earlier a b \<Longrightarrow> \<not> earlier b c \<Longrightarrow> \<not> earlier a c"
  by (auto simp: earlier_def created_before_def split: option.splits)

lemma earlier_total: "\<not> earlier a b \<Longrightarrow> nc_name a \<noteq> nc_name b \<Longrightarrow> earlier b a"
  by (auto simp: earlier_def created_before_def split: option.splits)

lemma not_earlier_self [simp]: "\<not> earlier a a"
  by (auto simp: earlier_def created_before_def split: option.splits)

definition rivals :: "netcap \<Rightarrow> netcap list \<Rightarrow> netcap set" where
  "rivals nc cs = {x \<in> set cs. nc_server x = nc_server nc \<and> captureActive (nc_name nc) x}"

lemma rivals_Cons:
  "rivals nc (x # cs) = (if nc_server x = nc_server nc \<and> captureActive (nc_name nc) x then insert x (rivals nc cs) else rivals nc cs)"
  by (auto simp: rivals_def)

lemma earliestActive_Some:
  "earliestActive nc b cs = Some r \<Longrightarrow> (\<forall>x \<in> rivals nc cs \<union> set_option b. \<not> earlier x r) \<and> r \<in> rivals nc cs \<union> set_option b"
proof (induction nc b cs rule: earliestActive.induct)
  case (1 nc best)
  then show ?case by (simp add: rivals_def)
next
  case (2 nc best x cs)
  show ?case
  proof (cases "nc_server x \<noteq> nc_server nc \<or> \<not> captureActive (nc_name nc) x")
    case True
    with 2 show ?thesis by (auto simp: rivals_Cons)
  next
    case False
    show ?thesis
    proof (cases best)
      case None
      with False 2 show ?thesis by (auto simp: rivals_Cons)
    next
      case (Some b)
      have "earlier x b \<Longrightarrow> \<not> earlier b x" by (auto simp: earlier_def created_before_def split: option.splits)
      with Some False 2 not_earlier_trans [of b x r] not_earlier_trans [of x b r] show ?thesis
        by (auto simp: rivals_Cons split: if_splits)
    qed
  qed
qed

lemma earliestActive_None: "earliestActive nc b cs = None \<Longrightarrow> b = None \<and> rivals nc cs = {}"
proof (induction nc b cs rule: earliestActive.induct)
  case (1 nc best)
  then show ?case by (simp add: rivals_def)
next
  case (2 nc best x cs)
  then show ?case
    by (cases best; cases "nc_server x \<noteq> nc_server nc \<or> \<not> captureActive (nc_name nc) x")
      (simp_all add: rivals_Cons split: if_splits)
qed

text \<open>
  The list of captures comes from the informer cache, which may lag behind the store: it is what the store held at some
  moment of the past.  Get and List read the same cache, so that moment is not before the creation of the capture
  that is reconciled, the incarnation of that name being told by creation time and server.  \<open>ws\<close> is the history of
  the store, the present first.
\<close>

definition cap_key :: "netcap \<Rightarrow> string \<times> time option \<times> string \<times> capture_phase" where
  "cap_key c = (nc_name c, nc_created c, nc_server c, nc_phase c)"

definition same_incarnation :: "netcap \<Rightarrow> netcap \<Rightarrow> bool" where
  "same_incarnation a b \<longleftrightarrow> nc_name a = nc_name b \<and> nc_created a = nc_created b \<and> nc_server a = nc_server b"

definition lagging_list :: "cap_env \<Rightarrow> string \<Rightarrow> cap_world list \<Rightarrow> bool" where
  "lagging_list e n ws \<longleftrightarrow> (\<forall>cs nc. e_list e = Inr cs \<and> w_caps (hd ws) n = Some nc \<longrightarrow>
     (\<exists>u \<in> set ws. cap_key ` set cs = cap_key ` ran (w_caps u) \<and> (\<exists>c. w_caps u n = Some c \<and> same_incarnation c nc)))"

definition cap_live :: "netcap \<Rightarrow> bool" where
  "cap_live c \<longleftrightarrow> nc_phase c = PhNone \<or> nc_phase c = PhPending \<or> nc_phase c = PhRunning"

text \<open>A capture that may run is ahead of every live one of its server in the list.\<close>

lemma may_run_first:
  assumes "e_list e = Inr cs" "cap_key ` set cs = cap_key ` ran (w_caps u)" "may_run e nc"
    and "w_caps u n = Some c" "same_incarnation c nc" "\<And>n c. w_caps u n = Some c \<Longrightarrow> nc_name c = n"
    and "w_caps u m = Some x" "cap_live x" "nc_server x = nc_server nc" "nc_name x \<noteq> nc_name nc"
  shows "\<not> created_before (nc_created x) (nc_created nc)"
proof -
  have "cap_key x \<in> cap_key ` set cs" using assms(2,7) by (auto simp: ran_def)
  then obtain y where y: "y \<in> set cs" "cap_key y = cap_key x" by force
  with assms(8,9) have ry: "y \<in> rivals nc cs" by (auto simp: rivals_def captureActive_def cap_live_def cap_key_def)
  have "earliestActive nc None cs \<noteq> None" using ry earliestActive_None [of nc None cs] by auto
  then obtain r where r: "earliestActive nc None cs = Some r" by blast
  note first = earliestActive_Some [OF r]
  have rname: "nc_name r = nc_name nc" using assms(1,3) r by (simp add: may_run_def)
  have "r \<in> set cs" using first by (auto simp: rivals_def)
  then have "cap_key r \<in> cap_key ` ran (w_caps u)" using assms(2) by blast
  then obtain z k where z: "w_caps u k = Some z" "cap_key r = cap_key z" by (auto simp: ran_def)
  have "k = n" using assms(6) [OF z(1)] assms(6) [OF assms(4)] z(2) rname assms(5) by (simp add: cap_key_def same_incarnation_def)
  with z assms(4,5) have "nc_created r = nc_created nc" by (simp add: cap_key_def same_incarnation_def)
  moreover have "\<not> earlier y r" using first ry by blast
  ultimately show ?thesis using y(2) by (auto simp: cap_key_def earlier_def)
qed

text \<open>
  What happens to the captures of a namespace: reconciles, with any answers and any outcome of the writes and a list
  that may lag (the capture itself is read as stored, since the status write of a pass over an outdated copy
  fails); users creating captures, asking for a stop and deleting them; an old API completing a capture on
  its own; and any change to the GameServers.  A capture is created at a later time than every capture its server
  ever had.
\<close>

inductive cap_history :: "cap_config \<Rightarrow> cap_world list \<Rightarrow> bool" for cfg where
  init: "w_caps w = Map.empty \<Longrightarrow> cap_history cfg [w]"
| reconcile: "cap_history cfg (w # ws) \<Longrightarrow> lagging_list e n (w # ws) \<Longrightarrow> cap_history cfg (fst (Capture_Reconcile cfg e w n) # w # ws)"
| create: "cap_history cfg (w # ws) \<Longrightarrow> w_caps w (nc_name c) = None \<Longrightarrow> nc_phase c = PhNone \<Longrightarrow>
    (\<forall>u \<in> set (w # ws). \<forall>x \<in> ran (w_caps u). nc_server x = nc_server c \<longrightarrow> created_before (nc_created x) (nc_created c)) \<Longrightarrow>
    cap_history cfg (put_cap c w # w # ws)"
| request_stop: "cap_history cfg (w # ws) \<Longrightarrow> w_caps w n = Some c \<Longrightarrow>
    cap_history cfg (put_cap (c\<lparr>nc_stopRequested := Some v\<rparr>) w # w # ws)"
| legacy_stop: "cap_history cfg (w # ws) \<Longrightarrow> w_caps w n = Some c \<Longrightarrow> \<not> isTerminalCapturePhase (nc_phase c) \<Longrightarrow>
    cap_history cfg (put_cap (c\<lparr>nc_phase := PhCompleted, nc_message := userStoppedMessage\<rparr>) w # w # ws)"
| delete: "cap_history cfg (w # ws) \<Longrightarrow> cap_history cfg (del_cap n w # w # ws)"
| servers: "cap_history cfg (w # ws) \<Longrightarrow> cap_history cfg (w\<lparr>w_servers := f\<rparr> # w # ws)"

definition cap_inv :: "cap_world \<Rightarrow> bool" where
  "cap_inv w \<longleftrightarrow>
     (\<forall>n c. w_caps w n = Some c \<longrightarrow> nc_name c = n)
     \<and> (\<forall>m n a b. w_caps w m = Some a \<longrightarrow> w_caps w n = Some b \<longrightarrow> m \<noteq> n \<longrightarrow> nc_server a = nc_server b
          \<longrightarrow> nc_created a \<noteq> nc_created b \<and> (nc_phase a = PhRunning \<longrightarrow> cap_live b \<longrightarrow> created_before (nc_created a) (nc_created b)))"

lemma cap_invI:
  assumes "\<And>n c. w_caps w n = Some c \<Longrightarrow> nc_name c = n"
    and "\<And>m n a b. w_caps w m = Some a \<Longrightarrow> w_caps w n = Some b \<Longrightarrow> m \<noteq> n \<Longrightarrow> nc_server a = nc_server b \<Longrightarrow>
      nc_created a \<noteq> nc_created b \<and> (nc_phase a = PhRunning \<longrightarrow> cap_live b \<longrightarrow> created_before (nc_created a) (nc_created b))"
  shows "cap_inv w"
  using assms unfolding cap_inv_def by blast

lemma cap_invD:
  assumes "cap_inv w"
  shows "w_caps w n = Some c \<Longrightarrow> nc_name c = n"
    and "w_caps w m = Some a \<Longrightarrow> w_caps w n = Some b \<Longrightarrow> m \<noteq> n \<Longrightarrow> nc_server a = nc_server b \<Longrightarrow> nc_created a \<noteq> nc_created b"
    and "w_caps w m = Some a \<Longrightarrow> w_caps w n = Some b \<Longrightarrow> m \<noteq> n \<Longrightarrow> nc_server a = nc_server b \<Longrightarrow>
      nc_phase a = PhRunning \<Longrightarrow> cap_live b \<Longrightarrow> created_before (nc_created a) (nc_created b)"
  using assms unfolding cap_inv_def by blast+

lemma evolves_live: "evolves R a b \<Longrightarrow> cap_live b \<Longrightarrow> cap_live a"
  by (cases "nc_phase a"; cases "nc_phase b") (auto simp: evolves_def phase_moves_def cap_live_def)

text \<open>
  The changes that keep the lock: each capture that is there afterwards was there before, it is not alive
  again, and it only became Running if it was the first of its server.
\<close>

definition first_of_server :: "cap_world \<Rightarrow> netcap \<Rightarrow> bool" where
  "first_of_server w c \<longleftrightarrow> (\<forall>m x. w_caps w m = Some x \<longrightarrow> m \<noteq> nc_name c \<longrightarrow> nc_server x = nc_server c \<longrightarrow> cap_live x
     \<longrightarrow> created_before (nc_created c) (nc_created x))"

definition derives :: "cap_world \<Rightarrow> netcap \<Rightarrow> netcap \<Rightarrow> bool" where
  "derives w c0 c \<longleftrightarrow> nc_name c = nc_name c0 \<and> nc_server c = nc_server c0 \<and> nc_created c = nc_created c0
     \<and> (cap_live c \<longrightarrow> cap_live c0) \<and> (nc_phase c = PhRunning \<longrightarrow> nc_phase c0 = PhRunning \<or> first_of_server w c0)"

lemma derives_refl [simp]: "derives w c c"
  by (simp add: derives_def)

lemma cap_inv_derives:
  assumes inv: "cap_inv w" and old: "\<And>n c. w_caps w' n = Some c \<Longrightarrow> \<exists>c0. w_caps w n = Some c0 \<and> derives w c0 c"
  shows "cap_inv w'"
proof (rule cap_invI)
  show "nc_name c = n" if "w_caps w' n = Some c" for n c
    using old [OF that] cap_invD(1) [OF inv] by (auto simp: derives_def)
next
  fix m n a b
  assume ab: "w_caps w' m = Some a" "w_caps w' n = Some b" "m \<noteq> n" "nc_server a = nc_server b"
  obtain a0 where a: "w_caps w m = Some a0" "derives w a0 a" using old [OF ab(1)] by blast
  obtain b0 where b: "w_caps w n = Some b0" "derives w b0 b" using old [OF ab(2)] by blast
  have srv: "nc_server a0 = nc_server b0" using ab(4) a(2) b(2) by (simp add: derives_def)
  have name: "nc_name a0 = m" using cap_invD(1) [OF inv a(1)] .
  note D = cap_invD(2) [OF inv a(1) b(1) ab(3) srv] cap_invD(3) [OF inv a(1) b(1) ab(3) srv]
  have F: "created_before (nc_created a0) (nc_created b0)" if "first_of_server w a0" "cap_live b0"
    using that name b(1) ab(3) srv by (auto simp: first_of_server_def)
  show "nc_created a \<noteq> nc_created b \<and> (nc_phase a = PhRunning \<longrightarrow> cap_live b \<longrightarrow> created_before (nc_created a) (nc_created b))"
    using a(2) b(2) D F unfolding derives_def by metis
qed

text \<open>A live capture was in the store, and live, whenever a later one of its server was.\<close>

definition seen :: "cap_world \<Rightarrow> cap_world \<Rightarrow> bool" where
  "seen w u \<longleftrightarrow> (\<forall>m n x nc c. w_caps w m = Some x \<and> cap_live x \<and> w_caps w n = Some nc \<and> nc_server x = nc_server nc
       \<and> created_before (nc_created x) (nc_created nc) \<and> w_caps u n = Some c \<and> same_incarnation c nc \<longrightarrow>
     (\<exists>y. w_caps u m = Some y \<and> cap_live y \<and> same_incarnation y x))"

definition history_inv :: "cap_world list \<Rightarrow> bool" where
  "history_inv ws \<longleftrightarrow> (\<forall>u \<in> set ws. cap_inv u \<and> seen (hd ws) u)"

lemma seen_refl: "seen w w"
  unfolding seen_def same_incarnation_def by blast

text \<open>What keeps the history: captures that are there were there before, none comes alive again, and one
  only became Running if it was the first of its server.\<close>

definition goes_on :: "cap_world \<Rightarrow> cap_world \<Rightarrow> bool" where
  "goes_on w w' \<longleftrightarrow> (\<forall>n c. w_caps w' n = Some c \<longrightarrow> (\<exists>c0. w_caps w n = Some c0 \<and> derives w c0 c))"

lemma seen_goes_on:
  assumes "goes_on w w'" "seen w u"
  shows "seen w' u"
  unfolding seen_def
proof (intro allI impI, elim conjE)
  fix m n x nc c
  assume x: "w_caps w' m = Some x" "cap_live x" and nc: "w_caps w' n = Some nc" "nc_server x = nc_server nc"
    "created_before (nc_created x) (nc_created nc)" and c: "w_caps u n = Some c" "same_incarnation c nc"
  obtain x0 where x0: "w_caps w m = Some x0" "derives w x0 x" using assms(1) x(1) unfolding goes_on_def by blast
  obtain nc0 where nc0: "w_caps w n = Some nc0" "derives w nc0 nc" using assms(1) nc(1) unfolding goes_on_def by blast
  have "cap_live x0" "nc_server x0 = nc_server nc0" "created_before (nc_created x0) (nc_created nc0)" "same_incarnation c nc0"
    using x0(2) nc0(2) x(2) nc(2,3) c(2) by (simp_all add: derives_def same_incarnation_def)
  with assms(2) x0(1) nc0(1) c(1) have "\<exists>y. w_caps u m = Some y \<and> cap_live y \<and> same_incarnation y x0"
    unfolding seen_def by blast
  then show "\<exists>y. w_caps u m = Some y \<and> cap_live y \<and> same_incarnation y x"
    using x0(2) by (simp add: same_incarnation_def derives_def)
qed

lemma history_goes_on:
  assumes "history_inv (w # ws)" "goes_on w w'"
  shows "history_inv (w' # w # ws)"
proof -
  have w: "cap_inv w" and old: "\<And>u. u \<in> set (w # ws) \<Longrightarrow> cap_inv u \<and> seen w u" using assms(1) by (auto simp: history_inv_def)
  have "cap_inv w'" by (rule cap_inv_derives [OF w]) (use assms(2) in \<open>auto simp: goes_on_def\<close>)
  with old seen_goes_on [OF assms(2)] seen_refl show ?thesis by (auto simp: history_inv_def)
qed

lemma goes_on_upd:
  assumes nc: "w_caps w (nc_name nc) = Some nc" and u: "upd R nc w w'" and R: "p_run R \<Longrightarrow> first_of_server w nc"
  shows "goes_on w w'"
  unfolding goes_on_def
proof (intro allI impI)
  fix n c assume c: "w_caps w' n = Some c"
  show "\<exists>c0. w_caps w n = Some c0 \<and> derives w c0 c"
  proof (cases "n = nc_name nc")
    case False
    with u c have "w_caps w n = Some c" by (simp add: upd_def)
    then show ?thesis using derives_refl by blast
  next
    case True
    with u c nc have e: "evolves R nc c" by (auto simp: upd_def)
    have "derives w nc c" using e evolves_live [OF e] R by (auto simp: derives_def evolves_def same_ids_def)
    with nc True show ?thesis by blast
  qed
qed

lemma goes_on_put:
  assumes "cap_inv w" "w_caps w n = Some c" "derives w c c'"
  shows "goes_on w (put_cap c' w)"
  unfolding goes_on_def
proof (intro allI impI)
  fix m x assume x: "w_caps (put_cap c' w) m = Some x"
  have "nc_name c' = n" using cap_invD(1) [OF assms(1,2)] assms(3) by (simp add: derives_def)
  then show "\<exists>c0. w_caps w m = Some c0 \<and> derives w c0 x"
    using x assms(2,3) by (cases "m = n") (auto simp: put_cap_def)
qed

lemma Capture_Reconcile_world [simp]: "fst (Capture_Reconcile cfg e w n) = fst (capture_reconcile cfg e w n)"
  by (simp add: Capture_Reconcile_def requeueOnConflict_def split: prod.split rec_result.split)

lemma created_before_irrefl: "created_before a b \<Longrightarrow> a \<noteq> b"
  by (auto simp: created_before_def split: option.splits)

lemma created_before_asym: "created_before a b \<Longrightarrow> \<not> created_before b a"
  by (auto simp: created_before_def split: option.splits)

lemma created_before_total: "a \<noteq> b \<Longrightarrow> created_before a b \<or> created_before b a"
  by (cases a; cases b) (auto simp: created_before_def)

lemma reconcile_goes_on:
  assumes inv: "history_inv (w # ws)" and lag: "lagging_list e n (w # ws)"
  shows "goes_on w (fst (Capture_Reconcile cfg e w n))"
proof (cases "w_caps w n")
  case None
  then show ?thesis using derives_refl by (auto simp: goes_on_def capture_reconcile_def)
next
  case (Some nc)
  have w: "cap_inv w" using inv by (simp add: history_inv_def)
  have name: "nc_name nc = n" using cap_invD(1) [OF w Some] .
  have nc: "w_caps w (nc_name nc) = Some nc" using Some name by simp
  have "upd (permits cfg e nc) nc w (fst (Capture_Reconcile cfg e w n))" using capture_reconcile_upd [OF Some, of cfg e] by simp
  then show ?thesis
  proof (rule goes_on_upd [OF nc])
    assume "p_run (permits cfg e nc)"
    then have run: "may_run e nc" by (simp add: permits_def)
    then obtain cs where cs: "e_list e = Inr cs" by (auto simp: may_run_def split: sum.splits)
    with lag Some obtain u c where u: "u \<in> set (w # ws)" "cap_key ` set cs = cap_key ` ran (w_caps u)"
      and c: "w_caps u n = Some c" "same_incarnation c nc" unfolding lagging_list_def by auto
    have ui: "cap_inv u" "seen w u" using inv u(1) by (auto simp: history_inv_def)
    show "first_of_server w nc"
      unfolding first_of_server_def
    proof (intro allI impI)
      fix m x assume x: "w_caps w m = Some x" "m \<noteq> nc_name nc" "nc_server x = nc_server nc" "cap_live x"
      have "\<not> created_before (nc_created x) (nc_created nc)"
      proof
        assume before: "created_before (nc_created x) (nc_created nc)"
        with ui(2) x(1,3,4) Some c obtain y where y: "w_caps u m = Some y" "cap_live y" "same_incarnation y x"
          unfolding seen_def by blast
        have "nc_name y \<noteq> nc_name nc" "nc_server y = nc_server nc" "nc_created y = nc_created x"
          using y(3) x(2,3) cap_invD(1) [OF w x(1)] by (auto simp: same_incarnation_def)
        with may_run_first [OF cs u(2) run c cap_invD(1) [OF ui(1)] y(1,2)] before show False by simp
      qed
      with created_before_total cap_invD(2) [OF w x(1) nc x(2,3)] show "created_before (nc_created nc) (nc_created x)" by blast
    qed
  qed
qed

lemma create_history:
  assumes inv: "history_inv (w # ws)" and free: "w_caps w (nc_name c) = None" and new: "nc_phase c = PhNone"
    and later: "\<forall>u \<in> set (w # ws). \<forall>x \<in> ran (w_caps u). nc_server x = nc_server c \<longrightarrow> created_before (nc_created x) (nc_created c)"
  shows "history_inv (put_cap c w # w # ws)"
proof -
  let ?w = "put_cap c w"
  have w: "cap_inv w" and hist: "\<And>u. u \<in> set (w # ws) \<Longrightarrow> cap_inv u \<and> seen w u" using inv by (auto simp: history_inv_def)
  have old: "w_caps w n = Some x \<or> (n = nc_name c \<and> x = c)" if "w_caps ?w n = Some x" for n x
    using that free by (auto simp: put_cap_def split: if_splits)
  have before: "created_before (nc_created x) (nc_created c)" if "u \<in> set (w # ws)" "w_caps u n = Some x" "nc_server x = nc_server c" for u n x
    using later that by (metis ranI)
  have "cap_inv ?w"
  proof (rule cap_invI)
    show "nc_name x = n" if "w_caps ?w n = Some x" for n x
      using old [OF that] cap_invD(1) [OF w] by auto
    fix m n a b assume ab: "w_caps ?w m = Some a" "w_caps ?w n = Some b" "m \<noteq> n" "nc_server a = nc_server b"
    then consider "w_caps w m = Some a" "w_caps w n = Some b" | "w_caps w m = Some a" "b = c" | "a = c" "w_caps w n = Some b"
      using old by metis
    then show "nc_created a \<noteq> nc_created b \<and> (nc_phase a = PhRunning \<longrightarrow> cap_live b \<longrightarrow> created_before (nc_created a) (nc_created b))"
      using cap_invD(2,3) [OF w] ab(3,4) before [of w] created_before_irrefl new by cases fastforce+
  qed
  moreover have "seen ?w u" if u: "u \<in> set (w # ws)" for u
    unfolding seen_def
  proof (intro allI impI, elim conjE)
    fix m n x nc d
    assume x: "w_caps ?w m = Some x" "cap_live x" and nc: "w_caps ?w n = Some nc" "nc_server x = nc_server nc"
      "created_before (nc_created x) (nc_created nc)" and d: "w_caps u n = Some d" "same_incarnation d nc"
    have "nc \<noteq> c" using before [OF u d(1)] d(2) created_before_irrefl by (auto simp: same_incarnation_def)
    then have nc0: "w_caps w n = Some nc" using old [OF nc(1)] by blast
    have "x \<noteq> c" using before [of w n nc] nc0 nc(2,3) created_before_asym by auto
    then have "w_caps w m = Some x" using old [OF x(1)] by blast
    with nc0 x(2) nc(2,3) d hist [OF u] show "\<exists>y. w_caps u m = Some y \<and> cap_live y \<and> same_incarnation y x"
      unfolding seen_def by blast
  qed
  ultimately show ?thesis using hist seen_refl by (auto simp: history_inv_def)
qed

lemma cap_history_inv: "cap_history cfg ws \<Longrightarrow> history_inv ws"
proof (induction rule: cap_history.induct)
  case (init w)
  then show ?case by (simp add: history_inv_def cap_inv_def seen_refl)
next
  case (reconcile w ws e n)
  then show ?case using history_goes_on reconcile_goes_on by blast
next
  case (create w ws c)
  then show ?case by (intro create_history)
next
  case (request_stop w ws n c v)
  have "derives w c (c\<lparr>nc_stopRequested := Some v\<rparr>)" by (simp add: derives_def cap_live_def)
  moreover have "cap_inv w" using request_stop.IH by (simp add: history_inv_def)
  ultimately show ?case by (intro history_goes_on [OF request_stop.IH] goes_on_put [OF _ request_stop(2)])
next
  case (legacy_stop w ws n c)
  have "derives w c (c\<lparr>nc_phase := PhCompleted, nc_message := userStoppedMessage\<rparr>)" by (simp add: derives_def cap_live_def)
  moreover have "cap_inv w" using legacy_stop.IH by (simp add: history_inv_def)
  ultimately show ?case by (intro history_goes_on [OF legacy_stop.IH] goes_on_put [OF _ legacy_stop(2)])
next
  case (delete w ws n)
  have "goes_on w (del_cap n w)" using derives_refl by (auto simp: goes_on_def del_cap_def split: if_splits)
  with delete history_goes_on show ?case by blast
next
  case (servers w ws f)
  have "goes_on w (w\<lparr>w_servers := f\<rparr>)" using derives_refl by (auto simp: goes_on_def)
  with servers history_goes_on show ?case by blast
qed

text \<open>C15. However reconciles, users and failing writes interleave, at most one capture of a server is Running at any
  time.  The list the lock reads may be as old as the creation of the capture that is reconciled; captures of
  one server are created at increasing times.  (Ties are broken by name and do break the lock, see
  \<open>capture_tie_two_running\<close>; so would a list that misses an older capture, see \<open>missing_rival_two_running\<close>.)\<close>

theorem one_running_capture:
  assumes "cap_history cfg (w # ws)"
    and "w_caps w m = Some a" "w_caps w n = Some b" "nc_server a = nc_server b"
    and "nc_phase a = PhRunning" "nc_phase b = PhRunning"
  shows "m = n"
proof (rule ccontr)
  assume mn: "m \<noteq> n"
  have "cap_inv w" using cap_history_inv [OF assms(1)] by (simp add: history_inv_def)
  note inv = cap_invD(3) [OF this]
  have "created_before (nc_created a) (nc_created b)" "created_before (nc_created b) (nc_created a)"
    using inv [OF assms(2,3) mn assms(4,5)] inv [OF assms(3,2) mn [symmetric] assms(4) [symmetric] assms(6)] assms(5,6)
    by (simp_all add: cap_live_def)
  then show False using created_before_asym by blast
qed

section \<open>Phases only move forward\<close>

text \<open>C16. One reconcile touches no other capture.  Its own keeps its identity and its phase either stays or moves
  forward (Pending, Running, Completed or Failed, Expired): in particular a finished capture is never started
  again.  It starts Running only if no rival is ahead of it, and it is expired or removed only once its
  retention window, counted from completion or, for one that never finished, from its start, has passed; it
  is removed only when the sidecar has deleted the file or has failed to for five minutes.\<close>

theorem capture_phase_forward:
  assumes "w_caps w n = Some nc" "nc_name nc = n"
  shows "let w' = fst (Capture_Reconcile cfg e w n) in (\<forall>m. m \<noteq> n \<longrightarrow> w_caps w' m = w_caps w m) \<and>
    (case w_caps w' n of
       None \<Rightarrow> retention_over cfg e nc \<and> file_cleanup_over e nc
     | Some nc' \<Rightarrow> same_ids nc nc' \<and> (nc_phase nc' = nc_phase nc \<or> cap_rank (nc_phase nc) < cap_rank (nc_phase nc')) \<and>
         (nc_phase nc' = PhRunning \<longrightarrow> nc_phase nc = PhRunning \<or> may_run e nc) \<and>
         (nc_phase nc' = PhExpired \<longrightarrow> retention_over cfg e nc))"
proof -
  define w' where "w' = fst (Capture_Reconcile cfg e w n)"
  have u: "upd (permits cfg e nc) nc w w'" unfolding w'_def Capture_Reconcile_world by (rule capture_reconcile_upd [OF assms(1)])
  have refl: "evolves (permits cfg e nc) nc nc" by simp
  have ev: "same_ids nc c \<and> (nc_phase c = nc_phase nc \<or> cap_rank (nc_phase nc) < cap_rank (nc_phase c)) \<and>
         (nc_phase c = PhRunning \<longrightarrow> nc_phase nc = PhRunning \<or> may_run e nc) \<and>
         (nc_phase c = PhExpired \<longrightarrow> retention_over cfg e nc)" if "evolves (permits cfg e nc) nc c" for c
    using that by (auto simp: evolves_def permits_def phase_moves_def retention_over_def)
  have "w_caps w' n = Some nc \<or> (w_caps w' n = None \<and> retention_over cfg e nc \<and> file_cleanup_over e nc)
      \<or> (\<exists>c. w_caps w' n = Some c \<and> evolves (permits cfg e nc) nc c)"
    using u assms(1,2) by (auto simp: upd_def permits_def)
  then show ?thesis
    unfolding w'_def [symmetric] Let_def using u assms(2) ev [OF refl] ev by (elim disjE) (auto simp: upd_def)
qed

section \<open>Stopping\<close>

lemma stopSidecar_stopped:
  assumes "stopSidecar e w nc b = (w1, nc1)"
  shows "nc_conds nc1 SidecarStoppedCondition \<noteq> None \<and> nc_name nc1 = nc_name nc \<and> nc_server nc1 = nc_server nc
    \<and> w_servers w1 = w_servers w \<and> w_caps w1 = w_caps w
    \<and> w_log w1 = w_log w @ (if b then [] else [CallStop (nc_server nc) (nc_name nc) (captureOwnerUID (nc_owners nc) (nc_server nc)) (nc_uid nc)])"
  using assms by (auto simp: stopSidecar_def Let_def SetStatusCondition_def set_counts_def call_def
      split: if_splits option.splits sum.splits)

lemma pendingCaptureNeverStarted_decides:
  assumes "e_pod e \<noteq> Inl ()" "pendingStopUnreachableTimeout \<le> stopRequestAge nc now"
  shows "\<exists>b. pendingCaptureNeverStarted e nc now = Inr b"
  using assms by (auto simp: pendingCaptureNeverStarted_def split: sum.split option.split)

text \<open>C17. A requested stop always gets through: with the writes landing and the pod readable, at the latest two
  minutes after the request one reconcile marks the capture Completed with the SidecarStopped condition and
  the server no longer points to it, whatever the sidecar answers.  A Running capture is only completed after
  its sidecar was told to stop.\<close>

theorem requested_stop_completes:
  assumes "w_caps w n = Some nc" "nc_name nc = n" "nc_stopRequested nc \<noteq> None" "\<not> isTerminalCapturePhase (nc_phase nc)"
    and "\<And>gs. w_servers w (nc_server nc) = Some gs \<Longrightarrow> cs_name gs = nc_server nc"
    and "e_pod e \<noteq> Inl ()" "e_getServer e" "e_patch e = WOk" "e_updateStatus e = WOk"
    and "nc_phase nc = PhRunning \<or> pendingStopUnreachableTimeout \<le> stopRequestAge nc (e_now e)"
  shows "case Capture_Reconcile cfg e w n of (w', r) \<Rightarrow>
    r = RDone \<and>
    (\<exists>nc'. w_caps w' n = Some nc' \<and> nc_phase nc' = PhCompleted \<and> nc_completionTime nc' = Some (stamp (e_now e))
       \<and> nc_message nc' = userStoppedMessage \<and> nc_conds nc' SidecarStoppedCondition \<noteq> None) \<and>
    (\<forall>gs. w_servers w' (nc_server nc) = Some gs \<longrightarrow> cs_active gs \<noteq> Some n) \<and>
    (nc_phase nc = PhRunning \<longrightarrow>
       w_log w' = w_log w @ [CallStop (nc_server nc) n (captureOwnerUID (nc_owners nc) (nc_server nc)) (nc_uid nc)])"
proof -
  let ?q = "if nc_phase nc = PhNone \<or> nc_phase nc = PhPending then pendingCaptureNeverStarted e nc (e_now e) else Inr False"
  have "nc_phase nc = PhNone \<or> nc_phase nc = PhPending \<or> nc_phase nc = PhRunning"
    using assms(4) by (cases "nc_phase nc") (simp_all add: isTerminalCapturePhase_def)
  then obtain b where b: "?q = Inr b" "nc_phase nc = PhRunning \<longrightarrow> \<not> b"
    using assms(6,10) pendingCaptureNeverStarted_decides [of e nc "e_now e"] by (elim disjE) auto
  obtain w1 nc1 where st: "stopSidecar e w nc b = (w1, nc1)" by (cases "stopSidecar e w nc b")
  note s1 = stopSidecar_stopped [OF st]
  let ?nc2 = "nc1\<lparr>nc_phase := PhCompleted, nc_completionTime := Some (stamp (e_now e)), nc_message := userStoppedMessage\<rparr>"
  have "Capture_Reconcile cfg e w n = requeueOnConflict
      (releaseActiveCaptureLock e w1 ?nc2 (stamp (e_now e)) (\<lambda>w. after_write (e_updateStatus e) w (put_cap ?nc2 w, RDone)))"
    using assms(1,3,4) b(1) by (simp add: Capture_Reconcile_def capture_reconcile_def completeRequestedStop_def st Let_def)
  then show ?thesis
    using s1 assms(2,5,7-9) b(2)
    by (auto simp: releaseActiveCaptureLock_def after_write_def requeueOnConflict_def put_cap_def
        patchGameServerActiveCapture_def split: option.split)
qed

section \<open>Retention\<close>

lemma effectiveRetentionSeconds_bounds:
  "1 \<le> effectiveRetentionSeconds ttl d m \<and>
   effectiveRetentionSeconds ttl d m \<le> (if m \<le> 0 then maxCaptureRetentionSeconds else m)"
  by (auto simp: effectiveRetentionSeconds_def clampRetention_def Let_def maxCaptureRetentionSeconds_def
      defaultCaptureRetentionSeconds_def split: option.split)

text \<open>C18. Until the retention window of a finished capture has passed, a reconcile changes nothing and comes back at
  a positive time no later than the window's end (or one second after, at the boundary); the window is between
  one second and the operator's maximum (seven days when unset), whatever the capture asks for.\<close>

theorem capture_retention_window:
  assumes "w_caps w n = Some nc" "nc_phase nc = PhCompleted \<or> nc_phase nc = PhFailed"
    and "nc_conds nc SidecarStoppedCondition \<noteq> None \<or> nc_message nc \<noteq> userStoppedMessage"
    and "nc_completionTime nc = Some t"
    and "-2147483648 \<le> cfg_maxRetention cfg" "cfg_maxRetention cfg \<le> 2147483647"
  shows "let ttl = effectiveRetentionSeconds (nc_ttl nc) (cfg_defaultRetention cfg) (cfg_maxRetention cfg) in
    1 \<le> ttl \<and> ttl \<le> (if cfg_maxRetention cfg \<le> 0 then 604800 else cfg_maxRetention cfg) \<and>
    (e_now e \<le> t + ttl * second \<longrightarrow>
      (\<exists>d > 0. Capture_Reconcile cfg e w n = (w, RRequeue d) \<and> e_now e + d \<le> max (t + ttl * second) (e_now e + second)))"
proof -
  define ttl where "ttl = effectiveRetentionSeconds (nc_ttl nc) (cfg_defaultRetention cfg) (cfg_maxRetention cfg)"
  have ttl: "1 \<le> ttl" "ttl \<le> (if cfg_maxRetention cfg \<le> 0 then maxCaptureRetentionSeconds else cfg_maxRetention cfg)"
    using effectiveRetentionSeconds_bounds [of "nc_ttl nc" "cfg_defaultRetention cfg" "cfg_maxRetention cfg"] by (simp_all add: ttl_def)
  have "ttl \<le> 2147483647" using ttl(2) assms(5,6) by (simp add: maxCaptureRetentionSeconds_def split: if_splits)
  then have exact: "dur_wrap (ttl * second) = ttl * second"
    using ttl(1) by (intro dur_wrap_id) (simp add: is_duration_def second_def dur_min_def dur_max_def)
  have "\<exists>d > 0. Capture_Reconcile cfg e w n = (w, RRequeue d) \<and> e_now e + d \<le> max (t + ttl * second) (e_now e + second)"
    if early: "e_now e \<le> t + ttl * second"
  proof -
    define d where "d = time_sub (t + ttl * second) (e_now e)"
    have "Capture_Reconcile cfg e w n = requeueOnConflict (reconcileRetention cfg e w nc)"
      using assms(1-3) by (auto simp: Capture_Reconcile_def capture_reconcile_def isTerminalCapturePhase_def)
    also have "reconcileRetention cfg e w nc = (w, RRequeue (if d \<le> 0 then second else d))"
      using early assms(4) exact
      by (simp add: reconcileRetention_def captureExpiresAt_def captureIsExpired_def Let_def d_def flip: ttl_def)
    finally have r: "Capture_Reconcile cfg e w n = (w, RRequeue (if d \<le> 0 then second else d))"
      by (simp add: requeueOnConflict_def)
    have "d > 0 \<Longrightarrow> d \<le> t + ttl * second - e_now e" by (simp add: d_def time_sub_def dur_min_def min_def max_def split: if_splits)
    then have "e_now e + (if d \<le> 0 then second else d) \<le> max (t + ttl * second) (e_now e + second)" by auto
    moreover have "0 < (if d \<le> 0 then second else d)" by (simp add: second_def)
    ultimately show ?thesis using r by blast
  qed
  with ttl show ?thesis
    by (simp add: Let_def maxCaptureRetentionSeconds_def flip: ttl_def split: if_splits)
qed

section \<open>Concrete captures\<close>

definition ex_cap :: "string \<Rightarrow> capture_phase \<Rightarrow> time \<Rightarrow> netcap" where
  "ex_cap name phase created = \<lparr>nc_name = name, nc_uid = ''u-'' @ name, nc_created = Some created, nc_server = ''srv'', nc_filter = ''udp'',
     nc_maxDuration = Some (60 * second), nc_maxSize = Some 1000, nc_ttl = Some 100, nc_stopRequested = None, nc_podUID = ''p1'',
     nc_owners = [], nc_phase = phase, nc_startTime = None, nc_completionTime = None, nc_packets = 0, nc_bytes = None,
     nc_message = [], nc_conds = Map.empty\<rparr>"

definition ex_server :: cap_server where
  "ex_server = \<lparr>cs_name = ''srv'', cs_uid = ''s1'', cs_template = ''mc'', cs_enabled = True, cs_active = None, cs_lastCapture = None\<rparr>"

definition ex_env :: "netcap list \<Rightarrow> time \<Rightarrow> cap_env" where
  "ex_env cs now = \<lparr>e_now = now, e_getServer = True, e_notFoundText = [], e_getServerAgain = True, e_list = Inr cs,
     e_pod = Inr (Some \<lparr>pod_uid = ''p1'', pod_running = True, pod_deleting = False, pod_hasSidecar = True, pod_sidecarExit = None\<rparr>),
     e_inject = InjectOk, e_setOwner = (\<lambda>gs os. Some (os @ [\<lparr>or_apiVersion = ''gameplane.local/v1alpha1'', or_kind = ''GameServer'', or_name = cs_name gs, or_uid = cs_uid gs\<rparr>])), e_template = Inr [], e_status = Inl (HTTPError ''status'' 404 []),
     e_statusAgain = Inl (NetError ''timeout''), e_start = None, e_stop = Some (NetError ''timeout''), e_deleteFile = None,
     e_updateOwner = WOk, e_updatePod = WOk, e_patch = WOk, e_updateStatus = WOk, e_updateStatusAgain = WOk, e_delete = WOk\<rparr>"

definition ex_config :: cap_config where
  "ex_config = \<lparr>cfg_enabled = True, cfg_defaultMaxDuration = 60, cfg_defaultMaxSize = 1000, cfg_defaultRetention = 0, cfg_maxRetention = 0\<rparr>"

definition ex_world :: "netcap list \<Rightarrow> cap_world" where
  "ex_world cs = \<lparr>w_caps = map_of (map (\<lambda>c. (nc_name c, c)) cs), w_servers = [''srv'' \<mapsto> ex_server], w_log = []\<rparr>"

lemmas ex_defs = ex_cap_def ex_server_def ex_env_def ex_config_def ex_world_def

text \<open>The lock compares creation times, which the API server stores in whole seconds, and breaks a tie by name.  A
  capture created in the same second as a Running one, with a smaller name, starts beside it.\<close>

lemma capture_tie_two_running:
  "map_option nc_phase (w_caps (fst (Capture_Reconcile ex_config (ex_env [ex_cap ''a'' PhNone 5, ex_cap ''b'' PhRunning 5] (9 * second))
       (ex_world [ex_cap ''a'' PhNone 5, ex_cap ''b'' PhRunning 5]) ''a'')) x) = (if x = ''a'' \<or> x = ''b'' then Some PhRunning else None)"
  by (simp add: ex_defs Capture_Reconcile_def capture_reconcile_def reconcileActive_def ensureOwnerReference_def reconcileEnabled_def
      reconcilePending_def Let_def trunc_seconds_def second_def captureActive_def earlier_def created_before_def startPending_def
      recordPod_def startSidecar_def captureFilter_def becomeRunning_def after_write_def put_cap_def call_def
      patchGameServerActiveCapture_def requeueOnConflict_def)

lemmas reconcile_defs = Capture_Reconcile_def capture_reconcile_def reconcileActive_def ensureOwnerReference_def reconcileEnabled_def
  reconcilePending_def Let_def trunc_seconds_def second_def captureActive_def earlier_def created_before_def startPending_def
  recordPod_def startSidecar_def captureFilter_def becomeRunning_def after_write_def put_cap_def call_def
  patchGameServerActiveCapture_def requeueOnConflict_def

text \<open>A list that misses the older capture lets the younger one start beside it.\<close>

lemma missing_rival_two_running:
  "map_option nc_phase (w_caps (fst (Capture_Reconcile ex_config (ex_env [ex_cap ''b'' PhNone 7] (9 * second))
       (ex_world [ex_cap ''a'' PhRunning 5, ex_cap ''b'' PhNone 7]) ''b'')) x) = (if x = ''a'' \<or> x = ''b'' then Some PhRunning else None)"
  by (simp add: ex_defs reconcile_defs)

text \<open>Two captures: the older one starts, and a reconcile of the younger one that still sees the older one as new
  turns it away.\<close>

definition ex_both :: "cap_world list" where
  "ex_both = [put_cap (ex_cap ''b'' PhNone (7 * second)) (put_cap (ex_cap ''a'' PhNone 5) (ex_world [])), put_cap (ex_cap ''a'' PhNone 5) (ex_world []), ex_world []]"

definition ex_lag :: cap_env where
  "ex_lag = ex_env [ex_cap ''a'' PhNone 5, ex_cap ''b'' PhNone (7 * second)] (9 * second)"

definition ex_started :: "cap_world list" where
  "ex_started = fst (Capture_Reconcile ex_config ex_lag (hd ex_both) ''a'') # ex_both"

definition ex_refused :: "cap_world list" where
  "ex_refused = fst (Capture_Reconcile ex_config ex_lag (hd ex_started) ''b'') # ex_started"

lemma ex_refused_phases:
  "map_option nc_phase (w_caps (hd ex_refused) x) = (if x = ''a'' then Some PhRunning else if x = ''b'' then Some PhFailed else None)"
  "w_caps (hd ex_refused) ''a'' = Some c \<Longrightarrow> nc_server c = ''srv''"
  by (auto simp: ex_refused_def ex_started_def ex_both_def ex_lag_def ex_defs reconcile_defs failWithReason_def)

lemma ex_refused_history: "cap_history ex_config (hd ex_refused # ex_started)"
proof -
  have 0: "cap_history ex_config [ex_world []]" by (rule cap_history.init) (simp add: ex_world_def)
  have 1: "cap_history ex_config [put_cap (ex_cap ''a'' PhNone 5) (ex_world []), ex_world []]"
    by (rule cap_history.create [OF 0]) (simp_all add: ex_world_def ex_cap_def)
  have 2: "cap_history ex_config ex_both"
    unfolding ex_both_def by (rule cap_history.create [OF 1])
      (auto simp: ex_world_def ex_cap_def put_cap_def ran_def created_before_def second_def)
  have both: "cap_key ` set [ex_cap ''a'' PhNone 5, ex_cap ''b'' PhNone (7 * second)] = cap_key ` ran (w_caps (hd ex_both))"
    by (simp add: ex_both_def ex_world_def put_cap_def ex_cap_def cap_key_def) auto
  have "lagging_list ex_lag ''a'' ex_both"
    unfolding lagging_list_def using both by (auto simp: ex_lag_def ex_env_def ex_both_def same_incarnation_def)
  then have 3: "cap_history ex_config ex_started"
    unfolding ex_started_def using cap_history.reconcile [OF 2 [unfolded ex_both_def]] by (simp add: ex_both_def)
  have younger: "w_caps (hd ex_started) ''b'' = Some (ex_cap ''b'' PhNone (7 * second))"
    by (simp add: ex_started_def ex_lag_def ex_both_def ex_defs reconcile_defs)
  have "lagging_list ex_lag ''b'' ex_started"
    unfolding lagging_list_def
  proof (intro allI impI bexI [of _ "hd ex_both"], elim conjE)
    fix cs nc assume "e_list ex_lag = Inr cs" "w_caps (hd ex_started) ''b'' = Some nc"
    then have cs: "cs = [ex_cap ''a'' PhNone 5, ex_cap ''b'' PhNone (7 * second)]" and nc: "nc = ex_cap ''b'' PhNone (7 * second)"
      using younger by (simp_all add: ex_lag_def ex_env_def)
    show "cap_key ` set cs = cap_key ` ran (w_caps (hd ex_both)) \<and> (\<exists>c. w_caps (hd ex_both) ''b'' = Some c \<and> same_incarnation c nc)"
      using both unfolding cs nc by (simp add: ex_both_def same_incarnation_def put_cap_def ex_cap_def)
  qed (simp add: ex_started_def ex_both_def)
  then show ?thesis
    unfolding ex_refused_def using cap_history.reconcile [OF 3 [unfolded ex_started_def]] by (simp add: ex_started_def)
qed

theorem one_running_capture_witness:
  "map_option nc_phase (w_caps (hd ex_refused) ''a'') = Some PhRunning \<and> map_option nc_phase (w_caps (hd ex_refused) ''b'') = Some PhFailed
   \<and> {n. \<exists>b. w_caps (hd ex_refused) n = Some b \<and> nc_server b = ''srv'' \<and> nc_phase b = PhRunning} = {''a''}"
proof -
  obtain c where c: "w_caps (hd ex_refused) ''a'' = Some c" "nc_phase c = PhRunning" using ex_refused_phases(1) [of "''a''"] by auto
  have "n = ''a''" if "w_caps (hd ex_refused) n = Some b" "nc_server b = ''srv''" "nc_phase b = PhRunning" for n b
    using one_running_capture [OF ex_refused_history that(1) c(1) _ that(3) c(2)] ex_refused_phases(2) [OF c(1)] that(2) by simp
  then have "{n. \<exists>b. w_caps (hd ex_refused) n = Some b \<and> nc_server b = ''srv'' \<and> nc_phase b = PhRunning} = {''a''}"
    using c ex_refused_phases(2) [OF c(1)] by blast
  with ex_refused_phases(1) show ?thesis by simp
qed

theorem capture_phase_forward_witness:
  "let w = ex_world [ex_cap ''a'' PhNone 5]; w' = fst (Capture_Reconcile ex_config (ex_env [ex_cap ''a'' PhNone 5] 9) w ''a'') in
   w_caps w ''a'' \<noteq> None \<and> w_caps w' ''b'' = None \<and> w_caps w' ''a'' \<noteq> None"
proof -
  have "w_caps (ex_world [ex_cap ''a'' PhNone 5]) ''a'' = Some (ex_cap ''a'' PhNone 5)" "nc_name (ex_cap ''a'' PhNone 5) = ''a''"
    by (simp_all add: ex_world_def ex_cap_def)
  note f = capture_phase_forward [OF this, of ex_config "ex_env [ex_cap ''a'' PhNone 5] 9"]
  have "\<not> retention_over ex_config (ex_env [ex_cap ''a'' PhNone 5] 9) (ex_cap ''a'' PhNone 5)"
    by (simp add: retention_over_def ex_cap_def)
  with f show ?thesis by (auto simp: Let_def ex_world_def ex_cap_def split: option.splits)
qed

definition ex_stopping :: netcap where
  "ex_stopping = (ex_cap ''a'' PhRunning 5)\<lparr>nc_stopRequested := Some []\<rparr>"

theorem requested_stop_completes_witness:
  "case Capture_Reconcile ex_config (ex_env [] 9) (ex_world [ex_stopping]) ''a'' of (w', r) \<Rightarrow>
    r = RDone \<and> (\<exists>nc'. w_caps w' ''a'' = Some nc' \<and> nc_phase nc' = PhCompleted)
    \<and> w_log w' = [CallStop ''srv'' ''a'' [] ''u-a'']"
proof -
  have "w_caps (ex_world [ex_stopping]) ''a'' = Some ex_stopping" "nc_name ex_stopping = ''a''" "nc_stopRequested ex_stopping \<noteq> None"
    "\<not> isTerminalCapturePhase (nc_phase ex_stopping)"
    "\<And>gs. w_servers (ex_world [ex_stopping]) (nc_server ex_stopping) = Some gs \<Longrightarrow> cs_name gs = nc_server ex_stopping"
    "e_pod (ex_env [] 9) \<noteq> Inl ()" "e_getServer (ex_env [] 9)" "e_patch (ex_env [] 9) = WOk" "e_updateStatus (ex_env [] 9) = WOk"
    "nc_phase ex_stopping = PhRunning \<or> pendingStopUnreachableTimeout \<le> stopRequestAge ex_stopping (e_now (ex_env [] 9))"
    by (simp_all add: ex_stopping_def ex_defs isTerminalCapturePhase_def)
  note stop = requested_stop_completes [OF this, of ex_config]
  have "nc_phase ex_stopping = PhRunning" "nc_server ex_stopping = ''srv''" "nc_uid ex_stopping = ''u-a''"
    "captureOwnerUID (nc_owners ex_stopping) ''srv'' = []" "w_log (ex_world [ex_stopping]) = []"
    by (simp_all add: ex_stopping_def ex_cap_def captureOwnerUID_def ex_world_def)
  with stop show ?thesis by (auto split: prod.splits)
qed

definition ex_finished :: netcap where
  "ex_finished = (ex_cap ''a'' PhCompleted 5)\<lparr>nc_completionTime := Some 0\<rparr>"

theorem capture_retention_window_witness:
  "\<exists>d > 0. Capture_Reconcile ex_config (ex_env [] (40 * second)) (ex_world [ex_finished]) ''a''
     = (ex_world [ex_finished], RRequeue d) \<and> d \<le> 60 * second"
proof -
  have h: "w_caps (ex_world [ex_finished]) ''a'' = Some ex_finished" "nc_phase ex_finished = PhCompleted \<or> nc_phase ex_finished = PhFailed"
    "nc_conds ex_finished SidecarStoppedCondition \<noteq> None \<or> nc_message ex_finished \<noteq> userStoppedMessage"
    "nc_completionTime ex_finished = Some 0" "-2147483648 \<le> cfg_maxRetention ex_config" "cfg_maxRetention ex_config \<le> 2147483647"
    by (simp_all add: ex_finished_def ex_defs userStoppedMessage_def)
  have "effectiveRetentionSeconds (nc_ttl ex_finished) (cfg_defaultRetention ex_config) (cfg_maxRetention ex_config) = 100"
    "e_now (ex_env [] (40 * second)) = 40 * second"
    by (simp_all add: ex_finished_def ex_defs effectiveRetentionSeconds_def clampRetention_def maxCaptureRetentionSeconds_def)
  with capture_retention_window [OF h, of "ex_env [] (40 * second)"] show ?thesis by (auto simp: Let_def second_def)
qed

end
