(* ===== verification/Capture_Writer.thy ===== *)
theory Capture_Writer
  imports Go_Strings
begin

text \<open>
  The file writer and the filter check of the capture sidecar, \<^verbatim>\<open>capture-sidecar/internal/capture/writer.go\<close> and
  \<^verbatim>\<open>filter.go\<close>.  The PCAPNG library behind the writer is a third-party package: for each call the model is given
  how many bytes of its buffer reached the file, and whether it failed.  What it writes per packet is the
  block the code accounts for.  The filter compiler is an argument.
\<close>

section \<open>Limits\<close>

definition DefaultSnaplen :: int where
  "DefaultSnaplen = 65535"

definition MaxCaptureDurationSeconds :: int where
  "MaxCaptureDurationSeconds = 604800"

definition epbFixedOverheadBytes :: int where
  "epbFixedOverheadBytes = 32"

definition LimitReasonDurationReached :: string where
  "LimitReasonDurationReached = ''max_duration_reached''"

definition LimitReasonSizeReached :: string where
  "LimitReasonSizeReached = ''max_size_reached''"

definition LimitReasonDiskFull :: string where
  "LimitReasonDiskFull = ''disk_full''"

section \<open>The writer\<close>

record raw_packet =
  pkt_data :: bytes
  pkt_originalLength :: int

record capture_block =
  blk_data :: bytes
  blk_length :: int

text \<open>\<open>wr_disk\<close> is the counting writer's count, the bytes in the file; \<open>wr_buffered\<close> what the library still holds;
  \<open>wr_blocks\<close> the packets handed to it.\<close>

record pcap_writer =
  wr_snaplen :: int
  wr_maxSizeBytes :: int
  wr_maxDurationSeconds :: int
  wr_startTime :: time
  wr_closed :: bool
  wr_bytesWritten :: int
  wr_packetsWritten :: int
  wr_limitReached :: bool
  wr_limitReason :: string
  wr_disk :: int
  wr_buffered :: int
  wr_blocks :: "capture_block list"

datatype new_writer = NWRefused | NWNotCreated | NWBroken int | NWOk pcap_writer

text \<open>What happens when the file is created and its header blocks, of size \<open>hdr\<close>, are flushed.\<close>

datatype create_answer = CreateFails | HeaderFails int | HeaderOk

definition NewWriter :: "time \<Rightarrow> create_answer \<Rightarrow> int \<Rightarrow> int \<Rightarrow> int \<Rightarrow> int \<Rightarrow> new_writer" where
  "NewWriter now answer hdr maxDurationSeconds maxSizeBytes snaplen =
     (if maxDurationSeconds \<le> 0 then NWRefused
      else if maxDurationSeconds > MaxCaptureDurationSeconds then NWRefused
      else if maxSizeBytes \<le> 0 then NWRefused
      else (case answer of
          CreateFails \<Rightarrow> NWNotCreated
        | HeaderFails k \<Rightarrow> NWBroken k
        | HeaderOk \<Rightarrow> NWOk \<lparr>wr_snaplen = (if snaplen = 0 then DefaultSnaplen else snaplen), wr_maxSizeBytes = maxSizeBytes,
            wr_maxDurationSeconds = maxDurationSeconds, wr_startTime = now, wr_closed = False, wr_bytesWritten = hdr,
            wr_packetsWritten = 0, wr_limitReached = False, wr_limitReason = [], wr_disk = hdr, wr_buffered = 0, wr_blocks = []\<rparr>))"

datatype write_error = WriterClosed | ErrLimitReached string | DiskFull | WriteFailed

text \<open>The library's answer to one packet: how many bytes reached the file during the call, and on failure whether
  the disk was full and how many bytes stay in the buffer.\<close>

datatype ng_answer = NgOk int | NgErr bool int int

definition block_size :: "bytes \<Rightarrow> int" where
  "block_size d = epbFixedOverheadBytes + int (length d) + int ((4 - length d mod 4) mod 4)"

definition truncated :: "pcap_writer \<Rightarrow> raw_packet \<Rightarrow> bytes" where
  "truncated w p = (if int (length (pkt_data p)) > wr_snaplen w then take (nat (wr_snaplen w)) (pkt_data p) else pkt_data p)"

definition reach_limit :: "string \<Rightarrow> pcap_writer \<Rightarrow> pcap_writer" where
  "reach_limit reason w = w\<lparr>wr_limitReached := True, wr_limitReason := reason\<rparr>"

definition moved :: "int \<Rightarrow> int \<Rightarrow> pcap_writer \<Rightarrow> pcap_writer" where
  "moved k left w = w\<lparr>wr_disk := wr_disk w + k, wr_buffered := left\<rparr>"

text \<open>The elapsed time is compared in seconds as floating point, which is exact for limits up to seven days.\<close>

definition WritePacket :: "time \<Rightarrow> raw_packet \<Rightarrow> ng_answer \<Rightarrow> pcap_writer \<Rightarrow> write_error option \<times> pcap_writer" where
  "WritePacket now p ng w =
     (if wr_closed w then (Some WriterClosed, w)
      else if wr_limitReached w then (Some (ErrLimitReached (wr_limitReason w)), w)
      else if time_sub now (wr_startTime w) \<ge> wr_maxDurationSeconds w * second
      then (Some (ErrLimitReached LimitReasonDurationReached), reach_limit LimitReasonDurationReached w)
      else
        (let packetData = truncated w p;
             originalLength = (if pkt_originalLength p < int (length (pkt_data p)) then int (length (pkt_data p)) else pkt_originalLength p);
             n = block_size packetData
         in case ng of
              NgErr enospc k left \<Rightarrow>
                (let w1 = moved k left w in
                 if enospc then (Some DiskFull, reach_limit LimitReasonDiskFull w1) else (Some WriteFailed, w1))
            | NgOk k \<Rightarrow>
                (let w1 = (moved k (wr_buffered w + n - k) w)\<lparr>wr_bytesWritten := wr_bytesWritten w + n, wr_packetsWritten := wr_packetsWritten w + 1,
                       wr_blocks := wr_blocks w @ [\<lparr>blk_data = packetData, blk_length = originalLength\<rparr>]\<rparr>
                 in if wr_bytesWritten w1 \<ge> wr_maxSizeBytes w
                    then (Some (ErrLimitReached LimitReasonSizeReached), reach_limit LimitReasonSizeReached w1)
                    else (None, w1))))"

datatype close_error = CloseDiskFull | CloseFailed

text \<open>The answer to the final flush: it succeeds, and then closing the file may fail, or it fails part way.\<close>

datatype flush_answer = FlushOk bool | FlushErr bool int

definition Close :: "flush_answer \<Rightarrow> pcap_writer \<Rightarrow> close_error option \<times> pcap_writer" where
  "Close a w =
     (if wr_closed w then (None, w)
      else
        (let w0 = w\<lparr>wr_closed := True\<rparr> in
         case a of
           FlushErr enospc k \<Rightarrow>
             (if enospc then (Some CloseDiskFull, reach_limit LimitReasonDiskFull (moved k (wr_buffered w - k) w0)) else (Some CloseFailed, moved k (wr_buffered w - k) w0))
         | FlushOk closes \<Rightarrow>
             (let w1 = moved (wr_buffered w) 0 w0; w2 = w1\<lparr>wr_bytesWritten := wr_disk w1\<rparr> in
              if closes then (None, w2) else (Some CloseFailed, w2))))"

section \<open>The interface the sidecar relies on\<close>

text \<open>\<^verbatim>\<open>PacketWriter\<close>: closing ends a file for good.\<close>

locale packet_writer =
  fixes wwrite :: "'p \<Rightarrow> 'w \<Rightarrow> 'e option \<times> 'w"
    and wclose :: "'c \<Rightarrow> 'w \<Rightarrow> 'x option \<times> 'w"
    and wclosed :: "'w \<Rightarrow> bool"
  assumes close_closes: "wclosed (snd (wclose c w))"
    and closed_write: "wclosed w \<Longrightarrow> fst (wwrite p w) \<noteq> None \<and> snd (wwrite p w) = w"
    and closed_close: "wclosed w \<Longrightarrow> wclose c w = (None, w)"
begin

definition run_op :: "'p + 'c \<Rightarrow> 'w \<Rightarrow> 'w" where
  "run_op op w = (case op of Inl p \<Rightarrow> snd (wwrite p w) | Inr c \<Rightarrow> snd (wclose c w))"

lemma run_op_closed: "wclosed w \<Longrightarrow> run_op op w = w"
  by (cases op) (simp_all add: run_op_def closed_write closed_close)

lemma closed_forever: "wclosed w \<Longrightarrow> fold run_op ops w = w"
  by (induction ops) (simp_all add: run_op_closed)

lemma final_after_close: "fold run_op ops (snd (wclose c w)) = snd (wclose c w)"
  by (rule closed_forever) (rule close_closes)

end

interpretation cw: packet_writer "\<lambda>(now, p, ng). WritePacket now p ng" Close wr_closed
  by unfold_locales
    (auto simp: WritePacket_def Close_def moved_def reach_limit_def Let_def split: flush_answer.split)

section \<open>Accounting\<close>

text \<open>The library moves bytes only out of its buffer, which a packet has been appended to.\<close>

definition ng_ok :: "pcap_writer \<Rightarrow> raw_packet \<Rightarrow> ng_answer \<Rightarrow> bool" where
  "ng_ok w p ng = (case ng of
      NgOk k \<Rightarrow> 0 \<le> k \<and> k \<le> wr_buffered w + block_size (truncated w p)
    | NgErr _ k left \<Rightarrow> 0 \<le> k \<and> 0 \<le> left \<and> k + left \<le> wr_buffered w + block_size (truncated w p))"

definition flush_ok :: "pcap_writer \<Rightarrow> flush_answer \<Rightarrow> bool" where
  "flush_ok w a = (case a of FlushOk _ \<Rightarrow> True | FlushErr _ k \<Rightarrow> 0 \<le> k \<and> k \<le> wr_buffered w)"

lemma block_size_bound: "0 < block_size d" "block_size d \<le> int (length d) + 35"
proof -
  have "(4 - length d mod 4) mod 4 \<le> 3" by simp
  then show "0 < block_size d" "block_size d \<le> int (length d) + 35" by (simp_all add: block_size_def epbFixedOverheadBytes_def)
qed

lemma truncated_length: "0 \<le> wr_snaplen w \<Longrightarrow> int (length (truncated w p)) \<le> wr_snaplen w"
  by (auto simp: truncated_def)

text \<open>What a writer has on disk and in its buffer.  While it accepts packets the account is exact; after that it
  has at most one packet more than its limit.\<close>

definition exact_account :: "int \<Rightarrow> pcap_writer \<Rightarrow> bool" where
  "exact_account hdr w \<longleftrightarrow> wr_bytesWritten w = wr_disk w + wr_buffered w
     \<and> wr_bytesWritten w = hdr + sum_list (map (block_size \<circ> blk_data) (wr_blocks w))
     \<and> wr_packetsWritten w = int (length (wr_blocks w))
     \<and> (wr_bytesWritten w < wr_maxSizeBytes w \<or> wr_blocks w = [])"

definition size_cap :: "int \<Rightarrow> pcap_writer \<Rightarrow> int" where
  "size_cap hdr w = max (wr_maxSizeBytes w) hdr + (wr_snaplen w + 35)"

definition bounded_account :: "int \<Rightarrow> pcap_writer \<Rightarrow> bool" where
  "bounded_account hdr w \<longleftrightarrow> 0 \<le> wr_disk w \<and> 0 \<le> wr_buffered w \<and> 0 \<le> wr_snaplen w \<and> wr_disk w + wr_buffered w \<le> size_cap hdr w"

lemma exact_account_below: "exact_account hdr w \<Longrightarrow> 0 \<le> wr_snaplen w \<Longrightarrow> wr_disk w + wr_buffered w \<le> max (wr_maxSizeBytes w) hdr"
  by (auto simp: exact_account_def)

lemma WritePacket_account:
  assumes "exact_account hdr w" "bounded_account hdr w" "ng_ok w p ng" "WritePacket now p ng w = (err, w')"
  shows "bounded_account hdr w' \<and> (err = None \<longrightarrow> exact_account hdr w') \<and> size_cap hdr w' = size_cap hdr w"
proof -
  have n: "0 < block_size (truncated w p)" "block_size (truncated w p) \<le> wr_snaplen w + 35"
    using block_size_bound [of "truncated w p"] truncated_length [of w p] assms(2) by (auto simp: bounded_account_def)
  have below: "wr_disk w + wr_buffered w \<le> max (wr_maxSizeBytes w) hdr"
    using exact_account_below assms(1,2) by (simp add: bounded_account_def)
  show ?thesis
    using assms n below
    by (auto simp: WritePacket_def Let_def moved_def reach_limit_def bounded_account_def exact_account_def size_cap_def ng_ok_def
        split: if_splits ng_answer.splits)
qed

lemma Close_account:
  assumes "bounded_account hdr w" "flush_ok w a"
  shows "bounded_account hdr (snd (Close a w)) \<and> size_cap hdr (snd (Close a w)) = size_cap hdr w"
  using assms by (auto simp: Close_def Let_def moved_def reach_limit_def bounded_account_def size_cap_def flush_ok_def
      split: flush_answer.splits)

lemma NewWriter_account:
  assumes "NewWriter now a hdr d m s = NWOk w" "0 \<le> hdr" "0 \<le> s"
  shows "exact_account hdr w \<and> bounded_account hdr w \<and> \<not> wr_closed w \<and> \<not> wr_limitReached w \<and> 0 < m \<and>
    size_cap hdr w = max m hdr + ((if s = 0 then DefaultSnaplen else s) + 35)"
  using assms by (auto simp: NewWriter_def exact_account_def bounded_account_def size_cap_def DefaultSnaplen_def
      split: if_splits create_answer.splits)

section \<open>The filter\<close>

definition unsupportedProtocolKeywords :: "string list" where
  "unsupportedProtocolKeywords = [''aarp'', ''ah'', ''atalk'', ''decnet'', ''decnett'', ''esp'', ''fddi'', ''icmp'', ''icmp6'',
     ''igmp'', ''igrp'', ''ipx'', ''iso'', ''lat'', ''modpl'', ''morpc'', ''netbeui'', ''pim'', ''sca'', ''stp'', ''tr'', ''vrrp'', ''wlan'']"

definition filter_sep :: "char \<Rightarrow> bool" where
  "filter_sep c \<longleftrightarrow> c \<in> {CHR '' '', CHR 0x09, CHR 0x0A, CHR ''('', CHR '')''}"

text \<open>\<^verbatim>\<open>strings.FieldsFunc\<close> with the separators above: the maximal non-empty runs between them.\<close>

fun filter_words :: "string \<Rightarrow> string \<Rightarrow> string list" where
  "filter_words cur [] = (if cur = [] then [] else [cur])"
| "filter_words cur (c # cs) =
     (if filter_sep c then (if cur = [] then filter_words [] cs else cur # filter_words [] cs) else filter_words (cur @ [c]) cs)"

definition normalized_word :: "string \<Rightarrow> string" where
  "normalized_word w = to_lower (dropWhile (\<lambda>c. c = CHR 0x5C) w)"

definition rejectUnsupportedKeywords :: "string \<Rightarrow> bool" where
  "rejectUnsupportedKeywords expr \<longleftrightarrow> list_ex (\<lambda>w. normalized_word w \<in> set unsupportedProtocolKeywords) (filter_words [] expr)"

datatype bpf_instruction = JumpIf | JumpIfX | OtherInstruction

definition testsPacketContents :: "bpf_instruction list \<Rightarrow> bool" where
  "testsPacketContents prog \<longleftrightarrow> list_ex (\<lambda>i. case i of JumpIf \<Rightarrow> True | JumpIfX \<Rightarrow> True | OtherInstruction \<Rightarrow> False) prog"

text \<open>\<open>compile\<close> is the third-party expression compiler; of its instructions only the branches matter here.\<close>

definition CompileFilter :: "(string \<Rightarrow> bpf_instruction list option) \<Rightarrow> string \<Rightarrow> bpf_instruction list option" where
  "CompileFilter compile expr =
     (if expr = [] then None
      else if rejectUnsupportedKeywords expr then None
      else (case compile expr of
          None \<Rightarrow> None
        | Some instructions \<Rightarrow>
            if instructions = [] then None
            else if \<not> testsPacketContents instructions then None
            else Some instructions))"

end
