(* ===== verification/Capture_Sidecar.thy ===== *)
theory Capture_Sidecar
  imports Capture_Writer "HOL-Library.AList"
begin

text \<open>
  The capture sidecar's control plane, \<^verbatim>\<open>capture-sidecar/internal/httpserver/handlers.go\<close> and \<^verbatim>\<open>identity.go\<close>.

  The server's state holds the capture objects by address (the code compares pointers), the one that is
  running, the one being finished, the bounded memory of finished ones, and the two files a capture has on
  the volume: its packets and, for a capture started with an identity, the identity file.  A file is named by
  the capture's id; the address says which capture wrote it.  Requests, the duration timer, the packet loop
  and the sections of \<^verbatim>\<open>finish\<close> between two lock operations are separate steps that may interleave.
  Responses are reduced to status code and payload.
\<close>

section \<open>State\<close>

type_synonym addr = nat

definition statusRunning :: string where
  "statusRunning = ''running''"

definition statusCompleted :: string where
  "statusCompleted = ''completed''"

definition statusFailed :: string where
  "statusFailed = ''failed''"

definition reasonUserRequested :: string where
  "reasonUserRequested = ''user_requested''"

definition reasonMaxDuration :: string where
  "reasonMaxDuration = ''max_duration_reached''"

definition reasonDiskFull :: string where
  "reasonDiskFull = ''disk_full''"

definition reasonError :: string where
  "reasonError = ''error''"

definition maxDurationSecondsLimit :: int where
  "maxDurationSecondsLimit = 7 * 24 * 60 * 60"

definition maxCompletedRetained :: nat where
  "maxCompletedRetained = 16"

text \<open>How far \<^verbatim>\<open>finish\<close> has come with a capture, with its local \<^verbatim>\<open>reason\<close>, \<^verbatim>\<open>status\<close> and \<^verbatim>\<open>message\<close>.\<close>

datatype finish_pc = FinNone | FinClose string string string | FinPublish string string string | FinClear | FinEnd

text \<open>The packet loop: reading, ended by an error, or gone.\<close>

datatype packet_loop = Reading | LoopFailed write_error string | LoopDone

record capture_state =
  st_id :: string
  st_serverUID :: string
  st_captureUID :: string
  st_startedAt :: time
  st_maxDurationSecs :: int
  st_maxSizeBytes :: int
  st_writer :: pcap_writer
  st_cancelled :: bool
  st_loop :: packet_loop
  st_status :: string
  st_completedAt :: "time option"
  st_stoppingReason :: string
  st_message :: string
  st_pc :: finish_pc

record capture_identity =
  ci_ServerUID :: string
  ci_CaptureUID :: string
  ci_modTime :: time

record sidecar =
  sv_heap :: "addr \<Rightarrow> capture_state option"
  sv_next :: addr
  sv_currentCapture :: "addr option"
  sv_finishingCapture :: "addr option"
  sv_completed :: "string \<Rightarrow> addr option"
  sv_completedOrder :: "string list"
  sv_serverUID :: string
  sv_budgetBytes :: int
  sv_pcap :: "(string \<times> addr) list"
  sv_identity :: "(string \<times> capture_identity) list"

record start_request =
  sr_ServerUID :: string
  sr_CaptureUID :: string
  sr_Filter :: string
  sr_MaxDurationSeconds :: int
  sr_MaxSizeBytes :: int

text \<open>What the clock, the file system, the filter compiler and the packet socket answer during a start.\<close>

record start_env =
  v_now :: time
  v_compile :: "string \<Rightarrow> bpf_instruction list option"
  v_retainedFails :: bool
  v_sourceFails :: bool
  v_lstatFails :: "string \<Rightarrow> bool"
  v_fileFails :: "string \<Rightarrow> bool"
  v_removeFails :: "string \<Rightarrow> bool"
  v_bindFails :: bool
  v_create :: create_answer
  v_header :: int
  v_unbindFails :: bool

type_synonym control_identity = "(string \<times> string) option"

datatype sc_response =
    HTTPFail nat
  | StartReply string time
  | StopReply string string "time option" string string int int
  | StatusReplyRunning string time int int int int
  | StatusReplyDone string string "time option" string string int int
  | ServeFile addr
  | NoContent

section \<open>Names\<close>

definition id_char :: "char \<Rightarrow> bool" where
  "id_char c \<longleftrightarrow> in_rng 0x41 0x5A c \<or> in_rng 0x61 0x7A c \<or> is_digit c \<or> c = CHR ''_'' \<or> c = CHR ''-''"

definition validCaptureID :: "string \<Rightarrow> bool" where
  "validCaptureID s \<longleftrightarrow> 1 \<le> length s \<and> length s \<le> 64 \<and> list_all id_char s"

definition captureUIDPattern :: "string \<Rightarrow> bool" where
  "captureUIDPattern s \<longleftrightarrow> 1 \<le> length s \<and> length s \<le> 128 \<and> list_all (\<lambda>c. id_char c \<and> c \<noteq> CHR ''_'') s"

definition validStartIdentity :: "sidecar \<Rightarrow> start_request \<Rightarrow> bool" where
  "validStartIdentity s req \<longleftrightarrow>
     (if sr_ServerUID req = [] \<and> sr_CaptureUID req = [] then True
      else captureUIDPattern (sr_ServerUID req) \<and> captureUIDPattern (sr_CaptureUID req) \<and> sr_ServerUID req = sv_serverUID s)"

definition controlIdentityMatches :: "sidecar \<Rightarrow> control_identity \<Rightarrow> capture_state option \<Rightarrow> bool" where
  "controlIdentityMatches s ctl st = (case ctl of
      None \<Rightarrow> st \<noteq> None
    | Some (serverUID, captureUID) \<Rightarrow> (case st of
        None \<Rightarrow> False
      | Some state \<Rightarrow> captureUIDPattern serverUID \<and> captureUIDPattern captureUID \<and> serverUID = sv_serverUID s
          \<and> st_serverUID state = serverUID \<and> st_captureUID state = captureUID))"

text \<open>The code also refuses a target whose URL has a query or an encoded path, before it looks at the names: those
  requests never reach the operations below.\<close>

definition validCaptureTarget :: "sidecar \<Rightarrow> string \<Rightarrow> string \<Rightarrow> string \<Rightarrow> bool" where
  "validCaptureTarget s cid serverUID captureUID \<longleftrightarrow>
     validCaptureID cid \<and> captureUIDPattern serverUID \<and> captureUIDPattern captureUID \<and> serverUID = sv_serverUID s"

text \<open>\<open>readable\<close>: the identity file could be opened and read.\<close>

definition matchCaptureIdentity :: "bool \<Rightarrow> sidecar \<Rightarrow> string \<Rightarrow> string \<Rightarrow> string \<Rightarrow> bool" where
  "matchCaptureIdentity readable s cid serverUID captureUID \<longleftrightarrow>
     validCaptureTarget s cid serverUID captureUID \<and> readable \<and>
     (case map_of (sv_identity s) cid of
        None \<Rightarrow> False
      | Some i \<Rightarrow> ci_ServerUID i = serverUID \<and> ci_CaptureUID i = captureUID)"

section \<open>Captures in memory\<close>

fun evictCompleted :: "(string \<Rightarrow> addr option) \<Rightarrow> string list \<Rightarrow> (string \<Rightarrow> addr option) \<times> string list" where
  "evictCompleted c [] = (c, [])"
| "evictCompleted c (x # xs) = (if length (x # xs) > maxCompletedRetained then evictCompleted (c(x := None)) xs else (c, x # xs))"

definition rememberCompletedLocked :: "addr \<Rightarrow> capture_state \<Rightarrow> sidecar \<Rightarrow> sidecar" where
  "rememberCompletedLocked a state s =
     (let order = (if sv_completed s (st_id state) = None then sv_completedOrder s @ [st_id state] else sv_completedOrder s);
          r = evictCompleted ((sv_completed s)(st_id state \<mapsto> a)) order
      in s\<lparr>sv_completed := fst r, sv_completedOrder := snd r\<rparr>)"

definition capture_at :: "sidecar \<Rightarrow> addr option \<Rightarrow> capture_state option" where
  "capture_at s a = Option.bind a (sv_heap s)"

definition lookup :: "sidecar \<Rightarrow> string \<Rightarrow> addr option" where
  "lookup s cid = (case capture_at s (sv_currentCapture s) of
      Some state \<Rightarrow> if st_id state = cid then sv_currentCapture s else sv_completed s cid
    | None \<Rightarrow> sv_completed s cid)"

definition has_id :: "sidecar \<Rightarrow> addr option \<Rightarrow> string \<Rightarrow> bool" where
  "has_id s a cid \<longleftrightarrow> (case capture_at s a of Some state \<Rightarrow> st_id state = cid | None \<Rightarrow> False)"

definition captureBusyLocked :: "sidecar \<Rightarrow> string \<Rightarrow> bool" where
  "captureBusyLocked s cid \<longleftrightarrow>
     has_id s (sv_currentCapture s) cid \<or> has_id s (sv_finishingCapture s) cid \<or>
     (case capture_at s (sv_completed s cid) of Some state \<Rightarrow> st_status state = statusRunning | None \<Rightarrow> False)"

section \<open>Starting\<close>

definition file_size :: "sidecar \<Rightarrow> addr \<Rightarrow> int" where
  "file_size s a = (case sv_heap s a of Some st \<Rightarrow> wr_disk (st_writer st) | None \<Rightarrow> 0)"

definition retainedCaptureBytes :: "sidecar \<Rightarrow> int" where
  "retainedCaptureBytes s = sum_list (map (file_size s \<circ> snd) (sv_pcap s))"

definition week :: duration where
  "week = 7 * 24 * 60 * minute"

fun pruneLoop :: "start_env \<Rightarrow> (string \<times> addr) list \<Rightarrow> (string \<times> capture_identity) list \<Rightarrow> nat \<Rightarrow>
    (unit + nat) \<times> (string \<times> capture_identity) list" where
  "pruneLoop e pcap [] remaining = (Inr remaining, [])"
| "pruneLoop e pcap ((cid, i) # rest) remaining =
     (if \<not> validCaptureID cid then (case pruneLoop e pcap rest remaining of (r, kept) \<Rightarrow> (r, (cid, i) # kept))
      else if v_lstatFails e cid then (Inl (), (cid, i) # rest)
      else if time_sub (v_now e) (ci_modTime i) > week \<and> \<not> v_fileFails e cid \<and> map_of pcap cid = None
      then (if v_removeFails e cid then (Inl (), (cid, i) # rest) else pruneLoop e pcap rest remaining)
      else (case pruneLoop e pcap rest (remaining + 1) of (r, kept) \<Rightarrow> (r, (cid, i) # kept)))"

datatype bind_error = ErrExist | ErrCaptureIdentityBudget | BindIOError

definition pruneCaptureTombstones :: "start_env \<Rightarrow> sidecar \<Rightarrow> bind_error option \<times> sidecar" where
  "pruneCaptureTombstones e s = (case pruneLoop e (sv_pcap s) (sv_identity s) 0 of (r, kept) \<Rightarrow>
     ((case r of Inl _ \<Rightarrow> Some BindIOError | Inr n \<Rightarrow> if n \<ge> 4096 then Some ErrCaptureIdentityBudget else None),
      s\<lparr>sv_identity := kept\<rparr>))"

definition prepareCaptureBinding :: "start_env \<Rightarrow> string \<Rightarrow> start_request \<Rightarrow> sidecar \<Rightarrow> (bind_error + bool) \<times> sidecar" where
  "prepareCaptureBinding e cid req s = (case pruneCaptureTombstones e s of
      (Some err, s1) \<Rightarrow> (Inl err, s1)
    | (None, s1) \<Rightarrow>
        if v_lstatFails e cid then (Inl BindIOError, s1)
        else if map_of (sv_identity s1) cid \<noteq> None then (Inl ErrExist, s1)
        else if sr_CaptureUID req = [] then (Inr False, s1)
        else if v_fileFails e cid then (Inl BindIOError, s1)
        else if map_of (sv_pcap s1) cid \<noteq> None then (Inl ErrExist, s1)
        else if v_bindFails e then (Inl BindIOError, s1)
        else (Inr True, s1\<lparr>sv_identity := AList.update cid
          \<lparr>ci_ServerUID = sr_ServerUID req, ci_CaptureUID = sr_CaptureUID req, ci_modTime = v_now e\<rparr> (sv_identity s1)\<rparr>))"

definition new_capture :: "start_env \<Rightarrow> string \<Rightarrow> start_request \<Rightarrow> pcap_writer \<Rightarrow> capture_state" where
  "new_capture e cid req w =
     \<lparr>st_id = cid, st_serverUID = sr_ServerUID req, st_captureUID = sr_CaptureUID req, st_startedAt = v_now e,
      st_maxDurationSecs = sr_MaxDurationSeconds req, st_maxSizeBytes = sr_MaxSizeBytes req, st_writer = w,
      st_cancelled = False, st_loop = Reading, st_status = statusRunning, st_completedAt = None,
      st_stoppingReason = [], st_message = [], st_pc = FinNone\<rparr>"

text \<open>A file left behind when its header could not be written, with no capture behind it.\<close>

definition broken_file :: "start_env \<Rightarrow> string \<Rightarrow> start_request \<Rightarrow> int \<Rightarrow> capture_state" where
  "broken_file e cid req k = (new_capture e cid req
     \<lparr>wr_snaplen = DefaultSnaplen, wr_maxSizeBytes = sr_MaxSizeBytes req, wr_maxDurationSeconds = sr_MaxDurationSeconds req,
      wr_startTime = v_now e, wr_closed = True, wr_bytesWritten = k, wr_packetsWritten = 0, wr_limitReached = False,
      wr_limitReason = [], wr_disk = k, wr_buffered = 0, wr_blocks = []\<rparr>)
     \<lparr>st_cancelled := True, st_loop := LoopDone, st_status := statusFailed, st_pc := FinEnd\<rparr>"

definition alloc :: "string \<Rightarrow> capture_state \<Rightarrow> sidecar \<Rightarrow> sidecar" where
  "alloc cid st s = s\<lparr>sv_heap := (sv_heap s)(sv_next s \<mapsto> st), sv_next := sv_next s + 1,
     sv_pcap := AList.update cid (sv_next s) (sv_pcap s)\<rparr>"

definition unbind :: "start_env \<Rightarrow> string \<Rightarrow> bool \<Rightarrow> sidecar \<Rightarrow> sidecar" where
  "unbind e cid bound s = (if bound \<and> \<not> v_unbindFails e then s\<lparr>sv_identity := AList.delete cid (sv_identity s)\<rparr> else s)"

text \<open>The part of \<^verbatim>\<open>HandleStart\<close> that opens socket, identity and file, under the lock.\<close>

definition openCapture :: "start_env \<Rightarrow> string \<Rightarrow> start_request \<Rightarrow> sidecar \<Rightarrow> sc_response \<times> sidecar" where
  "openCapture e cid req s =
     (if v_sourceFails e then (HTTPFail 500, s)
      else (case prepareCaptureBinding e cid req s of
          (Inl ErrExist, s1) \<Rightarrow> (HTTPFail 409, s1)
        | (Inl ErrCaptureIdentityBudget, s1) \<Rightarrow> (HTTPFail 507, s1)
        | (Inl BindIOError, s1) \<Rightarrow> (HTTPFail 500, s1)
        | (Inr bound, s1) \<Rightarrow>
            (case NewWriter (v_now e) (v_create e) (v_header e) (sr_MaxDurationSeconds req) (sr_MaxSizeBytes req) 0 of
               NWOk w \<Rightarrow>
                 (StartReply cid (v_now e), (alloc cid (new_capture e cid req w) s1)\<lparr>sv_currentCapture := Some (sv_next s1)\<rparr>)
             | NWBroken k \<Rightarrow> (HTTPFail 500, unbind e cid bound (alloc cid (broken_file e cid req k) s1))
             | _ \<Rightarrow> (HTTPFail 500, unbind e cid bound s1))))"

definition HandleStart :: "start_env \<Rightarrow> string \<Rightarrow> start_request option \<Rightarrow> sidecar \<Rightarrow> sc_response \<times> sidecar" where
  "HandleStart e cid body s =
     (if \<not> validCaptureID cid then (HTTPFail 400, s)
      else (case body of
          None \<Rightarrow> (HTTPFail 400, s)
        | Some req \<Rightarrow>
            if sr_MaxDurationSeconds req \<le> 0 \<or> sr_MaxDurationSeconds req > maxDurationSecondsLimit then (HTTPFail 400, s)
            else if sr_MaxSizeBytes req \<le> 0 then (HTTPFail 400, s)
            else if \<not> validStartIdentity s req then (HTTPFail 400, s)
            else if sr_Filter req = [] then (HTTPFail 400, s)
            else if CompileFilter (v_compile e) (sr_Filter req) = None then (HTTPFail 400, s)
            else if sv_currentCapture s \<noteq> None \<or> sv_finishingCapture s \<noteq> None then (HTTPFail 409, s)
            else if sv_budgetBytes s > 0 \<and> v_retainedFails e then (HTTPFail 500, s)
            else if sv_budgetBytes s > 0 \<and> sr_MaxSizeBytes req > sv_budgetBytes s - retainedCaptureBytes s then (HTTPFail 507, s)
            else openCapture e cid req s))"

section \<open>The packet loop\<close>

definition update_capture :: "addr \<Rightarrow> (capture_state \<Rightarrow> capture_state) \<Rightarrow> sidecar \<Rightarrow> sidecar" where
  "update_capture a f s = s\<lparr>sv_heap := (sv_heap s)(a := map_option f (sv_heap s a))\<rparr>"

text \<open>One packet through the callback; \<open>msg\<close> is what its error would say.\<close>

definition loopPacket :: "time \<Rightarrow> raw_packet \<Rightarrow> ng_answer \<Rightarrow> string \<Rightarrow> capture_state \<Rightarrow> capture_state" where
  "loopPacket now p ng msg st =
     (case WritePacket now p ng (st_writer st) of
        (None, w) \<Rightarrow> st\<lparr>st_writer := w\<rparr>
      | (Some err, w) \<Rightarrow> st\<lparr>st_writer := w, st_loop := LoopFailed err msg\<rparr>)"

text \<open>The first critical section of \<^verbatim>\<open>finish\<close>: no match changes nothing.\<close>

definition finishBegin :: "string \<Rightarrow> addr option \<Rightarrow> string \<Rightarrow> string option \<Rightarrow> sidecar \<Rightarrow> addr option \<times> sidecar" where
  "finishBegin cid target reason failure s = (case sv_currentCapture s of
      None \<Rightarrow> (None, s)
    | Some a \<Rightarrow> (case sv_heap s a of
        None \<Rightarrow> (None, s)
      | Some state \<Rightarrow>
          if (case target of Some t \<Rightarrow> a = t | None \<Rightarrow> st_id state = cid)
          then (Some a,
            update_capture a (\<lambda>st. st\<lparr>st_cancelled := True,
                st_pc := FinClose (if reason = [] then reasonUserRequested else reason)
                  (case failure of None \<Rightarrow> statusCompleted | Some _ \<Rightarrow> statusFailed)
                  (case failure of None \<Rightarrow> [] | Some m \<Rightarrow> m)\<rparr>)
              (rememberCompletedLocked a state (s\<lparr>sv_currentCapture := None, sv_finishingCapture := Some a\<rparr>)))
          else (None, s)))"

definition finishClose :: "addr \<Rightarrow> flush_answer \<Rightarrow> string \<Rightarrow> sidecar \<Rightarrow> sidecar" where
  "finishClose a fl msg s = update_capture a (\<lambda>st. case st_pc st of
      FinClose reason status message \<Rightarrow>
        (case Close fl (st_writer st) of
           (None, w) \<Rightarrow> st\<lparr>st_writer := w, st_pc := FinPublish reason status message\<rparr>
         | (Some err, w) \<Rightarrow> st\<lparr>st_writer := w,
             st_pc := FinPublish (if err = CloseDiskFull then reasonDiskFull else reason) statusFailed (''finalize capture file: '' @ msg)\<rparr>)
    | _ \<Rightarrow> st) s"

definition finishPublish :: "addr \<Rightarrow> time \<Rightarrow> sidecar \<Rightarrow> sidecar" where
  "finishPublish a now s = update_capture a (\<lambda>st. case st_pc st of
      FinPublish reason status message \<Rightarrow>
        st\<lparr>st_status := status, st_completedAt := Some now, st_stoppingReason := reason, st_message := message, st_pc := FinClear\<rparr>
    | _ \<Rightarrow> st) s"

definition finishClear :: "addr \<Rightarrow> sidecar \<Rightarrow> sidecar" where
  "finishClear a s = (case sv_heap s a of
      Some st \<Rightarrow>
        if st_pc st = FinClear
        then (update_capture a (\<lambda>st. st\<lparr>st_pc := FinEnd\<rparr>) s)
          \<lparr>sv_finishingCapture := (if sv_finishingCapture s = Some a then None else sv_finishingCapture s)\<rparr>
        else s
    | None \<Rightarrow> s)"

definition finish :: "string \<Rightarrow> addr option \<Rightarrow> string \<Rightarrow> string option \<Rightarrow> flush_answer \<Rightarrow> string \<Rightarrow> time \<Rightarrow> sidecar \<Rightarrow> addr option \<times> sidecar" where
  "finish cid target reason failure fl msg now s = (case finishBegin cid target reason failure s of
      (None, s1) \<Rightarrow> (None, s1)
    | (Some a, s1) \<Rightarrow> (Some a, finishClear a (finishPublish a now (finishClose a fl msg s1))))"

text \<open>The end of \<^verbatim>\<open>runCapture\<close>: a canceled loop leaves the terminal state to whoever canceled it.\<close>

definition loopEnd :: "addr \<Rightarrow> sidecar \<Rightarrow> sidecar" where
  "loopEnd a s = (case sv_heap s a of
      None \<Rightarrow> s
    | Some st \<Rightarrow> (case st_loop st of
        LoopFailed err msg \<Rightarrow>
          (let s1 = update_capture a (\<lambda>st. st\<lparr>st_loop := LoopDone\<rparr>) s in
           if st_cancelled st then s1
           else (case err of
               ErrLimitReached _ \<Rightarrow> snd (finishBegin [] (Some a) (wr_limitReason (st_writer st)) None s1)
             | _ \<Rightarrow> snd (finishBegin [] (Some a)
                 (if err = DiskFull \<or> wr_limitReason (st_writer st) = LimitReasonDiskFull then reasonDiskFull else reasonError)
                 (Some msg) s1)))
      | _ \<Rightarrow> s))"

section \<open>Requests\<close>

definition stop_reply :: "capture_state \<Rightarrow> sc_response" where
  "stop_reply st = StopReply (st_id st) (st_status st) (st_completedAt st) (st_stoppingReason st) (st_message st)
     (wr_bytesWritten (st_writer st)) (wr_packetsWritten (st_writer st))"

definition writeStopResponse :: "sidecar \<Rightarrow> addr option \<Rightarrow> sc_response" where
  "writeStopResponse s a = (case capture_at s a of Some st \<Rightarrow> stop_reply st | None \<Rightarrow> HTTPFail 404)"

text \<open>A stop that is not interrupted: \<open>body\<close> is the decoded reason, \<open>None\<close> when the body does not decode.\<close>

definition HandleStop :: "string \<Rightarrow> control_identity \<Rightarrow> string option \<Rightarrow> flush_answer \<Rightarrow> string \<Rightarrow> time \<Rightarrow> sidecar \<Rightarrow> sc_response \<times> sidecar" where
  "HandleStop cid ctl body fl msg now s =
     (if \<not> validCaptureID cid then (HTTPFail 400, s)
      else (case body of
          None \<Rightarrow> (HTTPFail 400, s)
        | Some reason \<Rightarrow>
            (let target = (if ctl \<noteq> None then lookup s cid else None) in
             if ctl \<noteq> None \<and> \<not> controlIdentityMatches s ctl (capture_at s target) then (HTTPFail 404, s)
             else (case finish cid target reason None fl msg now s of
                 (Some a, s1) \<Rightarrow> (writeStopResponse s1 (Some a), s1)
               | (None, s1) \<Rightarrow>
                   (let state = lookup s1 cid in
                    if \<not> controlIdentityMatches s1 ctl (capture_at s1 state) then (HTTPFail 404, s1)
                    else (writeStopResponse s1 state, s1))))))"

definition HandleStatus :: "string \<Rightarrow> control_identity \<Rightarrow> time \<Rightarrow> sidecar \<Rightarrow> sc_response" where
  "HandleStatus cid ctl now s =
     (if \<not> validCaptureID cid then HTTPFail 400
      else (case capture_at s (lookup s cid) of
          None \<Rightarrow> HTTPFail 404
        | Some st \<Rightarrow>
            if \<not> controlIdentityMatches s ctl (Some st) then HTTPFail 404
            else if st_status st = statusRunning
            then StatusReplyRunning cid (st_startedAt st) (wr_bytesWritten (st_writer st)) (wr_packetsWritten (st_writer st))
              (max 0 ((st_maxDurationSecs st * second - time_sub now (st_startedAt st)) div second))
              (st_maxSizeBytes st - wr_bytesWritten (st_writer st))
            else StatusReplyDone cid (st_status st) (st_completedAt st) (st_stoppingReason st) (st_message st)
              (wr_bytesWritten (st_writer st)) (wr_packetsWritten (st_writer st))))"

text \<open>\<open>opens\<close>: opening an existing file succeeds.\<close>

definition HandleBoundDownload :: "bool \<Rightarrow> bool \<Rightarrow> string \<Rightarrow> string \<Rightarrow> string \<Rightarrow> sidecar \<Rightarrow> sc_response" where
  "HandleBoundDownload readable opens cid serverUID captureUID s =
     (if \<not> matchCaptureIdentity readable s cid serverUID captureUID then HTTPFail 404
      else if captureBusyLocked s cid then HTTPFail 409
      else (case map_of (sv_pcap s) cid of
          None \<Rightarrow> HTTPFail 410
        | Some a \<Rightarrow> if opens then ServeFile a else HTTPFail 500))"

text \<open>The plain download checks under the lock and opens the file after releasing it: \<open>s\<close> and \<open>s'\<close>.\<close>

definition HandleDownload :: "bool \<Rightarrow> string \<Rightarrow> sidecar \<Rightarrow> sidecar \<Rightarrow> sc_response" where
  "HandleDownload opens cid s s' =
     (if \<not> validCaptureID cid then HTTPFail 400
      else if captureBusyLocked s cid then HTTPFail 409
      else (case map_of (sv_pcap s') cid of
          None \<Rightarrow> if lookup s' cid \<noteq> None then HTTPFail 410 else HTTPFail 404
        | Some a \<Rightarrow> if opens then ServeFile a else HTTPFail 500))"

definition captureDataAbsent :: "bool \<Rightarrow> sidecar \<Rightarrow> string \<Rightarrow> bool" where
  "captureDataAbsent readable s cid \<longleftrightarrow> readable \<and> map_of (sv_identity s) cid = None \<and> map_of (sv_pcap s) cid = None"

definition remove_pcap :: "string \<Rightarrow> sidecar \<Rightarrow> sidecar" where
  "remove_pcap cid s = s\<lparr>sv_pcap := AList.delete cid (sv_pcap s)\<rparr>"

definition touch_identity :: "time \<Rightarrow> capture_identity \<Rightarrow> capture_identity" where
  "touch_identity now i = i\<lparr>ci_modTime := now\<rparr>"

definition HandleBoundDelete :: "bool \<Rightarrow> bool \<Rightarrow> bool \<Rightarrow> time \<Rightarrow> string \<Rightarrow> string \<Rightarrow> string \<Rightarrow> sidecar \<Rightarrow> sc_response \<times> sidecar" where
  "HandleBoundDelete readable removeFails touchFails now cid serverUID captureUID s =
     (if \<not> validCaptureTarget s cid serverUID captureUID then (HTTPFail 404, s)
      else if captureBusyLocked s cid then (HTTPFail 409, s)
      else if captureDataAbsent readable s cid then (HTTPFail 410, s)
      else if \<not> matchCaptureIdentity readable s cid serverUID captureUID then (HTTPFail 404, s)
      else if removeFails then (HTTPFail 500, s)
      else
        (let s1 = remove_pcap cid s in
         if touchFails then (HTTPFail 500, s1)
         else (NoContent, s1\<lparr>sv_identity := map (\<lambda>(k, i). (k, if k = cid then touch_identity now i else i)) (sv_identity s1)\<rparr>)))"

definition HandleDelete :: "bool \<Rightarrow> bool \<Rightarrow> bool \<Rightarrow> string \<Rightarrow> control_identity \<Rightarrow> sidecar \<Rightarrow> sc_response \<times> sidecar" where
  "HandleDelete readable removeFails unbindFails cid ctl s =
     (if \<not> validCaptureID cid then (HTTPFail 400, s)
      else if (case ctl of None \<Rightarrow> False | Some (serverUID, captureUID) \<Rightarrow> \<not> matchCaptureIdentity readable s cid serverUID captureUID)
      then (HTTPFail 404, s)
      else if captureBusyLocked s cid then (HTTPFail 409, s)
      else if removeFails then (HTTPFail 500, s)
      else
        (let s1 = remove_pcap cid s in
         if unbindFails then (HTTPFail 500, s1) else (NoContent, s1\<lparr>sv_identity := AList.delete cid (sv_identity s1)\<rparr>)))"

definition FinalizeCurrentCapture :: "flush_answer \<Rightarrow> string \<Rightarrow> time \<Rightarrow> sidecar \<Rightarrow> sidecar" where
  "FinalizeCurrentCapture fl msg now s = (case sv_currentCapture s of
      None \<Rightarrow> s
    | Some a \<Rightarrow> snd (finish [] (Some a) reasonUserRequested None fl msg now s))"

section \<open>Interleavings\<close>

text \<open>
  One step of the process.  A header takes at most \<open>H\<close> bytes (it carries the filter).  Every other answer of the
  file system, the clock and the socket is arbitrary, and so are the requests.  \<open>finish_begin\<close> stands for a stop
  request, the duration timer and the shutdown.
\<close>

inductive sc_step :: "int \<Rightarrow> sidecar \<Rightarrow> sidecar \<Rightarrow> bool" for H where
  start: "0 \<le> v_header e \<Longrightarrow> v_header e \<le> H \<Longrightarrow>
    (case v_create e of HeaderFails k \<Rightarrow> 0 \<le> k \<and> k \<le> v_header e | _ \<Rightarrow> True) \<Longrightarrow>
    sc_step H s (snd (HandleStart e cid body s))"
| packet: "sv_heap s a = Some st \<Longrightarrow> st_loop st = Reading \<Longrightarrow> ng_ok (st_writer st) p ng \<Longrightarrow>
    sc_step H s (update_capture a (loopPacket now p ng msg) s)"
| source_fails: "sv_heap s a = Some st \<Longrightarrow> st_loop st = Reading \<Longrightarrow>
    sc_step H s (update_capture a (\<lambda>st. st\<lparr>st_loop := LoopFailed WriteFailed msg\<rparr>) s)"
| loop_end: "sc_step H s (loopEnd a s)"
| finish_begin: "sc_step H s (snd (finishBegin cid target reason None s))"
| finish_close: "(\<And>st. sv_heap s a = Some st \<Longrightarrow> flush_ok (st_writer st) fl) \<Longrightarrow> sc_step H s (finishClose a fl msg s)"
| finish_publish: "sc_step H s (finishPublish a now s)"
| finish_clear: "sc_step H s (finishClear a s)"
| delete: "sc_step H s (snd (HandleDelete readable removeFails unbindFails cid ctl s))"
| bound_delete: "sc_step H s (snd (HandleBoundDelete readable removeFails touchFails now cid serverUID captureUID s))"

text \<open>A fresh process on an empty volume: the volume is the pod's own, so files of earlier captures outlive a restart
  of the container only, which is not modelled.\<close>

definition NewServer :: "int \<Rightarrow> string \<Rightarrow> sidecar" where
  "NewServer budgetBytes serverUID =
     \<lparr>sv_heap = Map.empty, sv_next = 0, sv_currentCapture = None, sv_finishingCapture = None, sv_completed = Map.empty,
      sv_completedOrder = [], sv_serverUID = serverUID, sv_budgetBytes = budgetBytes, sv_pcap = [], sv_identity = []\<rparr>"

inductive sc_reachable :: "int \<Rightarrow> sidecar \<Rightarrow> bool" for H where
  init: "sc_reachable H (NewServer b u)"
| step: "sc_reachable H s \<Longrightarrow> sc_step H s s' \<Longrightarrow> sc_reachable H s'"

section \<open>The invariant\<close>

definition slack :: int where
  "slack = DefaultSnaplen + 35"

text \<open>Where a capture stands: its published status, its file, and the pointer to it.\<close>

definition stage_ok :: "addr option \<Rightarrow> addr option \<Rightarrow> addr \<Rightarrow> capture_state \<Rightarrow> bool" where
  "stage_ok cur fin a st = (case st_pc st of
      FinNone \<Rightarrow> st_status st = statusRunning \<and> \<not> wr_closed (st_writer st) \<and> \<not> st_cancelled st \<and> cur = Some a
    | FinClose r q m \<Rightarrow> st_status st = statusRunning \<and> \<not> wr_closed (st_writer st) \<and> st_cancelled st \<and> fin = Some a \<and> q \<noteq> statusRunning
    | FinPublish r q m \<Rightarrow> st_status st = statusRunning \<and> wr_closed (st_writer st) \<and> st_cancelled st \<and> fin = Some a \<and> q \<noteq> statusRunning
    | FinClear \<Rightarrow> st_status st \<noteq> statusRunning \<and> wr_closed (st_writer st) \<and> st_cancelled st \<and> fin = Some a
    | FinEnd \<Rightarrow> st_status st \<noteq> statusRunning \<and> wr_closed (st_writer st) \<and> st_cancelled st)"

definition account_ok :: "int \<Rightarrow> capture_state \<Rightarrow> bool" where
  "account_ok H st \<longleftrightarrow> (\<exists>hdr. 0 \<le> hdr \<and> hdr \<le> H \<and> bounded_account hdr (st_writer st) \<and>
     (st_loop st = Reading \<and> \<not> wr_closed (st_writer st) \<longrightarrow> exact_account hdr (st_writer st))) \<and>
     wr_maxSizeBytes (st_writer st) = st_maxSizeBytes st \<and> wr_snaplen (st_writer st) = DefaultSnaplen \<and> 0 < st_maxSizeBytes st"

definition caps_inv :: "int \<Rightarrow> sidecar \<Rightarrow> bool" where
  "caps_inv H s \<longleftrightarrow> (\<forall>a st. sv_heap s a = Some st \<longrightarrow>
     a < sv_next s \<and> stage_ok (sv_currentCapture s) (sv_finishingCapture s) a st \<and> account_ok H st)"

definition open_pc :: "finish_pc \<Rightarrow> bool" where
  "open_pc pc = (case pc of FinEnd \<Rightarrow> False | FinNone \<Rightarrow> False | _ \<Rightarrow> True)"

definition ptr_inv :: "sidecar \<Rightarrow> bool" where
  "ptr_inv s \<longleftrightarrow>
     (\<forall>a. sv_currentCapture s = Some a \<longrightarrow> (\<exists>st. sv_heap s a = Some st \<and> st_pc st = FinNone \<and> map_of (sv_pcap s) (st_id st) = Some a))
     \<and> (\<forall>a. sv_finishingCapture s = Some a \<longrightarrow> (\<exists>st. sv_heap s a = Some st \<and> open_pc (st_pc st) \<and> map_of (sv_pcap s) (st_id st) = Some a))
     \<and> (sv_currentCapture s = None \<or> sv_finishingCapture s = None)"

definition mem_inv :: "sidecar \<Rightarrow> bool" where
  "mem_inv s \<longleftrightarrow>
     (\<forall>cid a. sv_completed s cid = Some a \<longrightarrow> (\<exists>st. sv_heap s a = Some st \<and> st_id st = cid \<and> st_pc st \<noteq> FinNone))
     \<and> dom (sv_completed s) = set (sv_completedOrder s) \<and> distinct (sv_completedOrder s)
     \<and> length (sv_completedOrder s) \<le> maxCompletedRetained"

definition file_inv :: "sidecar \<Rightarrow> bool" where
  "file_inv s \<longleftrightarrow> distinct (map fst (sv_pcap s)) \<and> distinct (map fst (sv_identity s))
     \<and> (\<forall>cid a. map_of (sv_pcap s) cid = Some a \<longrightarrow> (\<exists>st. sv_heap s a = Some st \<and> st_id st = cid
          \<and> (\<forall>i. map_of (sv_identity s) cid = Some i \<longrightarrow> st_serverUID st = ci_ServerUID i \<and> st_captureUID st = ci_CaptureUID i)))"

text \<open>What a file may come to cost: its size, or the most it can reach while its capture is open.\<close>

definition charge :: "int \<Rightarrow> sidecar \<Rightarrow> addr \<Rightarrow> int" where
  "charge H s a = (case sv_heap s a of
      None \<Rightarrow> 0
    | Some st \<Rightarrow> if sv_currentCapture s = Some a \<or> sv_finishingCapture s = Some a then max (st_maxSizeBytes st) H + slack
        else wr_disk (st_writer st))"

definition budget_inv :: "int \<Rightarrow> sidecar \<Rightarrow> bool" where
  "budget_inv H s \<longleftrightarrow> (0 < sv_budgetBytes s \<longrightarrow> sum_list (map (charge H s \<circ> snd) (sv_pcap s)) \<le> sv_budgetBytes s + H + slack)"

definition sc_inv :: "int \<Rightarrow> sidecar \<Rightarrow> bool" where
  "sc_inv H s \<longleftrightarrow> caps_inv H s \<and> ptr_inv s \<and> mem_inv s \<and> file_inv s \<and> budget_inv H s"

lemmas inv_defs = sc_inv_def caps_inv_def ptr_inv_def mem_inv_def file_inv_def budget_inv_def

lemma account_cap: "account_ok H st \<Longrightarrow> wr_disk (st_writer st) \<le> max (st_maxSizeBytes st) H + slack \<and> 0 \<le> wr_disk (st_writer st)"
  by (auto simp: account_ok_def bounded_account_def size_cap_def slack_def)

lemma caps_invD: "caps_inv H s \<Longrightarrow> sv_heap s a = Some st \<Longrightarrow> a < sv_next s"
    "caps_inv H s \<Longrightarrow> sv_heap s a = Some st \<Longrightarrow> stage_ok (sv_currentCapture s) (sv_finishingCapture s) a st"
    "caps_inv H s \<Longrightarrow> sv_heap s a = Some st \<Longrightarrow> account_ok H st"
  by (auto simp: caps_inv_def)

lemma charge_bounds:
  assumes "caps_inv H s" "0 \<le> H"
  shows "0 \<le> charge H s a" "file_size s a \<le> charge H s a"
  using caps_invD(3) [OF assms(1), of a] assms(2) account_cap
  by (fastforce simp: charge_def file_size_def account_ok_def slack_def DefaultSnaplen_def split: option.split)+

section \<open>Steps on one capture\<close>

lemma update_capture_simps [simp]:
  "sv_next (update_capture a f s) = sv_next s"
  "sv_currentCapture (update_capture a f s) = sv_currentCapture s"
  "sv_finishingCapture (update_capture a f s) = sv_finishingCapture s"
  "sv_completed (update_capture a f s) = sv_completed s"
  "sv_completedOrder (update_capture a f s) = sv_completedOrder s"
  "sv_serverUID (update_capture a f s) = sv_serverUID s"
  "sv_budgetBytes (update_capture a f s) = sv_budgetBytes s"
  "sv_pcap (update_capture a f s) = sv_pcap s"
  "sv_identity (update_capture a f s) = sv_identity s"
  by (simp_all add: update_capture_def)

lemma update_capture_heap [simp]: "sv_heap (update_capture a f s) b = (if b = a then map_option f (sv_heap s a) else sv_heap s b)"
  by (simp add: update_capture_def)

definition same_capture :: "capture_state \<Rightarrow> capture_state \<Rightarrow> bool" where
  "same_capture a b \<longleftrightarrow> st_id b = st_id a \<and> st_serverUID b = st_serverUID a \<and> st_captureUID b = st_captureUID a
     \<and> st_maxSizeBytes b = st_maxSizeBytes a \<and> (st_pc b = FinNone \<longleftrightarrow> st_pc a = FinNone) \<and> (open_pc (st_pc b) \<longleftrightarrow> open_pc (st_pc a))
     \<and> (st_pc a = FinEnd \<longrightarrow> wr_disk (st_writer b) = wr_disk (st_writer a))"

lemma update_capture_inv:
  assumes inv: "sc_inv H s" and st: "sv_heap s a = Some st" and same: "same_capture st (f st)"
    and ok: "stage_ok (sv_currentCapture s) (sv_finishingCapture s) a (f st)" "account_ok H (f st)"
  shows "sc_inv H (update_capture a f s)"
proof -
  have pc: "st_pc st = FinEnd \<or> sv_currentCapture s = Some a \<or> sv_finishingCapture s = Some a"
    using caps_invD(2) [of H s a st] inv st by (auto simp: sc_inv_def stage_ok_def split: finish_pc.splits)
  have "charge H (update_capture a f s) b = charge H s b" for b
    using st same pc by (cases "b = a"; cases "sv_heap s b") (auto simp: charge_def same_capture_def)
  then have "charge H (update_capture a f s) = charge H s" by blast
  then have "budget_inv H (update_capture a f s)" using inv by (simp add: sc_inv_def budget_inv_def)
  moreover have "caps_inv H (update_capture a f s)"
    using inv ok st by (auto simp: sc_inv_def caps_inv_def)
  moreover have "ptr_inv (update_capture a f s)"
    using inv st same unfolding sc_inv_def ptr_inv_def by (auto simp: same_capture_def)
  moreover have "mem_inv (update_capture a f s)"
    using inv st same unfolding sc_inv_def mem_inv_def by (fastforce simp: same_capture_def)
  moreover have "file_inv (update_capture a f s)"
    using inv st same unfolding sc_inv_def file_inv_def by (fastforce simp: same_capture_def)
  ultimately show ?thesis by (simp add: sc_inv_def)
qed

lemma update_capture_none: "sv_heap s a = None \<Longrightarrow> update_capture a f s = s"
  by (simp add: update_capture_def fun_upd_idem)

lemma inv_at:
  assumes "sc_inv H s" "sv_heap s a = Some st"
  shows "stage_ok (sv_currentCapture s) (sv_finishingCapture s) a st" "account_ok H st"
  using assms caps_invD [of H s a st] by (auto simp: sc_inv_def)

text \<open>A packet changes the writer of an open capture within its account, and nothing once the file is closed.\<close>

lemma loopPacket_account:
  assumes "account_ok H st" "st_loop st = Reading" "ng_ok (st_writer st) p ng"
  shows "account_ok H (loopPacket now p ng msg st)"
proof -
  obtain err w where w: "WritePacket now p ng (st_writer st) = (err, w)" by fastforce
  have keep: "wr_maxSizeBytes w = wr_maxSizeBytes (st_writer st)" "wr_snaplen w = wr_snaplen (st_writer st)" "wr_closed w = wr_closed (st_writer st)"
    using w by (auto simp: WritePacket_def Let_def moved_def reach_limit_def split: if_splits ng_answer.splits)
  obtain hdr where hdr: "0 \<le> hdr" "hdr \<le> H" "bounded_account hdr (st_writer st)"
    "\<not> wr_closed (st_writer st) \<longrightarrow> exact_account hdr (st_writer st)"
    using assms(1,2) by (auto simp: account_ok_def)
  have "bounded_account hdr w \<and> (err = None \<and> \<not> wr_closed w \<longrightarrow> exact_account hdr w)"
  proof (cases "wr_closed (st_writer st)")
    case True
    then have "w = st_writer st" using w by (simp add: WritePacket_def)
    with hdr(3) True show ?thesis by simp
  next
    case False
    with WritePacket_account [OF _ hdr(3) assms(3) w] hdr(4) show ?thesis by simp
  qed
  with hdr(1,2) assms(1) keep show ?thesis
    by (auto simp: loopPacket_def w account_ok_def split: option.split)
qed

lemma loopPacket_fields [simp]:
  "st_id (loopPacket now p ng msg st) = st_id st" "st_serverUID (loopPacket now p ng msg st) = st_serverUID st"
  "st_captureUID (loopPacket now p ng msg st) = st_captureUID st" "st_maxSizeBytes (loopPacket now p ng msg st) = st_maxSizeBytes st"
  "st_pc (loopPacket now p ng msg st) = st_pc st" "st_status (loopPacket now p ng msg st) = st_status st"
  "st_cancelled (loopPacket now p ng msg st) = st_cancelled st"
  "wr_closed (st_writer (loopPacket now p ng msg st)) = wr_closed (st_writer st)"
  "wr_closed (st_writer st) \<Longrightarrow> st_writer (loopPacket now p ng msg st) = st_writer st"
  by (auto simp: loopPacket_def WritePacket_def Let_def moved_def reach_limit_def split: prod.split option.split ng_answer.split)

lemma packet_inv:
  assumes "sc_inv H s" "sv_heap s a = Some st" "st_loop st = Reading" "ng_ok (st_writer st) p ng"
  shows "sc_inv H (update_capture a (loopPacket now p ng msg) s)"
proof (rule update_capture_inv [OF assms(1,2)])
  have "st_pc st = FinEnd \<Longrightarrow> wr_closed (st_writer st)" using inv_at(1) [OF assms(1,2)] by (simp add: stage_ok_def)
  then show "same_capture st (loopPacket now p ng msg st)" by (auto simp: same_capture_def)
  show "stage_ok (sv_currentCapture s) (sv_finishingCapture s) a (loopPacket now p ng msg st)"
    using inv_at(1) [OF assms(1,2)] by (cases "st_pc st") (simp_all add: stage_ok_def)
  show "account_ok H (loopPacket now p ng msg st)" using inv_at(2) [OF assms(1,2)] assms(3,4) by (rule loopPacket_account)
qed

lemma set_loop_ok:
  "stage_ok c f a (st\<lparr>st_loop := l\<rparr>) = stage_ok c f a st"
  "account_ok H st \<Longrightarrow> l \<noteq> Reading \<Longrightarrow> account_ok H (st\<lparr>st_loop := l\<rparr>)"
  by (cases "st_pc st"; simp add: stage_ok_def) (auto simp: account_ok_def)

lemma set_loop_inv:
  assumes "sc_inv H s" "l \<noteq> Reading"
  shows "sc_inv H (update_capture a (\<lambda>st. st\<lparr>st_loop := l\<rparr>) s)"
proof (cases "sv_heap s a")
  case None
  with assms(1) show ?thesis by (simp add: update_capture_none)
next
  case (Some st)
  show ?thesis
    by (rule update_capture_inv [OF assms(1) Some])
      (use inv_at [OF assms(1) Some] assms(2) in \<open>simp_all add: same_capture_def set_loop_ok\<close>)
qed

lemma Close_keeps:
  "wr_maxSizeBytes (snd (Close fl w)) = wr_maxSizeBytes w" "wr_snaplen (snd (Close fl w)) = wr_snaplen w" "wr_closed (snd (Close fl w))"
  by (auto simp: Close_def Let_def moved_def reach_limit_def split: flush_answer.split)

lemma finishClose_inv:
  assumes "sc_inv H s" "\<And>st. sv_heap s a = Some st \<Longrightarrow> flush_ok (st_writer st) fl"
  shows "sc_inv H (finishClose a fl msg s)"
proof (cases "sv_heap s a")
  case None
  with assms(1) show ?thesis by (simp add: finishClose_def update_capture_none)
next
  case (Some st)
  note at = inv_at [OF assms(1) Some]
  show ?thesis
  proof (cases "st_pc st")
    case (FinClose r q m)
    obtain err w where w: "Close fl (st_writer st) = (err, w)" by fastforce
    note ck = Close_keeps [of fl "st_writer st", unfolded w snd_conv]
    have acc: "\<exists>hdr. 0 \<le> hdr \<and> hdr \<le> H \<and> bounded_account hdr w"
      using at(2) Close_account [OF _ assms(2) [OF Some]] w by (fastforce simp: account_ok_def)
    show ?thesis
      unfolding finishClose_def
      by (rule update_capture_inv [OF assms(1) Some])
        (use at acc ck FinClose w in \<open>auto simp: same_capture_def stage_ok_def account_ok_def open_pc_def statusFailed_def
            statusRunning_def split: option.split\<close>)
  qed (use assms(1) Some in \<open>simp_all add: finishClose_def update_capture_def fun_upd_idem\<close>)
qed

lemma finishPublish_inv:
  assumes "sc_inv H s"
  shows "sc_inv H (finishPublish a now s)"
proof (cases "sv_heap s a")
  case None
  with assms(1) show ?thesis by (simp add: finishPublish_def update_capture_none)
next
  case (Some st)
  note at = inv_at [OF assms(1) Some]
  show ?thesis
  proof (cases "st_pc st")
    case (FinPublish r q m)
    show ?thesis
      unfolding finishPublish_def
      by (rule update_capture_inv [OF assms(1) Some])
        (use at FinPublish in \<open>auto simp: same_capture_def stage_ok_def account_ok_def open_pc_def\<close>)
  qed (use assms(1) Some in \<open>simp_all add: finishPublish_def update_capture_def fun_upd_idem\<close>)
qed

section \<open>Steps that move a capture\<close>

text \<open>While one capture is open every other one is finished.\<close>

lemma others_ended:
  assumes "caps_inv H s" "ptr_inv s" "sv_currentCapture s = Some a \<or> sv_finishingCapture s = Some a" "sv_heap s b = Some st" "b \<noteq> a"
  shows "st_pc st = FinEnd"
  using caps_invD(2) [OF assms(1,4)] assms(2,3,5) by (cases "st_pc st") (auto simp: stage_ok_def ptr_inv_def)

lemma ended_stage: "stage_ok c f b st \<Longrightarrow> st_pc st = FinEnd \<Longrightarrow> stage_ok c' f' b st"
  by (simp add: stage_ok_def)

lemma evictCompleted_props:
  assumes "dom c = set xs" "distinct xs" "evictCompleted c xs = (c', xs')"
  shows "dom c' = set xs' \<and> distinct xs' \<and> length xs' \<le> maxCompletedRetained \<and> (\<forall>k v. c' k = Some v \<longrightarrow> c k = Some v)"
  using assms
proof (induction c xs rule: evictCompleted.induct)
  case (1 c)
  then show ?case by simp
next
  case (2 c x xs)
  show ?case
  proof (cases "length (x # xs) > maxCompletedRetained")
    case True
    have d: "dom (c(x := None)) = set xs" using 2(2,3) by auto
    have e: "evictCompleted (c(x := None)) xs = (c', xs')" "distinct xs" using 2(3,4) True by simp_all
    have "\<forall>k v. c' k = Some v \<longrightarrow> (c(x := None)) k = Some v" "dom c' = set xs'" "distinct xs'" "length xs' \<le> maxCompletedRetained"
      using 2(1) [OF True d e(2) e(1)] by blast+
    then show ?thesis by (metis fun_upd_apply option.distinct(1))
  next
    case False
    with 2(2-4) show ?thesis by auto
  qed
qed

lemma rememberCompleted_props:
  assumes "mem_inv s" "s' = rememberCompletedLocked a st s"
  shows "dom (sv_completed s') = set (sv_completedOrder s') \<and> distinct (sv_completedOrder s')
      \<and> length (sv_completedOrder s') \<le> maxCompletedRetained
      \<and> (\<forall>k v. sv_completed s' k = Some v \<longrightarrow> sv_completed s k = Some v \<or> (k = st_id st \<and> v = a))"
proof -
  define order where "order = (if sv_completed s (st_id st) = None then sv_completedOrder s @ [st_id st] else sv_completedOrder s)"
  define c where "c = (sv_completed s)(st_id st \<mapsto> a)"
  have dom: "dom (sv_completed s) = set (sv_completedOrder s)" "distinct (sv_completedOrder s)" using assms(1) by (simp_all add: mem_inv_def)
  have new: "sv_completed s (st_id st) = None \<longleftrightarrow> st_id st \<notin> set (sv_completedOrder s)" using dom(1) by (metis domIff)
  have "dom c = set order" using dom(1) new by (auto simp: c_def order_def)
  moreover have "distinct order" using dom(2) new by (simp add: order_def)
  moreover obtain c' xs' where ev: "evictCompleted c order = (c', xs')" by fastforce
  ultimately have "dom c' = set xs' \<and> distinct xs' \<and> length xs' \<le> maxCompletedRetained \<and> (\<forall>k v. c' k = Some v \<longrightarrow> c k = Some v)"
    by (rule evictCompleted_props)
  moreover have "sv_completed s' = c'" "sv_completedOrder s' = xs'"
    using assms(2) ev by (simp_all add: rememberCompletedLocked_def Let_def c_def order_def)
  ultimately show ?thesis by (auto simp: c_def split: if_splits)
qed

lemma rememberCompleted_simps [simp]:
  "sv_heap (rememberCompletedLocked a st s) = sv_heap s" "sv_next (rememberCompletedLocked a st s) = sv_next s"
  "sv_currentCapture (rememberCompletedLocked a st s) = sv_currentCapture s"
  "sv_finishingCapture (rememberCompletedLocked a st s) = sv_finishingCapture s"
  "sv_serverUID (rememberCompletedLocked a st s) = sv_serverUID s"
  "sv_budgetBytes (rememberCompletedLocked a st s) = sv_budgetBytes s" "sv_pcap (rememberCompletedLocked a st s) = sv_pcap s"
  "sv_identity (rememberCompletedLocked a st s) = sv_identity s"
  by (simp_all add: rememberCompletedLocked_def Let_def)

lemma finishBegin_inv:
  assumes inv: "sc_inv H s"
  shows "sc_inv H (snd (finishBegin cid target reason failure s))"
proof (cases "fst (finishBegin cid target reason failure s)")
  case None
  then have "snd (finishBegin cid target reason failure s) = s"
    by (auto simp: finishBegin_def split: option.splits if_splits)
  with inv show ?thesis by simp
next
  case (Some a)
  note parts = inv [unfolded sc_inv_def]
  obtain st where cur: "sv_currentCapture s = Some a" and st: "sv_heap s a = Some st"
    using Some by (auto simp: finishBegin_def split: option.splits if_splits)
  define f where "f = (\<lambda>st :: capture_state. st\<lparr>st_cancelled := True,
      st_pc := FinClose (if reason = [] then reasonUserRequested else reason)
        (case failure of None \<Rightarrow> statusCompleted | Some _ \<Rightarrow> statusFailed) (case failure of None \<Rightarrow> [] | Some m \<Rightarrow> m)\<rparr>)"
  define s1 where "s1 = rememberCompletedLocked a st (s\<lparr>sv_currentCapture := None, sv_finishingCapture := Some a\<rparr>)"
  define s' where "s' = update_capture a f s1"
  have res: "snd (finishBegin cid target reason failure s) = s'"
    using Some cur st by (auto simp: finishBegin_def s'_def s1_def f_def split: if_splits)
  have fin: "sv_finishingCapture s = None" using parts cur by (auto simp: ptr_inv_def)
  have pc: "st_pc st = FinNone" "map_of (sv_pcap s) (st_id st) = Some a" using parts cur st by (auto simp: ptr_inv_def)
  have caps: "caps_inv H s'"
    unfolding caps_inv_def
  proof (intro allI impI)
    fix b st' assume b: "sv_heap s' b = Some st'"
    show "b < sv_next s' \<and> stage_ok (sv_currentCapture s') (sv_finishingCapture s') b st' \<and> account_ok H st'"
    proof (cases "b = a")
      case True
      then have "st' = f st" using b st by (simp add: s'_def s1_def)
      with True inv_at [OF inv st] caps_invD(1) [of H s a st] parts st pc show ?thesis
        by (simp add: s'_def s1_def f_def stage_ok_def account_ok_def statusRunning_def statusCompleted_def statusFailed_def split: option.split)
    next
      case False
      then have b0: "sv_heap s b = Some st'" using b by (simp add: s'_def s1_def)
      have "st_pc st' = FinEnd" by (rule others_ended [of H s a b]) (use parts cur b0 False in auto)
      then show ?thesis
        using caps_invD [of H s b st'] parts b0 ended_stage by (auto simp: s'_def s1_def)
    qed
  qed
  have "ptr_inv s'" using st pc by (simp add: ptr_inv_def s'_def s1_def f_def open_pc_def)
  moreover have "mem_inv s'"
  proof -
    have m: "mem_inv (s\<lparr>sv_currentCapture := None, sv_finishingCapture := Some a\<rparr>)" using parts by (simp add: mem_inv_def)
    note r = rememberCompleted_props [OF m s1_def]
    have "\<exists>st'. sv_heap s' b = Some st' \<and> st_id st' = k \<and> st_pc st' \<noteq> FinNone" if "sv_completed s' k = Some b" for k b
    proof -
      have "sv_completed s k = Some b \<or> k = st_id st \<and> b = a" using r that by (auto simp: s'_def)
      then show ?thesis using parts st by (fastforce simp: mem_inv_def s'_def s1_def f_def)
    qed
    with r show ?thesis by (simp add: mem_inv_def s'_def)
  qed
  moreover have "file_inv s'"
    using parts st unfolding file_inv_def by (auto simp: s'_def s1_def f_def) (metis option.inject)+
  moreover have "budget_inv H s'"
  proof -
    have "charge H s' b = charge H s b" for b
      using st cur fin by (cases "b = a"; cases "sv_heap s b") (auto simp: charge_def s'_def s1_def f_def)
    then have "charge H s' = charge H s" by blast
    then show ?thesis using parts by (simp add: budget_inv_def s'_def s1_def)
  qed
  ultimately show ?thesis using caps res by (simp add: sc_inv_def)
qed

lemma loopEnd_inv: "sc_inv H s \<Longrightarrow> sc_inv H (loopEnd a s)"
  by (auto simp: loopEnd_def Let_def intro!: finishBegin_inv set_loop_inv split: option.split packet_loop.split write_error.split)

lemma sum_charge_mono:
  "(\<And>b. b \<in> snd ` set xs \<Longrightarrow> f b \<le> g b) \<Longrightarrow> sum_list (map (f \<circ> snd) xs) \<le> sum_list (map (g \<circ> snd) (xs :: ('k \<times> 'a) list))" for f g :: "'a \<Rightarrow> int"
  by (induction xs) (auto intro: add_mono)

lemma finishClear_inv:
  assumes inv: "sc_inv H s"
  shows "sc_inv H (finishClear a s)"
proof (cases "\<exists>st. sv_heap s a = Some st \<and> st_pc st = FinClear")
  case False
  then have "finishClear a s = s" by (auto simp: finishClear_def split: option.split)
  with inv show ?thesis by simp
next
  case True
  then obtain st where st: "sv_heap s a = Some st" "st_pc st = FinClear" by blast
  note parts = inv [unfolded sc_inv_def] and at = inv_at [OF inv st(1)]
  have fin: "sv_finishingCapture s = Some a" using at(1) st(2) by (simp add: stage_ok_def)
  define s' where "s' = (update_capture a (\<lambda>st. st\<lparr>st_pc := FinEnd\<rparr>) s)\<lparr>sv_finishingCapture := None\<rparr>"
  have res: "finishClear a s = s'" using st fin by (simp add: finishClear_def s'_def)
  have "caps_inv H s'"
    unfolding caps_inv_def
  proof (intro allI impI)
    fix b st' assume b: "sv_heap s' b = Some st'"
    show "b < sv_next s' \<and> stage_ok (sv_currentCapture s') (sv_finishingCapture s') b st' \<and> account_ok H st'"
    proof (cases "b = a")
      case True
      then have "st' = st\<lparr>st_pc := FinEnd\<rparr>" using b st by (simp add: s'_def)
      with True at caps_invD(1) [of H s a st] parts st show ?thesis
        by (simp add: s'_def stage_ok_def account_ok_def)
    next
      case False
      then have b0: "sv_heap s b = Some st'" using b by (simp add: s'_def)
      have "st_pc st' = FinEnd" by (rule others_ended [of H s a b]) (use parts fin b0 False in auto)
      then show ?thesis
        using caps_invD [of H s b st'] parts b0 ended_stage by (auto simp: s'_def)
    qed
  qed
  moreover have "ptr_inv s'" using parts fin by (auto simp: ptr_inv_def s'_def)
  moreover have "mem_inv s'" using parts st unfolding mem_inv_def by (fastforce simp: s'_def)
  moreover have "file_inv s'" using parts st unfolding file_inv_def by (fastforce simp: s'_def)
  moreover have "budget_inv H s'"
  proof -
    have "charge H s' b \<le> charge H s b" for b
      using st fin account_cap [OF at(2)] by (cases "b = a"; cases "sv_heap s b") (auto simp: charge_def s'_def)
    then have "sum_list (map (charge H s' \<circ> snd) (sv_pcap s)) \<le> sum_list (map (charge H s \<circ> snd) (sv_pcap s))"
      by (rule sum_charge_mono)
    then show ?thesis using parts by (auto simp: budget_inv_def s'_def)
  qed
  ultimately show ?thesis using res by (simp add: sc_inv_def)
qed

section \<open>Files\<close>

lemma file_invD:
  assumes "file_inv s" "map_of (sv_pcap s) cid = Some a"
  obtains st where "sv_heap s a = Some st" "st_id st = cid"
    "\<forall>i. map_of (sv_identity s) cid = Some i \<longrightarrow> st_serverUID st = ci_ServerUID i \<and> st_captureUID st = ci_CaptureUID i"
  using assms unfolding file_inv_def by blast

text \<open>Steps that only remove files, or identities, of a capture that is not open.\<close>

lemma files_inv:
  assumes inv: "sc_inv H s" "0 \<le> H"
    and pcap: "distinct (map fst ps)" "\<And>k v. map_of ps k = Some v \<Longrightarrow> map_of (sv_pcap s) k = Some v"
    and ident: "distinct (map fst is)"
      "\<And>k i. map_of is k = Some i \<Longrightarrow> map_of ps k \<noteq> None \<Longrightarrow>
        \<exists>i'. map_of (sv_identity s) k = Some i' \<and> ci_ServerUID i' = ci_ServerUID i \<and> ci_CaptureUID i' = ci_CaptureUID i"
    and sum: "sum_list (map (charge H s \<circ> snd) ps) \<le> sum_list (map (charge H s \<circ> snd) (sv_pcap s))"
    and kept: "\<And>a st. sv_currentCapture s = Some a \<or> sv_finishingCapture s = Some a \<Longrightarrow> sv_heap s a = Some st \<Longrightarrow>
      map_of (sv_pcap s) (st_id st) = Some a \<Longrightarrow> map_of ps (st_id st) = Some a"
  shows "sc_inv H (s\<lparr>sv_pcap := ps, sv_identity := is\<rparr>)"
proof -
  let ?s = "s\<lparr>sv_pcap := ps, sv_identity := is\<rparr>"
  note parts = inv(1) [unfolded sc_inv_def]
  have ch: "charge H ?s = charge H s" by (rule ext) (simp add: charge_def split: option.split)
  have "caps_inv H ?s" using parts by (simp add: caps_inv_def)
  moreover have "ptr_inv ?s" using parts kept unfolding ptr_inv_def by simp blast
  moreover have "mem_inv ?s" using parts by (simp add: mem_inv_def)
  moreover have "file_inv ?s"
    unfolding file_inv_def
  proof (intro conjI allI impI)
    fix cid a assume a: "map_of (sv_pcap ?s) cid = Some a"
    then have "map_of (sv_pcap s) cid = Some a" using pcap(2) by simp
    then obtain st where st: "sv_heap s a = Some st" "st_id st = cid"
      "\<forall>i. map_of (sv_identity s) cid = Some i \<longrightarrow> st_serverUID st = ci_ServerUID i \<and> st_captureUID st = ci_CaptureUID i"
      using parts by (elim conjE file_invD)
    moreover have "st_serverUID st = ci_ServerUID i \<and> st_captureUID st = ci_CaptureUID i" if "map_of is cid = Some i" for i
      using ident(2) [OF that] a st(3) by auto
    ultimately show "\<exists>st. sv_heap ?s a = Some st \<and> st_id st = cid
        \<and> (\<forall>i. map_of (sv_identity ?s) cid = Some i \<longrightarrow> st_serverUID st = ci_ServerUID i \<and> st_captureUID st = ci_CaptureUID i)"
      by auto
  qed (use pcap(1) ident(1) in simp_all)
  moreover have "budget_inv H ?s" using parts sum by (auto simp: budget_inv_def ch)
  ultimately show ?thesis by (simp add: sc_inv_def)
qed

lemma sum_delete_le:
  "(\<And>b. 0 \<le> f b) \<Longrightarrow> sum_list (map (f \<circ> snd) (AList.delete k xs)) \<le> sum_list (map (f \<circ> snd) xs)" for f :: "'a \<Rightarrow> int"
  by (induction xs) (auto simp: AList.delete_eq add_increasing)

lemma sum_update_le:
  "(\<And>b. 0 \<le> f b) \<Longrightarrow> sum_list (map (f \<circ> snd) (AList.update k v xs)) \<le> sum_list (map (f \<circ> snd) xs) + f v" for f :: "'a \<Rightarrow> int"
  by (induction xs) (auto simp: add_increasing)

lemma distinct_delete: "distinct (map fst xs) \<Longrightarrow> distinct (map fst (AList.delete k xs))"
  by (simp add: AList.delete_eq distinct_map_filter)

lemma map_of_delete: "map_of (AList.delete k xs) x = (if x = k then None else map_of xs x)"
  by (simp add: AList.delete_conv')

lemma map_of_map_key: "map_of (map (\<lambda>(k, i). (k, g k i)) xs) x = map_option (g x) (map_of xs x)"
  by (induction xs) auto

lemma remove_pcap_inv:
  assumes inv: "sc_inv H s" "0 \<le> H" "\<not> captureBusyLocked s cid"
    and ident: "distinct (map fst is)"
      "\<And>k i. map_of is k = Some i \<Longrightarrow> k \<noteq> cid \<Longrightarrow>
        \<exists>i'. map_of (sv_identity s) k = Some i' \<and> ci_ServerUID i' = ci_ServerUID i \<and> ci_CaptureUID i' = ci_CaptureUID i"
  shows "sc_inv H (remove_pcap cid s\<lparr>sv_identity := is\<rparr>)"
proof -
  have parts: "caps_inv H s" "file_inv s" using inv(1) by (simp_all add: sc_inv_def)
  have busy: "st_id st \<noteq> cid" if "sv_currentCapture s = Some a \<or> sv_finishingCapture s = Some a" "sv_heap s a = Some st" for a st
    using inv(3) that by (auto simp: captureBusyLocked_def has_id_def capture_at_def)
  have "sc_inv H (s\<lparr>sv_pcap := AList.delete cid (sv_pcap s), sv_identity := is\<rparr>)"
  proof (rule files_inv [OF inv(1,2)])
    show "sum_list (map (charge H s \<circ> snd) (AList.delete cid (sv_pcap s))) \<le> sum_list (map (charge H s \<circ> snd) (sv_pcap s))"
      by (rule sum_delete_le) (rule charge_bounds(1) [OF parts(1) inv(2)])
  qed (use parts(2) ident busy in \<open>auto simp: map_of_delete distinct_delete file_inv_def split: if_splits\<close>)
  then show ?thesis by (simp add: remove_pcap_def)
qed

lemma remove_pcap_fields [simp]:
  "sv_identity (remove_pcap cid s) = sv_identity s" "(remove_pcap cid s)\<lparr>sv_identity := sv_identity s\<rparr> = remove_pcap cid s"
  by (simp_all add: remove_pcap_def)

lemma HandleDelete_inv:
  assumes "sc_inv H s" "0 \<le> H"
  shows "sc_inv H (snd (HandleDelete readable removeFails unbindFails cid ctl s))"
proof -
  have d: "distinct (map fst (sv_identity s))" using assms(1) by (simp add: sc_inv_def file_inv_def)
  have "sc_inv H (remove_pcap cid s)" if "\<not> captureBusyLocked s cid"
    using remove_pcap_inv [OF assms that d] by simp
  moreover have "sc_inv H (remove_pcap cid s\<lparr>sv_identity := AList.delete cid (sv_identity s)\<rparr>)" if "\<not> captureBusyLocked s cid"
    by (rule remove_pcap_inv [OF assms that distinct_delete [OF d]]) (simp add: map_of_delete split: if_splits)
  ultimately show ?thesis using assms(1) by (simp add: HandleDelete_def Let_def)
qed

lemma HandleBoundDelete_inv:
  assumes "sc_inv H s" "0 \<le> H"
  shows "sc_inv H (snd (HandleBoundDelete readable removeFails touchFails now cid serverUID captureUID s))"
proof -
  have d: "distinct (map fst (sv_identity s))" using assms(1) by (simp add: sc_inv_def file_inv_def)
  let ?is = "map (\<lambda>(k, i). (k, if k = cid then touch_identity now i else i)) (sv_identity s)"
  have fst_is: "map fst ?is = map fst (sv_identity s)" by (induction "sv_identity s") auto
  have d': "distinct (map fst ?is)" unfolding fst_is by (rule d)
  have "sc_inv H (remove_pcap cid s)" if "\<not> captureBusyLocked s cid"
    using remove_pcap_inv [OF assms that d] by simp
  moreover have "sc_inv H (remove_pcap cid s\<lparr>sv_identity := ?is\<rparr>)" if "\<not> captureBusyLocked s cid"
    by (rule remove_pcap_inv [OF assms that d']) (auto simp: map_of_map_key)
  ultimately show ?thesis using assms(1) by (simp add: HandleBoundDelete_def Let_def)
qed

section \<open>Starting a capture\<close>

lemma pruneLoop_sub:
  "pruneLoop e pcap xs n = (r, kept) \<Longrightarrow> set kept \<subseteq> set xs \<and> (distinct (map fst xs) \<longrightarrow> distinct (map fst kept))"
proof (induction e pcap xs n arbitrary: r kept rule: pruneLoop.induct)
  case (1 e pcap remaining)
  then show ?case by simp
next
  case (2 e pcap cid i rest remaining)
  have "\<exists>k'. (kept = (cid, i) # k' \<or> kept = k') \<and> set k' \<subseteq> set rest \<and> (distinct (map fst rest) \<longrightarrow> distinct (map fst k'))"
    using 2 by (fastforce split: if_splits prod.splits)
  then show ?case by (auto simp: image_iff) (metis fst_conv image_eqI subsetD)+
qed

lemma map_of_sub:
  assumes "set ys \<subseteq> set xs" "distinct (map fst xs)" "map_of ys k = Some v"
  shows "map_of xs k = Some v"
  using assms map_of_SomeD [OF assms(3)] by (simp add: map_of_is_SomeI subset_iff)

lemma identity_inv:
  assumes "sc_inv H s" "0 \<le> H" "distinct (map fst is)"
    and "\<And>k i. map_of is k = Some i \<Longrightarrow> map_of (sv_pcap s) k \<noteq> None \<Longrightarrow> map_of (sv_identity s) k = Some i"
  shows "sc_inv H (s\<lparr>sv_identity := is\<rparr>)"
proof -
  have "sc_inv H (s\<lparr>sv_pcap := sv_pcap s, sv_identity := is\<rparr>)"
    by (rule files_inv [OF assms(1,2)]) (use assms in \<open>auto simp: sc_inv_def file_inv_def\<close>)
  then show ?thesis by simp
qed

lemma prepareCaptureBinding_props:
  assumes "sc_inv H s" "0 \<le> H" "prepareCaptureBinding e cid req s = (r, s1)"
  shows "sc_inv H s1 \<and> (\<exists>is. s1 = s\<lparr>sv_identity := is\<rparr>) \<and> (r = Inr False \<longrightarrow> map_of (sv_identity s1) cid = None)
    \<and> (r = Inr True \<longrightarrow> map_of (sv_pcap s) cid = None
         \<and> (\<forall>i. map_of (sv_identity s1) cid = Some i \<longrightarrow> ci_ServerUID i = sr_ServerUID req \<and> ci_CaptureUID i = sr_CaptureUID req))"
proof -
  obtain pr kept where pk: "pruneLoop e (sv_pcap s) (sv_identity s) 0 = (pr, kept)" by fastforce
  have d: "distinct (map fst (sv_identity s))" using assms(1) by (simp add: sc_inv_def file_inv_def)
  have kept: "set kept \<subseteq> set (sv_identity s)" "distinct (map fst kept)" using pruneLoop_sub [OF pk] d by simp_all
  have i1: "sc_inv H (s\<lparr>sv_identity := kept\<rparr>)"
    by (rule identity_inv [OF assms(1,2) kept(2)]) (rule map_of_sub [OF kept(1) d])
  let ?i = "\<lparr>ci_ServerUID = sr_ServerUID req, ci_CaptureUID = sr_CaptureUID req, ci_modTime = v_now e\<rparr>"
  have i2: "sc_inv H (s\<lparr>sv_identity := AList.update cid ?i kept\<rparr>)" if "map_of (sv_pcap s) cid = None"
  proof (rule identity_inv [OF assms(1,2)])
    show "distinct (map fst (AList.update cid ?i kept))" using kept(2) by (rule AList.distinct_update)
    show "map_of (sv_identity s) k = Some i" if "map_of (AList.update cid ?i kept) k = Some i" "map_of (sv_pcap s) k \<noteq> None" for k i
      using that \<open>map_of (sv_pcap s) cid = None\<close> map_of_sub [OF kept(1) d] by (auto simp: AList.update_conv' split: if_splits)
  qed
  show ?thesis
    using assms(3) i1 i2 unfolding prepareCaptureBinding_def pruneCaptureTombstones_def pk
    by (auto simp: AList.update_conv' split: sum.splits if_splits)
qed

lemma alloc_inv:
  assumes inv: "sc_inv H s" "0 \<le> H" "sv_currentCapture s = None" "sv_finishingCapture s = None"
    and st: "st_id st = cid" "stage_ok c None (sv_next s) st" "account_ok H st" "c = None \<or> c = Some (sv_next s) \<and> st_pc st = FinNone"
    and ident: "\<And>i. map_of (sv_identity s) cid = Some i \<Longrightarrow> st_serverUID st = ci_ServerUID i \<and> st_captureUID st = ci_CaptureUID i"
    and room: "0 < sv_budgetBytes s \<Longrightarrow>
      retainedCaptureBytes s + (if c = None then wr_disk (st_writer st) else max (st_maxSizeBytes st) H + slack) \<le> sv_budgetBytes s + H + slack"
  shows "sc_inv H ((alloc cid st s)\<lparr>sv_currentCapture := c\<rparr>)"
proof -
  define s' where "s' = (alloc cid st s)\<lparr>sv_currentCapture := c\<rparr>"
  note parts = inv(1) [unfolded sc_inv_def]
  have old: "b \<noteq> sv_next s" "st_pc st' = FinEnd" if "sv_heap s b = Some st'" for b st'
    using caps_invD(1,2) [of H s b st'] parts that inv(3,4) by (auto simp: stage_ok_def split: finish_pc.splits)
  have "caps_inv H s'"
    unfolding caps_inv_def
  proof (intro allI impI)
    fix b st' assume b: "sv_heap s' b = Some st'"
    show "b < sv_next s' \<and> stage_ok (sv_currentCapture s') (sv_finishingCapture s') b st' \<and> account_ok H st'"
    proof (cases "b = sv_next s")
      case True
      with b st inv(4) show ?thesis by (simp add: s'_def alloc_def)
    next
      case False
      with b have b0: "sv_heap s b = Some st'" by (simp add: s'_def alloc_def)
      with caps_invD [of H s b st'] parts old(2) [OF b0] ended_stage show ?thesis by (fastforce simp: s'_def alloc_def)
    qed
  qed
  moreover have "ptr_inv s'"
    using st(1,4) inv(4) by (auto simp: ptr_inv_def s'_def alloc_def AList.update_conv')
  moreover have "mem_inv s'"
    using parts old(1) unfolding mem_inv_def by (fastforce simp: s'_def alloc_def)
  moreover have "file_inv s'"
    using parts old(1) st(1) ident unfolding file_inv_def
    by (fastforce simp: s'_def alloc_def AList.update_conv' AList.distinct_update split: if_splits)
  moreover have "budget_inv H s'"
  proof -
    have ch: "charge H s' b = (if b = sv_next s then (if c = None then wr_disk (st_writer st) else max (st_maxSizeBytes st) H + slack) else charge H s b)" for b
      using st(4) inv(3,4) by (auto simp: charge_def s'_def alloc_def split: option.split)
    have new: "sv_next s \<notin> snd ` set (sv_pcap s)"
    proof
      assume "sv_next s \<in> snd ` set (sv_pcap s)"
      then obtain k where "map_of (sv_pcap s) k = Some (sv_next s)"
        using parts by (fastforce simp: file_inv_def map_of_eq_Some_iff)
      moreover have "file_inv s" using parts by simp
      ultimately obtain st' where "sv_heap s (sv_next s) = Some st'" using file_invD by blast
      then show False using old(1) by blast
    qed
    have c0: "0 \<le> charge H s' b" for b
      using \<open>caps_inv H s'\<close> inv(2) by (rule charge_bounds(1))
    have "sum_list (map (charge H s' \<circ> snd) (sv_pcap s')) \<le> sum_list (map (charge H s' \<circ> snd) (sv_pcap s)) + charge H s' (sv_next s)"
      using sum_update_le [OF c0] by (simp add: s'_def alloc_def)
    also have "sum_list (map (charge H s' \<circ> snd) (sv_pcap s)) = retainedCaptureBytes s"
      unfolding retainedCaptureBytes_def
    proof (intro arg_cong [where f = sum_list] map_cong refl)
      fix x assume "x \<in> set (sv_pcap s)"
      then have "snd x \<noteq> sv_next s" using new by force
      then show "(charge H s' \<circ> snd) x = (file_size s \<circ> snd) x"
        using inv(3,4) by (simp add: ch) (simp add: charge_def file_size_def split: option.split)
    qed
    finally have total: "sum_list (map (charge H s' \<circ> snd) (sv_pcap s')) \<le> retainedCaptureBytes s + charge H s' (sv_next s)" .
    have "sv_budgetBytes s' = sv_budgetBytes s" by (simp add: s'_def alloc_def)
    with total room ch [of "sv_next s"] show ?thesis unfolding budget_inv_def by auto
  qed
  ultimately show ?thesis by (simp add: sc_inv_def s'_def)
qed

lemma unbind_inv:
  assumes "sc_inv H s" "0 \<le> H"
  shows "sc_inv H (unbind e cid bound s)"
proof -
  have "sc_inv H (s\<lparr>sv_identity := AList.delete cid (sv_identity s)\<rparr>)"
    by (rule identity_inv [OF assms]) (use assms(1) in \<open>auto simp: sc_inv_def file_inv_def distinct_delete map_of_delete split: if_splits\<close>)
  with assms(1) show ?thesis by (simp add: unbind_def)
qed

lemma new_capture_ok:
  assumes "NewWriter (v_now e) (v_create e) (v_header e) (sr_MaxDurationSeconds req) (sr_MaxSizeBytes req) 0 = NWOk w"
    and "0 \<le> v_header e" "v_header e \<le> H"
  shows "stage_ok (Some a) None a (new_capture e cid req w) \<and> account_ok H (new_capture e cid req w)"
proof -
  have n: "exact_account (v_header e) w" "bounded_account (v_header e) w" "\<not> wr_closed w" "0 < sr_MaxSizeBytes req"
    using NewWriter_account [OF assms(1,2)] by simp_all
  have "wr_maxSizeBytes w = sr_MaxSizeBytes req" "wr_snaplen w = DefaultSnaplen"
    using assms(1) by (auto simp: NewWriter_def split: if_splits create_answer.splits)
  with n assms(2,3) show ?thesis by (auto simp: stage_ok_def account_ok_def new_capture_def)
qed

lemma broken_file_ok:
  assumes "0 \<le> k" "k \<le> H" "0 < sr_MaxSizeBytes req"
  shows "stage_ok None None a (broken_file e cid req k) \<and> account_ok H (broken_file e cid req k)"
proof -
  have "bounded_account k (st_writer (broken_file e cid req k))"
    using assms by (auto simp: bounded_account_def size_cap_def broken_file_def new_capture_def DefaultSnaplen_def)
  with assms show ?thesis
    by (auto simp: stage_ok_def account_ok_def broken_file_def new_capture_def statusFailed_def statusRunning_def)
qed

lemma openCapture_inv:
  assumes inv: "sc_inv H s" and hdr: "0 \<le> v_header e" "v_header e \<le> H"
      "case v_create e of HeaderFails k \<Rightarrow> 0 \<le> k \<and> k \<le> v_header e | _ \<Rightarrow> True"
    and idle: "sv_currentCapture s = None" "sv_finishingCapture s = None"
    and room: "0 < sv_budgetBytes s \<Longrightarrow> sr_MaxSizeBytes req \<le> sv_budgetBytes s - retainedCaptureBytes s" and pos: "0 < sr_MaxSizeBytes req"
  shows "sc_inv H (snd (openCapture e cid req s))"
proof (cases "v_sourceFails e")
  case True
  with inv show ?thesis by (simp add: openCapture_def)
next
  case src: False
  have H: "0 \<le> H" using hdr by simp
  obtain r s1 where p: "prepareCaptureBinding e cid req s = (r, s1)" by fastforce
  note bind = prepareCaptureBinding_props [OF inv H p]
  then obtain ids where s1: "s1 = s\<lparr>sv_identity := ids\<rparr>" by blast
  have i1: "sc_inv H s1" using bind by blast
  show ?thesis
  proof (cases r)
    case (Inl err)
    with i1 p src show ?thesis by (cases err) (simp_all add: openCapture_def)
  next
    case (Inr bound)
    have ident: "sr_ServerUID req = ci_ServerUID i \<and> sr_CaptureUID req = ci_CaptureUID i" if "map_of (sv_identity s1) cid = Some i" for i
      using bind Inr that by (cases bound) auto
    have retained: "retainedCaptureBytes s1 = retainedCaptureBytes s" by (simp add: s1 retainedCaptureBytes_def file_size_def fun_eq_iff comp_def)
    note al = alloc_inv [OF i1 H, of _ cid]
    show ?thesis
    proof (cases "NewWriter (v_now e) (v_create e) (v_header e) (sr_MaxDurationSeconds req) (sr_MaxSizeBytes req) 0")
      case (NWOk w)
      have "sc_inv H ((alloc cid (new_capture e cid req w) s1)\<lparr>sv_currentCapture := Some (sv_next s1)\<rparr>)"
      proof (rule al)
        show "0 < sv_budgetBytes s1 \<Longrightarrow> retainedCaptureBytes s1 + (if Some (sv_next s1) = None then wr_disk (st_writer (new_capture e cid req w))
            else max (st_maxSizeBytes (new_capture e cid req w)) H + slack) \<le> sv_budgetBytes s1 + H + slack"
          using room pos H retained by (simp add: s1 new_capture_def)
      qed (use new_capture_ok [OF NWOk hdr(1,2)] idle ident in \<open>simp_all add: s1 new_capture_def\<close>)
      with src p Inr NWOk show ?thesis by (simp add: openCapture_def)
    next
      case (NWBroken k)
      then have k: "0 \<le> k" "k \<le> H" using hdr by (auto simp: NewWriter_def split: if_splits create_answer.splits)
      have "sc_inv H ((alloc cid (broken_file e cid req k) s1)\<lparr>sv_currentCapture := None\<rparr>)"
      proof (rule al)
        show "0 < sv_budgetBytes s1 \<Longrightarrow> retainedCaptureBytes s1 + (if None = None then wr_disk (st_writer (broken_file e cid req k))
            else max (st_maxSizeBytes (broken_file e cid req k)) H + slack) \<le> sv_budgetBytes s1 + H + slack"
          using room pos k retained by (simp add: s1 broken_file_def new_capture_def slack_def DefaultSnaplen_def)
      qed (use broken_file_ok [OF k pos] idle ident in \<open>simp_all add: s1 broken_file_def new_capture_def\<close>)
      moreover have "(alloc cid st s1)\<lparr>sv_currentCapture := None\<rparr> = alloc cid st s1" for st using idle(1) by (simp add: s1 alloc_def)
      ultimately show ?thesis using src p Inr NWBroken unbind_inv [OF _ H] by (simp add: openCapture_def)
    qed (use src p Inr unbind_inv [OF i1 H] in \<open>simp_all add: openCapture_def\<close>)
  qed
qed

lemma HandleStart_inv:
  assumes "sc_inv H s" "0 \<le> v_header e" "v_header e \<le> H" "case v_create e of HeaderFails k \<Rightarrow> 0 \<le> k \<and> k \<le> v_header e | _ \<Rightarrow> True"
  shows "sc_inv H (snd (HandleStart e cid body s))"
proof (cases body)
  case None
  with assms(1) show ?thesis by (simp add: HandleStart_def)
next
  case (Some req)
  show ?thesis
    using assms(1) openCapture_inv [OF assms, of req cid] by (auto simp: HandleStart_def Some)
qed

lemma sc_step_inv:
  assumes "sc_step H s s'" "sc_inv H s" "0 \<le> H"
  shows "sc_inv H s'"
  using assms(1)
proof cases
  case (start e cid body)
  then show ?thesis using HandleStart_inv [OF assms(2)] by blast
next
  case (packet a st p ng now msg)
  then show ?thesis using packet_inv [OF assms(2)] by blast
next
  case (source_fails a st msg)
  then show ?thesis using set_loop_inv [OF assms(2)] by simp
next
  case (loop_end a)
  then show ?thesis using loopEnd_inv [OF assms(2)] by simp
next
  case (finish_begin cid target reason)
  then show ?thesis using finishBegin_inv [OF assms(2)] by simp
next
  case (finish_close a fl msg)
  then show ?thesis using finishClose_inv [OF assms(2)] by simp
next
  case (finish_publish a now)
  then show ?thesis using finishPublish_inv [OF assms(2)] by simp
next
  case (finish_clear a)
  then show ?thesis using finishClear_inv [OF assms(2)] by simp
next
  case (delete readable removeFails unbindFails cid ctl)
  then show ?thesis using HandleDelete_inv [OF assms(2,3)] by simp
next
  case (bound_delete readable removeFails touchFails now cid serverUID captureUID)
  then show ?thesis using HandleBoundDelete_inv [OF assms(2,3)] by simp
qed

lemma NewServer_inv: "0 \<le> H \<Longrightarrow> sc_inv H (NewServer b u)"
  by (simp add: inv_defs NewServer_def slack_def DefaultSnaplen_def)

lemma sc_reachable_inv: "sc_reachable H s \<Longrightarrow> 0 \<le> H \<Longrightarrow> sc_inv H s"
proof (induction rule: sc_reachable.induct)
  case (init b u)
  then show ?case by (rule NewServer_inv)
next
  case (step s s')
  then show ?case using sc_step_inv by blast
qed

section \<open>The identity of an open capture\<close>

text \<open>A capture that was started with an identity has it on the volume for as long as it is open: the start writes
  it before the file, and no deletion touches the files of an open capture.\<close>

definition bound_inv :: "sidecar \<Rightarrow> bool" where
  "bound_inv s \<longleftrightarrow> (\<forall>a st. (sv_currentCapture s = Some a \<or> sv_finishingCapture s = Some a) \<and> sv_heap s a = Some st \<and> st_captureUID st \<noteq> [] \<longrightarrow>
     matchCaptureIdentity True s (st_id st) (st_serverUID st) (st_captureUID st))"

definition same_identity :: "capture_state \<Rightarrow> capture_state \<Rightarrow> bool" where
  "same_identity st st' \<longleftrightarrow> st_id st' = st_id st \<and> st_serverUID st' = st_serverUID st \<and> st_captureUID st' = st_captureUID st"

lemma same_identity_refl [simp]: "same_identity st st"
  by (simp add: same_identity_def)

lemma bound_inv_frame:
  assumes "bound_inv s" "sv_serverUID s' = sv_serverUID s"
    and "\<And>a st'. sv_currentCapture s' = Some a \<or> sv_finishingCapture s' = Some a \<Longrightarrow> sv_heap s' a = Some st' \<Longrightarrow>
      \<exists>st. (sv_currentCapture s = Some a \<or> sv_finishingCapture s = Some a) \<and> sv_heap s a = Some st \<and> same_identity st st'
        \<and> map_option (\<lambda>i. (ci_ServerUID i, ci_CaptureUID i)) (map_of (sv_identity s') (st_id st))
          = map_option (\<lambda>i. (ci_ServerUID i, ci_CaptureUID i)) (map_of (sv_identity s) (st_id st))"
  shows "bound_inv s'"
  unfolding bound_inv_def
proof (intro allI impI, elim conjE)
  fix a st' assume a: "sv_currentCapture s' = Some a \<or> sv_finishingCapture s' = Some a" "sv_heap s' a = Some st'" "st_captureUID st' \<noteq> []"
  from assms(3) [OF a(1,2)] obtain st where st: "sv_currentCapture s = Some a \<or> sv_finishingCapture s = Some a" "sv_heap s a = Some st" "same_identity st st'"
    and ids: "map_option (\<lambda>i. (ci_ServerUID i, ci_CaptureUID i)) (map_of (sv_identity s') (st_id st))
          = map_option (\<lambda>i. (ci_ServerUID i, ci_CaptureUID i)) (map_of (sv_identity s) (st_id st))" by blast
  have "matchCaptureIdentity True s (st_id st) (st_serverUID st) (st_captureUID st)"
    using assms(1) st a(3) by (simp add: bound_inv_def same_identity_def)
  with ids st(3) assms(2) show "matchCaptureIdentity True s' (st_id st') (st_serverUID st') (st_captureUID st')"
    by (auto simp: matchCaptureIdentity_def validCaptureTarget_def same_identity_def split: option.splits)
qed

lemma bound_update:
  assumes "bound_inv s" "\<And>st. sv_heap s a = Some st \<Longrightarrow> same_identity st (f st)"
  shows "bound_inv (update_capture a f s)"
  by (rule bound_inv_frame [OF assms(1)]) (use assms(2) in \<open>auto split: if_splits\<close>)

lemma bound_finishBegin: "bound_inv s \<Longrightarrow> bound_inv (snd (finishBegin cid target reason failure s))"
  by (erule bound_inv_frame) (auto simp: finishBegin_def same_identity_def split: option.splits if_splits)

lemma bound_loopEnd:
  assumes "bound_inv s"
  shows "bound_inv (loopEnd a s)"
proof -
  have "bound_inv (update_capture a (\<lambda>st. st\<lparr>st_loop := LoopDone\<rparr>) s)"
    by (rule bound_update [OF assms]) (simp add: same_identity_def)
  then show ?thesis
    using assms by (auto simp: loopEnd_def Let_def intro!: bound_finishBegin split: option.split packet_loop.split write_error.split)
qed

lemma bound_finishClear: "bound_inv s \<Longrightarrow> bound_inv (finishClear a s)"
  by (erule bound_inv_frame) (auto simp: finishClear_def same_identity_def split: option.splits if_splits)

lemma busy_names:
  assumes "\<not> captureBusyLocked s cid" "sv_currentCapture s = Some a \<or> sv_finishingCapture s = Some a" "sv_heap s a = Some st"
  shows "st_id st \<noteq> cid"
  using assms by (auto simp: captureBusyLocked_def has_id_def capture_at_def)

lemma bound_remove_pcap:
  assumes "bound_inv s" "\<not> captureBusyLocked s cid"
    and "\<And>k. k \<noteq> cid \<Longrightarrow> map_of is k = map_of (sv_identity s) k"
  shows "bound_inv (remove_pcap cid s\<lparr>sv_identity := is\<rparr>)"
  by (rule bound_inv_frame [OF assms(1)]) (use busy_names [OF assms(2)] assms(3) in \<open>auto simp: remove_pcap_def\<close>)

lemma bound_removed: "bound_inv s \<Longrightarrow> \<not> captureBusyLocked s cid \<Longrightarrow> bound_inv (remove_pcap cid s)"
  using bound_remove_pcap [of s cid "sv_identity s"] by simp

lemma bound_HandleDelete:
  assumes "bound_inv s"
  shows "bound_inv (snd (HandleDelete readable removeFails unbindFails cid ctl s))"
  using assms bound_removed [OF assms] bound_remove_pcap [OF assms, of cid "AList.delete cid (sv_identity s)"]
  by (simp add: HandleDelete_def Let_def map_of_delete)

lemma bound_HandleBoundDelete:
  assumes "bound_inv s"
  shows "bound_inv (snd (HandleBoundDelete readable removeFails touchFails now cid serverUID captureUID s))"
proof -
  let ?is = "map (\<lambda>(k, i). (k, if k = cid then touch_identity now i else i)) (sv_identity s)"
  have "map_of ?is k = map_of (sv_identity s) k" if "k \<noteq> cid" for k
    using that by (simp add: map_of_map_key option.map_ident)
  with assms bound_removed [OF assms] bound_remove_pcap [OF assms, of cid ?is] show ?thesis
    by (simp add: HandleBoundDelete_def Let_def)
qed

lemma prepareCaptureBinding_binds:
  assumes "prepareCaptureBinding e cid req s = (Inr bound, s1)" "sr_CaptureUID req \<noteq> []"
  shows "\<exists>i. map_of (sv_identity s1) cid = Some i \<and> ci_ServerUID i = sr_ServerUID req \<and> ci_CaptureUID i = sr_CaptureUID req"
  using assms
  by (auto simp: prepareCaptureBinding_def pruneCaptureTombstones_def AList.update_conv' split: prod.splits sum.splits if_splits option.splits)

lemma bound_openCapture:
  assumes inv: "sc_inv H s" "0 \<le> H" and idle: "sv_currentCapture s = None" "sv_finishingCapture s = None"
    and v: "validCaptureID cid" "validStartIdentity s req"
  shows "bound_inv (snd (openCapture e cid req s))"
proof -
  obtain r s1 where p: "prepareCaptureBinding e cid req s = (r, s1)" by fastforce
  obtain ids where s1: "s1 = s\<lparr>sv_identity := ids\<rparr>" using prepareCaptureBinding_props [OF inv p] by blast
  have none: "bound_inv s'" if "sv_currentCapture s' = None" "sv_finishingCapture s' = None" for s'
    using that by (simp add: bound_inv_def)
  have "bound_inv ((alloc cid (new_capture e cid req w) s1)\<lparr>sv_currentCapture := Some (sv_next s1)\<rparr>)" if "r = Inr bound" for w bound
    using prepareCaptureBinding_binds [of e cid req s bound s1] p that v idle
    by (auto simp: bound_inv_def matchCaptureIdentity_def validCaptureTarget_def validStartIdentity_def alloc_def new_capture_def s1)
  with p idle show ?thesis
    by (auto simp: openCapture_def s1 alloc_def unbind_def intro!: none split: sum.split bind_error.split new_writer.split)
qed

lemma bound_HandleStart:
  assumes "sc_inv H s" "0 \<le> H" "bound_inv s"
  shows "bound_inv (snd (HandleStart e cid body s))"
  using assms bound_openCapture [OF assms(1,2), of cid _ e]
  by (auto simp: HandleStart_def split: option.split)

lemma sc_step_bound:
  assumes "sc_step H s s'" "sc_inv H s" "0 \<le> H" "bound_inv s"
  shows "bound_inv s'"
  using assms(1)
proof cases
  case (start e cid body)
  then show ?thesis using bound_HandleStart [OF assms(2-4)] by simp
next
  case (packet a st p ng now msg)
  then show ?thesis using bound_update [OF assms(4)] by (simp add: same_identity_def)
next
  case (source_fails a st msg)
  then show ?thesis using bound_update [OF assms(4)] by (simp add: same_identity_def)
next
  case (finish_close a fl msg)
  then show ?thesis unfolding finishClose_def
    by (auto intro!: bound_update [OF assms(4)] simp: same_identity_def split: finish_pc.split prod.split option.split)
next
  case (finish_publish a now)
  then show ?thesis unfolding finishPublish_def
    by (auto intro!: bound_update [OF assms(4)] simp: same_identity_def split: finish_pc.split)
qed (use assms(4) bound_loopEnd bound_finishBegin bound_finishClear bound_HandleDelete bound_HandleBoundDelete in simp_all)

lemma sc_reachable_bound:
  assumes "sc_reachable H s" "0 \<le> H"
  shows "bound_inv s"
  using assms(1)
proof (induction rule: sc_reachable.induct)
  case (init b u)
  then show ?case by (simp add: bound_inv_def NewServer_def)
next
  case (step s s')
  then show ?case using sc_step_bound sc_reachable_inv assms(2) by blast
qed

section \<open>Published results are final\<close>

definition published :: "capture_state \<Rightarrow> capture_state \<Rightarrow> bool" where
  "published st st' \<longleftrightarrow> st_writer st' = st_writer st \<and> st_status st' = st_status st \<and> st_completedAt st' = st_completedAt st
     \<and> st_stoppingReason st' = st_stoppingReason st \<and> st_message st' = st_message st
     \<and> st_id st' = st_id st \<and> st_serverUID st' = st_serverUID st \<and> st_captureUID st' = st_captureUID st"

lemma published_refl [simp]: "published st st"
  by (simp add: published_def)

definition keeps :: "addr \<Rightarrow> capture_state \<Rightarrow> sidecar \<Rightarrow> bool" where
  "keeps a st s \<longleftrightarrow> (\<exists>st'. sv_heap s a = Some st' \<and> published st st')"

lemma keeps_update: "sv_heap s a = Some st \<Longrightarrow> (b = a \<Longrightarrow> published st (f st)) \<Longrightarrow> keeps a st (update_capture b f s)"
  by (auto simp: keeps_def)

lemma finishBegin_keeps:
  assumes "sv_heap s a = Some st" "sv_currentCapture s \<noteq> Some a"
  shows "keeps a st (snd (finishBegin cid target reason failure s))"
  using assms by (auto simp: finishBegin_def keeps_def split: option.split)

lemma loopEnd_keeps:
  assumes "sv_heap s a = Some st" "sv_currentCapture s \<noteq> Some a"
  shows "keeps a st (loopEnd b s)"
proof -
  let ?s = "update_capture b (\<lambda>st. st\<lparr>st_loop := LoopDone\<rparr>) s"
  obtain st1 where st1: "sv_heap ?s a = Some st1" "published st st1" using assms(1) by (cases "a = b") (simp_all add: published_def)
  have "keeps a st (snd (finishBegin [] t r f ?s))" for t r f
    using finishBegin_keeps [OF st1(1)] assms(2) st1(2) by (auto simp: keeps_def published_def)
  moreover have "keeps a st s" "keeps a st ?s" using assms(1) st1 by (auto simp: keeps_def)
  ultimately show ?thesis
    by (auto simp: loopEnd_def Let_def split: option.split packet_loop.split write_error.split)
qed

lemma openCapture_heap:
  assumes "\<And>b st. sv_heap s b = Some st \<Longrightarrow> b < sv_next s" "sc_inv H s" "0 \<le> H" "sv_heap s a = Some st"
  shows "sv_heap (snd (openCapture e cid req s)) a = Some st"
proof -
  obtain r s1 where p: "prepareCaptureBinding e cid req s = (r, s1)" by fastforce
  obtain ids where "s1 = s\<lparr>sv_identity := ids\<rparr>" using prepareCaptureBinding_props [OF assms(2,3) p] by blast
  then have "sv_heap s1 a = Some st" "a \<noteq> sv_next s1" using assms(1,4) by fastforce+
  with assms(4) p show ?thesis
    by (auto simp: openCapture_def alloc_def unbind_def split: sum.split bind_error.split new_writer.split)
qed

lemma sc_step_keeps:
  assumes "sc_step H s s'" "sc_inv H s" "0 \<le> H" "sv_heap s a = Some st" "st_status st \<noteq> statusRunning"
  shows "keeps a st s'"
proof -
  note at = inv_at [OF assms(2,4)]
  have pc: "st_pc st = FinClear \<or> st_pc st = FinEnd" and closed: "wr_closed (st_writer st)" and nc: "sv_currentCapture s \<noteq> Some a"
    using at(1) assms(2,4,5) by (cases "st_pc st"; auto simp: stage_ok_def sc_inv_def ptr_inv_def)+
  have same: "keeps a st s" using assms(4) by (simp add: keeps_def)
  show ?thesis
    using assms(1)
  proof cases
    case (start e cid body)
    have "sv_heap (snd (openCapture e cid req s)) a = Some st" for req
      by (rule openCapture_heap [OF _ assms(2-4)]) (use assms(2) in \<open>auto simp: sc_inv_def caps_inv_def\<close>)
    then have "keeps a st (snd (openCapture e cid req s))" for req by (simp add: keeps_def)
    with same start(1) show ?thesis by (auto simp: HandleStart_def split: option.split)
  next
    case (packet b st' p ng now msg)
    then show ?thesis using keeps_update [OF assms(4)] closed by (simp add: published_def loopPacket_def WritePacket_def)
  next
    case (source_fails b st' msg)
    then show ?thesis using keeps_update [OF assms(4)] by (simp add: published_def)
  next
    case (loop_end b)
    then show ?thesis using loopEnd_keeps [OF assms(4) nc] by simp
  next
    case (finish_begin cid target reason)
    then show ?thesis using finishBegin_keeps [OF assms(4) nc] by simp
  next
    case (finish_close b fl msg)
    then show ?thesis using keeps_update [OF assms(4)] pc by (auto simp: finishClose_def)
  next
    case (finish_publish b now)
    then show ?thesis using keeps_update [OF assms(4)] pc by (auto simp: finishPublish_def)
  next
    case (finish_clear b)
    then show ?thesis using assms(4) same by (auto simp: finishClear_def keeps_def published_def split: option.split)
  next
    case (delete readable removeFails unbindFails cid ctl)
    then show ?thesis using same by (auto simp: HandleDelete_def Let_def remove_pcap_def keeps_def)
  next
    case (bound_delete readable removeFails touchFails now cid serverUID captureUID)
    then show ?thesis using same by (auto simp: HandleBoundDelete_def Let_def remove_pcap_def keeps_def)
  qed
qed

text \<open>C20. Whoever sees a status other than running sees a closed file, and from then on nothing about that capture
  changes: not its file, its counters, its status, its reason or its identity, whatever happens afterwards.\<close>

theorem sidecar_results_final:
  assumes "sc_reachable H s" "0 \<le> H" "sv_heap s a = Some st" "st_status st \<noteq> statusRunning" "(sc_step H)\<^sup>*\<^sup>* s s'"
  shows "wr_closed (st_writer st) \<and> (\<exists>st'. sv_heap s' a = Some st' \<and> published st st')"
proof
  show "wr_closed (st_writer st)"
    using inv_at(1) [OF sc_reachable_inv [OF assms(1,2)] assms(3)] assms(4) by (cases "st_pc st") (auto simp: stage_ok_def)
  have "sc_reachable H s' \<and> (\<exists>st'. sv_heap s' a = Some st' \<and> published st st')"
    using assms(5)
  proof (induction rule: rtranclp_induct)
    case base
    with assms(1,3) show ?case by simp
  next
    case (step y z)
    then obtain st1 where y: "sc_reachable H y" "sv_heap y a = Some st1" "published st st1" by blast
    have "st_status st1 \<noteq> statusRunning" using y(3) assms(4) by (simp add: published_def)
    from sc_step_keeps [OF step(2) sc_reachable_inv [OF y(1) assms(2)] assms(2) y(2) this]
    obtain st2 where "sv_heap z a = Some st2" "published st1 st2" by (auto simp: keeps_def)
    with y(3) sc_reachable.step [OF y(1) step(2)] show ?case by (auto simp: published_def)
  qed
  then show "\<exists>st'. sv_heap s' a = Some st' \<and> published st st'" by blast
qed

text \<open>C22. In every reachable state, at most one capture writes, and it writes to the file of its own id, which
  stays in place until it is closed; and, whether one is running or not, at most sixteen finished captures are
  remembered.\<close>

theorem sidecar_one_writer:
  assumes "sc_reachable H s" "0 \<le> H"
  shows "(\<forall>a st. sv_heap s a = Some st \<and> \<not> wr_closed (st_writer st) \<longrightarrow> map_of (sv_pcap s) (st_id st) = Some a
      \<and> (\<forall>b st'. sv_heap s b = Some st' \<and> \<not> wr_closed (st_writer st') \<longrightarrow> b = a))
    \<and> finite (dom (sv_completed s)) \<and> card (dom (sv_completed s)) \<le> 16"
proof -
  note inv = sc_reachable_inv [OF assms(1,2)]
  have opens: "sv_currentCapture s = Some x \<or> sv_finishingCapture s = Some x" if "sv_heap s x = Some y" "\<not> wr_closed (st_writer y)" for x y
    using inv_at(1) [OF inv that(1)] that(2) by (cases "st_pc y") (auto simp: stage_ok_def)
  have ptr: "ptr_inv s" and mem: "mem_inv s" using inv by (simp_all add: sc_inv_def)
  have "map_of (sv_pcap s) (st_id st) = Some a" if "sv_heap s a = Some st" "\<not> wr_closed (st_writer st)" for a st
    using opens [OF that] ptr that(1) by (auto simp: ptr_inv_def)
  moreover have "b = a" if "sv_heap s a = Some st" "\<not> wr_closed (st_writer st)" "sv_heap s b = Some st'" "\<not> wr_closed (st_writer st')" for a b st st'
    using opens [OF that(1,2)] opens [OF that(3,4)] ptr by (auto simp: ptr_inv_def)
  moreover have "finite (dom (sv_completed s)) \<and> card (dom (sv_completed s)) \<le> 16"
    using mem distinct_card [of "sv_completedOrder s"] by (simp add: mem_inv_def maxCompletedRetained_def)
  ultimately show ?thesis by blast
qed

text \<open>C21. With a budget, the capture files on the volume never take more than the budget, one file header and one
  packet block of at most 65570 bytes, however captures, stops, failures and deletions follow each other.\<close>

theorem sidecar_volume_bounded:
  assumes "sc_reachable H s" "0 \<le> H" "0 < sv_budgetBytes s"
  shows "retainedCaptureBytes s \<le> sv_budgetBytes s + H + 65570"
proof -
  note inv = sc_reachable_inv [OF assms(1,2)]
  have "retainedCaptureBytes s \<le> sum_list (map (charge H s \<circ> snd) (sv_pcap s))"
    unfolding retainedCaptureBytes_def
    by (rule sum_charge_mono) (rule charge_bounds(2), use inv assms(2) in \<open>simp_all add: sc_inv_def\<close>)
  also have "\<dots> \<le> sv_budgetBytes s + H + slack" using inv assms(3) by (simp add: sc_inv_def budget_inv_def)
  finally show ?thesis by (simp add: slack_def DefaultSnaplen_def)
qed

text \<open>C23. A bound download only ever serves the file of the very capture it names: started under the requested
  id, server UID and capture UID, the server UID being this server's own; and the capture is over and its file closed,
  so that no more is written to it.  (A capture whose last flush failed is over too: its file holds what had reached
  the disk.)\<close>

theorem bound_download_right_file:
  assumes "sc_reachable H s" "0 \<le> H" "HandleBoundDownload readable opens cid serverUID captureUID s = ServeFile a"
  shows "\<exists>st. sv_heap s a = Some st \<and> st_id st = cid \<and> st_captureUID st = captureUID \<and> st_serverUID st = serverUID
    \<and> serverUID = sv_serverUID s \<and> st_status st \<noteq> statusRunning \<and> wr_closed (st_writer st)"
proof -
  note inv = sc_reachable_inv [OF assms(1,2)]
  have m: "matchCaptureIdentity readable s cid serverUID captureUID" "\<not> captureBusyLocked s cid" "map_of (sv_pcap s) cid = Some a"
    using assms(3) by (auto simp: HandleBoundDownload_def split: if_splits option.splits)
  have "file_inv s" using inv by (simp add: sc_inv_def)
  then obtain st where st: "sv_heap s a = Some st" "st_id st = cid"
    "\<forall>i. map_of (sv_identity s) cid = Some i \<longrightarrow> st_serverUID st = ci_ServerUID i \<and> st_captureUID st = ci_CaptureUID i"
    using m(3) by (rule file_invD)
  obtain i where i: "map_of (sv_identity s) cid = Some i" "ci_ServerUID i = serverUID" "ci_CaptureUID i = captureUID" "serverUID = sv_serverUID s"
    using m(1) by (auto simp: matchCaptureIdentity_def validCaptureTarget_def split: option.splits)
  have "sv_currentCapture s \<noteq> Some a" "sv_finishingCapture s \<noteq> Some a"
    using m(2) st(1,2) by (auto simp: captureBusyLocked_def has_id_def capture_at_def)
  then have "st_status st \<noteq> statusRunning \<and> wr_closed (st_writer st)"
    using inv_at(1) [OF inv st(1)] by (cases "st_pc st") (auto simp: stage_ok_def)
  with st i show ?thesis by auto
qed

text \<open>A stop of the running capture that is not interrupted always ends it: the reply is terminal with the time
  of the stop, completed exactly when the file could be finalized, and the file is closed and the slot free,
  whatever the file system answers.\<close>

theorem stop_ends_capture:
  assumes "sc_reachable H s" "0 \<le> H" "sv_currentCapture s = Some a" "sv_heap s a = Some st" "validCaptureID (st_id st)"
    and "ctl = None \<or> controlIdentityMatches s ctl (Some st)"
  shows "case HandleStop (st_id st) ctl (Some reason) fl msg now s of (reply, s') \<Rightarrow>
    (\<exists>q r m bytes packets. reply = StopReply (st_id st) q (Some now) r m bytes packets
       \<and> q = (if fst (Close fl (st_writer st)) = None then statusCompleted else statusFailed)) \<and>
    sv_currentCapture s' = None \<and> sv_finishingCapture s' = None \<and>
    (\<exists>st'. sv_heap s' a = Some st' \<and> wr_closed (st_writer st'))"
proof -
  have pc: "st_pc st = FinNone" using sc_reachable_inv [OF assms(1,2)] assms(3,4) by (auto simp: sc_inv_def ptr_inv_def)
  have look: "lookup s (st_id st) = Some a" using assms(3,4) by (simp add: lookup_def capture_at_def)
  define target where "target = (if ctl \<noteq> None then Some a else None)"
  have started: "finishBegin (st_id st) target reason None s = (Some a, update_capture a (\<lambda>st. st\<lparr>st_cancelled := True,
      st_pc := FinClose (if reason = [] then reasonUserRequested else reason) statusCompleted []\<rparr>)
      (rememberCompletedLocked a st (s\<lparr>sv_currentCapture := None, sv_finishingCapture := Some a\<rparr>)))" (is "_ = (_, ?s1)")
    using assms(3,4) by (simp add: finishBegin_def target_def)
  obtain err w where w: "Close fl (st_writer st) = (err, w)" by fastforce
  have closed: "wr_closed w" using Close_keeps(3) [of fl "st_writer st"] w by simp
  have ok: "\<not> (ctl \<noteq> None \<and> \<not> controlIdentityMatches s ctl (Some st))" using assms(6) by blast
  have "HandleStop (st_id st) ctl (Some reason) fl msg now s =
      (let s' = finishClear a (finishPublish a now (finishClose a fl msg ?s1)) in (writeStopResponse s' (Some a), s'))"
    using assms(4,5) look started ok
    by (simp add: HandleStop_def Let_def finish_def capture_at_def target_def split: if_splits)
  then show ?thesis
    using assms(4) w closed
    by (cases err) (auto simp: Let_def writeStopResponse_def stop_reply_def capture_at_def finishClear_def finishPublish_def
        finishClose_def)
qed

section \<open>A capture, step by step\<close>

definition ex_request :: start_request where
  "ex_request = \<lparr>sr_ServerUID = ''srv-1'', sr_CaptureUID = ''cap-1'', sr_Filter = ''udp'', sr_MaxDurationSeconds = 60, sr_MaxSizeBytes = 5000\<rparr>"

definition ex_start :: start_env where
  "ex_start = \<lparr>v_now = 0, v_compile = (\<lambda>_. Some [JumpIf]), v_retainedFails = False, v_sourceFails = False, v_lstatFails = (\<lambda>_. False),
     v_fileFails = (\<lambda>_. False), v_removeFails = (\<lambda>_. False), v_bindFails = False, v_create = HeaderOk, v_header = 100,
     v_unbindFails = False\<rparr>"

definition ex_running :: sidecar where
  "ex_running = snd (HandleStart ex_start ''c'' (Some ex_request) (NewServer 100000 ''srv-1''))"

definition ex_finishing :: sidecar where
  "ex_finishing = snd (finishBegin [] (Some 0) reasonMaxDuration None ex_running)"

definition ex_closed :: sidecar where
  "ex_closed = finishClear 0 (finishPublish 0 (5 * second) (finishClose 0 (FlushOk True) [] ex_finishing))"

lemma ex_running_reachable: "sc_reachable 200 ex_running"
  unfolding ex_running_def
  by (rule sc_reachable.step [OF sc_reachable.init sc_step.start]) (simp_all add: ex_start_def)

lemma ex_finishing_reachable: "sc_reachable 200 ex_finishing"
  unfolding ex_finishing_def by (rule sc_reachable.step [OF ex_running_reachable sc_step.finish_begin])

lemma ex_closed_reachable: "sc_reachable 200 ex_closed"
proof -
  have 1: "sc_reachable 200 (finishClose 0 (FlushOk True) [] ex_finishing)"
    by (rule sc_reachable.step [OF ex_finishing_reachable sc_step.finish_close]) (simp add: flush_ok_def)
  show ?thesis
    unfolding ex_closed_def
    using sc_reachable.step [OF sc_reachable.step [OF 1 sc_step.finish_publish] sc_step.finish_clear] .
qed

definition ex_writer :: pcap_writer where
  "ex_writer = \<lparr>wr_snaplen = 65535, wr_maxSizeBytes = 5000, wr_maxDurationSeconds = 60, wr_startTime = 0, wr_closed = False,
     wr_bytesWritten = 100, wr_packetsWritten = 0, wr_limitReached = False, wr_limitReason = [], wr_disk = 100, wr_buffered = 0,
     wr_blocks = []\<rparr>"

definition ex_identity :: capture_identity where
  "ex_identity = \<lparr>ci_ServerUID = ''srv-1'', ci_CaptureUID = ''cap-1'', ci_modTime = 0\<rparr>"

lemma ex_running_eq:
  "ex_running = \<lparr>sv_heap = [0 \<mapsto> new_capture ex_start ''c'' ex_request ex_writer], sv_next = 1, sv_currentCapture = Some 0,
     sv_finishingCapture = None, sv_completed = Map.empty, sv_completedOrder = [], sv_serverUID = ''srv-1'', sv_budgetBytes = 100000,
     sv_pcap = [(''c'', 0)], sv_identity = [(''c'', ex_identity)]\<rparr>"
proof -
  have v: "validCaptureID ''c''" "captureUIDPattern ''srv-1''" "captureUIDPattern ''cap-1''" by code_simp+
  have f: "CompileFilter (v_compile ex_start) (sr_Filter ex_request) \<noteq> None" by code_simp
  have w: "NewWriter (v_now ex_start) (v_create ex_start) (v_header ex_start) (sr_MaxDurationSeconds ex_request) (sr_MaxSizeBytes ex_request) 0 = NWOk ex_writer"
    by code_simp
  have o: "openCapture ex_start ''c'' ex_request s = (StartReply ''c'' 0, (alloc ''c'' (new_capture ex_start ''c'' ex_request ex_writer)
      (s\<lparr>sv_identity := [(''c'', ex_identity)]\<rparr>))\<lparr>sv_currentCapture := Some (sv_next s)\<rparr>)" if "sv_identity s = []" "sv_pcap s = []" for s
    using w that by (simp add: openCapture_def prepareCaptureBinding_def pruneCaptureTombstones_def ex_identity_def)
      (simp add: ex_start_def ex_request_def)
  show ?thesis
    unfolding ex_running_def HandleStart_def using v f o
    by (simp add: NewServer_def alloc_def validStartIdentity_def retainedCaptureBytes_def)
      (simp add: ex_request_def ex_start_def maxDurationSecondsLimit_def)
qed

lemmas ex_finish_defs = ex_closed_def ex_finishing_def ex_running_eq finishBegin_def finishClose_def finishPublish_def finishClear_def
  rememberCompletedLocked_def Let_def update_capture_def new_capture_def Close_def moved_def ex_writer_def maxCompletedRetained_def
  ex_start_def ex_request_def

lemma ex_closed_capture:
  "\<exists>st. sv_heap ex_closed 0 = Some st \<and> st_status st = statusCompleted"
  by (simp add: ex_finish_defs)

lemma ex_download: "HandleBoundDownload True True ''c'' ''srv-1'' ''cap-1'' ex_closed = ServeFile 0"
proof -
  have v: "validCaptureID ''c''" "captureUIDPattern ''srv-1''" "captureUIDPattern ''cap-1''" by code_simp+
  then have "matchCaptureIdentity True ex_closed ''c'' ''srv-1'' ''cap-1''"
    by (simp add: matchCaptureIdentity_def validCaptureTarget_def ex_identity_def ex_finish_defs)
  moreover have "\<not> captureBusyLocked ex_closed ''c''"
    by (simp add: captureBusyLocked_def has_id_def capture_at_def ex_finish_defs statusCompleted_def statusRunning_def)
  ultimately show ?thesis by (simp add: HandleBoundDownload_def) (simp add: ex_finish_defs)
qed

text \<open>Between the first and the last section of \<^verbatim>\<open>finish\<close> a capture is remembered but not closed.  A stop arriving
  then is answered with success and status running: the caller takes the capture for stopped while its file
  is still open.\<close>

lemma stop_during_finish_says_running:
  "fst (HandleStop ''c'' (Some (''srv-1'', ''cap-1'')) (Some reasonUserRequested) (FlushOk True) [] 0 ex_finishing)
     = StopReply ''c'' statusRunning None [] [] 100 0"
  "\<exists>st. sv_heap ex_finishing 0 = Some st \<and> \<not> wr_closed (st_writer st)"
proof -
  have v: "validCaptureID ''c''" "captureUIDPattern ''srv-1''" "captureUIDPattern ''cap-1''" by code_simp+
  have l: "lookup ex_finishing ''c'' = Some 0" "sv_currentCapture ex_finishing = None"
    by (simp_all add: lookup_def capture_at_def ex_finish_defs)
  have c: "controlIdentityMatches ex_finishing (Some (''srv-1'', ''cap-1'')) (capture_at ex_finishing (Some 0))"
    using v by (simp add: controlIdentityMatches_def capture_at_def ex_finish_defs)
  have f: "finish ''c'' t r f' fl m n ex_finishing = (None, ex_finishing)" for t r f' fl m n
    using l(2) by (simp add: finish_def finishBegin_def)
  have r: "writeStopResponse ex_finishing (Some 0) = StopReply ''c'' statusRunning None [] [] 100 0"
    by (simp add: writeStopResponse_def stop_reply_def capture_at_def ex_finish_defs)
  show "fst (HandleStop ''c'' (Some (''srv-1'', ''cap-1'')) (Some reasonUserRequested) (FlushOk True) [] 0 ex_finishing)
     = StopReply ''c'' statusRunning None [] [] 100 0"
    using v(1) l c f r by (simp add: HandleStop_def)
  show "\<exists>st. sv_heap ex_finishing 0 = Some st \<and> \<not> wr_closed (st_writer st)" by (simp add: ex_finish_defs)
qed

theorem sidecar_results_final_witness:
  "\<exists>st st'. sv_heap ex_closed 0 = Some st \<and> st_status st = statusCompleted \<and> wr_closed (st_writer st)
     \<and> sv_heap (finishPublish 0 9 ex_closed) 0 = Some st' \<and> published st st'"
proof -
  obtain st where st: "sv_heap ex_closed 0 = Some st" "st_status st = statusCompleted" using ex_closed_capture by blast
  have "st_status st \<noteq> statusRunning" using st(2) by (simp add: statusCompleted_def statusRunning_def)
  moreover have "(sc_step 200)\<^sup>*\<^sup>* ex_closed (finishPublish 0 9 ex_closed)"
    by (rule r_into_rtranclp [of "sc_step 200"]) (rule sc_step.finish_publish)
  ultimately show ?thesis using sidecar_results_final [OF ex_closed_reachable _ st(1)] st by fastforce
qed

theorem sidecar_one_writer_witness:
  "map_of (sv_pcap ex_running) ''c'' = Some 0 \<and> card (dom (sv_completed ex_running)) \<le> 16"
proof -
  have "sv_heap ex_running 0 = Some (new_capture ex_start ''c'' ex_request ex_writer)" by (simp add: ex_running_eq)
  moreover have "\<not> wr_closed (st_writer (new_capture ex_start ''c'' ex_request ex_writer))" by (simp add: new_capture_def ex_writer_def)
  ultimately show ?thesis
    using sidecar_one_writer [OF ex_running_reachable] by (fastforce simp: new_capture_def)
qed

theorem sidecar_volume_bounded_witness: "retainedCaptureBytes ex_running \<le> 100000 + 200 + 65570"
  using sidecar_volume_bounded [OF ex_running_reachable] by (simp add: ex_running_eq)

theorem bound_download_right_file_witness:
  "\<exists>st. sv_heap ex_closed 0 = Some st \<and> st_serverUID st = ''srv-1'' \<and> st_captureUID st = ''cap-1'' \<and> wr_closed (st_writer st)"
  using bound_download_right_file [OF ex_closed_reachable _ ex_download] by auto

theorem stop_ends_capture_witness:
  "case HandleStop ''c'' (Some (''srv-1'', ''cap-1'')) (Some []) (FlushErr True 0) [] 7 ex_running of (reply, s') \<Rightarrow>
    (\<exists>r m bytes packets. reply = StopReply ''c'' statusFailed (Some 7) r m bytes packets) \<and> sv_currentCapture s' = None"
proof -
  let ?st = "new_capture ex_start ''c'' ex_request ex_writer"
  have v: "validCaptureID ''c''" "captureUIDPattern ''srv-1''" "captureUIDPattern ''cap-1''" by code_simp+
  have st: "sv_currentCapture ex_running = Some 0" "sv_heap ex_running 0 = Some ?st" "st_id ?st = ''c''"
    by (simp_all add: ex_running_eq new_capture_def)
  have c: "controlIdentityMatches ex_running (Some (''srv-1'', ''cap-1'')) (Some ?st)"
    using v by (simp add: controlIdentityMatches_def ex_running_eq new_capture_def ex_request_def)
  have "fst (Close (FlushErr True 0) (st_writer ?st)) \<noteq> None" by (simp add: Close_def new_capture_def ex_writer_def)
  then show ?thesis
    using stop_ends_capture [OF ex_running_reachable _ st(1,2),
        where ctl = "Some (''srv-1'', ''cap-1'')" and reason = "[]" and fl = "FlushErr True 0" and msg = "[]" and now = 7] v(1) c
    by (auto simp: st(3) split: prod.splits)
qed

end
