(* ===== verification/Capture_Link.thy ===== *)
theory Capture_Link
  imports Capture Capture_Sidecar
begin

text \<open>
  The operator's client of the sidecar, \<^verbatim>\<open>operator/internal/agent/sidecar_capture.go\<close>: how a response of the
  sidecar becomes the answer the capture controller acts on, and what the two programs guarantee together.
  A request of the operator carries the owner UID and the capture UID as control identity.
\<close>

section \<open>The client\<close>

definition status_code :: "sc_response \<Rightarrow> nat" where
  "status_code r = (case r of HTTPFail c \<Rightarrow> c | NoContent \<Rightarrow> 204 | _ \<Rightarrow> 200)"

text \<open>\<open>body\<close> is the text of the response, at most 16 KiB of it.\<close>

definition StartCapture :: "bool \<Rightarrow> sc_response \<Rightarrow> string \<Rightarrow> sc_error option" where
  "StartCapture disabled r body =
     (if disabled then None
      else if status_code r \<noteq> 200 then Some (HTTPError ''start capture'' (int (status_code r)) body)
      else None)"

definition StopCapture :: "bool \<Rightarrow> sc_response \<Rightarrow> string \<Rightarrow> sc_error option" where
  "StopCapture disabled r body =
     (if disabled then None
      else if status_code r \<noteq> 200 then Some (HTTPError ''stop capture'' (int (status_code r)) body)
      else None)"

definition status_message :: "string \<Rightarrow> int \<Rightarrow> int \<Rightarrow> string" where
  "status_message status packets bytes = ''capture '' @ status @ '', packets='' @ itoa packets @ '', bytes='' @ itoa bytes"

definition GetCaptureStatus :: "bool \<Rightarrow> sc_response \<Rightarrow> string \<Rightarrow> sc_error + sc_status" where
  "GetCaptureStatus disabled r body =
     (if disabled then Inl ErrCaptureClientDisabled
      else (case r of
          StatusReplyRunning cid started bytes packets secs left \<Rightarrow>
            Inr \<lparr>ss_phase = statusRunning, ss_packets = packets, ss_bytes = bytes, ss_message = status_message statusRunning packets bytes\<rparr>
        | StatusReplyDone cid status completed reason msg bytes packets \<Rightarrow>
            Inr \<lparr>ss_phase = status, ss_packets = packets, ss_bytes = bytes, ss_message = status_message status packets bytes\<rparr>
        | _ \<Rightarrow> Inl (HTTPError ''get status'' (int (status_code r)) body)))"

definition DeleteCaptureFile :: "bool \<Rightarrow> string \<Rightarrow> sc_response \<Rightarrow> string \<Rightarrow> sc_error option" where
  "DeleteCaptureFile disabled captureID r body =
     (if disabled then None
      else if status_code r = 204 then None
      else if status_code r = 404 then None
      else if status_code r = 409 then Some (sc_error.NetError (''capture sidecar: delete capture '' @ captureID @ '': capture still running''))
      else Some (HTTPError (''delete capture '' @ captureID) (int (status_code r)) body))"

definition control_of :: "netcap \<Rightarrow> control_identity" where
  "control_of nc = Some (captureOwnerUID (nc_owners nc) (nc_server nc), nc_uid nc)"

section \<open>A stop, end to end\<close>

lemma finish_reachable:
  assumes "sc_reachable H s" "finish cid target reason None fl msg now s = (r, s')"
    and "\<And>a st. sv_heap s a = Some st \<Longrightarrow> flush_ok (st_writer st) fl"
  shows "sc_reachable H s'"
proof -
  obtain r1 s1 where b: "finishBegin cid target reason None s = (r1, s1)" by fastforce
  have 1: "sc_reachable H s1" using sc_reachable.step [OF assms(1) sc_step.finish_begin] b by (metis snd_conv)
  have fl: "flush_ok (st_writer st) fl" if "sv_heap s1 a = Some st" for a st
    using b that assms(3) by (fastforce simp: finishBegin_def split: option.splits if_splits)
  show ?thesis
  proof (cases r1)
    case None
    with b assms(2) 1 show ?thesis by (simp add: finish_def)
  next
    case (Some a)
    have 2: "sc_reachable H (finishClose a fl msg s1)" by (rule sc_reachable.step [OF 1 sc_step.finish_close]) (rule fl)
    have "sc_reachable H (finishClear a (finishPublish a now (finishClose a fl msg s1)))"
      using sc_reachable.step [OF sc_reachable.step [OF 2 sc_step.finish_publish] sc_step.finish_clear] .
    with Some b assms(2) show ?thesis by (auto simp: finish_def)
  qed
qed

lemma HandleStop_reachable:
  assumes "sc_reachable H s" "\<And>a st. sv_heap s a = Some st \<Longrightarrow> flush_ok (st_writer st) fl"
  shows "sc_reachable H (snd (HandleStop cid ctl body fl msg now s))"
proof -
  have "sc_reachable H (snd (finish cid t r None fl msg now s))" for t r
    by (rule finish_reachable [OF assms(1) prod.collapse [symmetric]]) (rule assms(2))
  with assms(1) show ?thesis
    by (auto simp: HandleStop_def Let_def split: option.split prod.split) (metis snd_conv)+
qed

lemma finish_files:
  "sv_pcap (snd (finish cid t r f fl msg now s)) = sv_pcap s \<and> sv_identity (snd (finish cid t r f fl msg now s)) = sv_identity s
   \<and> sv_serverUID (snd (finish cid t r f fl msg now s)) = sv_serverUID s"
  by (auto simp: finish_def finishBegin_def finishClose_def finishPublish_def finishClear_def split: option.split prod.split)

lemma HandleStop_files:
  "sv_pcap (snd (HandleStop cid ctl body fl msg now s)) = sv_pcap s \<and> sv_identity (snd (HandleStop cid ctl body fl msg now s)) = sv_identity s
   \<and> sv_serverUID (snd (HandleStop cid ctl body fl msg now s)) = sv_serverUID s"
  using finish_files by (auto simp: HandleStop_def Let_def split: option.split prod.split) (metis snd_conv)+

lemma running_stop_result:
  assumes "w_caps w n = Some nc" "nc_name nc = n" "nc_stopRequested nc \<noteq> None" "nc_phase nc = PhRunning"
    and "e_getServer e" "e_patch e = WOk" "e_updateStatus e = WOk" "e_stop e = None" "nc_conds nc ''SidecarStopFailed'' = None"
  shows "\<exists>nc'. w_caps (fst (Capture_Reconcile cfg e w n)) n = Some nc' \<and> nc_phase nc' = PhCompleted
      \<and> nc_conds nc' SidecarStoppedCondition \<noteq> None \<and> nc_conds nc' ''SidecarStopFailed'' = None"
proof -
  obtain w1 nc1 where st: "stopSidecar e w nc False = (w1, nc1)" by fastforce
  have nc1: "nc_name nc1 = n" "nc_conds nc1 SidecarStoppedCondition \<noteq> None"
    using stopSidecar_stopped [OF st] assms(2) by simp_all
  have nofail: "nc_conds nc1 ''SidecarStopFailed'' = None"
    using st assms(8,9) by (auto simp: stopSidecar_def Let_def SetStatusCondition_def SidecarStoppedCondition_def set_counts_def split: sum.splits)
  have "\<not> isTerminalCapturePhase (nc_phase nc)" using assms(4) by (simp add: isTerminalCapturePhase_def)
  then have "capture_reconcile cfg e w n = releaseActiveCaptureLock e w1 (nc1\<lparr>nc_phase := PhCompleted,
      nc_completionTime := Some (stamp (e_now e)), nc_message := userStoppedMessage\<rparr>) (stamp (e_now e))
      (\<lambda>w. after_write (e_updateStatus e) w (put_cap (nc1\<lparr>nc_phase := PhCompleted, nc_completionTime := Some (stamp (e_now e)),
        nc_message := userStoppedMessage\<rparr>) w, RDone))"
    using assms(1,3,4) st by (simp add: capture_reconcile_def completeRequestedStop_def Let_def)
  then show ?thesis
    using assms(5-7) nc1 nofail by (auto simp: releaseActiveCaptureLock_def after_write_def put_cap_def split: option.split)
qed

text \<open>Once no capture is open, none is busy.\<close>

lemma idle_not_busy:
  assumes "sc_inv H s" "sv_currentCapture s = None" "sv_finishingCapture s = None"
  shows "\<not> captureBusyLocked s cid"
proof -
  have "st_status st \<noteq> statusRunning" if "sv_heap s a = Some st" for a st
    using inv_at(1) [OF assms(1) that] assms(2,3) by (cases "st_pc st") (auto simp: stage_ok_def)
  with assms(2,3) show ?thesis
    by (auto simp: captureBusyLocked_def has_id_def capture_at_def bind_eq_Some_conv split: option.split)
qed

text \<open>C19. Operator and sidecar together: let the operator hold a Running capture with a requested stop, let the sidecar
  be running the capture of that name, server and capture UID (and not be finishing it already), and let the
  operator's stop be handled without another request in between.  When the operator's writes land, the capture is
  Completed without a stop failure, and right after the stop the sidecar serves its file under the identity
  of the capture.  The sidecar's record of that identity is not assumed: the start has written it and nothing has
  removed it since.\<close>

theorem stopped_capture_downloadable:
  assumes sidecar: "sc_reachable H s" "0 \<le> H" "sv_currentCapture s = Some a" "sv_heap s a = Some st"
      "\<And>b st'. sv_heap s b = Some st' \<Longrightarrow> flush_ok (st_writer st') fl"
    and same: "st_id st = nc_name nc" "st_serverUID st = captureOwnerUID (nc_owners nc) (nc_server nc)" "st_captureUID st = nc_uid nc"
      "nc_uid nc \<noteq> []"
    and operator: "w_caps w (nc_name nc) = Some nc" "nc_stopRequested nc \<noteq> None" "nc_phase nc = PhRunning"
      "nc_conds nc ''SidecarStopFailed'' = None"
      "\<And>gs. w_servers w (nc_server nc) = Some gs \<Longrightarrow> cs_name gs = nc_server nc"
      "e_pod e \<noteq> Inl ()" "e_getServer e" "e_patch e = WOk" "e_updateStatus e = WOk"
    and stop: "HandleStop (nc_name nc) (control_of nc) (Some reasonUserRequested) fl msg now s = (reply, s')"
      "e_stop e = StopCapture False reply body"
  shows "\<exists>nc'. w_caps (fst (Capture_Reconcile cfg e w (nc_name nc))) (nc_name nc) = Some nc' \<and> nc_phase nc' = PhCompleted
      \<and> nc_conds nc' SidecarStoppedCondition \<noteq> None \<and> nc_conds nc' ''SidecarStopFailed'' = None
      \<and> HandleBoundDownload True True (nc_name nc) (captureOwnerUID (nc_owners nc) (nc_server nc)) (nc_uid nc) s' = ServeFile a"
proof -
  have bound: "matchCaptureIdentity True s (nc_name nc) (captureOwnerUID (nc_owners nc) (nc_server nc)) (nc_uid nc)"
    using sc_reachable_bound [OF sidecar(1,2)] sidecar(3,4) same unfolding bound_inv_def by fastforce
  have uid: "captureUIDPattern (captureOwnerUID (nc_owners nc) (nc_server nc))" "captureUIDPattern (nc_uid nc)"
    "captureOwnerUID (nc_owners nc) (nc_server nc) = sv_serverUID s" "validCaptureID (nc_name nc)"
    using bound by (auto simp: matchCaptureIdentity_def validCaptureTarget_def)
  have ctl: "control_of nc = None \<or> controlIdentityMatches s (control_of nc) (Some st)"
    using uid same(2,3) by (simp add: control_of_def controlIdentityMatches_def)
  have v: "validCaptureID (st_id st)" using uid same(1) by simp
  have ended: "(\<exists>q c r m b p. reply = StopReply (st_id st) q c r m b p) \<and> sv_currentCapture s' = None \<and> sv_finishingCapture s' = None"
    using stop_ends_capture [OF sidecar(1-4) v ctl, where reason = reasonUserRequested and fl = fl and msg = msg and now = now] stop(1) same(1) by auto
  have noerr: "e_stop e = None" using ended stop(2) by (auto simp: StopCapture_def status_code_def)
  have "sc_reachable H (snd (HandleStop (nc_name nc) (control_of nc) (Some reasonUserRequested) fl msg now s))"
    by (rule HandleStop_reachable [OF sidecar(1)]) (rule sidecar(5))
  then have reach: "sc_reachable H s'" using stop(1) by simp
  have files: "sv_pcap s' = sv_pcap s" "sv_identity s' = sv_identity s" "sv_serverUID s' = sv_serverUID s"
    using HandleStop_files [of "nc_name nc" "control_of nc" "Some reasonUserRequested" fl msg now s] stop(1) by simp_all
  have match: "matchCaptureIdentity True s' c u v = matchCaptureIdentity True s c u v" for c u v
    using files by (simp add: matchCaptureIdentity_def validCaptureTarget_def)
  have "\<not> captureBusyLocked s' (nc_name nc)" using idle_not_busy [OF sc_reachable_inv [OF reach sidecar(2)]] ended by blast
  moreover have "map_of (sv_pcap s) (nc_name nc) = Some a"
    using sc_reachable_inv [OF sidecar(1,2)] sidecar(3,4) same(1) by (auto simp: sc_inv_def ptr_inv_def)
  ultimately have dl: "HandleBoundDownload True True (nc_name nc) (captureOwnerUID (nc_owners nc) (nc_server nc)) (nc_uid nc) s' = ServeFile a"
    using bound match files by (simp add: HandleBoundDownload_def)
  from running_stop_result [OF operator(1) refl operator(2,3,7-9) noerr operator(4)] dl show ?thesis by blast
qed

definition ex_linked :: netcap where
  "ex_linked = (ex_cap ''c'' PhRunning 5)\<lparr>nc_uid := ''cap-1'', nc_stopRequested := Some [],
     nc_owners := [\<lparr>or_apiVersion = ''gameplane.local/v1alpha1'', or_kind = ''GameServer'', or_name = ''srv'', or_uid = ''srv-1''\<rparr>]\<rparr>"

theorem stopped_capture_downloadable_witness:
  "case HandleStop ''c'' (control_of ex_linked) (Some reasonUserRequested) (FlushOk True) [] 7 ex_running of (reply, s') \<Rightarrow>
    (\<exists>nc'. w_caps (fst (Capture_Reconcile ex_config ((ex_env [] 9)\<lparr>e_stop := StopCapture False reply []\<rparr>) (ex_world [ex_linked]) ''c'')) ''c'' = Some nc'
       \<and> nc_phase nc' = PhCompleted) \<and> HandleBoundDownload True True ''c'' ''srv-1'' ''cap-1'' s' = ServeFile 0"
proof -
  let ?st = "new_capture ex_start ''c'' ex_request ex_writer"
  obtain reply s' where h: "HandleStop ''c'' (control_of ex_linked) (Some reasonUserRequested) (FlushOk True) [] 7 ex_running = (reply, s')" by fastforce
  have nc: "nc_name ex_linked = ''c''" "nc_uid ex_linked = ''cap-1''" "captureOwnerUID (nc_owners ex_linked) (nc_server ex_linked) = ''srv-1''"
    by (simp_all add: ex_linked_def ex_cap_def captureOwnerUID_def)
  have "sv_currentCapture ex_running = Some 0" "sv_heap ex_running 0 = Some ?st" "st_id ?st = ''c''" "st_serverUID ?st = ''srv-1''"
    "st_captureUID ?st = ''cap-1''"
    by (simp_all add: ex_running_eq new_capture_def ex_request_def)
  moreover have "flush_ok wr (FlushOk True)" for wr by (simp add: flush_ok_def)
  ultimately have "\<exists>nc'. w_caps (fst (Capture_Reconcile ex_config ((ex_env [] 9)\<lparr>e_stop := StopCapture False reply []\<rparr>) (ex_world [ex_linked]) (nc_name ex_linked)))
        (nc_name ex_linked) = Some nc' \<and> nc_phase nc' = PhCompleted \<and> nc_conds nc' SidecarStoppedCondition \<noteq> None
      \<and> nc_conds nc' ''SidecarStopFailed'' = None
      \<and> HandleBoundDownload True True (nc_name ex_linked) (captureOwnerUID (nc_owners ex_linked) (nc_server ex_linked)) (nc_uid ex_linked) s' = ServeFile 0"
    using h nc
    by (intro stopped_capture_downloadable [OF ex_running_reachable]) (auto simp: ex_linked_def ex_world_def ex_cap_def ex_env_def ex_server_def split: if_splits)
  with h nc show ?thesis by auto
qed

end
