(* ===== verification/Rcon.thy ===== *)
theory Rcon
  imports GP_Prelude
begin

unbundle bit_operations_syntax

text \<open>
  The agent's Source RCON client, \<^verbatim>\<open>agent/internal/rcon/rcon.go\<close>: the packet codec, authentication with
  its back-off, and the command exchange that assembles a fragmented reply.

  An open connection is the bytes received and not yet read.  What arrives during an exchange is a
  reader: its bytes, and the read deadline, close or reset that ends the waiting.  A read that fails
  leaves nothing of those bytes: \<^verbatim>\<open>io.ReadFull\<close> has consumed what had arrived.  The outcomes of
  resolving the password, dialling and writing are arguments of the operations.
\<close>

section \<open>Codec\<close>

definition typeAuth :: u32 where "typeAuth = 3"
definition typeExecCmd :: u32 where "typeExecCmd = 2"
definition typeAuthResponse :: u32 where "typeAuthResponse = 2"
definition typeRespValue :: u32 where "typeRespValue = 0"
definition minPacketSize :: nat where "minPacketSize = 10"
definition maxPacketSize :: nat where "maxPacketSize = 4 * 4096 + 10"

definition le_bytes32 :: "u32 \<Rightarrow> bytes" where
  "le_bytes32 w = [ucast w, ucast (drop_bit 8 w), ucast (drop_bit 16 w), ucast (drop_bit 24 w)]"

definition le_uint32 :: "bytes \<Rightarrow> u32" where
  "le_uint32 bs = ucast (bs ! 0) OR push_bit 8 (ucast (bs ! 1)) OR push_bit 16 (ucast (bs ! 2)) OR push_bit 24 (ucast (bs ! 3))"

datatype rcon_error =
    PayloadTooLarge nat
  | MalformedSize u32
  | RconIO io_error
  | ErrAuth
  | ErrAuthCached
  | PasswordErr string
  | DialErr string
  | WriteErr string
  | ExecErr string rcon_error

definition isTimeout :: "rcon_error \<Rightarrow> bool" where
  "isTimeout e \<longleftrightarrow> e = RconIO (NetError ''i/o timeout'')"

definition rcon_payload :: "u32 \<Rightarrow> u32 \<Rightarrow> string \<Rightarrow> bytes" where
  "rcon_payload pid kind body = le_bytes32 pid @ le_bytes32 kind @ str_bytes body @ [0, 0]"

text \<open>The bytes handed to the connection in one write.\<close>

definition writePacket :: "u32 \<Rightarrow> u32 \<Rightarrow> string \<Rightarrow> rcon_error + bytes" where
  "writePacket pid kind body =
     (let payload = rcon_payload pid kind body; n = length payload in
      if n > 4096 then Inl (PayloadTooLarge n)
      else Inr (le_bytes32 (word_of_nat n) @ payload))"

definition read_full_conn :: "nat \<Rightarrow> reader \<Rightarrow> (rcon_error + bytes) \<times> reader" where
  "read_full_conn n r = (case read_full n r of
      Inl e \<Rightarrow> (Inl (RconIO e), r\<lparr>rd_data := []\<rparr>)
    | Inr (bs, r') \<Rightarrow> (Inr bs, r'))"

definition readPacket :: "reader \<Rightarrow> (rcon_error + u32 \<times> u32 \<times> string) \<times> reader" where
  "readPacket r = (case read_full_conn 4 r of
      (Inl e, r1) \<Rightarrow> (Inl e, r1)
    | (Inr hdr, r1) \<Rightarrow>
        let size = le_uint32 hdr in
        if unat size < minPacketSize \<or> unat size > maxPacketSize then (Inl (MalformedSize size), r1)
        else (case read_full_conn (unat size) r1 of
            (Inl e, r2) \<Rightarrow> (Inl e, r2)
          | (Inr buf, r2) \<Rightarrow>
              let end' = max 8 (length buf - 2)
              in (Inr (le_uint32 (take 4 buf), le_uint32 (take 4 (drop 4 buf)), bytes_str (drop 8 (take end' buf))), r2)))"

lemma readPacket_consumes:
  assumes "readPacket r = (Inr p, r')"
  shows "length (rd_data r') < length (rd_data r)" "rd_end r' = rd_end r"
  using assms
  by (auto simp: readPacket_def read_full_conn_def read_full_def Let_def minPacketSize_def
      split: sum.splits prod.splits if_splits)

section \<open>Client\<close>

record rcon_client =
  rc_cooldown :: duration
  rc_conn :: "bytes option"
  rc_nextID :: u32
  rc_lastAuthFailure :: "time option"
  rc_sent :: "bytes list"

definition dropLocked :: "rcon_client \<Rightarrow> rcon_client" where
  "dropLocked c = c\<lparr>rc_conn := None\<rparr>"

definition allocID :: "rcon_client \<Rightarrow> u32 \<times> rcon_client" where
  "allocID c =
     (let n = rc_nextID c + 1; n = (if n = 0 then 1 else n) in (n, c\<lparr>rc_nextID := n\<rparr>))"

text \<open>What the outside does during one call.\<close>

record rcon_env =
  re_now :: time
  re_password :: "string + string"
  re_dial :: "string + reader"
  re_auth_write :: "string option"
  re_rejected_at :: time
  re_cmd_write :: "string option"
  re_reply :: reader

definition sendPacket :: "string option \<Rightarrow> u32 \<Rightarrow> u32 \<Rightarrow> string \<Rightarrow> rcon_client \<Rightarrow> (rcon_error + unit) \<times> rcon_client" where
  "sendPacket err pid kind body c = (case writePacket pid kind body of
      Inl e \<Rightarrow> (Inl e, c)
    | Inr packet \<Rightarrow> (case err of
          Some e \<Rightarrow> (Inl (WriteErr e), c\<lparr>rc_sent := rc_sent c @ [packet]\<rparr>)
        | None \<Rightarrow> (Inr (), c\<lparr>rc_sent := rc_sent c @ [packet]\<rparr>)))"

lemma readPacket_shrinks:
  "(Inr p, r') = readPacket r \<Longrightarrow> length (rd_data r') < length (rd_data r)"
  by (metis readPacket_consumes(1))

text \<open>The loop waiting for \<^verbatim>\<open>AUTH_RESPONSE\<close>: its id, or a read error; and the connection after it.\<close>

function authLoop :: "reader \<Rightarrow> (rcon_error + u32) \<times> reader" where
  "authLoop r = (case readPacket r of
      (Inl e, r') \<Rightarrow> (Inl e, r')
    | (Inr (pid, kind, _), r') \<Rightarrow> if kind = typeAuthResponse then (Inr pid, r') else authLoop r')"
  by pat_completeness auto
termination
  by (relation "measure (\<lambda>r. length (rd_data r))") (simp, simp only: in_measure readPacket_shrinks)

declare authLoop.simps [simp del]

definition ensureLocked :: "rcon_env \<Rightarrow> rcon_client \<Rightarrow> (rcon_error + unit) \<times> rcon_client" where
  "ensureLocked env c =
     (if rc_conn c \<noteq> None then (Inr (), c)
      else if (case rc_lastAuthFailure c of None \<Rightarrow> False
          | Some t \<Rightarrow> rc_cooldown c > 0 \<and> time_sub (re_now env) t < rc_cooldown c) then (Inl ErrAuthCached, c)
      else (case re_password env of
          Inl e \<Rightarrow> (Inl (PasswordErr e), c)
        | Inr pw \<Rightarrow> (case re_dial env of
              Inl e \<Rightarrow> (Inl (DialErr e), c)
            | Inr conn \<Rightarrow>
                let (authID, c1) = allocID (c\<lparr>rc_conn := Some (rd_data conn)\<rparr>) in
                (case sendPacket (re_auth_write env) authID typeAuth pw c1 of
                   (Inl e, c2) \<Rightarrow> (Inl e, dropLocked c2)
                 | (Inr _, c2) \<Rightarrow> (case authLoop conn of
                       (Inl e, _) \<Rightarrow> (Inl e, dropLocked c2)
                     | (Inr pid, conn') \<Rightarrow>
                         if pid \<noteq> authID
                         then (Inl ErrAuth, (dropLocked c2)\<lparr>rc_lastAuthFailure := Some (re_rejected_at env)\<rparr>)
                         else (Inr (), c2\<lparr>rc_conn := Some (rd_data conn'), rc_lastAuthFailure := None\<rparr>))))))"

text \<open>The reply loop: the assembled text, and the unread bytes of the connection if it is kept.\<close>

function execLoop :: "string \<Rightarrow> u32 \<Rightarrow> bool \<Rightarrow> string \<Rightarrow> reader \<Rightarrow> (rcon_error + string) \<times> bytes option" where
  "execLoop cmd reqID got out r = (case readPacket r of
      (Inl e, r') \<Rightarrow>
        if got then (Inr out, if isTimeout e then Some (rd_data r') else None)
        else (Inl (ExecErr cmd e), None)
    | (Inr (pid, _, body), r') \<Rightarrow>
        if pid = reqID then execLoop cmd reqID True (out @ body) r' else execLoop cmd reqID got out r')"
  by pat_completeness auto
termination
  by (relation "measure (\<lambda>(_, _, _, _, r). length (rd_data r))")
    (simp, simp_all only: in_measure prod.case readPacket_shrinks)

declare execLoop.simps [simp del]

definition Exec :: "rcon_env \<Rightarrow> string \<Rightarrow> rcon_client \<Rightarrow> (rcon_error + string) \<times> rcon_client" where
  "Exec env cmd c = (case ensureLocked env c of
      (Inl e, c1) \<Rightarrow> (Inl e, c1)
    | (Inr _, c1) \<Rightarrow>
        let (reqID, c2) = allocID c1 in
        (case sendPacket (re_cmd_write env) reqID typeExecCmd cmd c2 of
           (Inl e, c3) \<Rightarrow> (Inl e, dropLocked c3)
         | (Inr _, c3) \<Rightarrow>
             let conn = the (rc_conn c3) in
             (case execLoop cmd reqID False [] \<lparr>rd_data = conn @ rd_data (re_reply env), rd_end = rd_end (re_reply env)\<rparr> of
               (res, conn') \<Rightarrow> (res, c3\<lparr>rc_conn := conn'\<rparr>))))"

definition CloseClient :: "rcon_client \<Rightarrow> rcon_client" where
  "CloseClient c = c\<lparr>rc_conn := None\<rparr>"

section \<open>Codec lemmas\<close>

lemma le_uint32_bytes [codec_simps]: "le_uint32 (le_bytes32 w) = w"
proof (rule bit_word_eqI)
  fix n assume "n < LENGTH(32)"
  then consider "n < 8" | "8 \<le> n" "n < 16" | "16 \<le> n" "n < 24" | "24 \<le> n" "n < 32" by fastforce
  then show "bit (le_uint32 (le_bytes32 w)) n \<longleftrightarrow> bit w n"
    by cases (auto simp: le_uint32_def le_bytes32_def bit_simps)
qed

lemma length_le_bytes32 [simp]: "length (le_bytes32 w) = 4"
  by (simp add: le_bytes32_def)

lemma length_rcon_payload [simp]: "length (rcon_payload pid kind body) = length body + 10"
  by (simp add: rcon_payload_def)

text \<open>A frame on the wire, whoever sends it, and a sequence of frames.\<close>

definition rcon_frame :: "u32 \<times> u32 \<times> string \<Rightarrow> bytes" where
  "rcon_frame p = (case p of (pid, kind, body) \<Rightarrow>
     le_bytes32 (word_of_nat (length body + 10)) @ rcon_payload pid kind body)"

definition rcon_stream :: "(u32 \<times> u32 \<times> string) list \<Rightarrow> bytes" where
  "rcon_stream ps = concat (map rcon_frame ps)"

definition fits_frame :: "u32 \<times> u32 \<times> string \<Rightarrow> bool" where
  "fits_frame p \<longleftrightarrow> length (snd (snd p)) + 10 \<le> maxPacketSize"

lemma writePacket_frame:
  "writePacket pid kind body = Inr pkt \<longleftrightarrow> length body + 10 \<le> 4096 \<and> pkt = rcon_frame (pid, kind, body)"
  by (auto simp: writePacket_def rcon_frame_def Let_def)

lemma writePacket_fits: "writePacket pid kind body = Inr pkt \<Longrightarrow> fits_frame (pid, kind, body)"
  by (simp add: writePacket_frame fits_frame_def maxPacketSize_def)

lemma read_full_conn_append:
  "n = length xs \<Longrightarrow>
   read_full_conn n \<lparr>rd_data = xs @ ys, rd_end = e\<rparr> = (Inr xs, \<lparr>rd_data = ys, rd_end = e\<rparr>)"
  by (simp add: read_full_conn_def read_full_append)

lemma unat_frame_size:
  "n \<le> maxPacketSize \<Longrightarrow> unat (word_of_nat n :: u32) = n"
  by (simp add: unat_of_nat maxPacketSize_def)

lemma payload_fields:
  "le_uint32 (take 4 (rcon_payload pid kind body)) = pid"
  "le_uint32 (take 4 (drop 4 (rcon_payload pid kind body))) = kind"
  "bytes_str (drop 8 (take (max 8 (length body + 10 - 2)) (rcon_payload pid kind body))) = body"
  by (simp_all add: rcon_payload_def le_uint32_bytes)

lemma readPacket_wire:
  assumes "fits_frame (pid, kind, body)"
  shows "readPacket \<lparr>rd_data = rcon_frame (pid, kind, body) @ rest, rd_end = e\<rparr> =
     (Inr (pid, kind, body), \<lparr>rd_data = rest, rd_end = e\<rparr>)"
proof -
  let ?n = "length body + 10"
  have n: "unat (word_of_nat ?n :: u32) = ?n"
    using assms by (intro unat_frame_size) (simp add: fits_frame_def)
  have "\<not> (?n < minPacketSize \<or> ?n > maxPacketSize)"
    using assms by (simp add: fits_frame_def minPacketSize_def)
  then show ?thesis
    by (simp only: readPacket_def rcon_frame_def prod.case append_assoc read_full_conn_append length_le_bytes32
        sum.case le_uint32_bytes Let_def n if_False length_rcon_payload payload_fields)
qed

lemma readPacket_ended:
  "readPacket \<lparr>rd_data = [], rd_end = e\<rparr> = (Inl (RconIO e), \<lparr>rd_data = [], rd_end = e\<rparr>)"
  by (simp add: readPacket_def read_full_conn_def read_full_def)


section \<open>Exchanges\<close>

lemma allocID_nonzero: "fst (allocID c) \<noteq> 0"
  by (simp add: allocID_def Let_def)

lemma allocID_client: "snd (allocID c) = c\<lparr>rc_nextID := fst (allocID c)\<rparr>"
  by (simp add: allocID_def Let_def)

lemma sendPacket_ok:
  "sendPacket err pid kind body c = (Inr (), c') \<longleftrightarrow>
     err = None \<and> length body + 10 \<le> 4096 \<and> c' = c\<lparr>rc_sent := rc_sent c @ [rcon_frame (pid, kind, body)]\<rparr>"
  by (auto simp: sendPacket_def writePacket_def rcon_frame_def Let_def split: option.splits)

text \<open>What a reply stream means: the bodies answering the request, in order.\<close>

definition reply_text :: "u32 \<Rightarrow> (u32 \<times> u32 \<times> string) list \<Rightarrow> string" where
  "reply_text reqID ps = concat [body. (pid, _, body) \<leftarrow> ps, pid = reqID]"

lemma reply_text_simps [simp]:
  "reply_text reqID [] = []"
  "reply_text reqID ((pid, kind, body) # ps) = (if pid = reqID then body else []) @ reply_text reqID ps"
  by (simp_all add: reply_text_def)

lemma execLoop_stream:
  assumes "list_all fits_frame ps" "readPacket \<lparr>rd_data = rest, rd_end = e\<rparr> = (Inl err, r')"
  shows "execLoop cmd reqID got out \<lparr>rd_data = rcon_stream ps @ rest, rd_end = e\<rparr> =
     (if got \<or> reqID \<in> fst ` set ps
      then (Inr (out @ reply_text reqID ps), if isTimeout err then Some (rd_data r') else None)
      else (Inl (ExecErr cmd err), None))"
  using assms(1)
proof (induction ps arbitrary: got out)
  case Nil
  then show ?case
    by (subst execLoop.simps) (simp add: rcon_stream_def assms(2))
next
  case (Cons p ps)
  obtain pid kind body where p: "p = (pid, kind, body)"
    by (cases p) auto
  have *: "readPacket \<lparr>rd_data = rcon_stream (p # ps) @ rest, rd_end = e\<rparr> =
      (Inr (pid, kind, body), \<lparr>rd_data = rcon_stream ps @ rest, rd_end = e\<rparr>)"
    using readPacket_wire [of pid kind body "rcon_stream ps @ rest" e] Cons.prems by (simp add: p rcon_stream_def)
  show ?case
    by (subst execLoop.simps) (use Cons in \<open>simp add: *, simp add: p image_iff\<close>)
qed

lemma Exec_open:
  assumes "rc_conn c = Some conn" "re_cmd_write env = None" "length cmd + 10 \<le> 4096"
  defines "reqID \<equiv> fst (allocID c)"
  shows "Exec env cmd c =
    (case execLoop cmd reqID False [] \<lparr>rd_data = conn @ rd_data (re_reply env), rd_end = rd_end (re_reply env)\<rparr> of
       (res, conn') \<Rightarrow> (res, c\<lparr>rc_conn := conn', rc_nextID := reqID,
          rc_sent := rc_sent c @ [rcon_frame (reqID, typeExecCmd, cmd)]\<rparr>))"
proof -
  have "allocID c = (reqID, c\<lparr>rc_nextID := reqID\<rparr>)"
    using allocID_client [of c] by (simp add: reqID_def prod_eq_iff)
  moreover have "sendPacket None reqID typeExecCmd cmd (c\<lparr>rc_nextID := reqID\<rparr>) =
      (Inr (), c\<lparr>rc_nextID := reqID, rc_sent := rc_sent c @ [rcon_frame (reqID, typeExecCmd, cmd)]\<rparr>)"
    using assms(3) by (simp add: sendPacket_ok)
  ultimately show ?thesis
    using assms(1,2) by (simp add: Exec_def ensureLocked_def Let_def split: prod.splits)
qed

text \<open>C39. A command on an open connection: whatever frames arrive within the size bound, in any
  interleaving with frames for other requests, the caller gets the concatenation of the bodies that
  echo its request id, and the connection is kept exactly when an answer had arrived and the wait then ended in a
  timeout.  If no frame answers the request the caller gets the read error and the connection is dropped, after a
  timeout too.\<close>

theorem rcon_exec_assembles:
  assumes "rc_conn c = Some []" "re_cmd_write env = None" "length cmd + 10 \<le> 4096"
    and "list_all fits_frame ps" "re_reply env = \<lparr>rd_data = rcon_stream ps, rd_end = e\<rparr>"
  defines "reqID \<equiv> fst (allocID c)"
  defines "answered \<equiv> reqID \<in> fst ` set ps"
  shows "Exec env cmd c =
     (if answered then Inr (reply_text reqID ps) else Inl (ExecErr cmd (RconIO e)),
      c\<lparr>rc_conn := if answered \<and> isTimeout (RconIO e) then Some [] else None, rc_nextID := reqID,
        rc_sent := rc_sent c @ [rcon_frame (reqID, typeExecCmd, cmd)]\<rparr>)"
  using execLoop_stream [OF assms(4) readPacket_ended, of cmd reqID False "[]" e]
  by (simp add: Exec_open [OF assms(1-3)] assms(5) reqID_def answered_def)

lemma sendPacket_error:
  "sendPacket err pid kind body c = (Inl e, c') \<Longrightarrow> e \<noteq> ErrAuth"
  by (auto simp: sendPacket_def writePacket_def Let_def split: sum.splits option.splits if_splits)

lemma sendPacket_cooldown: "sendPacket err pid kind body c = (r, c') \<Longrightarrow> rc_cooldown c' = rc_cooldown c"
  by (auto simp: sendPacket_def split: sum.splits option.splits)

lemma readPacket_error: "readPacket r = (Inl e, r') \<Longrightarrow> e \<noteq> ErrAuth"
  by (auto simp: readPacket_def read_full_conn_def Let_def split: sum.splits prod.splits if_splits)

lemma authLoop_error: "authLoop r = (Inl e, r') \<Longrightarrow> e \<noteq> ErrAuth"
proof (induction r rule: authLoop.induct)
  case (1 r)
  then show ?case
    by (subst (asm) (2) authLoop.simps) (auto split: sum.splits prod.splits if_splits dest: readPacket_error)
qed

lemma execLoop_error: "execLoop cmd reqID got out r = (Inl e, conn') \<Longrightarrow> (\<exists>e'. e = ExecErr cmd e') \<and> conn' = None"
proof (induction cmd reqID got out r rule: execLoop.induct)
  case (1 cmd reqID got out r)
  from "1.prems" show ?case
    by (subst (asm) execLoop.simps) (auto split: sum.splits prod.splits if_splits dest: "1.IH" [OF sym])
qed

lemma ensureLocked_rejected:
  assumes "ensureLocked env c = (Inl e, c')"
  shows "rc_conn c' = None" "rc_cooldown c' = rc_cooldown c"
    "e = ErrAuth \<Longrightarrow> rc_lastAuthFailure c' = Some (re_rejected_at env)"
  using assms
  by (auto simp: ensureLocked_def Let_def allocID_def dropLocked_def
      split: sum.splits prod.splits if_splits option.splits
      dest: sendPacket_error sendPacket_cooldown authLoop_error)

lemma ensureLocked_backs_off:
  assumes "rc_conn c = None" "rc_lastAuthFailure c = Some t" "is_duration (rc_cooldown c)"
    and "0 < rc_cooldown c" "re_now env - t < rc_cooldown c"
  shows "ensureLocked env c = (Inl ErrAuthCached, c)"
  using assms by (simp add: ensureLocked_def time_sub_less_iff)

lemma Exec_rejected:
  assumes "Exec env cmd c = (Inl ErrAuth, c')"
  shows "ensureLocked env c = (Inl ErrAuth, c')"
  using assms
  by (auto simp: Exec_def Let_def split: sum.splits prod.splits dest: sendPacket_error execLoop_error)

primrec exec_all :: "(rcon_env \<times> string) list \<Rightarrow> rcon_client \<Rightarrow> (rcon_error + string) list \<times> rcon_client" where
  "exec_all [] c = ([], c)"
| "exec_all (x # xs) c =
     (let (r, c1) = Exec (fst x) (snd x) c; (rs, c2) = exec_all xs c1 in (r # rs, c2))"

text \<open>The back-off after a rejected password: once an exchange has ended in \<^verbatim>\<open>ErrAuth\<close>, every
  command issued before the cooldown is over is refused from memory; nothing is dialled or written
  and the client does not change.\<close>

theorem rcon_auth_backoff:
  assumes "Exec env cmd c = (Inl ErrAuth, c')" "is_duration (rc_cooldown c)" "0 < rc_cooldown c"
    and "\<forall>(env', cmd') \<in> set calls. re_now env' - re_rejected_at env < rc_cooldown c"
  shows "exec_all calls c' = (replicate (length calls) (Inl ErrAuthCached), c')"
proof -
  note rej = ensureLocked_rejected [OF Exec_rejected [OF assms(1)]]
  have "Exec env' cmd' c' = (Inl ErrAuthCached, c')" if "(env', cmd') \<in> set calls" for env' cmd'
    using that assms(2-4) rej ensureLocked_backs_off [of c' "re_rejected_at env" env'] by (auto simp: Exec_def)
  then show ?thesis
    by (induction calls) auto
qed

text \<open>Every failed exchange leaves the client without a connection, so the next one starts from a
  fresh dial; every successful one wrote the command as its last frame, under a non-zero request id.\<close>

theorem rcon_error_drops:
  "case Exec env cmd c of
     (Inl e, c') \<Rightarrow> rc_conn c' = None
   | (Inr out, c') \<Rightarrow> rc_nextID c' \<noteq> 0 \<and> length cmd + 10 \<le> 4096 \<and>
       (\<exists>sent. rc_sent c' = sent @ [rcon_frame (rc_nextID c', typeExecCmd, cmd)])"
proof -
  have id: "allocID c1 = (reqID, c2) \<Longrightarrow> reqID \<noteq> 0 \<and> c2 = c1\<lparr>rc_nextID := reqID\<rparr>" for c1 c2 reqID
    using allocID_nonzero [of c1] allocID_client [of c1] by simp
  show ?thesis
    by (auto simp: Exec_def Let_def dropLocked_def sendPacket_ok split: sum.splits prod.splits
        dest: ensureLocked_rejected(1) execLoop_error id)
qed

lemma isTimeout_timeout [simp]: "isTimeout (RconIO (NetError ''i/o timeout''))"
  by (simp add: isTimeout_def)



section \<open>Witnesses\<close>

definition rcon_env0 :: rcon_env where
  "rcon_env0 = \<lparr>re_now = 0, re_password = Inr ''secret'', re_dial = Inl ''refused'', re_auth_write = None,
     re_rejected_at = 0, re_cmd_write = None, re_reply = \<lparr>rd_data = [], rd_end = EOF\<rparr>\<rparr>"

definition rcon_client0 :: rcon_client where
  "rcon_client0 = \<lparr>rc_cooldown = 15 * second, rc_conn = None, rc_nextID = 0, rc_lastAuthFailure = None, rc_sent = []\<rparr>"

theorem rcon_exec_assembles_witness:
  "fst (Exec (rcon_env0\<lparr>re_reply := \<lparr>rd_data = rcon_stream [(1, 0, ''he''), (9, 0, ''x''), (1, 0, ''llo'')],
      rd_end = NetError ''i/o timeout''\<rparr>\<rparr>) ''say'' (rcon_client0\<lparr>rc_conn := Some []\<rparr>)) = Inr ''hello''"
  using rcon_exec_assembles [of "rcon_client0\<lparr>rc_conn := Some []\<rparr>"
      "rcon_env0\<lparr>re_reply := \<lparr>rd_data = rcon_stream [(1, 0, ''he''), (9, 0, ''x''), (1, 0, ''llo'')], rd_end = NetError ''i/o timeout''\<rparr>\<rparr>"
      "''say''" "[(1, 0, ''he''), (9, 0, ''x''), (1, 0, ''llo'')]" "NetError ''i/o timeout''"]
  by (simp add: rcon_env0_def rcon_client0_def allocID_def fits_frame_def maxPacketSize_def)

lemma rcon_rejected0:
  "Exec (rcon_env0\<lparr>re_dial := Inr \<lparr>rd_data = rcon_frame (- 1, typeAuthResponse, []), rd_end = EOF\<rparr>\<rparr>) ''list'' rcon_client0 =
     (Inl ErrAuth, rcon_client0\<lparr>rc_nextID := 1, rc_lastAuthFailure := Some 0, rc_sent := [rcon_frame (1, typeAuth, ''secret'')]\<rparr>)"
proof -
  have "authLoop \<lparr>rd_data = rcon_frame (- 1, typeAuthResponse, []), rd_end = EOF\<rparr> = (Inr (- 1), \<lparr>rd_data = [], rd_end = EOF\<rparr>)"
    using readPacket_wire [of "- 1" typeAuthResponse "[]" "[]" EOF]
    by (subst authLoop.simps) (simp add: fits_frame_def maxPacketSize_def)
  moreover have "sendPacket None 1 typeAuth ''secret'' c = (Inr (), c\<lparr>rc_sent := rc_sent c @ [rcon_frame (1, typeAuth, ''secret'')]\<rparr>)" for c
    by (simp add: sendPacket_ok)
  ultimately show ?thesis
    by (simp add: Exec_def ensureLocked_def rcon_env0_def rcon_client0_def allocID_def dropLocked_def)
qed

theorem rcon_auth_backoff_witness:
  "exec_all [(rcon_env0\<lparr>re_now := 14 * second\<rparr>, ''list'')]
     (rcon_client0\<lparr>rc_nextID := 1, rc_lastAuthFailure := Some 0, rc_sent := [rcon_frame (1, typeAuth, ''secret'')]\<rparr>) =
   ([Inl ErrAuthCached],
    rcon_client0\<lparr>rc_nextID := 1, rc_lastAuthFailure := Some 0, rc_sent := [rcon_frame (1, typeAuth, ''secret'')]\<rparr>)"
  using rcon_auth_backoff [OF rcon_rejected0, of "[(rcon_env0\<lparr>re_now := 14 * second\<rparr>, ''list'')]"]
  by (simp add: rcon_env0_def rcon_client0_def is_duration_def dur_min_def dur_max_def second_def)


end
