(* ===== verification/Audit_Log.thy ===== *)
theory Audit_Log
  imports Go_Time "HOL-Library.Char_ord" "HOL-Library.List_Lexorder"
begin

text \<open>
  The API's tamper-evident audit log, \<^verbatim>\<open>api/internal/audit/audit.go\<close>: rows chained by hashes, the
  checkpoint a retention sweep leaves, the head anchor, and the verification that walks the chain.

  The table is a list of rows in no particular order, read by the queries the code issues; ids come
  from the table's autoincrement sequence, which never goes back.  A config value is its JSON
  content, or the text that does not decode.  SQL failures are an argument: a transaction that fails
  is rolled back.  The hash function is the parameter \<open>sha\<close>, the hexadecimal SHA-256 of a string.
\<close>

section \<open>Definitions\<close>

record event =
  e_TS :: string
  e_Actor :: string
  e_Method :: string
  e_Path :: string
  e_Target :: string
  e_Status :: int
  e_IP :: string
  e_Reason :: string

text \<open>A row as the queries return it: the nullable columns \<^verbatim>\<open>target\<close>, \<^verbatim>\<open>ip\<close> and \<^verbatim>\<open>reason\<close> are read through
  \<^verbatim>\<open>COALESCE\<close>, the hash columns may be null.\<close>

record row =
  r_id :: int
  r_event :: event
  r_prev :: "string option"
  r_hash :: "string option"

record chain_mark =
  cm_id :: int
  cm_hash :: string

type_synonym config_value = "string + chain_mark"

record audit_db =
  audit_events :: "row list"
  last_id :: int
  checkpoint :: "config_value option"
  head_anchor :: "config_value option"

datatype audit_error = SqlError string | DecodeCheckpoint string | DecodeHead string

definition audit_field :: "string \<Rightarrow> string" where
  "audit_field s = itoa (int (length s)) @ '':'' @ s"

definition canonicalize :: "event \<Rightarrow> string" where
  "canonicalize e =
     audit_field (e_TS e) @ audit_field (e_Actor e) @ audit_field (e_Method e) @ audit_field (e_Path e) @
     audit_field (e_Target e) @ audit_field (itoa (e_Status e)) @ audit_field (e_IP e) @
     (if e_Reason e \<noteq> [] then audit_field (e_Reason e) else [])"

definition computeHash :: "(string \<Rightarrow> string) \<Rightarrow> string \<Rightarrow> event \<Rightarrow> string" where
  "computeHash sha prevHash e = sha (prevHash @ canonicalize e)"

text \<open>\<^verbatim>\<open>ORDER BY id\<close>, ascending, and the row \<^verbatim>\<open>ORDER BY id DESC LIMIT 1\<close> returns.\<close>

definition by_id :: "row list \<Rightarrow> row list" where
  "by_id rows = sort_key r_id rows"

definition newest_row :: "row list \<Rightarrow> row option" where
  "newest_row rows = (if rows = [] then None else Some (last (by_id rows)))"

definition coalesce :: "string option \<Rightarrow> string" where
  "coalesce v = (case v of None \<Rightarrow> [] | Some s \<Rightarrow> s)"

definition previousHash :: "audit_db \<Rightarrow> audit_error + string" where
  "previousHash db = (case newest_row (audit_events db) of
      Some r \<Rightarrow> Inr (coalesce (r_hash r))
    | None \<Rightarrow> (case checkpoint db of
          None \<Rightarrow> Inr []
        | Some (Inl bad) \<Rightarrow> Inl (DecodeCheckpoint bad)
        | Some (Inr cp) \<Rightarrow> Inr (cm_hash cp)))"

text \<open>The id of the new row is one more than the newest row's; the code lets the database number the row and reads
  the id back under the lock.\<close>

definition insertChained :: "(string \<Rightarrow> string) \<Rightarrow> string option \<Rightarrow> event \<Rightarrow> audit_db \<Rightarrow> (audit_error + unit) \<times> audit_db" where
  "insertChained sha fault e db = (case fault of
      Some err \<Rightarrow> (Inl (SqlError err), db)
    | None \<Rightarrow> (case previousHash db of
          Inl err \<Rightarrow> (Inl err, db)
        | Inr prevHash \<Rightarrow>
            let hash = computeHash sha prevHash e;
                newID = last_id db + 1;
                r = \<lparr>r_id = newID, r_event = e, r_prev = Some prevHash, r_hash = Some hash\<rparr>
            in (Inr (), db\<lparr>audit_events := audit_events db @ [r], last_id := newID,
                  head_anchor := Some (Inr \<lparr>cm_id = newID, cm_hash = hash\<rparr>)\<rparr>)))"

record verify_result =
  vr_OK :: bool
  vr_FirstBadID :: int
  vr_Checked :: int

text \<open>The walk over the chained rows after the checkpoint: a break, or the number of rows checked.\<close>

fun verifyLoop :: "(string \<Rightarrow> string) \<Rightarrow> string \<Rightarrow> int \<Rightarrow> row list \<Rightarrow> verify_result + int" where
  "verifyLoop sha expectedPrev checked [] = Inr checked"
| "verifyLoop sha expectedPrev checked (r # rs) =
     (let checked = checked + 1; prevHash = coalesce (r_prev r); hash = coalesce (r_hash r) in
      if prevHash \<noteq> expectedPrev then Inl \<lparr>vr_OK = False, vr_FirstBadID = r_id r, vr_Checked = checked\<rparr>
      else if computeHash sha prevHash (r_event r) \<noteq> hash
      then Inl \<lparr>vr_OK = False, vr_FirstBadID = r_id r, vr_Checked = checked\<rparr>
      else verifyLoop sha hash checked rs)"

definition verifyHead :: "audit_db \<Rightarrow> int \<Rightarrow> int \<Rightarrow> audit_error + verify_result option" where
  "verifyHead db checkpointID checked = (case head_anchor db of
      None \<Rightarrow> Inr None
    | Some (Inl bad) \<Rightarrow> Inl (DecodeHead bad)
    | Some (Inr head) \<Rightarrow>
        if cm_id head \<le> checkpointID then Inr None
        else (case find (\<lambda>r. r_id r = cm_id head) (audit_events db) of
            None \<Rightarrow> Inr (Some \<lparr>vr_OK = False, vr_FirstBadID = cm_id head, vr_Checked = checked\<rparr>)
          | Some r \<Rightarrow>
              if coalesce (r_hash r) \<noteq> cm_hash head
              then Inr (Some \<lparr>vr_OK = False, vr_FirstBadID = cm_id head, vr_Checked = checked\<rparr>)
              else Inr None))"

definition chained_after :: "int \<Rightarrow> row list \<Rightarrow> row list" where
  "chained_after afterID rows = by_id (filter (\<lambda>r. afterID < r_id r \<and> coalesce (r_hash r) \<noteq> []) rows)"

definition Verify :: "(string \<Rightarrow> string) \<Rightarrow> string option \<Rightarrow> audit_db \<Rightarrow> audit_error + verify_result" where
  "Verify sha fault db = (case fault of
      Some err \<Rightarrow> Inl (SqlError err)
    | None \<Rightarrow>
        res_bind (case checkpoint db of
            None \<Rightarrow> Inr ([], 0)
          | Some (Inl bad) \<Rightarrow> Inl (DecodeCheckpoint bad)
          | Some (Inr cp) \<Rightarrow> Inr (cm_hash cp, cm_id cp))
        (\<lambda>(expectedPrev, afterID).
          case verifyLoop sha expectedPrev 0 (chained_after afterID (audit_events db)) of
            Inl brk \<Rightarrow> Inr brk
          | Inr checked \<Rightarrow>
              res_bind (verifyHead db afterID checked)
                (\<lambda>brk. Inr (case brk of Some b \<Rightarrow> b
                  | None \<Rightarrow> \<lparr>vr_OK = True, vr_FirstBadID = 0, vr_Checked = checked\<rparr>))))"

definition Prune :: "string option \<Rightarrow> time \<Rightarrow> audit_db \<Rightarrow> (audit_error + nat) \<times> audit_db" where
  "Prune fault cutoff db =
     (let cutoffStr = format_rfc3339 cutoff;
          old = filter (\<lambda>r. e_TS (r_event r) < cutoffStr) (audit_events db) in
      case fault of
        Some err \<Rightarrow> (Inl (SqlError err), db)
      | None \<Rightarrow> (case newest_row old of
            None \<Rightarrow> (Inr 0, db)
          | Some boundary \<Rightarrow>
              let cp = (if coalesce (r_hash boundary) \<noteq> []
                    then Some (Inr \<lparr>cm_id = r_id boundary, cm_hash = coalesce (r_hash boundary)\<rparr>)
                    else checkpoint db)
              in (Inr (length old), db\<lparr>checkpoint := cp,
                    audit_events := filter (\<lambda>r. \<not> e_TS (r_event r) < cutoffStr) (audit_events db)\<rparr>)))"

text \<open>One sweep of \<^verbatim>\<open>RunRetention\<close> at time \<open>now\<close>.\<close>

definition retention_sweep :: "string option \<Rightarrow> duration \<Rightarrow> time \<Rightarrow> audit_db \<Rightarrow> audit_db" where
  "retention_sweep fault retention now db =
     (if retention \<le> 0 then db else snd (Prune fault (now - retention) db))"

text \<open>The middleware: which requests are recorded, and as what.\<close>

definition shouldLog :: "string \<Rightarrow> string \<Rightarrow> bool" where
  "shouldLog verb path \<longleftrightarrow>
     verb \<notin> {''GET'', ''HEAD'', ''OPTIONS''} \<and> path \<noteq> ''/healthz'' \<and> path \<noteq> ''/metrics'' \<and>
     \<not> has_prefix path ''/auth/oidc/''"

definition redactShareToken :: "string \<Rightarrow> string" where
  "redactShareToken path =
     (if \<not> has_prefix path ''/shares/'' then path
      else let rest = drop (length ''/shares/'') path;
               tail = dropWhile (\<lambda>c. c \<noteq> CHR ''/'') rest
        in if tail = [] then ''/shares/<token>'' else ''/shares/<token>'' @ tail)"

record audit_request =
  aq_method :: string
  aq_path :: string
  aq_name :: string
  aq_holder :: string
  aq_user :: "string option"
  aq_clientIP :: string
  aq_remoteAddr :: string
  aq_remoteHost :: "string option"
  aq_status :: int
  aq_recorded :: bool

definition request_event :: "string \<Rightarrow> audit_request \<Rightarrow> event" where
  "request_event ts q =
     \<lparr>e_TS = ts,
      e_Actor = (if aq_holder q \<noteq> [] then aq_holder q
        else (case aq_user q of Some u \<Rightarrow> if u \<noteq> [] then u else ''anonymous'' | None \<Rightarrow> ''anonymous'')),
      e_Method = aq_method q, e_Path = redactShareToken (aq_path q), e_Target = aq_name q, e_Status = aq_status q,
      e_IP = (if aq_clientIP q \<noteq> [] then aq_clientIP q
        else (case aq_remoteHost q of None \<Rightarrow> aq_remoteAddr q | Some host \<Rightarrow> host)),
      e_Reason = []\<rparr>"

definition AuditMiddleware :: "(string \<Rightarrow> string) \<Rightarrow> string option \<Rightarrow> time \<Rightarrow> audit_request \<Rightarrow> audit_db \<Rightarrow> audit_db" where
  "AuditMiddleware sha fault now q db =
     (if \<not> shouldLog (aq_method q) (aq_path q) \<or> aq_recorded q then db
      else snd (insertChained sha fault (request_event (format_rfc3339 now) q) db))"

definition WriteSync ::
  "(string \<Rightarrow> string) \<Rightarrow> string option \<Rightarrow> time \<Rightarrow> string option \<Rightarrow> string \<Rightarrow> string \<Rightarrow> string \<Rightarrow> string \<Rightarrow> string \<Rightarrow> int
     \<Rightarrow> audit_db \<Rightarrow> (audit_error + unit) \<times> audit_db" where
  "WriteSync sha fault now user clientIP verb path target reason status db =
     insertChained sha fault
       \<lparr>e_TS = format_rfc3339 now,
        e_Actor = (case user of Some u \<Rightarrow> if u \<noteq> [] then u else ''anonymous'' | None \<Rightarrow> ''anonymous''),
        e_Method = verb, e_Path = path, e_Target = target, e_Status = status, e_IP = clientIP, e_Reason = reason\<rparr> db"

section \<open>The canonical form\<close>

lemma digits_of_inj: "digits_of m = digits_of n \<Longrightarrow> m = n"
  by (metis digits_of_correct)

lemma itoa_inj: "itoa i = itoa j \<Longrightarrow> i = j"
  using digits_of_head [of "nat i"] digits_of_head [of "nat j"]
  by (auto simp: itoa_def split: if_splits dest: digits_of_inj) (metis digits_of_head)+

lemma itoa_no_colon: "CHR '':'' \<notin> set (itoa i)"
  using itoa_chars [of "CHR '':''" i] by (auto simp: is_digit_def in_rng_def)

lemma takeWhile_colon: "CHR '':'' \<notin> set x \<Longrightarrow> takeWhile (\<lambda>c. c \<noteq> CHR '':'') (x @ CHR '':'' # rest) = x"
  by (induction x) auto

lemma takeWhile_no_colon:
  "CHR '':'' \<notin> set x \<Longrightarrow> takeWhile (\<lambda>c. c \<noteq> CHR '':'') (x @ y) = x @ takeWhile (\<lambda>c. c \<noteq> CHR '':'') y"
  by (induction x) auto

lemma field_append_eq:
  assumes "audit_field s @ x = audit_field t @ y"
  shows "s = t \<and> x = y"
proof -
  have "itoa (int (length s)) = itoa (int (length t))"
    using arg_cong [OF assms, of "takeWhile (\<lambda>c. c \<noteq> CHR '':'')"]
    by (simp add: audit_field_def takeWhile_colon itoa_no_colon)
  then have "length s = length t"
    using itoa_inj by fastforce
  with assms show ?thesis
    by (simp add: audit_field_def)
qed

lemma field_nonempty: "audit_field s \<noteq> []"
  by (simp add: audit_field_def)

lemma canonicalize_inj:
  assumes "canonicalize e = canonicalize e'"
  shows "e = e'"
proof -
  note f1 = field_append_eq [OF assms [unfolded canonicalize_def append_assoc]]
  note f2 = field_append_eq [OF conjunct2 [OF f1]]
  note f3 = field_append_eq [OF conjunct2 [OF f2]]
  note f4 = field_append_eq [OF conjunct2 [OF f3]]
  note f5 = field_append_eq [OF conjunct2 [OF f4]]
  note f6 = field_append_eq [OF conjunct2 [OF f5]]
  note f7 = field_append_eq [OF conjunct2 [OF f6]]
  have "e_Reason e = e_Reason e'"
    using conjunct2 [OF f7] field_append_eq [of "e_Reason e" "[]" "e_Reason e'" "[]"] field_nonempty
    by (auto split: if_splits) (metis field_nonempty)+
  with f1 f2 f3 f4 f5 f6 f7 itoa_inj show ?thesis by simp
qed

section \<open>Chains\<close>

text \<open>What the documentation of SHA-256 in hexadecimal promises of the shape of its output.\<close>

definition sha_hex :: "(string \<Rightarrow> string) \<Rightarrow> bool" where
  "sha_hex sha \<longleftrightarrow> (\<forall>s. length (sha s) = 64 \<and> CHR '':'' \<notin> set (sha s))"

lemma sha_hexD: "sha_hex sha \<Longrightarrow> length (sha s) = 64" "sha_hex sha \<Longrightarrow> CHR '':'' \<notin> set (sha s)"
  by (simp_all add: sha_hex_def)

lemma sha_nonempty: "sha_hex sha \<Longrightarrow> sha s \<noteq> []"
  using sha_hexD(1) [of sha s] by auto

lemma computeHash_nonempty: "sha_hex sha \<Longrightarrow> computeHash sha h e \<noteq> []"
  by (simp add: computeHash_def sha_nonempty)

definition chain_hash :: "(string \<Rightarrow> string) \<Rightarrow> event list \<Rightarrow> string" where
  "chain_hash sha es = foldl (computeHash sha) [] es"

fun linked :: "(string \<Rightarrow> string) \<Rightarrow> string \<Rightarrow> row list \<Rightarrow> bool" where
  "linked sha h [] = True"
| "linked sha h (r # rs) =
     (let h' = computeHash sha h (r_event r) in r_prev r = Some h \<and> r_hash r = Some h' \<and> linked sha h' rs)"

lemma linked_append:
  "linked sha h (rs @ rs') \<longleftrightarrow> linked sha h rs \<and> linked sha (foldl (computeHash sha) h (map r_event rs)) rs'"
  by (induction rs arbitrary: h) (auto simp: Let_def)

lemma linked_last:
  "linked sha h rs \<Longrightarrow> rs \<noteq> [] \<Longrightarrow> r_hash (last rs) = Some (foldl (computeHash sha) h (map r_event rs))"
  by (induction rs arbitrary: h) (auto simp: Let_def)

lemma linked_hashed: "linked sha h rs \<Longrightarrow> sha_hex sha \<Longrightarrow> r \<in> set rs \<Longrightarrow> coalesce (r_hash r) \<noteq> []"
  by (induction rs arbitrary: h) (auto simp: Let_def coalesce_def computeHash_nonempty)

lemma verifyLoop_linked: "linked sha h rs \<Longrightarrow> verifyLoop sha h n rs = Inr (n + int (length rs))"
  by (induction rs arbitrary: h n) (auto simp: Let_def coalesce_def)

section \<open>Logs written by the code verify\<close>

definition id_less :: "row \<Rightarrow> row \<Rightarrow> bool" where
  "id_less a b \<longleftrightarrow> r_id a < r_id b"

definition ts_le :: "row \<Rightarrow> row \<Rightarrow> bool" where
  "ts_le a b \<longleftrightarrow> e_TS (r_event a) \<le> e_TS (r_event b)"

definition row_mark :: "row \<Rightarrow> chain_mark" where
  "row_mark r = \<lparr>cm_id = r_id r, cm_hash = coalesce (r_hash r)\<rparr>"

text \<open>The logs the code can produce from the \<open>rows\<close> an older release left, without hashes, and the events
  recorded since, in the order in which they took the lock: a row is added, with any time stamp; a sweep
  runs at any time.  A call that fails changes nothing.\<close>

inductive audit_written :: "(string \<Rightarrow> string) \<Rightarrow> row list \<Rightarrow> event list \<Rightarrow> audit_db \<Rightarrow> bool" for sha rows where
  legacy: "sorted_wrt id_less rows \<Longrightarrow> \<forall>r\<in>set rows. r_hash r = None \<and> 0 < r_id r \<and> r_id r \<le> lastID \<Longrightarrow> 0 \<le> lastID \<Longrightarrow>
    audit_written sha rows [] \<lparr>audit_events = rows, last_id = lastID, checkpoint = None, head_anchor = None\<rparr>"
| insert: "audit_written sha rows hist db \<Longrightarrow> insertChained sha fault e db = (Inr (), db') \<Longrightarrow> audit_written sha rows (hist @ [e]) db'"
| prune: "audit_written sha rows hist db \<Longrightarrow> Prune fault cutoff db = (res, db') \<Longrightarrow> audit_written sha rows hist db'"

text \<open>Those in which the time stamps follow the order of the rows: each row is added with a time stamp not before
  those of the table.\<close>

inductive audit_reach :: "(string \<Rightarrow> string) \<Rightarrow> event list \<Rightarrow> audit_db \<Rightarrow> bool" for sha where
  legacy: "sorted_wrt id_less rows \<Longrightarrow> sorted_wrt ts_le rows \<Longrightarrow>
    \<forall>r\<in>set rows. r_hash r = None \<and> 0 < r_id r \<and> r_id r \<le> lastID \<Longrightarrow> 0 \<le> lastID \<Longrightarrow>
    audit_reach sha [] \<lparr>audit_events = rows, last_id = lastID, checkpoint = None, head_anchor = None\<rparr>"
| insert: "audit_reach sha hist db \<Longrightarrow> \<forall>r\<in>set (audit_events db). e_TS (r_event r) \<le> e_TS e \<Longrightarrow>
    insertChained sha fault e db = (Inr (), db') \<Longrightarrow> audit_reach sha (hist @ [e]) db'"
| prune: "audit_reach sha hist db \<Longrightarrow> Prune fault cutoff db = (res, db') \<Longrightarrow> audit_reach sha hist db'"

definition rows_ok :: "audit_db \<Rightarrow> row list \<Rightarrow> row list \<Rightarrow> bool" where
  "rows_ok db old new \<longleftrightarrow>
     audit_events db = old @ new \<and> (\<forall>r\<in>set old. coalesce (r_hash r) = []) \<and>
     sorted_wrt id_less (old @ new) \<and> sorted_wrt ts_le (old @ new) \<and>
     (\<forall>r\<in>set (old @ new). 0 < r_id r \<and> r_id r \<le> last_id db) \<and> 0 \<le> last_id db"

definition links_ok :: "(string \<Rightarrow> string) \<Rightarrow> event list \<Rightarrow> row list \<Rightarrow> nat \<Rightarrow> bool" where
  "links_ok sha hist new c \<longleftrightarrow>
     c \<le> length hist \<and> linked sha (chain_hash sha (take c hist)) new \<and> map r_event new = drop c hist"

definition checkpoint_ok :: "(string \<Rightarrow> string) \<Rightarrow> event list \<Rightarrow> audit_db \<Rightarrow> row list \<Rightarrow> row list \<Rightarrow> nat \<Rightarrow> bool" where
  "checkpoint_ok sha hist db old new c \<longleftrightarrow>
     checkpoint db = None \<and> c = 0 \<or>
     (\<exists>cp. checkpoint db = Some (Inr cp) \<and> old = [] \<and> cm_hash cp = chain_hash sha (take c hist) \<and>
        0 \<le> cm_id cp \<and> cm_id cp \<le> last_id db \<and> (\<forall>r\<in>set new. cm_id cp < r_id r))"

definition head_ok :: "event list \<Rightarrow> audit_db \<Rightarrow> row list \<Rightarrow> bool" where
  "head_ok hist db new \<longleftrightarrow>
     head_anchor db = None \<and> hist = [] \<or>
     new \<noteq> [] \<and> head_anchor db = Some (Inr (row_mark (last new))) \<or>
     new = [] \<and> (\<exists>cp hm. checkpoint db = Some (Inr cp) \<and> head_anchor db = Some (Inr hm) \<and> cm_id hm \<le> cm_id cp)"

definition chain_state :: "(string \<Rightarrow> string) \<Rightarrow> event list \<Rightarrow> audit_db \<Rightarrow> row list \<Rightarrow> row list \<Rightarrow> nat \<Rightarrow> bool" where
  "chain_state sha hist db old new c \<longleftrightarrow>
     rows_ok db old new \<and> links_ok sha hist new c \<and> checkpoint_ok sha hist db old new c \<and> head_ok hist db new"

lemmas chain_state_defs = chain_state_def rows_ok_def links_ok_def checkpoint_ok_def head_ok_def

lemma by_id_sorted:
  assumes "sorted_wrt id_less rows"
  shows "by_id rows = rows"
proof -
  have "sorted (map r_id rows)"
    using assms by (auto simp: sorted_map id_less_def elim: sorted_wrt_mono_rel [rotated])
  then show ?thesis
    by (simp add: by_id_def sort_key_id_if_sorted)
qed

lemma newest_sorted: "sorted_wrt id_less rows \<Longrightarrow> rows \<noteq> [] \<Longrightarrow> newest_row rows = Some (last rows)"
  by (simp add: newest_row_def by_id_sorted)

lemma newest_Nil [simp]: "newest_row [] = None"
  by (simp add: newest_row_def)

lemma chain_state_previous:
  assumes "chain_state sha hist db old new c"
  shows "previousHash db = Inr (chain_hash sha hist)"
proof -
  have ev: "audit_events db = old @ new" "sorted_wrt id_less (old @ new)" and c: "c \<le> length hist"
    and new: "linked sha (chain_hash sha (take c hist)) new" "map r_event new = drop c hist"
    using assms by (auto simp: chain_state_defs)
  have hist: "foldl (computeHash sha) (chain_hash sha (take c hist)) (drop c hist) = chain_hash sha hist"
    by (metis append_take_drop_id chain_hash_def foldl_append)
  consider "new \<noteq> []" | "new = []" "old \<noteq> []" | "new = []" "old = []" by blast
  then show ?thesis
  proof cases
    case 1
    with ev have "newest_row (audit_events db) = Some (last new)"
      by (simp add: newest_sorted)
    with linked_last [OF new(1) 1] show ?thesis
      by (simp add: previousHash_def coalesce_def new(2) hist)
  next
    case 2
    with assms have "hist = []"
      by (auto simp: chain_state_defs)
    moreover have "newest_row (audit_events db) = Some (last old)" "coalesce (r_hash (last old)) = []"
      using 2 ev assms by (auto simp: newest_sorted chain_state_defs)
    ultimately show ?thesis
      by (simp add: previousHash_def chain_hash_def)
  next
    case 3
    with ev have n: "newest_row (audit_events db) = None"
      by simp
    from 3 new(2) c have "take c hist = hist"
      by simp
    with assms n show ?thesis
      by (auto simp: chain_state_defs previousHash_def chain_hash_def)
  qed
qed

lemma rows_ok_snoc:
  assumes "rows_ok db old new" "\<forall>r\<in>set (audit_events db). ts_le r x" "r_id x = last_id db + 1"
    and "audit_events db' = audit_events db @ [x]" "last_id db' = r_id x"
  shows "rows_ok db' old (new @ [x])"
proof -
  have ev: "audit_events db = old @ new" and ids: "\<forall>r\<in>set (old @ new). 0 < r_id r \<and> r_id r \<le> last_id db"
    and sorted: "sorted_wrt id_less (old @ new)" "sorted_wrt ts_le (old @ new)"
    using assms(1) by (simp_all add: rows_ok_def)
  have "sorted_wrt id_less ((old @ new) @ [x])"
    using sorted(1) ids assms(3) by (simp add: sorted_wrt_append id_less_def Ball_def)
  moreover have "sorted_wrt ts_le ((old @ new) @ [x])"
    using sorted(2) assms(2) unfolding ev by (simp add: sorted_wrt_append)
  moreover have "\<forall>r\<in>set ((old @ new) @ [x]). 0 < r_id r \<and> r_id r \<le> last_id db'" "0 \<le> last_id db'"
    using ids assms(1,3,5) by (force simp: rows_ok_def)+
  ultimately show ?thesis
    using assms(1,4) ev by (simp add: rows_ok_def)
qed

lemma chain_state_insert:
  assumes "chain_state sha hist db old new c" "\<forall>r\<in>set (audit_events db). e_TS (r_event r) \<le> e_TS e"
    and "insertChained sha fault e db = (Inr (), db')"
  shows "\<exists>r. chain_state sha (hist @ [e]) db' old (new @ [r]) c"
proof -
  let ?h = "chain_hash sha hist"
  let ?r = "\<lparr>r_id = last_id db + 1, r_event = e, r_prev = Some ?h, r_hash = Some (computeHash sha ?h e)\<rparr>"
  have db': "db' = db\<lparr>audit_events := audit_events db @ [?r], last_id := last_id db + 1,
      head_anchor := Some (Inr (row_mark ?r))\<rparr>"
    using assms(3) chain_state_previous [OF assms(1)]
    by (auto simp: insertChained_def Let_def row_mark_def coalesce_def split: option.splits)
  have c: "c \<le> length hist" and new: "linked sha (chain_hash sha (take c hist)) new" "map r_event new = drop c hist"
    using assms(1) by (auto simp: chain_state_defs)
  have "foldl (computeHash sha) (chain_hash sha (take c hist)) (drop c hist) = ?h"
    by (metis append_take_drop_id chain_hash_def foldl_append)
  then have "linked sha (chain_hash sha (take c (hist @ [e]))) (new @ [?r])" "map r_event (new @ [?r]) = drop c (hist @ [e])"
    using new c by (simp_all add: linked_append Let_def)
  then have "links_ok sha (hist @ [e]) (new @ [?r]) c"
    using c by (simp add: links_ok_def)
  moreover have "rows_ok db' old (new @ [?r])"
    using assms(1,2) unfolding db' by (intro rows_ok_snoc [of db]) (simp_all add: chain_state_def ts_le_def)
  moreover have "checkpoint_ok sha (hist @ [e]) db' old (new @ [?r]) c"
    using assms(1) c unfolding db' chain_state_def checkpoint_ok_def by auto
  moreover have "head_ok (hist @ [e]) db' (new @ [?r])"
    unfolding db' head_ok_def by simp
  ultimately have "chain_state sha (hist @ [e]) db' old (new @ [?r]) c"
    by (simp add: chain_state_def)
  then show ?thesis ..
qed

lemma sorted_filter_prefix:
  assumes "sorted_wrt (\<lambda>a b. P b \<longrightarrow> P a) xs"
  shows "filter P xs = takeWhile P xs" "filter (\<lambda>x. \<not> P x) xs = dropWhile P xs"
  using assms by (induction xs) (auto simp: filter_empty_conv filter_id_conv)

lemma takeWhile_legacy:
  obtains old1 old2 where "old = old1 @ old2" "old2 \<noteq> []" "takeWhile P (old @ new) = old1" "dropWhile P (old @ new) = old2 @ new"
  | new1 new2 where "new = new1 @ new2" "takeWhile P (old @ new) = old @ new1" "dropWhile P (old @ new) = new2"
proof (cases "\<forall>x\<in>set old. P x")
  case True
  then have "takeWhile P (old @ new) = old @ takeWhile P new" "dropWhile P (old @ new) = dropWhile P new"
    by auto
  then show ?thesis
    using that(2) [of "takeWhile P new" "dropWhile P new"] by simp
next
  case False
  then have "dropWhile P old \<noteq> []" "takeWhile P (old @ new) = takeWhile P old" "dropWhile P (old @ new) = dropWhile P old @ new"
    by (auto simp: dropWhile_append takeWhile_append)
  then show ?thesis
    using that(1) [of "takeWhile P old" "dropWhile P old"] by simp
qed

lemma linked_drop:
  assumes "linked sha (chain_hash sha (take c hist)) (new1 @ new2)" "map r_event (new1 @ new2) = drop c hist" "c \<le> length hist"
  shows "linked sha (chain_hash sha (take (c + length new1) hist)) new2" "map r_event new2 = drop (c + length new1) hist"
    "c + length new1 \<le> length hist"
    "new1 \<noteq> [] \<Longrightarrow> coalesce (r_hash (last new1)) = chain_hash sha (take (c + length new1) hist)"
proof -
  have "length (drop c hist) = length new1 + length new2"
    using assms(2) by (metis length_append length_map)
  with assms(3) show len: "c + length new1 \<le> length hist"
    by simp
  have new1: "map r_event new1 = take (length new1) (drop c hist)"
    using assms(2) by (metis append_eq_conv_conj length_map map_append)
  have split: "chain_hash sha (take (c + length new1) hist) = foldl (computeHash sha) (chain_hash sha (take c hist)) (map r_event new1)"
    unfolding new1 by (simp add: chain_hash_def take_add flip: foldl_append)
  show "linked sha (chain_hash sha (take (c + length new1) hist)) new2"
    using assms(1) by (simp add: linked_append split)
  show "map r_event new2 = drop (c + length new1) hist"
    using assms(2) by (metis add.commute append_eq_conv_conj drop_drop length_map map_append)
  show "coalesce (r_hash (last new1)) = chain_hash sha (take (c + length new1) hist)" if "new1 \<noteq> []"
    using assms(1) linked_last [OF _ that] by (auto simp: linked_append split coalesce_def)
qed

lemma rows_ok_drop:
  assumes "rows_ok db (old1 @ old2) (new1 @ new2)" "old2 = [] \<or> new1 = []"
    and "audit_events db' = old2 @ new2" "last_id db' = last_id db"
  shows "rows_ok db' old2 new2"
  using assms by (auto simp: rows_ok_def sorted_wrt_append)

lemma Prune_cases:
  assumes "Prune fault cutoff db = (res, db')" "rows_ok db old new"
  obtains "db' = db"
  | old1 old2 where "old = old1 @ old2" "db' = db\<lparr>audit_events := old2 @ new\<rparr>"
  | new1 new2 where "new = new1 @ new2" "new1 \<noteq> []" "coalesce (r_hash (last new1)) \<noteq> []"
      "db' = db\<lparr>checkpoint := Some (Inr (row_mark (last new1))), audit_events := new2\<rparr>"
  | new1 new2 where "new = new1 @ new2" "new1 \<noteq> []" "coalesce (r_hash (last new1)) = []"
proof -
  define P where "P r \<longleftrightarrow> e_TS (r_event r) < format_rfc3339 cutoff" for r :: row
  have ev: "audit_events db = old @ new" "sorted_wrt id_less (old @ new)" "\<forall>r\<in>set old. coalesce (r_hash r) = []"
    and "sorted_wrt ts_le (old @ new)"
    using assms(2) by (simp_all add: rows_ok_def)
  then have "sorted_wrt (\<lambda>a b. P b \<longrightarrow> P a) (old @ new)"
    by (elim sorted_wrt_mono_rel [rotated]) (auto simp: ts_le_def P_def)
  note pre = sorted_filter_prefix [OF this]
  have run: "Prune fault cutoff db = (case fault of Some err \<Rightarrow> (Inl (SqlError err), db)
      | None \<Rightarrow> (case newest_row (takeWhile P (old @ new)) of None \<Rightarrow> (Inr 0, db)
          | Some b \<Rightarrow> (Inr (length (takeWhile P (old @ new))),
              db\<lparr>checkpoint := if coalesce (r_hash b) \<noteq> [] then Some (Inr (row_mark b)) else checkpoint db,
                 audit_events := dropWhile P (old @ new)\<rparr>)))"
    unfolding Prune_def ev(1) Let_def row_mark_def P_def [symmetric] pre by (simp split: option.splits)
  show ?thesis
  proof (cases fault)
    case None
    show ?thesis
    proof (cases rule: takeWhile_legacy [of old P new])
      case (1 old1 old2)
      have "sorted_wrt id_less old1" using ev(2) 1 by (simp add: sorted_wrt_append)
      then have "newest_row old1 = (if old1 = [] then None else Some (last old1))" by (simp add: newest_sorted)
      with assms(1) run None 1 ev(3) show ?thesis
        by (cases "old1 = []") (auto intro: that)
    next
      case (2 new1 new2)
      have "sorted_wrt id_less (old @ new1)" using ev(2) 2 by (simp add: sorted_wrt_append)
      then have n: "newest_row (old @ new1) = (if old @ new1 = [] then None else Some (last (old @ new1)))"
        by (simp add: newest_sorted)
      consider "old @ new1 = []" | "new1 = []" "old \<noteq> []" | "new1 \<noteq> []" by blast
      then show ?thesis
      proof cases
        case 1
        with assms(1) run None 2 n show ?thesis by (auto intro: that)
      next
        case old: 2
        with assms(1) run None 2 n ev(3) show ?thesis by (auto intro: that(2) [of old "[]"])
      next
        case 3
        with assms(1) run None 2 n show ?thesis by (auto intro: that(3,4) split: if_splits)
      qed
    qed
  next
    case Some
    with assms(1) run show ?thesis by (auto intro: that)
  qed
qed

lemma chain_state_prune:
  assumes "chain_state sha hist db old new c" "Prune fault cutoff db = (res, db')" "sha_hex sha"
  shows "\<exists>old' new' c'. chain_state sha hist db' old' new' c'"
proof -
  have rows: "rows_ok db old new" and links: "links_ok sha hist new c" and cp: "checkpoint_ok sha hist db old new c"
    and head: "head_ok hist db new"
    using assms(1) by (simp_all add: chain_state_def)
  from assms(2) rows show ?thesis
  proof (cases rule: Prune_cases)
    case 1
    with assms(1) show ?thesis by blast
  next
    case (2 old1 old2)
    have "rows_ok db' old2 new"
      using rows_ok_drop [of db old1 old2 "[]" new db'] rows 2 by simp
    moreover have "checkpoint_ok sha hist db' old2 new c"
      using cp 2 by (auto simp: checkpoint_ok_def)
    moreover have "head_ok hist db' new"
      using head 2 by (simp add: head_ok_def)
    ultimately show ?thesis
      using links by (auto simp: chain_state_def)
  next
    case (3 new1 new2)
    have l: "linked sha (chain_hash sha (take c hist)) (new1 @ new2)" "map r_event (new1 @ new2) = drop c hist"
      "c \<le> length hist"
      using links 3(1) by (simp_all add: links_ok_def)
    have ids: "sorted_wrt id_less (new1 @ new2)" "\<forall>r\<in>set new1. 0 < r_id r \<and> r_id r \<le> last_id db"
      using rows 3(1) by (simp_all add: rows_ok_def sorted_wrt_append)
    have "rows_ok db' [] new2"
      using rows_ok_drop [of db old "[]" new1 new2 db'] rows 3 by simp
    moreover have "links_ok sha hist new2 (c + length new1)"
      using linked_drop(1-3) [OF l] by (simp add: links_ok_def)
    moreover have "checkpoint_ok sha hist db' [] new2 (c + length new1)"
      using linked_drop(4) [OF l 3(2)] ids 3 less_imp_le [of 0 "r_id (last new1)"]
      by (auto simp: checkpoint_ok_def row_mark_def sorted_wrt_append id_less_def)
    moreover have "head_ok hist db' new2"
    proof -
      have "hist \<noteq> []" using links 3 by (auto simp: links_ok_def)
      then show ?thesis
        using head 3 by (cases "new2 = []") (auto simp: head_ok_def)
    qed
    ultimately show ?thesis
      by (auto simp: chain_state_def)
  next
    case (4 new1 new2)
    with linked_hashed [OF _ assms(3), of _ new "last new1"] links show ?thesis
      by (auto simp: links_ok_def)
  qed
qed

lemma chain_state_reach:
  assumes "audit_reach sha hist db" "sha_hex sha"
  shows "\<exists>old new c. chain_state sha hist db old new c"
  using assms(1)
proof induction
  case (legacy rows lastID)
  then have "chain_state sha [] \<lparr>audit_events = rows, last_id = lastID, checkpoint = None, head_anchor = None\<rparr> rows [] 0"
    by (simp add: chain_state_defs coalesce_def)
  then show ?case by blast
next
  case (insert hist db e fault db')
  then show ?case using chain_state_insert by blast
next
  case (prune hist db fault cutoff res db')
  then show ?case using chain_state_prune assms(2) by blast
qed

lemma chain_state_chained:
  assumes "chain_state sha hist db old new c" "sha_hex sha"
  defines "afterID \<equiv> (case checkpoint db of Some (Inr cp) \<Rightarrow> cm_id cp | _ \<Rightarrow> 0)"
  shows "chained_after afterID (audit_events db) = new"
proof -
  have "\<forall>r\<in>set new. coalesce (r_hash r) \<noteq> []"
    using assms(1,2) linked_hashed by (auto simp: chain_state_def links_ok_def)
  moreover have "\<forall>r\<in>set new. afterID < r_id r"
    using assms(1) by (auto simp: chain_state_def checkpoint_ok_def rows_ok_def afterID_def)
  ultimately have "filter (\<lambda>r. afterID < r_id r \<and> coalesce (r_hash r) \<noteq> []) (audit_events db) = new"
    using assms(1) by (auto simp: chain_state_def rows_ok_def)
  moreover have "sorted_wrt id_less new"
    using assms(1) by (simp add: chain_state_def rows_ok_def sorted_wrt_append)
  ultimately show ?thesis
    by (simp add: chained_after_def by_id_sorted)
qed

lemma find_by_id:
  "sorted_wrt id_less rows \<Longrightarrow> r \<in> set rows \<Longrightarrow> find (\<lambda>x. r_id x = r_id r) rows = Some r"
  by (induction rows) (auto simp: id_less_def)

lemma verifyHead_ok:
  assumes "chain_state sha hist db old new c"
  defines "afterID \<equiv> (case checkpoint db of Some (Inr cp) \<Rightarrow> cm_id cp | _ \<Rightarrow> 0)"
  shows "verifyHead db afterID checked = Inr None"
proof -
  have rows: "audit_events db = old @ new" "sorted_wrt id_less (old @ new)"
    using assms(1) by (auto simp: chain_state_def rows_ok_def)
  have "head_ok hist db new"
    using assms(1) by (simp add: chain_state_def)
  then consider "head_anchor db = None" | "new \<noteq> []" "head_anchor db = Some (Inr (row_mark (last new)))"
    | cp hm where "checkpoint db = Some (Inr cp)" "head_anchor db = Some (Inr hm)" "cm_id hm \<le> cm_id cp"
    by (auto simp: head_ok_def)
  then show ?thesis
  proof cases
    case 2
    then have "find (\<lambda>x. r_id x = r_id (last new)) (old @ new) = Some (last new)"
      using rows(2) by (intro find_by_id) simp_all
    with 2 rows(1) show ?thesis
      by (simp add: verifyHead_def row_mark_def)
  qed (simp_all add: verifyHead_def afterID_def)
qed

lemma Verify_unfold:
  assumes "checkpoint db = None \<or> (\<exists>cp. checkpoint db = Some (Inr cp))"
  defines "afterID \<equiv> (case checkpoint db of Some (Inr cp) \<Rightarrow> cm_id cp | _ \<Rightarrow> 0)"
  defines "base \<equiv> (case checkpoint db of Some (Inr cp) \<Rightarrow> cm_hash cp | _ \<Rightarrow> [])"
  shows "Verify sha None db =
    (case verifyLoop sha base 0 (chained_after afterID (audit_events db)) of
       Inl brk \<Rightarrow> Inr brk
     | Inr checked \<Rightarrow> res_bind (verifyHead db afterID checked)
         (\<lambda>brk. Inr (case brk of Some b \<Rightarrow> b | None \<Rightarrow> \<lparr>vr_OK = True, vr_FirstBadID = 0, vr_Checked = checked\<rparr>)))"
  using assms(1)
proof (elim disjE exE)
  assume cp: "checkpoint db = None"
  then have marks: "afterID = 0" "base = []"
    by (simp_all add: afterID_def base_def)
  show ?thesis
    unfolding Verify_def cp marks by simp
next
  fix cp assume cp: "checkpoint db = Some (Inr cp)"
  then have marks: "afterID = cm_id cp" "base = cm_hash cp"
    by (simp_all add: afterID_def base_def)
  show ?thesis
    unfolding Verify_def cp marks by simp
qed

lemma chain_state_base:
  assumes "chain_state sha hist db old new c"
  shows "checkpoint db = None \<or> (\<exists>cp. checkpoint db = Some (Inr cp))"
    "(case checkpoint db of Some (Inr cp) \<Rightarrow> cm_hash cp | _ \<Rightarrow> []) = chain_hash sha (take c hist)"
  using assms by (auto simp: chain_state_def checkpoint_ok_def chain_hash_def)

lemma written_events:
  assumes "audit_written sha rows hist db"
  shows "r_event ` set (audit_events db) \<subseteq> r_event ` set rows \<union> set hist"
  using assms
proof (induction rule: audit_written.induct)
  case (legacy lastID)
  then show ?case by simp
next
  case (insert hist db fault e db')
  then have "r_event ` set (audit_events db') \<subseteq> r_event ` set (audit_events db) \<union> {e}"
    by (auto simp: insertChained_def Let_def split: option.splits sum.splits)
  with insert.IH show ?case by (simp add: subset_iff) blast
next
  case (prune hist db fault cutoff res db')
  then have "set (audit_events db') \<subseteq> set (audit_events db)"
    by (auto simp: Prune_def Let_def split: option.splits)
  with prune.IH show ?case by blast
qed

lemma written_in_order:
  assumes "audit_written sha rows hist db" "sorted (map (e_TS \<circ> r_event) rows @ map e_TS hist)"
  shows "audit_reach sha hist db"
  using assms
proof (induction rule: audit_written.induct)
  case (legacy lastID)
  have "sorted_wrt ts_le rows" using legacy(4) by (simp add: sorted_map ts_le_def [abs_def])
  with legacy(1-3) show ?case by (intro audit_reach.legacy)
next
  case (insert hist db fault e db')
  have prev: "sorted (map (e_TS \<circ> r_event) rows @ map e_TS hist)"
    and le: "\<forall>x\<in>r_event ` set rows \<union> set hist. e_TS x \<le> e_TS e"
    using insert(4) by (auto simp: sorted_append comp_def)
  have "\<forall>r\<in>set (audit_events db). e_TS (r_event r) \<le> e_TS e" using written_events [OF insert(1)] le by blast
  then show ?case by (rule audit_reach.insert [OF insert(3) [OF prev] _ insert(2)])
next
  case (prune hist db fault cutoff res db')
  then show ?case using audit_reach.prune by blast
qed

text \<open>C10. An audit log the API has written, through any sequence of recorded requests and retention sweeps and
  starting from the rows of an older release, passes verification, and the rows checked are among those recorded
  since the chain began, provided the time stamps of the rows never go backwards in the order in which they
  were added.  The code does not enforce that: the stamp is taken before the lock, and
  \<open>audit_sweep_out_of_order\<close> below is a log with stamps out of order that fails verification after two sweeps.\<close>

theorem audit_log_verifies:
  assumes "audit_written sha rows hist db" "sha_hex sha"
    and "sorted (map (e_TS \<circ> r_event) rows @ map e_TS hist)"
  shows "\<exists>n \<le> length hist. Verify sha None db = Inr \<lparr>vr_OK = True, vr_FirstBadID = 0, vr_Checked = int n\<rparr>"
proof -
  obtain old new c where st: "chain_state sha hist db old new c"
    using chain_state_reach [OF written_in_order [OF assms(1,3)] assms(2)] by blast
  then have "linked sha (chain_hash sha (take c hist)) new" "map r_event new = drop c hist"
    by (simp_all add: chain_state_def links_ok_def)
  moreover from this(2) have "length new \<le> length hist"
    by (metis diff_le_self length_drop length_map)
  ultimately show ?thesis
    using chain_state_chained [OF st assms(2)] verifyHead_ok [OF st] chain_state_base [OF st]
    by (intro exI [of _ "length new"]) (simp add: Verify_unfold verifyLoop_linked)
qed

section \<open>What the middleware records\<close>

lemma redactShareToken_hides:
  assumes "CHR ''/'' \<notin> set tok" "rest = [] \<or> (\<exists>r. rest = CHR ''/'' # r)"
  shows "redactShareToken (''/shares/'' @ tok @ rest) = ''/shares/<token>'' @ rest"
proof -
  have "dropWhile (\<lambda>c. c \<noteq> CHR ''/'') (tok @ rest) = rest"
    using assms by (induction tok) auto
  moreover have "has_prefix (''/shares/'' @ tok @ rest) ''/shares/''" "drop (length ''/shares/'') (''/shares/'' @ tok @ rest) = tok @ rest"
    by (simp_all add: has_prefix_def)
  ultimately show ?thesis
    unfolding redactShareToken_def Let_def by simp
qed

lemma insertChained_succeeds:
  assumes "audit_reach sha hist db" "sha_hex sha"
  shows "\<exists>db'. insertChained sha None e db = (Inr (), db')"
proof -
  obtain old new c where "chain_state sha hist db old new c"
    using chain_state_reach [OF assms] by blast
  then show ?thesis
    by (simp add: insertChained_def chain_state_previous Let_def)
qed

text \<open>A mutating request whose handler did not record it itself adds exactly one row, the others none.\<close>

lemma AuditMiddleware_records:
  assumes "audit_reach sha hist db" "sha_hex sha"
    and "\<forall>r\<in>set (audit_events db). e_TS (r_event r) \<le> format_rfc3339 now"
  shows "audit_reach sha (hist @ (if shouldLog (aq_method q) (aq_path q) \<and> \<not> aq_recorded q
           then [request_event (format_rfc3339 now) q] else []))
     (AuditMiddleware sha None now q db)"
proof (cases "shouldLog (aq_method q) (aq_path q) \<and> \<not> aq_recorded q")
  case True
  obtain db' where db': "insertChained sha None (request_event (format_rfc3339 now) q) db = (Inr (), db')"
    using insertChained_succeeds [OF assms(1,2)] by blast
  have "audit_reach sha (hist @ [request_event (format_rfc3339 now) q]) db'"
    using assms(1,3) db' by (intro audit_reach.insert) (simp_all add: request_event_def)
  with True db' show ?thesis
    by (simp add: AuditMiddleware_def)
next
  case False
  with assms(1) show ?thesis
    by (auto simp: AuditMiddleware_def)
qed

section \<open>Tampering is noticed\<close>

lemma length_digits_of: "n < 10 ^ Suc k \<Longrightarrow> length (digits_of n) \<le> Suc k"
proof (induction k arbitrary: n)
  case 0
  then show ?case by (subst digits_of.simps) simp
next
  case (Suc k)
  then have "n div 10 < 10 ^ Suc k" by (simp add: less_mult_imp_div_less mult.commute)
  from Suc.IH [OF this] show ?case by (subst digits_of.simps) simp
qed

text \<open>The length of a Go string is a 64-bit integer.\<close>

definition go_sized :: "event \<Rightarrow> bool" where
  "go_sized e \<longleftrightarrow> length (e_TS e) < 2 ^ 63"

lemma canonicalize_prefix:
  assumes "go_sized e" "CHR '':'' \<notin> set h" "length h = 64"
  shows "canonicalize e \<noteq> h @ x"
proof
  assume "canonicalize e = h @ x"
  then have eq: "takeWhile (\<lambda>c. c \<noteq> CHR '':'') (canonicalize e) = h @ takeWhile (\<lambda>c. c \<noteq> CHR '':'') x"
    using takeWhile_no_colon [OF assms(2)] by simp
  have "takeWhile (\<lambda>c. c \<noteq> CHR '':'') (canonicalize e) = itoa (int (length (e_TS e)))"
    by (simp add: canonicalize_def audit_field_def takeWhile_colon itoa_no_colon)
  moreover have "length (digits_of (length (e_TS e))) \<le> Suc 62"
    using assms(1) by (intro length_digits_of) (simp add: go_sized_def)
  ultimately have "length (h @ takeWhile (\<lambda>c. c \<noteq> CHR '':'') x) \<le> 63"
    by (simp add: eq [symmetric] itoa_def)
  with assms(3) show False
    by simp
qed

text \<open>The strings hashed while chaining a sequence of events.\<close>

primrec chain_inputs :: "(string \<Rightarrow> string) \<Rightarrow> string \<Rightarrow> event list \<Rightarrow> string set" where
  "chain_inputs sha h [] = {}"
| "chain_inputs sha h (e # es) = insert (h @ canonicalize e) (chain_inputs sha (computeHash sha h e) es)"

lemma chain_inputs_append:
  "chain_inputs sha h (xs @ ys) = chain_inputs sha h xs \<union> chain_inputs sha (foldl (computeHash sha) h xs) ys"
  by (induction xs arbitrary: h) auto

lemma chain_hash_shape:
  assumes "sha_hex sha"
  shows "chain_hash sha es = [] \<and> es = [] \<or> es \<noteq> [] \<and> length (chain_hash sha es) = 64 \<and> CHR '':'' \<notin> set (chain_hash sha es)"
  using assms by (cases es rule: rev_cases) (auto simp: chain_hash_def computeHash_def sha_hexD)

lemma chain_split:
  assumes "sha_hex sha" "go_sized a" "go_sized b" "chain_hash sha xs @ canonicalize a = chain_hash sha ys @ canonicalize b"
  shows "chain_hash sha xs = chain_hash sha ys \<and> a = b"
proof -
  have "length (chain_hash sha xs) = length (chain_hash sha ys)"
    using chain_hash_shape [OF assms(1), of xs] chain_hash_shape [OF assms(1), of ys] assms(4)
      canonicalize_prefix [OF assms(2), of "chain_hash sha ys"] canonicalize_prefix [OF assms(3), of "chain_hash sha xs"]
    by (auto dest: sym)
  with assms(4) show ?thesis
    using canonicalize_inj by auto
qed

lemma chain_hash_inj:
  assumes "sha_hex sha" "\<forall>e\<in>set xs \<union> set ys. go_sized e" "inj_on sha (chain_inputs sha [] xs \<union> chain_inputs sha [] ys)"
    and "chain_hash sha xs = chain_hash sha ys"
  shows "xs = ys"
  using assms(2-)
proof (induction xs arbitrary: ys rule: rev_induct)
  case Nil
  then show ?case
    using chain_hash_shape [OF assms(1), of ys] by (auto simp: chain_hash_def)
next
  case (snoc a xs)
  obtain b ys' where ys: "ys = ys' @ [b]"
    using snoc.prems(3) chain_hash_shape [OF assms(1), of "xs @ [a]"]
    by (cases ys rule: rev_cases) (auto simp: chain_hash_def)
  have "sha (chain_hash sha xs @ canonicalize a) = sha (chain_hash sha ys' @ canonicalize b)"
    using snoc.prems(3) by (simp add: ys chain_hash_def computeHash_def)
  then have "chain_hash sha xs @ canonicalize a = chain_hash sha ys' @ canonicalize b"
    by (rule inj_onD [OF snoc.prems(2)]) (simp_all add: ys chain_inputs_append chain_hash_def)
  then have "chain_hash sha xs = chain_hash sha ys' \<and> a = b"
    using snoc.prems(1) ys by (intro chain_split [OF assms(1)]) simp_all
  moreover have "inj_on sha (chain_inputs sha [] xs \<union> chain_inputs sha [] ys')"
    using snoc.prems(2) by (rule inj_on_subset) (auto simp: ys chain_inputs_append)
  ultimately show ?case
    using snoc.IH [of ys'] snoc.prems(1) by (auto simp: ys)
qed

lemma verifyLoop_hashes:
  assumes "verifyLoop sha h n (rs @ r # rs') = Inr m"
  shows "coalesce (r_hash r) = foldl (computeHash sha) h (map r_event (rs @ [r]))"
  using assms by (induction rs arbitrary: h n) (auto simp: Let_def split: if_splits)

lemma verifyLoop_bad: "verifyLoop sha h n rs = Inl b \<Longrightarrow> \<not> vr_OK b"
  by (induction rs arbitrary: h n) (auto simp: Let_def split: if_splits)

lemma verifyHead_bad: "verifyHead db a n = Inr (Some b) \<Longrightarrow> \<not> vr_OK b"
  by (auto simp: verifyHead_def split: option.splits sum.splits if_splits)

lemma verifyHead_found:
  assumes "verifyHead db afterID n = Inr None" "head_anchor db = Some (Inr hm)" "afterID < cm_id hm"
  obtains r where "r \<in> set (audit_events db)" "r_id r = cm_id hm" "coalesce (r_hash r) = cm_hash hm"
  using assms by (auto simp: verifyHead_def find_Some_iff split: option.splits if_splits) (metis nth_mem)

lemma distinct_by_id: "distinct (map r_id rows) \<Longrightarrow> sorted_wrt id_less (by_id rows)"
  using strict_sorted_iff [of "map r_id (by_id rows)"] sorted_sort_key [of r_id rows]
  by (simp add: by_id_def distinct_map sorted_wrt_map id_less_def [abs_def])

lemma Verify_OK:
  assumes "checkpoint db = None \<or> (\<exists>cp. checkpoint db = Some (Inr cp))" "Verify sha None db = Inr res" "vr_OK res"
  defines "afterID \<equiv> (case checkpoint db of Some (Inr cp) \<Rightarrow> cm_id cp | _ \<Rightarrow> 0)"
  defines "base \<equiv> (case checkpoint db of Some (Inr cp) \<Rightarrow> cm_hash cp | _ \<Rightarrow> [])"
  obtains n where "verifyLoop sha base 0 (chained_after afterID (audit_events db)) = Inr n"
    "verifyHead db afterID n = Inr None"
proof -
  note run = assms(2) [unfolded Verify_unfold [OF assms(1)], folded afterID_def base_def]
  show ?thesis
  proof (cases "verifyLoop sha base 0 (chained_after afterID (audit_events db))")
    case (Inl b)
    with run assms(3) verifyLoop_bad [OF Inl] show ?thesis by simp
  next
    case (Inr n)
    with run obtain brk where brk: "verifyHead db afterID n = Inr brk"
      by (auto simp: res_bind_Inr_iff)
    show ?thesis
    proof (cases brk)
      case None
      with Inr brk that show ?thesis by simp
    next
      case (Some b)
      with Inr run brk assms(3) verifyHead_bad [of db afterID n b] show ?thesis by simp
    qed
  qed
qed

text \<open>C8. Tampering with the table is noticed.  Take any log the API has written with rows since its last
  checkpoint, and any change to the table that leaves the two anchors in the config table alone.  If
  verification still passes, the chained rows up to the one the head anchor names carry, in order, exactly
  the events that were recorded: none was altered, removed, reordered or slipped in between.  The hash is
  taken to have no collision among the strings hashed when the log was written and when it is checked.\<close>

theorem audit_tamper_evident:
  assumes "audit_reach sha hist db" "sha_hex sha" "distinct (map r_id rows')"
    and "head_anchor db = Some (Inr hm)" "afterID < cm_id hm"
    and "Verify sha None (db\<lparr>audit_events := rows'\<rparr>) = Inr res" "vr_OK res"
    and "\<forall>e\<in>set hist \<union> r_event ` set rows'. go_sized e"
    and "inj_on sha (chain_inputs sha [] hist \<union> chain_inputs sha base (map r_event (chained_after afterID rows')))"
    and "afterID = (case checkpoint db of Some (Inr cp) \<Rightarrow> cm_id cp | _ \<Rightarrow> 0)"
    and "base = (case checkpoint db of Some (Inr cp) \<Rightarrow> cm_hash cp | _ \<Rightarrow> [])"
  shows "map r_event (filter (\<lambda>r. r_id r \<le> cm_id hm) (chained_after afterID rows')) =
         map r_event (chained_after afterID (audit_events db))"
proof -
  obtain old new c where st: "chain_state sha hist db old new c"
    using chain_state_reach [OF assms(1,2)] by blast
  let ?T = "chained_after afterID rows'" and ?db' = "db\<lparr>audit_events := rows'\<rparr>"
  have base: "base = chain_hash sha (take c hist)" and after: "chained_after afterID (audit_events db) = new"
    using chain_state_base(2) [OF st] chain_state_chained [OF st assms(2)] assms(10,11) by simp_all
  obtain n where n: "verifyLoop sha base 0 ?T = Inr n" "verifyHead ?db' afterID n = Inr None"
    using Verify_OK [OF _ assms(6,7)] chain_state_base(1) [OF st] by (auto simp: assms(10,11))
  obtain r where r: "r \<in> set rows'" "r_id r = cm_id hm" "coalesce (r_hash r) = cm_hash hm"
    using verifyHead_found [OF n(2)] assms(4,5) by auto
  have head: "new \<noteq> []" "hm = row_mark (last new)"
    using st assms(4,5,10) by (auto simp: chain_state_def head_ok_def)
  have hist: "chain_hash sha hist = cm_hash hm"
    using linked_last [OF _ head(1)] st head(2)
    by (auto simp: chain_state_def links_ok_def row_mark_def coalesce_def chain_hash_def simp flip: foldl_append)
  have "cm_hash hm \<noteq> []"
    using hist chain_hash_shape [OF assms(2), of hist] st head(1) by (auto simp: chain_state_def links_ok_def)
  with r assms(5) have "r \<in> set ?T"
    by (auto simp: chained_after_def by_id_def)
  then obtain T1 T2 where T: "?T = T1 @ r # T2"
    by (meson split_list)
  have "sorted_wrt id_less ?T"
    using assms(3) by (auto simp: chained_after_def intro!: distinct_by_id distinct_map_filter)
  then have "\<forall>x\<in>set T1. r_id x < r_id r" "\<forall>x\<in>set T2. r_id r < r_id x"
    by (simp_all add: T sorted_wrt_append id_less_def)
  then have "filter (\<lambda>x. r_id x \<le> cm_id hm) T1 = T1" "filter (\<lambda>x. r_id x \<le> cm_id hm) T2 = []"
    by (fastforce simp: r(2) [symmetric] intro!: filter_True filter_False)+
  then have upto: "filter (\<lambda>x. r_id x \<le> cm_id hm) ?T = T1 @ [r]"
    by (simp add: T r(2))
  have "chain_hash sha (take c hist @ map r_event (T1 @ [r])) = chain_hash sha hist"
    using verifyLoop_hashes [OF n(1) [unfolded T]] r(3) hist by (simp add: base chain_hash_def)
  moreover have "inj_on sha (chain_inputs sha [] (take c hist @ map r_event (T1 @ [r])) \<union> chain_inputs sha [] hist)"
    by (rule inj_on_subset [OF assms(9)])
      (use chain_inputs_append [of sha "[]" "take c hist" "drop c hist"] in
        \<open>auto simp: T base chain_inputs_append simp flip: chain_hash_def\<close>)
  moreover have "\<forall>e\<in>set (take c hist @ map r_event (T1 @ [r])) \<union> set hist. go_sized e"
  proof -
    have "set ?T \<subseteq> set rows'"
      by (auto simp: chained_after_def by_id_def)
    then have "set T1 \<subseteq> set rows'"
      by (auto simp: T)
    with assms(8) r(1) show ?thesis
      by (auto dest: in_set_takeD)
  qed
  ultimately have "take c hist @ map r_event (T1 @ [r]) = hist"
    by (intro chain_hash_inj [OF assms(2)])
  then have "map r_event (T1 @ [r]) = drop c hist"
    by (metis append_eq_conv_conj append_take_drop_id same_append_eq)
  then show ?thesis
    using st by (simp add: upto after chain_state_def links_ok_def)
qed

section \<open>Limits of the mechanism\<close>

text \<open>A row without a hash is outside the chain wherever it stands: verification gives the same answer
  with and without it.  So a row slipped in with its hash column left null goes unnoticed.\<close>

lemma audit_unhashed_row_unnoticed:
  assumes "coalesce (r_hash r) = []" "\<forall>hm. head_anchor db = Some (Inr hm) \<longrightarrow> r_id r \<noteq> cm_id hm"
  shows "Verify sha None (db\<lparr>audit_events := xs @ r # ys\<rparr>) = Verify sha None (db\<lparr>audit_events := xs @ ys\<rparr>)"
proof -
  have "chained_after n (xs @ r # ys) = chained_after n (xs @ ys)" for n
    using assms(1) by (simp add: chained_after_def)
  moreover have "find P (xs @ r # ys) = find P (xs @ ys)" if "\<not> P r" for P
    using that by (induction xs) auto
  then have "verifyHead (db\<lparr>audit_events := xs @ r # ys\<rparr>) n m = verifyHead (db\<lparr>audit_events := xs @ ys\<rparr>) n m" for n m
    using assms(2) by (auto simp: verifyHead_def split: option.splits sum.splits)
  ultimately show ?thesis
    by (simp add: Verify_def cong: sum.case_cong)
qed

definition write_all :: "(string \<Rightarrow> string) \<Rightarrow> event list \<Rightarrow> audit_db \<Rightarrow> audit_db" where
  "write_all sha es db = fold (\<lambda>e d. snd (insertChained sha None e d)) es db"

definition empty_db :: audit_db where
  "empty_db = \<lparr>audit_events = [], last_id = 0, checkpoint = None, head_anchor = None\<rparr>"

text \<open>The time stamp of a row is taken before the lock that orders the rows, so two concurrent requests,
  or a clock set back, can leave a row with an earlier stamp after one with a later stamp.  Two sweeps
  whose cutoffs separate them then move the checkpoint backwards, and verification reports a break in a
  log nobody has touched.\<close>

lemma audit_sweep_out_of_order:
  assumes "e_TS e2 < format_rfc3339 t1" "\<not> e_TS e1 < format_rfc3339 t1" "\<not> e_TS e3 < format_rfc3339 t1"
    and "e_TS e1 < format_rfc3339 t2" "\<not> e_TS e3 < format_rfc3339 t2"
    and "sha_hex sha" "chain_hash sha [e1] \<noteq> chain_hash sha [e1, e2]"
  shows "\<exists>res. Verify sha None (snd (Prune None t2 (snd (Prune None t1 (write_all sha [e1, e2, e3] empty_db))))) = Inr res
    \<and> \<not> vr_OK res \<and> vr_FirstBadID res = 3"
proof -
  define h1 h2 h3 where h: "h1 = computeHash sha [] e1" "h2 = computeHash sha h1 e2" "h3 = computeHash sha h2 e3"
  let ?r1 = "\<lparr>r_id = 1, r_event = e1, r_prev = Some [], r_hash = Some h1\<rparr>"
  let ?r2 = "\<lparr>r_id = 2, r_event = e2, r_prev = Some h1, r_hash = Some h2\<rparr>"
  let ?r3 = "\<lparr>r_id = 3, r_event = e3, r_prev = Some h2, r_hash = Some h3\<rparr>"
  let ?db = "\<lparr>audit_events = [?r1, ?r2, ?r3], last_id = 3, checkpoint = None, head_anchor = Some (Inr \<lparr>cm_id = 3, cm_hash = h3\<rparr>)\<rparr>"
  have ne: "h1 \<noteq> []" "h2 \<noteq> []" "h3 \<noteq> []" "h2 \<noteq> h1"
    using assms(6,7) by (auto simp: h computeHash_nonempty chain_hash_def)
  have db: "write_all sha [e1, e2, e3] empty_db = ?db"
    by (simp add: write_all_def empty_db_def insertChained_def previousHash_def newest_row_def by_id_def coalesce_def Let_def h)
  have "snd (Prune None t1 ?db) = ?db\<lparr>audit_events := [?r1, ?r3], checkpoint := Some (Inr \<lparr>cm_id = 2, cm_hash = h2\<rparr>)\<rparr>"
    using assms(1-3) ne by (simp add: Prune_def Let_def newest_row_def by_id_def coalesce_def)
  moreover have "snd (Prune None t2 (?db\<lparr>audit_events := [?r1, ?r3], checkpoint := Some (Inr \<lparr>cm_id = 2, cm_hash = h2\<rparr>)\<rparr>)) =
      ?db\<lparr>audit_events := [?r3], checkpoint := Some (Inr \<lparr>cm_id = 1, cm_hash = h1\<rparr>)\<rparr>"
    using assms(4,5) ne by (simp add: Prune_def Let_def newest_row_def by_id_def coalesce_def)
  ultimately show ?thesis
    using ne unfolding db by (simp add: Verify_def chained_after_def by_id_def coalesce_def Let_def)
qed

section \<open>Witnesses\<close>

definition sha_example :: "string \<Rightarrow> string" where
  "sha_example s = replicate (length s mod 64) CHR ''0'' @ replicate (64 - length s mod 64) CHR ''1''"

lemma sha_example_hex: "sha_hex sha_example"
  by (simp add: sha_hex_def sha_example_def)

definition event_example :: event where
  "event_example = \<lparr>e_TS = ''2026-01-01T00:00:00Z'', e_Actor = ''ada'', e_Method = ''POST'', e_Path = ''/servers'',
     e_Target = [], e_Status = 201, e_IP = [], e_Reason = []\<rparr>"

definition row_example :: row where
  "row_example = \<lparr>r_id = 1, r_event = event_example, r_prev = Some [], r_hash = Some (computeHash sha_example [] event_example)\<rparr>"

definition db_example :: audit_db where
  "db_example = \<lparr>audit_events = [row_example], last_id = 1, checkpoint = None, head_anchor = Some (Inr (row_mark row_example))\<rparr>"

lemma db_example_written: "audit_written sha_example [] [event_example] db_example"
proof -
  have "audit_written sha_example [] [] empty_db"
    unfolding empty_db_def by (rule audit_written.legacy) simp_all
  moreover have "insertChained sha_example None event_example empty_db = (Inr (), db_example)"
    by (simp add: insertChained_def previousHash_def newest_row_def empty_db_def db_example_def row_example_def row_mark_def
        coalesce_def Let_def)
  ultimately have "audit_written sha_example [] ([] @ [event_example]) db_example"
    by (rule audit_written.insert)
  then show ?thesis by simp
qed

lemma db_example_reach: "audit_reach sha_example [event_example] db_example"
  by (rule written_in_order [OF db_example_written]) simp

definition db_second :: audit_db where
  "db_second = snd (insertChained sha_example None (event_example\<lparr>e_TS := ''2026-01-02T00:00:00Z''\<rparr>) db_example)"

theorem audit_log_verifies_witness:
  "\<exists>n \<le> 2. Verify sha_example None db_second = Inr \<lparr>vr_OK = True, vr_FirstBadID = 0, vr_Checked = int n\<rparr>"
proof -
  let ?e = "event_example\<lparr>e_TS := ''2026-01-02T00:00:00Z''\<rparr>"
  have "insertChained sha_example None ?e db_example = (Inr (), db_second)"
    by (simp add: db_second_def insertChained_def previousHash_def newest_row_def by_id_def db_example_def row_example_def Let_def
        coalesce_def)
  then have "audit_written sha_example [] ([event_example] @ [?e]) db_second" by (rule audit_written.insert [OF db_example_written])
  moreover have "sorted (map (e_TS \<circ> r_event) [] @ map e_TS ([event_example] @ [?e]))"
    by (simp add: event_example_def list_le_def)
  ultimately show ?thesis using audit_log_verifies [OF _ sha_example_hex] by fastforce
qed

theorem audit_tamper_evident_witness:
  "map r_event (filter (\<lambda>r. r_id r \<le> 1) (chained_after 0 [row_example, row_example\<lparr>r_id := 7, r_prev := None, r_hash := None\<rparr>])) =
   [event_example]"
proof -
  let ?rows = "[row_example, row_example\<lparr>r_id := 7, r_prev := None, r_hash := None\<rparr>]"
  have hash: "computeHash sha_example [] event_example \<noteq> []"
    by (rule computeHash_nonempty [OF sha_example_hex])
  have chained: "chained_after 0 ?rows = [row_example]" "chained_after 0 [row_example] = [row_example]"
    using hash by (simp_all add: chained_after_def by_id_def row_example_def coalesce_def)
  have "Verify sha_example None (db_example\<lparr>audit_events := ?rows\<rparr>) = Inr \<lparr>vr_OK = True, vr_FirstBadID = 0, vr_Checked = 1\<rparr>"
    using chained by (simp add: Verify_def db_example_def verifyHead_def row_mark_def)
      (simp add: row_example_def coalesce_def Let_def verifyHead_def)
  then show ?thesis
    using audit_tamper_evident [OF db_example_reach sha_example_hex, of ?rows "row_mark row_example" 0 _ "[]"] chained
    by (simp add: db_example_def row_mark_def) (simp add: row_example_def go_sized_def event_example_def)
qed

end
