(* ===== verification/Icu.thy ===== *)
theory Icu
  imports Go_Strings
begin

text \<open>
  The ICU message subset of the language packs: the parser of \<^verbatim>\<open>i18n/icu/parse.go\<close>, the renderer of
  \<^verbatim>\<open>i18n/icu/format.go\<close> and the placeholder inventory of \<^verbatim>\<open>i18n/icu/placeholders.go\<close>.

  The parser's position is the suffix still to be read; \<open>n\<close> is the length of the whole message, so the
  offset of an error is \<open>n\<close> less the length of the suffix.  The mutually recursive functions run on fuel,
  one unit per call or loop iteration; twice the length of the message and one is always enough.
\<close>

section \<open>Messages\<close>

datatype icu_node =
    Literal string
  | Argument string string string
  | Plural string "(string \<times> icu_node list) list"
  | Select string "(string \<times> icu_node list) list"
  | Pound
  | Tag string "icu_node list"

type_synonym icu_message = "icu_node list"

datatype icu_msg =
    UnmatchedBrace | NoOpeningTag | ExpectedName | UnterminatedBrace | ExpectedCommaOrBrace
  | ExpectedType | UnknownType string | ExpectedComma string | DuplicateKey string | ExpectedBrace string
  | MissingOther string string | ExpectedSelectKey | ExpectedDigits | OffsetUnsupported | ExpectedPluralKey
  | UnknownPluralKey string | InvalidTagName | TagAttributes string | MissingClosingTag string
  | InvalidClosingTag | TagMismatch string string

datatype icu_error = SyntaxError nat icu_msg | OutOfFuel

record icu_ctx =
  c_plural :: bool
  c_option :: bool
  c_tag :: string

definition isLetter :: "char \<Rightarrow> bool" where
  "isLetter b \<longleftrightarrow> in_rng 0x61 0x7A b \<or> in_rng 0x41 0x5A b"

section \<open>Lexical helpers\<close>

definition skipSpace :: "string \<Rightarrow> string" where
  "skipSpace s = dropWhile (\<lambda>c. c = CHR '' '' \<or> c = CHR 0x09 \<or> c = CHR 0x0A \<or> c = CHR 0x0D) s"

definition parseWord :: "string \<Rightarrow> string \<times> string" where
  "parseWord s = (takeWhile isLetter s, dropWhile isLetter s)"

definition name_char :: "bool \<Rightarrow> char \<Rightarrow> bool" where
  "name_char dashes b \<longleftrightarrow> isLetter b \<or> is_digit b \<or> b = CHR ''_'' \<or> (dashes \<and> b = CHR ''-'')"

definition parseName :: "bool \<Rightarrow> string \<Rightarrow> (string \<times> string) option" where
  "parseName dashes s = (case s of
      [] \<Rightarrow> None
    | b # bs \<Rightarrow>
        if \<not> isLetter b \<and> b \<noteq> CHR ''_'' then None
        else Some (b # takeWhile (name_char dashes) bs, dropWhile (name_char dashes) bs))"

fun quoted :: "string \<Rightarrow> string \<times> string" where
  "quoted [] = ([], [])"
| "quoted [b] = (if b = CHR 0x27 then ([], []) else ([b], []))"
| "quoted (b # d # s) =
     (if b = CHR 0x27 then
        (if d = CHR 0x27 then (let (t, r) = quoted s in (CHR 0x27 # t, r)) else ([], d # s))
      else (let (t, r) = quoted (d # s) in (b # t, r)))"

text \<open>\<open>apostrophe\<close> gets what follows the apostrophe and returns the text it stands for and the rest.\<close>

definition apostrophe :: "icu_ctx \<Rightarrow> string \<Rightarrow> string \<times> string" where
  "apostrophe c s = (case s of
      [] \<Rightarrow> ([CHR 0x27], [])
    | next # r \<Rightarrow>
        if next = CHR 0x27 then ([CHR 0x27], r)
        else if next = CHR ''{'' \<or> next = CHR ''}'' \<or> next = CHR ''<'' \<or> next = CHR ''|'' \<or> (next = CHR ''#'' \<and> c_plural c)
        then quoted s
        else ([CHR 0x27], s))"

definition offset_of :: "nat \<Rightarrow> string \<Rightarrow> nat" where
  "offset_of n rest = n - length rest"

definition errAt :: "nat \<Rightarrow> icu_msg \<Rightarrow> icu_error + 'a" where
  "errAt off msg = Inl (SyntaxError off msg)"

definition flush :: "icu_node list \<Rightarrow> string \<Rightarrow> icu_node list" where
  "flush out lit = (if lit \<noteq> [] then out @ [Literal lit] else out)"

definition parseKey :: "nat \<Rightarrow> string \<Rightarrow> string \<Rightarrow> icu_error + string \<times> string" where
  "parseKey n typ s =
     (if typ = ''select'' then
        (case parseName True s of None \<Rightarrow> errAt (offset_of n s) ExpectedSelectKey | Some (key, r) \<Rightarrow> Inr (key, r))
      else if s \<noteq> [] \<and> hd s = CHR ''='' then
        (let digits = takeWhile is_digit (tl s) in
         if digits = [] then errAt (offset_of n s) ExpectedDigits
         else Inr (CHR ''='' # digits, dropWhile is_digit (tl s)))
      else
        (case parseWord s of (word, r) \<Rightarrow>
           if word = ''offset'' then errAt (offset_of n s) OffsetUnsupported
           else if word = ''zero'' \<or> word = ''one'' \<or> word = ''two'' \<or> word = ''few'' \<or> word = ''many'' \<or> word = ''other''
           then Inr (word, r)
           else if word = [] then errAt (offset_of n s) ExpectedPluralKey
           else errAt (offset_of n s) (UnknownPluralKey word)))"

section \<open>The parser\<close>

text \<open>\<open>parseArgument\<close> up to the option list of a plural or select: a finished node, or the name, the keyword
  and where the options begin.\<close>

definition argumentType ::
  "nat \<Rightarrow> nat \<Rightarrow> string \<Rightarrow> string \<Rightarrow> icu_error + (icu_node \<times> string) + (string \<times> string \<times> string)" where
  "argumentType n start name s =
     (case parseWord s of (typ, s1) \<Rightarrow> (case skipSpace s1 of
        [] \<Rightarrow> errAt start UnterminatedBrace
      | ch # s2 \<Rightarrow>
          if typ = ''number'' \<or> typ = ''date'' \<or> typ = ''time'' then
            (if ch = CHR ''}'' then Inr (Inl (Argument name typ [], s2))
             else if ch \<noteq> CHR '','' then errAt (offset_of n (ch # s2)) ExpectedCommaOrBrace
             else (case dropWhile (\<lambda>b. b \<noteq> CHR ''}'') s2 of
                 [] \<Rightarrow> errAt start UnterminatedBrace
               | _ # s3 \<Rightarrow> Inr (Inl (Argument name typ (trim_space (takeWhile (\<lambda>b. b \<noteq> CHR ''}'') s2)), s3))))
          else if typ = ''plural'' \<or> typ = ''select'' then
            (if ch \<noteq> CHR '','' then errAt (offset_of n (ch # s2)) (ExpectedComma typ)
             else Inr (Inr (name, typ, s2)))
          else if typ = [] then errAt (offset_of n s) ExpectedType
          else errAt (offset_of n s) (UnknownType typ)))"

definition argumentHead ::
  "nat \<Rightarrow> nat \<Rightarrow> string \<Rightarrow> icu_error + (icu_node \<times> string) + (string \<times> string \<times> string)" where
  "argumentHead n start s =
     (let s1 = skipSpace s in
      case parseName False s1 of
        None \<Rightarrow> errAt (offset_of n s1) ExpectedName
      | Some (name, s2) \<Rightarrow> (case skipSpace s2 of
          [] \<Rightarrow> errAt start UnterminatedBrace
        | ch # s3 \<Rightarrow>
            if ch = CHR ''}'' then Inr (Inl (Argument name [] [], s3))
            else if ch \<noteq> CHR '','' then errAt (offset_of n (ch # s3)) ExpectedCommaOrBrace
            else argumentType n start name (skipSpace s3)))"

text \<open>One round of \<open>parseChoice\<close> up to the body of an option: the finished node, or the key of the next option.\<close>

definition choiceHead ::
  "nat \<Rightarrow> string \<Rightarrow> string \<Rightarrow> nat \<Rightarrow> (string \<times> icu_node list) list \<Rightarrow> string
     \<Rightarrow> icu_error + (icu_node \<times> string) + (string \<times> string)" where
  "choiceHead n name typ start opts s = (case skipSpace s of
      [] \<Rightarrow> errAt start UnterminatedBrace
    | ch # s1 \<Rightarrow>
        if ch = CHR ''}'' then
          (if ''other'' \<notin> fst ` set opts then errAt start (MissingOther typ name)
           else Inr (Inl (if typ = ''select'' then Select name opts else Plural name opts, s1)))
        else res_bind (parseKey n typ (ch # s1)) (\<lambda>(key, s2).
          if key \<in> fst ` set opts then errAt (offset_of n (ch # s1)) (DuplicateKey key)
          else (case skipSpace s2 of
              [] \<Rightarrow> errAt start UnterminatedBrace
            | b # s3 \<Rightarrow> if b \<noteq> CHR ''{'' then errAt (offset_of n (b # s3)) (ExpectedBrace key) else Inr (Inr (key, s3)))))"

definition tagHead :: "nat \<Rightarrow> nat \<Rightarrow> string \<Rightarrow> icu_error + string \<times> string" where
  "tagHead n start s = (case parseName True s of
      None \<Rightarrow> errAt start InvalidTagName
    | Some (name, s1) \<Rightarrow>
        if \<not> isLetter (hd name) then errAt start InvalidTagName
        else if s1 = [] \<or> hd s1 \<noteq> CHR ''>'' then errAt (offset_of n s1) (TagAttributes name)
        else Inr (name, tl s1))"

definition tagClose :: "nat \<Rightarrow> nat \<Rightarrow> string \<Rightarrow> icu_node list \<Rightarrow> string \<Rightarrow> icu_error + icu_node \<times> string" where
  "tagClose n start name body s =
     (if s = [] then errAt start (MissingClosingTag name)
      else (case (case parseName True (drop 2 s) of None \<Rightarrow> ([], drop 2 s) | Some p \<Rightarrow> p) of (closeName, s1) \<Rightarrow>
        if s1 = [] \<or> hd s1 \<noteq> CHR ''>'' then errAt (offset_of n s) InvalidClosingTag
        else if closeName \<noteq> name then errAt (offset_of n s) (TagMismatch closeName name)
        else Inr (Tag name body, tl s1)))"

datatype seq_item =
    EndOfInput
  | Text string string
  | OpenBrace string
  | OpenTag string
  | PoundSign string
  | Stop
  | Bad icu_msg

text \<open>The switch of \<open>parseSeq\<close> at the current character.\<close>

definition seqItem :: "icu_ctx \<Rightarrow> string \<Rightarrow> seq_item" where
  "seqItem c rest = (case rest of
      [] \<Rightarrow> EndOfInput
    | ch # cs \<Rightarrow>
        if ch = CHR 0x27 then (case apostrophe c cs of (t, r) \<Rightarrow> Text t r)
        else if ch = CHR ''{'' then OpenBrace cs
        else if ch = CHR ''}'' then (if c_option c then Stop else Bad UnmatchedBrace)
        else if ch = CHR ''#'' then (if c_plural c then PoundSign cs else Text ''#'' cs)
        else if ch = CHR ''<'' \<and> cs \<noteq> [] \<and> hd cs = CHR ''/'' then (if c_tag c \<noteq> [] then Stop else Bad NoOpeningTag)
        else if ch = CHR ''<'' \<and> cs \<noteq> [] \<and> isLetter (hd cs) then OpenTag cs
        else Text [ch] cs)"

function (sequential) parseSeq :: "nat \<Rightarrow> nat \<Rightarrow> icu_ctx \<Rightarrow> icu_node list \<Rightarrow> string \<Rightarrow> string \<Rightarrow> icu_error + icu_node list \<times> string"
and parseArgument :: "nat \<Rightarrow> nat \<Rightarrow> icu_ctx \<Rightarrow> string \<Rightarrow> icu_error + icu_node \<times> string"
and parseChoice :: "nat \<Rightarrow> nat \<Rightarrow> icu_ctx \<Rightarrow> string \<Rightarrow> string \<Rightarrow> nat \<Rightarrow> (string \<times> icu_node list) list \<Rightarrow> string
       \<Rightarrow> icu_error + icu_node \<times> string"
and parseTag :: "nat \<Rightarrow> nat \<Rightarrow> icu_ctx \<Rightarrow> string \<Rightarrow> icu_error + icu_node \<times> string" where
  "parseSeq 0 n c out lit rest = Inl OutOfFuel"
| "parseSeq (Suc k) n c out lit rest = (case seqItem c rest of
      EndOfInput \<Rightarrow> Inr (flush out lit, [])
    | Text t r \<Rightarrow> parseSeq k n c out (lit @ t) r
    | OpenBrace r \<Rightarrow>
        res_bind (parseArgument k n c r) (\<lambda>(node, r'). parseSeq k n c (flush out lit @ [node]) [] r')
    | OpenTag r \<Rightarrow>
        res_bind (parseTag k n c r) (\<lambda>(node, r'). parseSeq k n c (flush out lit @ [node]) [] r')
    | PoundSign r \<Rightarrow> parseSeq k n c (flush out lit @ [Pound]) [] r
    | Stop \<Rightarrow> Inr (flush out lit, rest)
    | Bad msg \<Rightarrow> errAt (offset_of n rest) msg)"
| "parseArgument 0 n c s = Inl OutOfFuel"
| "parseArgument (Suc k) n c s =
     (let start = offset_of n s - 1 in
      res_bind (argumentHead n start s) (\<lambda>h. case h of
          Inl done \<Rightarrow> Inr done
        | Inr (name, typ, s') \<Rightarrow> parseChoice k n c name typ start [] s'))"
| "parseChoice 0 n c name typ start opts s = Inl OutOfFuel"
| "parseChoice (Suc k) n c name typ start opts s =
     res_bind (choiceHead n name typ start opts s) (\<lambda>h. case h of
         Inl done \<Rightarrow> Inr done
       | Inr (key, s') \<Rightarrow>
           res_bind (parseSeq k n \<lparr>c_plural = c_plural c \<or> typ = ''plural'', c_option = True, c_tag = []\<rparr> [] [] s')
             (\<lambda>(value, s4). case s4 of
                 [] \<Rightarrow> errAt start UnterminatedBrace
               | _ # s5 \<Rightarrow> parseChoice k n c name typ start (opts @ [(key, value)]) s5))"
| "parseTag 0 n c s = Inl OutOfFuel"
| "parseTag (Suc k) n c s =
     (let start = offset_of n s - 1 in
      res_bind (tagHead n start s) (\<lambda>(name, s').
        res_bind (parseSeq k n \<lparr>c_plural = c_plural c, c_option = False, c_tag = name\<rparr> [] [] s')
          (\<lambda>(body, s3). tagClose n start name body s3)))"
  by pat_completeness auto
termination
  by (relation "measure (\<lambda>x. case x of
      Inl (Inl (k, _)) \<Rightarrow> k | Inl (Inr (k, _)) \<Rightarrow> k | Inr (Inl (k, _)) \<Rightarrow> k | Inr (Inr (k, _)) \<Rightarrow> k)") simp_all

declare parseSeq.simps(2) [simp del] parseArgument.simps(2) [simp del] parseChoice.simps(2) [simp del] parseTag.simps(2) [simp del]

definition Parse :: "string \<Rightarrow> icu_error + icu_message" where
  "Parse s = (case parseSeq (2 * length s + 1) (length s) \<lparr>c_plural = False, c_option = False, c_tag = []\<rparr> [] [] s of
      Inl e \<Rightarrow> Inl e
    | Inr (msg, rest) \<Rightarrow> if rest \<noteq> [] then errAt (offset_of (length s) rest) UnmatchedBrace else Inr msg)"

section \<open>Termination\<close>

lemma skipSpace_length: "length (skipSpace s) \<le> length s"
  by (simp add: skipSpace_def length_dropWhile_le)

lemma parseWord_length: "parseWord s = (w, r) \<Longrightarrow> length s = length w + length r"
  by (auto simp: parseWord_def simp flip: length_append)

lemma parseName_length: "parseName d s = Some (name, r) \<Longrightarrow> length r < length s \<and> name \<noteq> []"
  by (auto simp: parseName_def less_Suc_eq_le length_dropWhile_le split: list.splits if_splits)

lemma quoted_length: "length (snd (quoted s)) \<le> length s"
  by (induction s rule: quoted.induct) (auto split: prod.splits)

lemma apostrophe_length: "apostrophe c s = (t, r) \<Longrightarrow> length r \<le> length s"
  using quoted_length [of s] by (auto simp: apostrophe_def split: list.splits if_splits prod.splits)

lemma parseKey_length:
  assumes "parseKey n typ s = Inr (key, r)"
  shows "length r < length s"
proof -
  have "length (dropWhile is_digit (tl s)) < length s" if "s \<noteq> []"
    using that length_dropWhile_le [of is_digit "tl s"] by (cases s) auto
  with assms show ?thesis
    by (auto simp: parseKey_def errAt_def Let_def dest: parseName_length parseWord_length
        split: if_splits option.splits prod.splits)
qed

lemma argumentType_length:
  assumes "argumentType n start name s = Inr h"
  shows "case h of Inl (node, r) \<Rightarrow> length r < length s | Inr (_, _, r) \<Rightarrow> length r < length s"
proof -
  obtain ty s1 where w: "parseWord s = (ty, s1)" by (cases "parseWord s")
  have len: "length (skipSpace s1) \<le> length s"
    using parseWord_length [OF w] skipSpace_length [of s1] by simp
  obtain ch s2 where s2: "skipSpace s1 = ch # s2"
    using assms w by (auto simp: argumentType_def errAt_def split: list.splits)
  define tail where "tail = dropWhile (\<lambda>b. b \<noteq> CHR ''}'') s2"
  have dw: "length tail \<le> length s2"
    by (simp add: tail_def length_dropWhile_le)
  define A where "A \<longleftrightarrow> ty = ''number'' \<or> ty = ''date'' \<or> ty = ''time''"
  define B where "B \<longleftrightarrow> ty = ''plural'' \<or> ty = ''select''"
  note run = assms [unfolded argumentType_def w prod.case s2 list.case A_def [symmetric] B_def [symmetric] errAt_def,
      folded tail_def]
  show ?thesis
  proof (cases tail)
    case Nil
    with run len s2 show ?thesis by (auto split: if_splits)
  next
    case (Cons b s3)
    with run dw len s2 show ?thesis by (auto split: if_splits)
  qed
qed

lemma argumentHead_length:
  assumes "argumentHead n start s = Inr h"
  shows "case h of Inl (node, r) \<Rightarrow> length r < length s | Inr (_, _, r) \<Rightarrow> length r < length s"
proof -
  obtain name s2 where nm: "parseName False (skipSpace s) = Some (name, s2)"
    using assms by (auto simp: argumentHead_def errAt_def Let_def split: option.splits)
  have len: "length (skipSpace s2) < length s"
    using parseName_length [OF nm] skipSpace_length [of s] skipSpace_length [of s2] by simp
  obtain ch s3 where s3: "skipSpace s2 = ch # s3"
    using assms nm by (auto simp: argumentHead_def errAt_def Let_def split: list.splits)
  show ?thesis
  proof (cases "ch = CHR ''}''")
    case True
    with assms nm s3 len show ?thesis by (auto simp: argumentHead_def Let_def)
  next
    case False
    with assms nm s3 have "argumentType n start name (skipSpace s3) = Inr h"
      by (auto simp: argumentHead_def errAt_def Let_def split: if_splits)
    from argumentType_length [OF this] show ?thesis
      using len s3 skipSpace_length [of s3] by (auto split: sum.splits)
  qed
qed

lemma choiceHead_length:
  assumes "choiceHead n name typ start opts s = Inr h"
  shows "case h of Inl (node, r) \<Rightarrow> length r < length s | Inr (_, r) \<Rightarrow> length r < length s"
proof -
  obtain ch s1 where s: "skipSpace s = ch # s1"
    using assms by (auto simp: choiceHead_def errAt_def split: list.splits)
  then have len: "length (ch # s1) \<le> length s"
    using skipSpace_length [of s] by simp
  show ?thesis
  proof (cases "ch = CHR ''}''")
    case True
    with assms s len show ?thesis by (auto simp: choiceHead_def errAt_def split: if_splits)
  next
    case False
    with assms s obtain key s2 where k: "parseKey n typ (ch # s1) = Inr (key, s2)"
      by (auto simp: choiceHead_def)
    have "length (skipSpace s2) < length s"
      using parseKey_length [OF k] skipSpace_length [of s2] len by simp
    with assms s False k show ?thesis
      by (auto simp: choiceHead_def errAt_def split: list.splits if_splits)
  qed
qed

lemma tagHead_length: "tagHead n start s = Inr (name, r) \<Longrightarrow> length r < length s"
  by (auto simp: tagHead_def errAt_def dest!: parseName_length split: option.splits if_splits)

lemma tl_shorter: "x \<noteq> [] \<Longrightarrow> length x \<le> n \<Longrightarrow> length x - Suc 0 < n"
  by (cases x) auto

lemma tagClose_length:
  assumes "tagClose n start name body s = Inr (node, r)"
  shows "length r < length s"
proof -
  have "length (snd (case parseName True (drop 2 s) of None \<Rightarrow> ([], drop 2 s) | Some p \<Rightarrow> p)) \<le> length s"
    using parseName_length [of True "drop 2 s"] by (auto split: option.splits)
  with assms show ?thesis
    by (auto simp: tagClose_def errAt_def tl_shorter split: if_splits prod.splits)
qed

lemma seqItem_length:
  "seqItem c rest = Text t r \<Longrightarrow> length r < length rest"
  "seqItem c rest = OpenBrace r \<Longrightarrow> length r < length rest"
  "seqItem c rest = OpenTag r \<Longrightarrow> length r < length rest"
  "seqItem c rest = PoundSign r \<Longrightarrow> length r < length rest"
  by (auto simp: seqItem_def split: list.splits if_splits prod.splits dest: apostrophe_length)

lemma parser_consumes:
  "parseSeq k n c out lit rest = Inr (m, r) \<Longrightarrow> length r \<le> length rest"
  "parseArgument k n c s = Inr (node, r) \<Longrightarrow> length r < length s"
  "parseChoice k n c name ty start opts s = Inr (node, r) \<Longrightarrow> length r < length s"
  "parseTag k n c s = Inr (node, r) \<Longrightarrow> length r < length s"
proof (induction k n c out lit rest and k n c s and k n c name ty start opts s and k n c s
    arbitrary: m r and node r and node r and node r rule: parseSeq_parseArgument_parseChoice_parseTag.induct)
  case (2 k n c out lit rest)
  show ?case
  proof (cases "seqItem c rest")
    case (Text t r')
    with "2.prems" "2.IH" seqItem_length(1) [OF Text] show ?thesis
      by (fastforce simp: parseSeq.simps(2))
  next
    case (OpenBrace r')
    with "2.prems" "2.IH" seqItem_length(2) [OF OpenBrace] show ?thesis
      by (fastforce simp: parseSeq.simps(2))
  next
    case (OpenTag r')
    with "2.prems" "2.IH" seqItem_length(3) [OF OpenTag] show ?thesis
      by (fastforce simp: parseSeq.simps(2))
  next
    case (PoundSign r')
    with "2.prems" "2.IH" seqItem_length(4) [OF PoundSign] show ?thesis
      by (fastforce simp: parseSeq.simps(2))
  qed (use "2.prems" in \<open>simp_all add: parseSeq.simps(2) errAt_def\<close>)
next
  case (4 k n c s)
  from "4.prems" obtain h where h: "argumentHead n (offset_of n s - 1) s = Inr h"
    by (auto simp: parseArgument.simps(2) Let_def)
  with "4.prems" "4.IH" [OF refl h] argumentHead_length [OF h] show ?case
    by (fastforce simp: parseArgument.simps(2) Let_def split: sum.splits prod.splits)
next
  case (6 k n c name ty start opts s)
  from "6.prems" obtain h where h: "choiceHead n name ty start opts s = Inr h"
    by (auto simp: parseChoice.simps(2))
  with "6.prems" "6.IH" [OF h] choiceHead_length [OF h] show ?case
    by (fastforce simp: parseChoice.simps(2) errAt_def split: sum.splits prod.splits list.splits)
next
  case (8 k n c s)
  from "8.prems" obtain name s' body s3 where "tagHead n (offset_of n s - 1) s = Inr (name, s')"
    "parseSeq k n \<lparr>c_plural = c_plural c, c_option = False, c_tag = name\<rparr> [] [] s' = Inr (body, s3)"
    "tagClose n (offset_of n s - 1) name body s3 = Inr (node, r)"
    by (auto simp: parseTag.simps(2) Let_def)
  with "8.IH" tagHead_length tagClose_length show ?case
    by fastforce
qed simp_all

text \<open>A run is fine if it ends in a result or in a syntax error inside the message.\<close>

definition fine :: "nat \<Rightarrow> icu_error + 'a \<Rightarrow> bool" where
  "fine b r = (case r of Inr _ \<Rightarrow> True | Inl (SyntaxError off _) \<Rightarrow> off \<le> b | Inl OutOfFuel \<Rightarrow> False)"

lemma fine_simps [simp]:
  "fine b (Inr x)" "fine b (errAt off msg) \<longleftrightarrow> off \<le> b" "\<not> fine b (Inl OutOfFuel)" "n \<le> b \<Longrightarrow> offset_of n r \<le> b"
  by (simp_all add: fine_def errAt_def offset_of_def)

lemma fine_fuel: "fine b r \<Longrightarrow> r \<noteq> Inl OutOfFuel"
  by auto

lemma fine_bind:
  assumes "fine b x" "\<And>y. x = Inr y \<Longrightarrow> fine b (f y)"
  shows "fine b (res_bind x f)"
  using assms by (cases x) (auto simp: fine_def)

lemma argumentType_fine: "n \<le> b \<Longrightarrow> start \<le> b \<Longrightarrow> fine b (argumentType n start name s)"
  by (simp add: argumentType_def split: prod.split list.split)

lemma argumentHead_fine: "n \<le> b \<Longrightarrow> start \<le> b \<Longrightarrow> fine b (argumentHead n start s)"
  by (simp add: argumentHead_def Let_def argumentType_fine split: option.split prod.split list.split)

lemma parseKey_fine: "n \<le> b \<Longrightarrow> fine b (parseKey n ty s)"
  by (simp add: parseKey_def Let_def split: option.split prod.split)

lemma choiceHead_fine: "n \<le> b \<Longrightarrow> start \<le> b \<Longrightarrow> fine b (choiceHead n name ty start opts s)"
  unfolding choiceHead_def
  by (cases "skipSpace s") (simp_all add: fine_bind parseKey_fine split: prod.split list.split)

lemma tagHead_fine: "n \<le> b \<Longrightarrow> start \<le> b \<Longrightarrow> fine b (tagHead n start s)"
  by (simp add: tagHead_def split: option.split prod.split)

lemma tagClose_fine: "n \<le> b \<Longrightarrow> start \<le> b \<Longrightarrow> fine b (tagClose n start name body s)"
  by (simp add: tagClose_def split: option.split prod.split)

lemma head_shortens:
  "argumentHead n start s = Inr (Inr (name, ty, r)) \<Longrightarrow> length r < length s"
  "choiceHead n name ty start opts s = Inr (Inr (key, r)) \<Longrightarrow> length r < length s"
  using argumentHead_length [of n start s] choiceHead_length [of n name ty start opts s] by fastforce+

lemma start_offset: "n \<le> b \<Longrightarrow> offset_of n s - 1 \<le> b"
  by (simp add: offset_of_def)

lemma parser_fine:
  "2 * length rest + 1 \<le> k \<Longrightarrow> n \<le> b \<Longrightarrow> fine b (parseSeq k n c out lit rest)"
  "2 * length s + 2 \<le> k \<Longrightarrow> n \<le> b \<Longrightarrow> fine b (parseArgument k n c s)"
  "2 * length s + 1 \<le> k \<Longrightarrow> n \<le> b \<Longrightarrow> start \<le> b \<Longrightarrow> fine b (parseChoice k n c name ty start opts s)"
  "2 * length s + 2 \<le> k \<Longrightarrow> n \<le> b \<Longrightarrow> fine b (parseTag k n c s)"
proof (induction k n c out lit rest and k n c s and k n c name ty start opts s and k n c s
    rule: parseSeq_parseArgument_parseChoice_parseTag.induct)
  case (2 k n c out lit rest)
  show ?case
  proof (cases "seqItem c rest")
    case (OpenBrace r')
    note len = seqItem_length(2) [OF this]
    from OpenBrace "2.prems" "2.IH"(2,3) [OF OpenBrace] len show ?thesis
      by (fastforce simp: parseSeq.simps(2) intro!: fine_bind dest: parser_consumes(2))
  next
    case (OpenTag r')
    note len = seqItem_length(3) [OF this]
    from OpenTag "2.prems" "2.IH"(4,5) [OF OpenTag] len show ?thesis
      by (fastforce simp: parseSeq.simps(2) intro!: fine_bind dest: parser_consumes(4))
  qed (use "2.prems" "2.IH"(1,6) seqItem_length [of c rest] in \<open>simp_all add: parseSeq.simps(2)\<close>)
next
  case (4 k n c s)
  show ?case
    unfolding parseArgument.simps(2) Let_def
  proof (rule fine_bind [OF argumentHead_fine [OF "4.prems"(2) start_offset [OF "4.prems"(2)]]], goal_cases)
    case (1 h)
    show ?case
    proof (cases h)
      case (Inr q)
      obtain name ty s' where q: "q = (name, ty, s')" by (cases q)
      have "length s' < length s" using head_shortens(1) 1 Inr q by blast
      with "4.IH" [OF refl 1 Inr q [symmetric] refl] "4.prems" start_offset Inr q show ?thesis by simp
    qed simp
  qed
next
  case (6 k n c name ty start opts s)
  show ?case
    unfolding parseChoice.simps(2)
  proof (rule fine_bind [OF choiceHead_fine [OF "6.prems"(2,3)]], goal_cases)
    case (1 h)
    show ?case
    proof (cases h)
      case (Inr q)
      obtain key s' where q: "q = (key, s')" by (cases q)
      have len: "length s' < length s" using head_shortens(2) 1 Inr q by blast
      show ?thesis
        using "6.IH" [OF 1 Inr q [symmetric]] "6.prems" len Inr q
        by (fastforce intro!: fine_bind split: list.split dest: parser_consumes(1))
    qed simp
  qed
next
  case (8 k n c s)
  then show ?case
    unfolding parseTag.simps(2) Let_def
    by (fastforce intro!: fine_bind tagHead_fine tagClose_fine start_offset dest: tagHead_length)
qed simp_all

lemma parser_fuel:
  "2 * length rest + 1 \<le> k \<Longrightarrow> parseSeq k n c out lit rest \<noteq> Inl OutOfFuel"
  "2 * length s + 2 \<le> k \<Longrightarrow> parseArgument k n c s \<noteq> Inl OutOfFuel"
  "2 * length s + 1 \<le> k \<Longrightarrow> parseChoice k n c name ty start opts s \<noteq> Inl OutOfFuel"
  "2 * length s + 2 \<le> k \<Longrightarrow> parseTag k n c s \<noteq> Inl OutOfFuel"
  by (rule fine_fuel [OF parser_fine(1) [of _ _ _ n]] fine_fuel [OF parser_fine(2) [of _ _ _ n]]
      fine_fuel [OF parser_fine(3) [of _ _ _ "max n start"]] fine_fuel [OF parser_fine(4) [of _ _ _ n]]; simp)+

section \<open>What a parsed message looks like\<close>

definition is_name :: "bool \<Rightarrow> string \<Rightarrow> bool" where
  "is_name dashes s \<longleftrightarrow>
     s \<noteq> [] \<and> (isLetter (hd s) \<or> hd s = CHR ''_'') \<and> list_all (name_char dashes) (tl s)"

definition is_plural_key :: "string \<Rightarrow> bool" where
  "is_plural_key k \<longleftrightarrow>
     k \<in> {''zero'', ''one'', ''two'', ''few'', ''many'', ''other''}
     \<or> (\<exists>ds. k = CHR ''='' # ds \<and> ds \<noteq> [] \<and> list_all is_digit ds)"

definition is_style :: "string \<Rightarrow> bool" where
  "is_style st \<longleftrightarrow> trim_space st = st \<and> CHR ''}'' \<notin> set st"

definition keys_ok :: "(string \<Rightarrow> bool) \<Rightarrow> (string \<times> 'a) list \<Rightarrow> bool" where
  "keys_ok P opts \<longleftrightarrow> distinct (List.map fst opts) \<and> (\<forall>k \<in> fst ` set opts. P k)"

fun is_Literal :: "icu_node \<Rightarrow> bool" where
  "is_Literal (Literal t) = True"
| "is_Literal node = False"

fun spaced :: "icu_node list \<Rightarrow> bool" where
  "spaced [] = True"
| "spaced [x] = True"
| "spaced (x # y # zs) = (\<not> (is_Literal x \<and> is_Literal y) \<and> spaced (y # zs))"

fun wf_node :: "bool \<Rightarrow> icu_node \<Rightarrow> bool" where
  "wf_node p (Literal t) = (t \<noteq> [])"
| "wf_node p (Argument name fmt style) =
     (is_name False name
      \<and> (fmt = [] \<and> style = [] \<or> fmt \<in> {''number'', ''date'', ''time''} \<and> is_style style))"
| "wf_node p (Plural name opts) =
     (is_name False name \<and> keys_ok is_plural_key opts \<and> ''other'' \<in> fst ` set opts
      \<and> (\<forall>(k, v) \<in> set opts. spaced v \<and> (\<forall>x \<in> set v. wf_node True x)))"
| "wf_node p (Select name opts) =
     (is_name False name \<and> keys_ok (is_name True) opts \<and> ''other'' \<in> fst ` set opts
      \<and> (\<forall>(k, v) \<in> set opts. spaced v \<and> (\<forall>x \<in> set v. wf_node p x)))"
| "wf_node p Pound = p"
| "wf_node p (Tag name body) =
     (is_name True name \<and> isLetter (hd name) \<and> spaced body \<and> (\<forall>x \<in> set body. wf_node p x))"

definition wf_seq :: "bool \<Rightarrow> icu_node list \<Rightarrow> bool" where
  "wf_seq p ns \<longleftrightarrow> spaced ns \<and> (\<forall>x \<in> set ns. wf_node p x)"

definition ends_open :: "icu_node list \<Rightarrow> bool" where
  "ends_open ns \<longleftrightarrow> ns = [] \<or> \<not> is_Literal (List.last ns)"

definition wf_opts :: "bool \<Rightarrow> string \<Rightarrow> (string \<times> icu_node list) list \<Rightarrow> bool" where
  "wf_opts p ty opts \<longleftrightarrow>
     keys_ok (if ty = ''select'' then is_name True else is_plural_key) opts
     \<and> (\<forall>(k, v) \<in> set opts. wf_seq (p \<or> ty = ''plural'') v)"

lemma spaced_snoc: "spaced (xs @ [x]) \<longleftrightarrow> spaced xs \<and> (xs = [] \<or> \<not> (is_Literal (List.last xs) \<and> is_Literal x))"
  by (induction xs rule: spaced.induct) auto

lemma wf_seq_flush:
  assumes "wf_seq p out" "ends_open out"
  shows "wf_seq p (flush out lit)"
  using assms by (auto simp: flush_def wf_seq_def ends_open_def spaced_snoc)

lemma wf_seq_snoc:
  assumes "wf_seq p out" "wf_node p x" "\<not> is_Literal x"
  shows "wf_seq p (out @ [x])" "ends_open (out @ [x])"
  using assms by (auto simp: wf_seq_def ends_open_def spaced_snoc)

lemma wf_seq_flush_snoc:
  assumes "wf_seq p out" "ends_open out" "wf_node p x" "\<not> is_Literal x"
  shows "wf_seq p (flush out lit @ [x])" "ends_open (flush out lit @ [x])"
  using wf_seq_snoc [OF wf_seq_flush] assms by auto

lemma parseName_is_name:
  assumes "parseName d s = Some (name, r)"
  shows "is_name d name"
  using assms by (auto simp: parseName_def is_name_def list_all_iff split: list.splits if_splits dest: set_takeWhileD)

lemma trim_space_style: "is_style (trim_space (takeWhile (\<lambda>b. b \<noteq> CHR ''}'') s))"
  using trim_space_subset [of "takeWhile (\<lambda>b. b \<noteq> CHR ''}'') s"]
  by (auto simp: is_style_def trim_space_idem dest: set_takeWhileD)

lemma parseKey_key:
  assumes "parseKey n ty s = Inr (key, r)"
  shows "if ty = ''select'' then is_name True key else is_plural_key key"
proof (cases "ty = ''select''")
  case True
  with assms show ?thesis
    by (auto simp: parseKey_def errAt_def parseName_is_name split: option.splits)
next
  case False
  define ds where "ds = takeWhile is_digit (tl s)"
  have ds: "list_all is_digit ds" by (auto simp: ds_def list_all_iff dest: set_takeWhileD)
  define W where "W w \<longleftrightarrow> w = ''zero'' \<or> w = ''one'' \<or> w = ''two'' \<or> w = ''few'' \<or> w = ''many'' \<or> w = ''other''" for w
  obtain w r' where w: "parseWord s = (w, r')" by (cases "parseWord s")
  note run = assms [unfolded parseKey_def Let_def ds_def [symmetric] w prod.case W_def [symmetric] errAt_def if_not_P [OF False]]
  have "W key \<or> (key = CHR ''='' # ds \<and> ds \<noteq> [])"
    using run by (auto split: if_splits)
  moreover have "is_plural_key key" if "W key"
    using that unfolding W_def is_plural_key_def by (elim disjE) simp_all
  moreover have "is_plural_key (CHR ''='' # ds)" if "ds \<noteq> []"
    using that ds by (simp add: is_plural_key_def)
  ultimately show ?thesis using False by auto
qed

lemma argumentType_wf:
  assumes "argumentType n start name s = Inr h" and "is_name False name"
  shows "case h of Inl (node, r) \<Rightarrow> wf_node p node \<and> \<not> is_Literal node
    | Inr (name', ty, r) \<Rightarrow> name' = name \<and> (ty = ''plural'' \<or> ty = ''select'')"
proof -
  obtain ty s1 where w: "parseWord s = (ty, s1)" by (cases "parseWord s")
  obtain ch s2 where s2: "skipSpace s1 = ch # s2"
    using assms w by (auto simp: argumentType_def errAt_def split: list.splits)
  define tail where "tail = dropWhile (\<lambda>b. b \<noteq> CHR ''}'') s2"
  define st where "st = trim_space (takeWhile (\<lambda>b. b \<noteq> CHR ''}'') s2)"
  have st: "is_style st" by (simp add: st_def trim_space_style)
  have st0: "is_style []" by (simp add: is_style_def trim_space_def)
  define A where "A \<longleftrightarrow> ty = ''number'' \<or> ty = ''date'' \<or> ty = ''time''"
  define B where "B \<longleftrightarrow> ty = ''plural'' \<or> ty = ''select''"
  have A: "ty \<in> {''number'', ''date'', ''time''}" if A using that by (simp add: A_def)
  note run = assms(1) [unfolded argumentType_def w prod.case s2 list.case A_def [symmetric] B_def [symmetric] errAt_def,
      folded tail_def st_def]
  show ?thesis
  proof (cases A)
    case True
    with A have "wf_node p (Argument name ty st)" "wf_node p (Argument name ty [])"
      using st st0 assms(2) by simp_all
    with run True show ?thesis by (cases tail) (auto split: if_splits)
  next
    case False
    with run have "B" "h = Inr (name, ty, s2)" by (auto split: if_splits)
    then show ?thesis by (simp add: B_def)
  qed
qed

lemma argumentHead_wf:
  assumes "argumentHead n start s = Inr h"
  shows "case h of Inl (node, r) \<Rightarrow> wf_node p node \<and> \<not> is_Literal node
    | Inr (name, ty, r) \<Rightarrow> is_name False name \<and> (ty = ''plural'' \<or> ty = ''select'')"
proof -
  obtain name s2 where nm: "parseName False (skipSpace s) = Some (name, s2)"
    using assms by (auto simp: argumentHead_def errAt_def Let_def split: option.splits)
  note ok = parseName_is_name [OF nm]
  obtain ch s3 where s3: "skipSpace s2 = ch # s3"
    using assms nm by (auto simp: argumentHead_def errAt_def Let_def split: list.splits)
  show ?thesis
  proof (cases "ch = CHR ''}''")
    case True
    with assms nm s3 ok show ?thesis by (auto simp: argumentHead_def Let_def)
  next
    case False
    with assms nm s3 have "argumentType n start name (skipSpace s3) = Inr h"
      by (auto simp: argumentHead_def errAt_def Let_def split: if_splits)
    from argumentType_wf [OF this ok, of p] ok show ?thesis by (auto split: sum.splits)
  qed
qed

lemma choiceHead_done:
  assumes "choiceHead n name ty start opts s = Inr (Inl (node, r))"
  shows "''other'' \<in> fst ` set opts \<and> node = (if ty = ''select'' then Select name opts else Plural name opts)"
proof -
  define O' where "O' \<longleftrightarrow> ''other'' \<in> fst ` set opts"
  from assms show ?thesis
    unfolding choiceHead_def O'_def [symmetric]
    by (auto simp: errAt_def split: list.splits if_splits)
qed

lemma choiceHead_next:
  assumes "choiceHead n name ty start opts s = Inr (Inr (key, r))"
  shows "key \<notin> fst ` set opts \<and> (if ty = ''select'' then is_name True key else is_plural_key key)"
proof -
  define D where "D key \<longleftrightarrow> key \<in> fst ` set opts" for key
  obtain ch s1 where s: "skipSpace s = ch # s1"
    using assms by (auto simp: choiceHead_def errAt_def split: list.splits)
  obtain s2 where k: "parseKey n ty (ch # s1) = Inr (key, s2)" and "\<not> D key"
    using assms unfolding choiceHead_def s D_def [symmetric]
    by (auto simp: errAt_def split: list.splits if_splits)
  with parseKey_key [OF k] show ?thesis by (auto simp: D_def)
qed

lemma parser_sound:
  "parseSeq k n c out lit rest = Inr (m, r) \<Longrightarrow> wf_seq (c_plural c) out \<Longrightarrow> ends_open out \<Longrightarrow> wf_seq (c_plural c) m"
  "parseArgument k n c s = Inr (node, r) \<Longrightarrow> wf_node (c_plural c) node \<and> \<not> is_Literal node"
  "parseChoice k n c name ty start opts s = Inr (node, r) \<Longrightarrow> is_name False name \<Longrightarrow> ty = ''plural'' \<or> ty = ''select''
     \<Longrightarrow> wf_opts (c_plural c) ty opts \<Longrightarrow> wf_node (c_plural c) node \<and> \<not> is_Literal node"
  "parseTag k n c s = Inr (node, r) \<Longrightarrow> wf_node (c_plural c) node \<and> \<not> is_Literal node"
proof (induction k n c out lit rest and k n c s and k n c name ty start opts s and k n c s
    arbitrary: m r and node r and node r and node r rule: parseSeq_parseArgument_parseChoice_parseTag.induct)
  case (2 k n c out lit rest)
  show ?case
  proof (cases "seqItem c rest")
    case (Text t r')
    with 2 show ?thesis by (simp add: parseSeq.simps(2))
  next
    case (OpenBrace r')
    with 2 show ?thesis by (auto simp: parseSeq.simps(2) wf_seq_flush_snoc)
  next
    case (OpenTag r')
    with 2 show ?thesis by (auto simp: parseSeq.simps(2) wf_seq_flush_snoc)
  next
    case (PoundSign r')
    then have "c_plural c" by (auto simp: seqItem_def split: list.splits if_splits prod.splits)
    with PoundSign 2 show ?thesis by (auto simp: parseSeq.simps(2) wf_seq_flush_snoc)
  qed (use 2 in \<open>auto simp: parseSeq.simps(2) errAt_def wf_seq_flush\<close>)
next
  case (4 k n c s)
  from "4.prems" obtain h where h: "argumentHead n (offset_of n s - 1) s = Inr h"
    by (auto simp: parseArgument.simps(2) Let_def)
  with "4.prems" "4.IH" [OF refl h] argumentHead_wf [OF h, of "c_plural c"] show ?case
    by (fastforce simp: parseArgument.simps(2) Let_def wf_opts_def keys_ok_def split: sum.splits prod.splits)
next
  case (6 k n c name ty start opts s)
  let ?c = "\<lparr>c_plural = c_plural c \<or> ty = ''plural'', c_option = True, c_tag = []\<rparr>"
  from "6.prems"(1) obtain h where h: "choiceHead n name ty start opts s = Inr h"
    by (auto simp: parseChoice.simps(2))
  show ?case
  proof (cases h)
    case (Inl d)
    with h "6.prems"(1) have "choiceHead n name ty start opts s = Inr (Inl (node, r))"
      by (simp add: parseChoice.simps(2))
    from choiceHead_done [OF this] "6.prems" show ?thesis
      by (auto simp: wf_opts_def wf_seq_def)
  next
    case (Inr q)
    obtain key s' where q: "q = (key, s')" by (cases q)
    with h Inr "6.prems"(1) obtain v b s5 where b: "parseSeq k n ?c [] [] s' = Inr (v, b # s5)"
      and rec: "parseChoice k n c name ty start (opts @ [(key, v)]) s5 = Inr (node, r)"
      by (auto simp: parseChoice.simps(2) errAt_def split: list.splits)
    have "wf_seq (c_plural c \<or> ty = ''plural'') v"
      using "6.IH"(1) [OF h Inr q [symmetric] b] by (simp add: wf_seq_def ends_open_def)
    with "6.prems"(4) choiceHead_next [OF h [unfolded Inr q]]
    have "wf_opts (c_plural c) ty (opts @ [(key, v)])"
      by (auto simp: wf_opts_def keys_ok_def)
    with "6.IH"(2) [OF h Inr q [symmetric] b refl refl rec] "6.prems" show ?thesis by simp
  qed
next
  case (8 k n c s)
  from "8.prems" obtain name s' body s3 where h: "tagHead n (offset_of n s - 1) s = Inr (name, s')"
    and b: "parseSeq k n \<lparr>c_plural = c_plural c, c_option = False, c_tag = name\<rparr> [] [] s' = Inr (body, s3)"
    and cl: "tagClose n (offset_of n s - 1) name body s3 = Inr (node, r)"
    by (auto simp: parseTag.simps(2) Let_def)
  have "wf_seq (c_plural c) body"
    using "8.IH" [OF refl h refl b] by (simp add: wf_seq_def ends_open_def)
  moreover have "is_name True name \<and> isLetter (hd name)"
    using h by (auto simp: tagHead_def errAt_def parseName_is_name split: option.splits if_splits)
  moreover have "node = Tag name body"
    using cl by (auto simp: tagClose_def errAt_def split: if_splits prod.splits)
  ultimately show ?case by (auto simp: wf_seq_def)
qed simp_all

section \<open>The parser without fuel\<close>

lemma res_bind_mono:
  assumes "res_bind x f \<noteq> Inl e" "x \<noteq> Inl e \<Longrightarrow> x' = x" "\<And>y. x = Inr y \<Longrightarrow> f y \<noteq> Inl e \<Longrightarrow> f' y = f y"
  shows "res_bind x' f' = res_bind x f"
  using assms by (cases x) auto

lemma parser_mono:
  "parseSeq k n c out lit rest \<noteq> Inl OutOfFuel \<Longrightarrow> k \<le> k' \<Longrightarrow> parseSeq k' n c out lit rest = parseSeq k n c out lit rest"
  "parseArgument k n c s \<noteq> Inl OutOfFuel \<Longrightarrow> k \<le> k' \<Longrightarrow> parseArgument k' n c s = parseArgument k n c s"
  "parseChoice k n c name ty start opts s \<noteq> Inl OutOfFuel \<Longrightarrow> k \<le> k'
     \<Longrightarrow> parseChoice k' n c name ty start opts s = parseChoice k n c name ty start opts s"
  "parseTag k n c s \<noteq> Inl OutOfFuel \<Longrightarrow> k \<le> k' \<Longrightarrow> parseTag k' n c s = parseTag k n c s"
proof (induction k n c out lit rest and k n c s and k n c name ty start opts s and k n c s
    arbitrary: k' and k' and k' and k' rule: parseSeq_parseArgument_parseChoice_parseTag.induct)
  case (2 k n c out lit rest)
  from "2.prems"(2) obtain j where j: "k' = Suc j" "k \<le> j" by (cases k') auto
  show ?case
  proof (cases "seqItem c rest")
    case (OpenBrace r)
    with "2.prems"(1) "2.IH"(2) [OF OpenBrace _ j(2)] "2.IH"(3) [OF OpenBrace _ _ _ j(2)] show ?thesis
      unfolding j parseSeq.simps(2) OpenBrace seq_item.case
      by (intro res_bind_mono) (auto split: prod.splits)
  next
    case (OpenTag r)
    with "2.prems"(1) "2.IH"(4) [OF OpenTag _ j(2)] "2.IH"(5) [OF OpenTag _ _ _ j(2)] show ?thesis
      unfolding j parseSeq.simps(2) OpenTag seq_item.case
      by (intro res_bind_mono) (auto split: prod.splits)
  qed (use "2.prems"(1) "2.IH"(1,6) [OF _ _ j(2)] in \<open>simp_all add: j(1) parseSeq.simps(2)\<close>)
next
  case (4 k n c s)
  from "4.prems"(2) obtain j where j: "k' = Suc j" "k \<le> j" by (cases k') auto
  from "4.prems"(1) "4.IH" [OF refl _ _ _ _ _ j(2)] show ?case
    unfolding j parseArgument.simps(2) Let_def
    by (intro res_bind_mono) (auto split: sum.splits prod.splits)
next
  case (6 k n c name ty start opts s)
  from "6.prems"(2) obtain j where j: "k' = Suc j" "k \<le> j" by (cases k') auto
  show ?case
  proof (unfold j parseChoice.simps(2), rule res_bind_mono [OF "6.prems"(1) [unfolded parseChoice.simps(2)]], goal_cases)
    case (2 h)
    with "6.IH"(1) [OF 2(1) _ _ _ j(2)] "6.IH"(2) [OF 2(1) _ _ _ _ _ _ j(2)] show ?case
      by (cases h) (auto intro!: res_bind_mono split: list.splits)
  qed simp
next
  case (8 k n c s)
  from "8.prems"(2) obtain j where j: "k' = Suc j" "k \<le> j" by (cases k') auto
  from "8.prems"(1) "8.IH" [OF refl _ _ _ j(2)] show ?case
    unfolding j parseTag.simps(2) Let_def
    by (intro res_bind_mono) (auto intro!: res_bind_mono)
qed simp_all

definition p_seq :: "nat \<Rightarrow> icu_ctx \<Rightarrow> icu_node list \<Rightarrow> string \<Rightarrow> string \<Rightarrow> icu_error + icu_node list \<times> string" where
  "p_seq n c out lit rest = parseSeq (2 * length rest + 1) n c out lit rest"

definition p_arg :: "nat \<Rightarrow> icu_ctx \<Rightarrow> string \<Rightarrow> icu_error + icu_node \<times> string" where
  "p_arg n c s = parseArgument (2 * length s + 2) n c s"

definition p_choice :: "nat \<Rightarrow> icu_ctx \<Rightarrow> string \<Rightarrow> string \<Rightarrow> nat \<Rightarrow> (string \<times> icu_node list) list \<Rightarrow> string
    \<Rightarrow> icu_error + icu_node \<times> string" where
  "p_choice n c name ty start opts s = parseChoice (2 * length s + 1) n c name ty start opts s"

definition p_tag :: "nat \<Rightarrow> icu_ctx \<Rightarrow> string \<Rightarrow> icu_error + icu_node \<times> string" where
  "p_tag n c s = parseTag (2 * length s + 2) n c s"

lemma enough_fuel:
  "2 * length rest + 1 \<le> k \<Longrightarrow> parseSeq k n c out lit rest = p_seq n c out lit rest"
  "2 * length s + 2 \<le> k \<Longrightarrow> parseArgument k n c s = p_arg n c s"
  "2 * length s + 1 \<le> k \<Longrightarrow> parseChoice k n c name ty start opts s = p_choice n c name ty start opts s"
  "2 * length s + 2 \<le> k \<Longrightarrow> parseTag k n c s = p_tag n c s"
  unfolding p_seq_def p_arg_def p_choice_def p_tag_def
  by (rule parser_mono(1) [OF parser_fuel(1)] parser_mono(2) [OF parser_fuel(2)]
      parser_mono(3) [OF parser_fuel(3)] parser_mono(4) [OF parser_fuel(4)]; simp)+

lemma p_consumes:
  "p_arg n c s = Inr (node, r) \<Longrightarrow> length r < length s"
  "p_tag n c s = Inr (node, r) \<Longrightarrow> length r < length s"
  "p_seq n c out lit rest = Inr (m, r) \<Longrightarrow> length r \<le> length rest"
  by (auto simp: p_arg_def p_tag_def p_seq_def dest: parser_consumes)

lemma p_seq_step:
  "p_seq n c out lit rest = (case seqItem c rest of
      EndOfInput \<Rightarrow> Inr (flush out lit, [])
    | Text t r \<Rightarrow> p_seq n c out (lit @ t) r
    | OpenBrace r \<Rightarrow> res_bind (p_arg n c r) (\<lambda>(node, r'). p_seq n c (flush out lit @ [node]) [] r')
    | OpenTag r \<Rightarrow> res_bind (p_tag n c r) (\<lambda>(node, r'). p_seq n c (flush out lit @ [node]) [] r')
    | PoundSign r \<Rightarrow> p_seq n c (flush out lit @ [Pound]) [] r
    | Stop \<Rightarrow> Inr (flush out lit, rest)
    | Bad msg \<Rightarrow> errAt (offset_of n rest) msg)"
proof (cases "seqItem c rest")
  case (Text t r)
  then show ?thesis using seqItem_length(1) [OF Text] by (simp add: p_seq_def parseSeq.simps(2) enough_fuel(1))
next
  case (OpenBrace r)
  note len = seqItem_length(2) [OF this]
  have "res_bind (p_arg n c r) (\<lambda>(node, r'). parseSeq (2 * length rest) n c (flush out lit @ [node]) [] r')
    = res_bind (p_arg n c r) (\<lambda>(node, r'). p_seq n c (flush out lit @ [node]) [] r')"
    using len by (intro res_bind_cong) (auto simp: enough_fuel(1) dest!: p_consumes)
  with OpenBrace len show ?thesis
    by (subst p_seq_def) (simp add: parseSeq.simps(2) enough_fuel(2))
next
  case (OpenTag r)
  note len = seqItem_length(3) [OF this]
  have "res_bind (p_tag n c r) (\<lambda>(node, r'). parseSeq (2 * length rest) n c (flush out lit @ [node]) [] r')
    = res_bind (p_tag n c r) (\<lambda>(node, r'). p_seq n c (flush out lit @ [node]) [] r')"
    using len by (intro res_bind_cong) (auto simp: enough_fuel(1) dest!: p_consumes)
  with OpenTag len show ?thesis
    by (subst p_seq_def) (simp add: parseSeq.simps(2) enough_fuel(4))
next
  case (PoundSign r)
  then show ?thesis using seqItem_length(4) [OF PoundSign] by (simp add: p_seq_def parseSeq.simps(2) enough_fuel(1))
qed (simp_all add: p_seq_def parseSeq.simps(2))

lemma p_arg_step:
  "p_arg n c s = res_bind (argumentHead n (offset_of n s - 1) s) (\<lambda>h. case h of
       Inl done \<Rightarrow> Inr done
     | Inr (name, ty, s') \<Rightarrow> p_choice n c name ty (offset_of n s - 1) [] s')"
  unfolding p_arg_def add_2_eq_Suc' parseArgument.simps(2) Let_def
  by (intro res_bind_cong refl) (auto simp: enough_fuel(3) split: sum.splits dest: head_shortens(1))

lemma p_choice_step:
  "p_choice n c name ty start opts s = res_bind (choiceHead n name ty start opts s) (\<lambda>h. case h of
       Inl done \<Rightarrow> Inr done
     | Inr (key, s') \<Rightarrow>
         res_bind (p_seq n \<lparr>c_plural = c_plural c \<or> ty = ''plural'', c_option = True, c_tag = []\<rparr> [] [] s')
           (\<lambda>(v, s4). case s4 of
               [] \<Rightarrow> errAt start UnterminatedBrace
             | _ # s5 \<Rightarrow> p_choice n c name ty start (opts @ [(key, v)]) s5))"
proof -
  have *: "parseSeq (2 * length s) n c' [] [] s' = p_seq n c' [] [] s'"
    "p_seq n c' [] [] s' = Inr (v, b # s5) \<Longrightarrow> parseChoice (2 * length s) n c name ty start opts' s5 = p_choice n c name ty start opts' s5"
    if "choiceHead n name ty start opts s = Inr (Inr (key, s'))" for key s' c' v b s5 opts'
    using head_shortens(2) [OF that] p_consumes(3) [of n c' "[]" "[]" s' v "b # s5"] by (auto simp: enough_fuel)
  show ?thesis
    unfolding p_choice_def [of n c name ty start opts s] Suc_eq_plus1 [symmetric] parseChoice.simps(2)
    by (intro res_bind_cong refl) (auto simp: * split: sum.splits list.splits intro!: res_bind_cong)
qed

lemma p_tag_step:
  "p_tag n c s = res_bind (tagHead n (offset_of n s - 1) s) (\<lambda>(name, s').
     res_bind (p_seq n \<lparr>c_plural = c_plural c, c_option = False, c_tag = name\<rparr> [] [] s')
       (\<lambda>(body, s3). tagClose n (offset_of n s - 1) name body s3))"
  unfolding p_tag_def add_2_eq_Suc' parseTag.simps(2) Let_def
  by (intro res_bind_cong refl) (auto simp: enough_fuel(1) dest!: tagHead_length)

lemma Parse_p_seq:
  "Parse s = res_bind (p_seq (length s) \<lparr>c_plural = False, c_option = False, c_tag = []\<rparr> [] [] s) (\<lambda>(msg, rest).
     if rest \<noteq> [] then errAt (offset_of (length s) rest) UnmatchedBrace else Inr msg)"
  by (simp add: Parse_def p_seq_def res_bind_def)

section \<open>The parser is total and sound\<close>

text \<open>C30. Parsing a message always ends, without running out of fuel: with a syntax error at an offset inside the
  message, or with a well-formed message, in which literals are non-empty and never adjacent, a pound sign
  occurs only inside a plural, and every plural and select has distinct keys of its kind, among them \<open>other\<close>.
\<close>

theorem icu_parse_total:
  "case Parse s of
     Inr m \<Rightarrow> wf_seq False m
   | Inl (SyntaxError off msg) \<Rightarrow> off \<le> length s
   | Inl OutOfFuel \<Rightarrow> False"
proof (cases "Parse s")
  case (Inl e)
  have "fine (length s) (Parse s)"
    unfolding Parse_p_seq p_seq_def by (intro fine_bind parser_fine(1)) auto
  with Inl show ?thesis by (auto simp: fine_def split: icu_error.splits)
next
  case (Inr m)
  then obtain r where "parseSeq (2 * length s + 1) (length s) \<lparr>c_plural = False, c_option = False, c_tag = []\<rparr> [] [] s = Inr (m, r)"
    by (auto simp: Parse_def errAt_def split: sum.splits if_splits)
  from parser_sound(1) [OF this] Inr show ?thesis by (simp add: wf_seq_def ends_open_def)
qed

end
