(* ===== verification/Icu_Print.thy ===== *)
theory Icu_Print
  imports Icu
begin

text \<open>
  Completeness of the message parser: every well-formed message is the parse of its printed form.
\<close>

section \<open>Printing a message\<close>

definition special :: "bool \<Rightarrow> char \<Rightarrow> bool" where
  "special p b \<longleftrightarrow> b = CHR ''{'' \<or> b = CHR ''}'' \<or> b = CHR ''<'' \<or> (b = CHR ''#'' \<and> p)"

definition doubled :: "string \<Rightarrow> string" where
  "doubled s = concat (map (\<lambda>b. if b = CHR 0x27 then [b, b] else [b]) s)"

definition quote :: "bool \<Rightarrow> string \<Rightarrow> string" where
  "quote p t =
     (let plain = takeWhile (\<lambda>b. \<not> special p b) t; rest = dropWhile (\<lambda>b. \<not> special p b) t
      in doubled plain @ (if rest = [] then [] else CHR 0x27 # doubled rest @ [CHR 0x27]))"

fun print_node :: "bool \<Rightarrow> icu_node \<Rightarrow> string" where
  "print_node p (Literal t) = quote p t"
| "print_node p (Argument name fmt style) =
     ''{'' @ name @ (if fmt = [] then [] else '','' @ fmt @ (if style = [] then [] else '','' @ style)) @ ''}''"
| "print_node p (Plural name opts) =
     ''{'' @ name @ '',plural,'' @ concat (map (\<lambda>(k, v). k @ ''{'' @ concat (map (print_node True) v) @ ''}'') opts) @ ''}''"
| "print_node p (Select name opts) =
     ''{'' @ name @ '',select,'' @ concat (map (\<lambda>(k, v). k @ ''{'' @ concat (map (print_node p) v) @ ''}'') opts) @ ''}''"
| "print_node p Pound = ''#''"
| "print_node p (Tag name body) =
     ''<'' @ name @ ''>'' @ concat (map (print_node p) body) @ ''</'' @ name @ ''>''"

definition print_seq :: "bool \<Rightarrow> icu_node list \<Rightarrow> string" where
  "print_seq p ns = concat (map (print_node p) ns)"

definition print_opts :: "bool \<Rightarrow> (string \<times> icu_node list) list \<Rightarrow> string" where
  "print_opts p opts = concat (map (\<lambda>(k, v). k @ ''{'' @ print_seq p v @ ''}'') opts)"

definition print_message :: "icu_message \<Rightarrow> string" where
  "print_message m = print_seq False m"

section \<open>Lexical steps\<close>

definition punct :: "char \<Rightarrow> bool" where
  "punct b \<longleftrightarrow> b \<in> {CHR ''{'', CHR ''}'', CHR '','', CHR ''>'', CHR ''<'', CHR 0x27}"

lemma punct_not_name: "punct b \<Longrightarrow> \<not> name_char d b \<and> \<not> isLetter b \<and> \<not> is_digit b"
  by (auto simp: punct_def name_char_def isLetter_def is_digit_def in_rng_def)

lemma skipSpace_stop:
  "isLetter b \<or> b = CHR ''_'' \<or> b = CHR ''='' \<or> punct b \<Longrightarrow> skipSpace (b # s) = b # s"
  by (auto simp: skipSpace_def punct_def isLetter_def in_rng_def)

lemma parseName_append:
  assumes "is_name d name" "punct b"
  shows "parseName d (name @ b # r) = Some (name, b # r)"
proof -
  obtain a as where name: "name = a # as" "isLetter a \<or> a = CHR ''_''" "list_all (name_char d) as"
    using assms(1) by (cases name) (auto simp: is_name_def)
  have "takeWhile (name_char d) (as @ b # r) = as" "dropWhile (name_char d) (as @ b # r) = b # r"
    using name(3) punct_not_name [OF assms(2), of d]
    by (auto simp: list_all_iff takeWhile_append2 dropWhile_append2)
  with name show ?thesis by (simp add: parseName_def)
qed

lemma skipSpace_name: "is_name d name \<Longrightarrow> skipSpace (name @ s) = name @ s"
  by (cases name) (auto simp: is_name_def skipSpace_stop)

lemma parseWord_append:
  assumes "list_all isLetter w" "punct b"
  shows "parseWord (w @ b # r) = (w, b # r)"
  using assms punct_not_name [OF assms(2)]
  by (auto simp: parseWord_def list_all_iff takeWhile_append2 dropWhile_append2)

lemma plural_words_letters:
  "k \<in> {''zero'', ''one'', ''two'', ''few'', ''many'', ''other''} \<Longrightarrow> list_all isLetter k \<and> k \<noteq> []"
  by (auto simp: isLetter_def in_rng_def)

lemma parseKey_word:
  assumes "k \<in> {''zero'', ''one'', ''two'', ''few'', ''many'', ''other''}" "ty = ''plural''" "punct b"
  shows "parseKey n ty (k @ b # r) = Inr (k, b # r)"
proof -
  have w: "parseWord (k @ b # r) = (k, b # r)"
    using plural_words_letters [OF assms(1)] assms(3) by (simp add: parseWord_append)
  have word: "(k = ''zero'' \<or> k = ''one'' \<or> k = ''two'' \<or> k = ''few'' \<or> k = ''many'' \<or> k = ''other'') = True"
    using assms(1) by (elim insertE emptyE; simp)
  have "k \<noteq> ''offset''" "k \<noteq> []" "hd k \<noteq> CHR ''=''" 
    using assms(1) by (elim insertE emptyE; simp)+
  then show ?thesis by (simp add: parseKey_def w word assms(2))
qed

lemma parseKey_exact:
  assumes "list_all is_digit ds" "ds \<noteq> []" "ty = ''plural''" "punct b"
  shows "parseKey n ty ((CHR ''='' # ds) @ b # r) = Inr (CHR ''='' # ds, b # r)"
proof -
  have "takeWhile is_digit (ds @ b # r) = ds" "dropWhile is_digit (ds @ b # r) = b # r"
    using assms(1) punct_not_name [OF assms(4)] by (auto simp: list_all_iff takeWhile_append2 dropWhile_append2)
  with assms(2,3) show ?thesis by (simp add: parseKey_def)
qed

definition choice_key :: "string \<Rightarrow> string \<Rightarrow> bool" where
  "choice_key ty k \<longleftrightarrow> (if ty = ''select'' then is_name True k else is_plural_key k)"

lemma parseKey_append:
  assumes "choice_key ty k" "ty = ''plural'' \<or> ty = ''select''" "punct b"
  shows "parseKey n ty (k @ b # r) = Inr (k, b # r)"
proof (cases "ty = ''select''")
  case True
  with assms show ?thesis by (simp add: parseKey_def choice_key_def parseName_append)
next
  case False
  with assms have "ty = ''plural''" "is_plural_key k" by (auto simp: choice_key_def)
  with parseKey_word [of k ty b n r] parseKey_exact [of _ ty b n r] assms(3) show ?thesis
    unfolding is_plural_key_def by (metis append_Cons)
qed

lemma choice_key_start:
  assumes "choice_key ty k"
  shows "k \<noteq> []" "skipSpace (k @ s) = k @ s" "hd k \<noteq> CHR ''}''"
proof -
  have word: "k \<noteq> [] \<and> isLetter (hd k)" if "list_all isLetter k \<and> k \<noteq> []"
    using that by (cases k) auto
  have "k \<noteq> [] \<and> (isLetter (hd k) \<or> hd k = CHR ''_'' \<or> hd k = CHR ''='')"
  proof (cases "ty = ''select''")
    case True
    with assms show ?thesis by (auto simp: choice_key_def is_name_def)
  next
    case False
    with assms have "is_plural_key k" by (simp add: choice_key_def)
    then show ?thesis
      unfolding is_plural_key_def using word [OF plural_words_letters] by (metis list.sel(1) list.distinct(1))
  qed
  then obtain b bs where k: "k = b # bs" "isLetter b \<or> b = CHR ''_'' \<or> b = CHR ''=''"
    by (cases k) auto
  then show "k \<noteq> []" "skipSpace (k @ s) = k @ s" by (auto simp: skipSpace_stop)
  show "hd k \<noteq> CHR ''}''" using k by (auto simp: isLetter_def in_rng_def)
qed

section \<open>Literals\<close>

lemma quoted_doubled:
  assumes "r = [] \<or> hd r \<noteq> CHR 0x27"
  shows "quoted (doubled t @ CHR 0x27 # r) = (t, r)"
  using assms
proof (induction t)
  case Nil
  then show ?case by (cases r) (auto simp: doubled_def)
next
  case (Cons b t)
  have d: "doubled t @ CHR 0x27 # r \<noteq> []" by simp
  then obtain e es where e: "doubled t @ CHR 0x27 # r = e # es" by (cases "doubled t @ CHR 0x27 # r") auto
  show ?case
  proof (cases "b = CHR 0x27")
    case True
    with Cons show ?thesis by (simp add: doubled_def)
  next
    case False
    with Cons e show ?thesis by (simp add: doubled_def)
  qed
qed

lemma seqItem_plain:
  assumes "\<not> special (c_plural c) b"
  shows "seqItem c (doubled [b] @ r) = Text [b] r"
  using assms by (auto simp: doubled_def seqItem_def apostrophe_def special_def)

lemma p_seq_plain:
  assumes "list_all (\<lambda>b. \<not> special (c_plural c) b) t"
  shows "p_seq n c out lit (doubled t @ r) = p_seq n c out (lit @ t) r"
  using assms
proof (induction t arbitrary: lit)
  case Nil
  then show ?case by (simp add: doubled_def)
next
  case (Cons b t)
  have "doubled (b # t) @ r = doubled [b] @ doubled t @ r" by (simp add: doubled_def)
  with Cons show ?case by (subst p_seq_step) (simp add: seqItem_plain)
qed

lemma p_seq_quoted:
  assumes "special (c_plural c) b" "r = [] \<or> hd r \<noteq> CHR 0x27"
  shows "p_seq n c out lit (CHR 0x27 # doubled (b # t) @ CHR 0x27 # r) = p_seq n c out (lit @ b # t) r"
proof -
  have b: "b \<noteq> CHR 0x27" "doubled (b # t) = b # doubled t"
    using assms(1) by (auto simp: special_def doubled_def)
  have "seqItem c (CHR 0x27 # doubled (b # t) @ CHR 0x27 # r) = Text (b # t) r"
    using assms(1) quoted_doubled [OF assms(2), of "b # t"] b
    by (auto simp: seqItem_def apostrophe_def special_def)
  then show ?thesis by (subst p_seq_step) simp
qed

lemma p_seq_literal:
  assumes "r = [] \<or> hd r \<noteq> CHR 0x27"
  shows "p_seq n c out lit (quote (c_plural c) t @ r) = p_seq n c out (lit @ t) r"
proof -
  define plain where "plain = takeWhile (\<lambda>b. \<not> special (c_plural c) b) t"
  define rest where "rest = dropWhile (\<lambda>b. \<not> special (c_plural c) b) t"
  have t: "plain @ rest = t" by (simp add: plain_def rest_def)
  have ok: "list_all (\<lambda>b. \<not> special (c_plural c) b) plain" by (auto simp: plain_def list_all_iff dest: set_takeWhileD)
  show ?thesis
  proof (cases rest)
    case Nil
    with t ok show ?thesis by (simp add: quote_def flip: plain_def rest_def add: p_seq_plain)
  next
    case (Cons b bs)
    then have "special (c_plural c) b" by (simp add: rest_def dropWhile_eq_Cons_conv)
    with t ok Cons p_seq_quoted [OF _ assms] show ?thesis
      by (auto simp: quote_def p_seq_plain simp flip: plain_def rest_def)
  qed
qed

section \<open>Sequences\<close>

definition rt_node :: "bool \<Rightarrow> icu_node \<Rightarrow> bool" where
  "rt_node p x \<longleftrightarrow>
     (\<forall>n c out lit r. c_plural c = p \<longrightarrow> \<not> is_Literal x
        \<longrightarrow> p_seq n c out lit (print_node p x @ r) = p_seq n c (flush out lit @ [x]) [] r)"

definition at_stop :: "icu_ctx \<Rightarrow> string \<Rightarrow> bool" where
  "at_stop c r \<longleftrightarrow> seqItem c r = EndOfInput \<or> seqItem c r = Stop"

lemma at_stop_simps [simp]:
  "at_stop c []"
  "at_stop c (CHR ''}'' # r) = c_option c"
  "at_stop c (CHR ''<'' # CHR ''/'' # r) = (c_tag c \<noteq> [])"
  by (auto simp: at_stop_def seqItem_def)

lemma p_seq_stop:
  assumes "at_stop c r"
  shows "p_seq n c out lit r = Inr (flush out lit, r)"
proof -
  have "seqItem c r = EndOfInput \<Longrightarrow> r = []"
    by (auto simp: seqItem_def split: list.splits if_splits prod.splits)
  with assms show ?thesis by (subst p_seq_step) (auto simp: at_stop_def)
qed

lemma at_stop_start: "at_stop c r \<Longrightarrow> r = [] \<or> hd r \<noteq> CHR 0x27"
  by (cases r) (auto simp: at_stop_def seqItem_def split: prod.splits)

lemma print_node_start: "\<not> is_Literal x \<Longrightarrow> print_node p x \<noteq> [] \<and> hd (print_node p x) \<noteq> CHR 0x27"
  by (cases x) auto

lemma print_seq_start:
  assumes "ns = [] \<or> \<not> is_Literal (hd ns)" "at_stop c r"
  shows "print_seq p ns @ r = [] \<or> hd (print_seq p ns @ r) \<noteq> CHR 0x27"
  using assms at_stop_start [OF assms(2)] print_node_start [of "hd ns" p]
  by (cases ns) (auto simp: print_seq_def)

lemma p_seq_print:
  assumes "spaced ns" "\<forall>x \<in> set ns. wf_node p x \<and> rt_node p x" "c_plural c = p" "at_stop c r"
    and "lit = [] \<or> ns = [] \<or> \<not> is_Literal (hd ns)"
  shows "p_seq n c out lit (print_seq p ns @ r) = Inr (flush out lit @ ns, r)"
  using assms
proof (induction ns arbitrary: out lit)
  case Nil
  then show ?case by (simp add: print_seq_def p_seq_stop)
next
  case (Cons x xs)
  have sp: "spaced xs" using Cons.prems(1) by (cases xs) auto
  show ?case
  proof (cases "is_Literal x")
    case True
    then obtain t where x: "x = Literal t" by (cases x) auto
    have nl: "xs = [] \<or> \<not> is_Literal (hd xs)" using Cons.prems(1) x by (cases xs) auto
    have "p_seq n c out lit (print_seq p (x # xs) @ r) = p_seq n c out t (print_seq p xs @ r)"
      using p_seq_literal [OF print_seq_start [OF nl Cons.prems(4)], of n c out lit t] Cons.prems x
      by (simp add: print_seq_def)
    also have "\<dots> = Inr (flush out t @ xs, r)"
      using Cons.IH [OF sp, of t out] Cons.prems nl by simp
    finally show ?thesis using Cons.prems x by (simp add: flush_def)
  next
    case False
    have "p_seq n c out lit (print_seq p (x # xs) @ r) = p_seq n c (flush out lit @ [x]) [] (print_seq p xs @ r)"
      using Cons.prems False by (simp add: print_seq_def rt_node_def)
    also have "\<dots> = Inr (flush (flush out lit @ [x]) [] @ xs, r)"
      using Cons.IH [OF sp, of "[]"] Cons.prems by simp
    finally show ?thesis by (simp add: flush_def)
  qed
qed

section \<open>Nodes\<close>

lemma choiceHead_key:
  assumes "choice_key ty k" "ty = ''plural'' \<or> ty = ''select''" "k \<notin> fst ` set opts"
  shows "choiceHead n name ty start opts (k @ CHR ''{'' # s) = Inr (Inr (k, s))"
proof -
  note k = choice_key_start [OF assms(1)]
  obtain b bs where b: "k = b # bs" "b \<noteq> CHR ''}''" using k(1,3) by (cases k) auto
  have "skipSpace (k @ CHR ''{'' # s) = b # (bs @ CHR ''{'' # s)" using k(2) b by simp
  moreover have "parseKey n ty (b # (bs @ CHR ''{'' # s)) = Inr (k, CHR ''{'' # s)"
    using parseKey_append [OF assms(1,2), of "CHR ''{''" n s] b by (simp add: punct_def)
  ultimately show ?thesis
    using assms(3) b(2) by (simp add: choiceHead_def skipSpace_stop punct_def)
qed

lemma choiceHead_close:
  assumes "''other'' \<in> fst ` set opts"
  shows "choiceHead n name ty start opts (CHR ''}'' # r)
    = Inr (Inl (if ty = ''select'' then Select name opts else Plural name opts, r))"
  using assms by (simp add: choiceHead_def skipSpace_stop punct_def)

lemma p_choice_print:
  assumes "ty = ''plural'' \<or> ty = ''select''" "p = (c_plural c \<or> ty = ''plural'')"
    and "\<forall>(k, v) \<in> set os. choice_key ty k \<and> spaced v \<and> (\<forall>x \<in> set v. wf_node p x \<and> rt_node p x)"
    and "distinct (map fst (opts @ os))" "''other'' \<in> fst ` set (opts @ os)"
  shows "p_choice n c name ty start opts (print_opts p os @ CHR ''}'' # r)
    = Inr (if ty = ''select'' then Select name (opts @ os) else Plural name (opts @ os), r)"
  using assms(3-5)
proof (induction os arbitrary: opts)
  case Nil
  then show ?case by (subst p_choice_step) (simp add: print_opts_def choiceHead_close)
next
  case (Cons opt os)
  obtain k v where o: "opt = (k, v)" by (cases opt)
  let ?c = "\<lparr>c_plural = c_plural c \<or> ty = ''plural'', c_option = True, c_tag = []\<rparr>"
  have h: "choiceHead n name ty start opts (k @ CHR ''{'' # s) = Inr (Inr (k, s))" for s
    using Cons.prems o assms(1) by (intro choiceHead_key) auto
  have b: "p_seq n ?c [] [] (print_seq p v @ CHR ''}'' # s) = Inr (v, CHR ''}'' # s)" for s
    using p_seq_print [of v p ?c "CHR ''}'' # s" "[]" n "[]"] Cons.prems o assms(2) by (simp add: flush_def)
  have split: "print_opts p (opt # os) @ CHR ''}'' # r = k @ CHR ''{'' # (print_seq p v @ CHR ''}'' # (print_opts p os @ CHR ''}'' # r))"
    by (simp add: print_opts_def o)
  show ?case
    unfolding split using Cons.IH [of "opts @ [(k, v)]"] Cons.prems o
    by (subst p_choice_step) (simp add: h b)
qed

lemma argumentHead_plain:
  assumes "is_name False name"
  shows "argumentHead n start (name @ CHR ''}'' # r) = Inr (Inl (Argument name [] [], r))"
  using assms by (simp add: argumentHead_def Let_def skipSpace_name parseName_append skipSpace_stop punct_def)

lemma argumentHead_comma:
  assumes "is_name False name" "list_all isLetter w" "w \<noteq> []"
  shows "argumentHead n start (name @ CHR '','' # w @ r) = argumentType n start name (w @ r)"
proof -
  have "skipSpace (w @ r) = w @ r" using assms(2,3) by (cases w) (simp_all add: skipSpace_stop)
  with assms(1) show ?thesis
    by (simp add: argumentHead_def Let_def skipSpace_name parseName_append skipSpace_stop punct_def)
qed

lemma keyword_letters:
  "w \<in> {''number'', ''date'', ''time''} \<Longrightarrow> list_all isLetter w \<and> w \<noteq> []"
  "w \<in> {''plural'', ''select''} \<Longrightarrow> list_all isLetter w \<and> w \<noteq> []"
  by (elim insertE emptyE; simp add: isLetter_def in_rng_def)+

lemma argumentType_word:
  assumes "list_all isLetter w" "punct b"
  shows "argumentType n start name (w @ b # r) =
    (if w = ''number'' \<or> w = ''date'' \<or> w = ''time'' then
       (if b = CHR ''}'' then Inr (Inl (Argument name w [], r))
        else if b \<noteq> CHR '','' then errAt (offset_of n (b # r)) ExpectedCommaOrBrace
        else (case dropWhile (\<lambda>b. b \<noteq> CHR ''}'') r of
            [] \<Rightarrow> errAt start UnterminatedBrace
          | _ # s3 \<Rightarrow> Inr (Inl (Argument name w (trim_space (takeWhile (\<lambda>b. b \<noteq> CHR ''}'') r)), s3))))
     else if w = ''plural'' \<or> w = ''select'' then
       (if b \<noteq> CHR '','' then errAt (offset_of n (b # r)) (ExpectedComma w) else Inr (Inr (name, w, r)))
     else if w = [] then errAt (offset_of n (w @ b # r)) ExpectedType
     else errAt (offset_of n (w @ b # r)) (UnknownType w))"
  using assms by (simp add: argumentType_def parseWord_append skipSpace_stop)

lemma argumentType_style:
  assumes "w \<in> {''number'', ''date'', ''time''}" "is_style st"
  shows "argumentType n start name (w @ (if st = [] then [] else CHR '','' # st) @ CHR ''}'' # r)
    = Inr (Inl (Argument name w st, r))"
proof -
  have w: "list_all isLetter w" using keyword_letters(1) [OF assms(1)] by (rule conjunct1)
  have nb: "b \<noteq> CHR ''}''" if "b \<in> set st" for b using assms(2) that by (auto simp: is_style_def)
  have tw: "takeWhile (\<lambda>b. b \<noteq> CHR ''}'') (st @ CHR ''}'' # r) = st"
    "dropWhile (\<lambda>b. b \<noteq> CHR ''}'') (st @ CHR ''}'' # r) = CHR ''}'' # r"
    using nb by (simp_all add: takeWhile_append2 dropWhile_append2)
  have cond: "(w = ''number'' \<or> w = ''date'' \<or> w = ''time'') = True"
    using assms(1) by (elim insertE emptyE; simp)
  show ?thesis
    using argumentType_word [OF w, of "CHR ''}''" n start name r] assms(2)
      argumentType_word [OF w, of "CHR '',''" n start name "st @ CHR ''}'' # r"]
    by (simp add: punct_def cond tw is_style_def)
qed

lemma argumentType_choice:
  assumes "w \<in> {''plural'', ''select''}"
  shows "argumentType n start name (w @ CHR '','' # r) = Inr (Inr (name, w, r))"
proof -
  have "w \<noteq> ''number'' \<and> w \<noteq> ''date'' \<and> w \<noteq> ''time''" "(w = ''plural'' \<or> w = ''select'') = True"
    using assms by (elim insertE emptyE; simp)+
  then show ?thesis
    using argumentType_word [of w "CHR '',''" n start name r] keyword_letters(2) [OF assms] by (simp add: punct_def)
qed

lemma rt_braces:
  assumes "\<And>n c r. c_plural c = p \<Longrightarrow> p_arg n c (s @ r) = Inr (x, r)" and "print_node p x = CHR ''{'' # s"
  shows "rt_node p x"
  unfolding rt_node_def
proof (intro allI impI)
  fix n and c :: icu_ctx and out lit r assume "c_plural c = p"
  with assms show "p_seq n c out lit (print_node p x @ r) = p_seq n c (flush out lit @ [x]) [] r"
    by (subst p_seq_step) (simp add: seqItem_def)
qed

lemma rt_argument:
  assumes "wf_node p (Argument name fmt st)"
  shows "rt_node p (Argument name fmt st)"
proof (cases "fmt = []")
  case True
  with assms show ?thesis
    by (intro rt_braces [where s = "name @ ''}''"]) (simp_all add: p_arg_step argumentHead_plain)
next
  case False
  with assms have f: "fmt \<in> {''number'', ''date'', ''time''}" "is_style st" "is_name False name"
    by (simp_all only: wf_node.simps) simp_all
  have w: "list_all isLetter fmt" using keyword_letters(1) [OF f(1)] by (rule conjunct1)
  show ?thesis
    using argumentHead_comma [OF f(3) w False] argumentType_style [OF f(1,2)] False
    by (intro rt_braces [where s = "name @ CHR '','' # fmt @ (if st = [] then [] else CHR '','' # st) @ ''}''"])
      (simp_all add: p_arg_step)
qed

lemma rt_choice:
  assumes ty: "ty = ''plural'' \<and> q \<or> ty = ''select'' \<and> q = p" and name: "is_name False name"
    and x: "x = (if ty = ''select'' then Select name os else Plural name os)"
    and os: "\<forall>(k, v) \<in> set os. choice_key ty k \<and> spaced v \<and> (\<forall>x \<in> set v. wf_node q x \<and> rt_node q x)"
    and keys: "distinct (map fst os)" "''other'' \<in> fst ` set os"
  shows "rt_node p x"
proof (rule rt_braces [where s = "name @ CHR '','' # ty @ CHR '','' # print_opts q os @ ''}''"])
  have ty': "ty \<in> {''plural'', ''select''}" using ty by (elim disjE conjE) simp_all
  note w = keyword_letters(2) [OF ty', THEN conjunct1] keyword_letters(2) [OF ty', THEN conjunct2]
  fix n and c :: icu_ctx and r assume c: "c_plural c = p"
  have q: "q = (c_plural c \<or> ty = ''plural'')" using ty c by (elim disjE) simp_all
  have h: "argumentHead n st (name @ CHR '','' # ty @ CHR '','' # s) = Inr (Inr (name, ty, s))" for st s
    by (simp add: argumentHead_comma [OF name w] argumentType_choice [OF ty'])
  have "p_choice n c name ty st [] (print_opts q os @ CHR ''}'' # r) = Inr (x, r)" for st
    using p_choice_print [OF _ q os, of "[]" n name st r] ty' keys by (simp add: x)
  then show "p_arg n c ((name @ CHR '','' # ty @ CHR '','' # print_opts q os @ ''}'') @ r) = Inr (x, r)"
    by (simp add: p_arg_step h)
next
  show "print_node p x = CHR ''{'' # (name @ CHR '','' # ty @ CHR '','' # print_opts q os @ ''}'')"
    using ty x by (auto simp: print_opts_def print_seq_def)
qed

lemma rt_tag:
  assumes "is_name True name" "isLetter (hd name)" "spaced body" "\<forall>x \<in> set body. wf_node p x \<and> rt_node p x"
  shows "rt_node p (Tag name body)"
  unfolding rt_node_def
proof (intro allI impI)
  fix n and c :: icu_ctx and out lit r assume c: "c_plural c = p"
  have name: "name \<noteq> []" using assms(1) by (simp add: is_name_def)
  let ?c = "\<lparr>c_plural = c_plural c, c_option = False, c_tag = name\<rparr>"
  have h: "tagHead n st (name @ CHR ''>'' # s) = Inr (name, s)" for st s
    using assms(1,2) by (simp add: tagHead_def parseName_append punct_def)
  have b: "p_seq n ?c [] [] (print_seq p body @ CHR ''<'' # CHR ''/'' # s) = Inr (body, CHR ''<'' # CHR ''/'' # s)" for s
    using p_seq_print [of body p ?c "CHR ''<'' # CHR ''/'' # s" "[]" n "[]"] assms(3,4) c name by (simp add: flush_def)
  have cl: "tagClose n st name body (CHR ''<'' # CHR ''/'' # name @ CHR ''>'' # s) = Inr (Tag name body, s)" for st s
    using assms(1) by (simp add: tagClose_def parseName_append punct_def)
  have "p_tag n c (name @ CHR ''>'' # print_seq p body @ CHR ''<'' # CHR ''/'' # name @ CHR ''>'' # r) = Inr (Tag name body, r)"
    by (simp add: p_tag_step h b cl)
  moreover have "seqItem c (CHR ''<'' # name @ s) = OpenTag (name @ s)" for s
    using assms(2) name by (cases name) (auto simp: seqItem_def isLetter_def in_rng_def)
  ultimately show "p_seq n c out lit (print_node p (Tag name body) @ r) = p_seq n c (flush out lit @ [Tag name body]) [] r"
    by (subst p_seq_step) (simp add: print_seq_def)
qed

lemma wf_rt_node: "wf_node p x \<Longrightarrow> rt_node p x"
proof (induction p x rule: wf_node.induct)
  case (1 p t)
  then show ?case by (simp add: rt_node_def)
next
  case (2 p name fmt st)
  then show ?case by (rule rt_argument)
next
  case (3 p name opts)
  then show ?case
    by (intro rt_choice [where ty = "''plural''" and q = True and os = opts])
      (auto simp: keys_ok_def choice_key_def)
next
  case (4 p name opts)
  then show ?case
    by (intro rt_choice [where ty = "''select''" and q = p and os = opts])
      (auto simp: keys_ok_def choice_key_def)
next
  case (5 p)
  then show ?case by (auto simp: rt_node_def seqItem_def p_seq_step [of _ _ _ _ "CHR ''#'' # _"])
next
  case (6 p name body)
  then show ?case by (intro rt_tag) auto
qed

text \<open>C31. The parser accepts every well-formed message: printed with the apostrophe quoting of the message syntax,
  it parses back to itself, whatever characters its literals hold.
\<close>

theorem icu_print_roundtrip:
  assumes "wf_seq False m"
  shows "Parse (print_message m) = Inr m"
  using p_seq_print [of m False "\<lparr>c_plural = False, c_option = False, c_tag = []\<rparr>" "[]" "[]"] assms wf_rt_node
  by (simp add: Parse_p_seq print_message_def wf_seq_def flush_def)

theorem icu_print_roundtrip_witness:
  "Parse (print_message [Literal ''it's {'', Plural ''n'' [(''one'', [Pound, Literal '' < 2'']), (''other'', [Pound])]])
     = Inr [Literal ''it's {'', Plural ''n'' [(''one'', [Pound, Literal '' < 2'']), (''other'', [Pound])]]"
  by (rule icu_print_roundtrip) (simp add: wf_seq_def is_name_def isLetter_def in_rng_def keys_ok_def is_plural_key_def)

end
