(* ===== verification/Icu_Format.thy ===== *)
theory Icu_Format
  imports Icu_Print
begin

text \<open>
  Rendering a parsed message (\<^verbatim>\<open>i18n/icu/format.go\<close>) and listing its placeholders
  (\<^verbatim>\<open>i18n/icu/placeholders.go\<close>).

  The standard library's number and time formatting and the CLDR tables of golang.org/x/text are fields of
  a \<open>text_lib\<close> record: floating point numbers, times, language tags and any further argument type are
  type parameters.
\<close>

section \<open>Argument values and the text libraries\<close>

datatype ('f, 't, 'o) arg_val =
    VInt int
  | VUint nat
  | VFloat32 'f
  | VFloat64 'f
  | VString string
  | VTime 't
  | VOther 'o

datatype 'f number_val = NInt int | NFloat 'f

datatype plural_form = PZero | POne | PTwo | PFew | PMany | POther

record ('f, 't, 'o, 'l) text_lib =
  l_sprint :: "('f, 't, 'o) arg_val \<Rightarrow> string"
  l_formatFloat32 :: "'f \<Rightarrow> string"
  l_formatFloat64 :: "'f \<Rightarrow> string"
  l_parseFloat :: "string \<Rightarrow> 'f \<times> bool"
  l_finite :: "'f \<Rightarrow> bool"
  l_equalsInt :: "'f \<Rightarrow> int \<Rightarrow> bool"
  l_decimal :: "'l \<Rightarrow> 'f number_val \<Rightarrow> string"
  l_matchPlural :: "'l \<Rightarrow> int \<times> nat \<times> nat \<times> int \<times> int \<Rightarrow> plural_form"
  l_date :: "'t \<Rightarrow> string"
  l_clock :: "'t \<Rightarrow> string"

section \<open>Numbers\<close>

definition toNumber :: "('f, 't, 'o, 'l) text_lib \<Rightarrow> ('f, 't, 'o) arg_val \<Rightarrow> ('f number_val \<times> string) option" where
  "toNumber L v = (case v of
      VInt i \<Rightarrow> Some (NInt i, itoa i)
    | VUint n \<Rightarrow> Some (NInt (int n), digits_of n)
    | VFloat32 f \<Rightarrow> if \<not> l_finite L f then None else Some (NFloat f, l_formatFloat32 L f)
    | VFloat64 f \<Rightarrow> if \<not> l_finite L f then None else Some (NFloat f, l_formatFloat64 L f)
    | VString s \<Rightarrow> (case l_parseFloat L (trim_space s) of (f, ok) \<Rightarrow>
        if \<not> ok \<or> \<not> l_finite L f then None else Some (NFloat f, l_formatFloat64 L f))
    | VTime t \<Rightarrow> None
    | VOther x \<Rightarrow> None)"

definition tailInt :: "string \<Rightarrow> int" where
  "tailInt s =
     (let s' = (if length s > 7 then drop (length s - 7) s else s)
      in case parse_int64 s' of Some n \<Rightarrow> n | None \<Rightarrow> 0)"

text \<open>The CLDR operands i, v, w, f and t of a plain decimal string.\<close>

definition operands :: "string \<Rightarrow> int \<times> nat \<times> nat \<times> int \<times> int" where
  "operands text =
     (let text' = (if has_prefix text ''-'' then tl text else text);
          intPart = takeWhile (\<lambda>c. c \<noteq> CHR ''.'') text';
          frac = tl (dropWhile (\<lambda>c. c \<noteq> CHR ''.'') text');
          fracTrim = rev (dropWhile (\<lambda>c. c = CHR ''0'') (rev frac))
      in (tailInt intPart, length frac, length fracTrim, tailInt frac, tailInt fracTrim))"

definition pluralKey :: "('f, 't, 'o, 'l) text_lib \<Rightarrow> 'l \<Rightarrow> string \<Rightarrow> string" where
  "pluralKey L tag text = (case l_matchPlural L tag (operands text) of
      PZero \<Rightarrow> ''zero'' | POne \<Rightarrow> ''one'' | PTwo \<Rightarrow> ''two'' | PFew \<Rightarrow> ''few'' | PMany \<Rightarrow> ''many'' | POther \<Rightarrow> ''other'')"

section \<open>Options\<close>

type_synonym icu_option = "string \<times> icu_node list"

definition findOption :: "icu_option list \<Rightarrow> string \<Rightarrow> icu_option option" where
  "findOption opts key = List.find (\<lambda>o'. fst o' = key) opts"

definition exactOption :: "('f, 't, 'o, 'l) text_lib \<Rightarrow> icu_option list \<Rightarrow> 'f \<Rightarrow> icu_option option" where
  "exactOption L opts x =
     List.find (\<lambda>o'. has_prefix (fst o') ''='' \<and>
       (case parse_int64 (tl (fst o')) of Some n \<Rightarrow> l_equalsInt L x n | None \<Rightarrow> False)) opts"

definition or_else :: "'a option \<Rightarrow> 'a option \<Rightarrow> 'a option" where
  "or_else a b = (case a of Some x \<Rightarrow> Some x | None \<Rightarrow> b)"

text \<open>The branch a plural renders and the text \<open>#\<close> stands for in it.\<close>

definition pluralBranch ::
  "('f, 't, 'o, 'l) text_lib \<Rightarrow> 'l \<Rightarrow> icu_option list \<Rightarrow> ('f, 't, 'o) arg_val \<Rightarrow> icu_option option \<times> string" where
  "pluralBranch L tag opts v = (case toNumber L v of
      None \<Rightarrow> (findOption opts ''other'', l_sprint L v)
    | Some (val, text) \<Rightarrow>
        (or_else (exactOption L opts (fst (l_parseFloat L text)))
           (or_else (findOption opts (pluralKey L tag text)) (findOption opts ''other'')),
         l_decimal L tag val))"

definition selectBranch ::
  "('f, 't, 'o, 'l) text_lib \<Rightarrow> icu_option list \<Rightarrow> ('f, 't, 'o) arg_val option \<Rightarrow> icu_option option" where
  "selectBranch L opts v = (case v of
      None \<Rightarrow> findOption opts ''other''
    | Some v \<Rightarrow> or_else (findOption opts (l_sprint L v)) (findOption opts ''other''))"

definition formatArgument ::
  "('f, 't, 'o, 'l) text_lib \<Rightarrow> ('f, 't, 'o) arg_val \<Rightarrow> string \<Rightarrow> 'l \<Rightarrow> string" where
  "formatArgument L v fmt tag =
     (if fmt = ''number'' then (case toNumber L v of Some (val, _) \<Rightarrow> l_decimal L tag val | None \<Rightarrow> l_sprint L v)
      else if fmt = ''date'' then (case v of VTime t \<Rightarrow> l_date L t | _ \<Rightarrow> l_sprint L v)
      else if fmt = ''time'' then (case v of VTime t \<Rightarrow> l_clock L t | _ \<Rightarrow> l_sprint L v)
      else l_sprint L v)"

lemma findOption_in: "findOption opts key = Some o' \<Longrightarrow> o' \<in> set opts"
  by (auto simp: findOption_def find_Some_iff)

lemma exactOption_in: "exactOption L opts x = Some o' \<Longrightarrow> o' \<in> set opts"
  by (auto simp: exactOption_def find_Some_iff)

lemma or_else_Some: "or_else a b = Some x \<Longrightarrow> a = Some x \<or> b = Some x"
  by (auto simp: or_else_def split: option.splits)

lemma pluralBranch_in: "pluralBranch L tag opts v = (Some o', pound) \<Longrightarrow> o' \<in> set opts"
  by (auto simp: pluralBranch_def split: option.splits dest!: or_else_Some dest: findOption_in exactOption_in)

lemma selectBranch_in: "selectBranch L opts v = Some o' \<Longrightarrow> o' \<in> set opts"
  by (auto simp: selectBranch_def split: option.splits dest!: or_else_Some dest: findOption_in)

section \<open>Rendering\<close>

lemma option_size_less:
  assumes "(k, v) \<in> set opts" "x \<in> set v"
  shows "size x < size (Plural name opts)" "size x < size (Select name opts)"
proof -
  have "size x \<le> size_list size v" using assms(2) by (simp add: size_list_estimation')
  moreover have "size_prod (\<lambda>_. 0) (size_list size) (k, v) \<le> size_list (size_prod (\<lambda>_. 0) (size_list size)) opts"
    using size_list_estimation' [OF assms(1), of "size_prod (\<lambda>_. 0) (size_list size) (k, v)" "size_prod (\<lambda>_. 0) (size_list size)"] by simp
  ultimately show "size x < size (Plural name opts)" "size x < size (Select name opts)" by simp_all
qed

lemma plural_size:
  assumes "pluralBranch L tag opts v = (Some (key, val), pound)" "x \<in> set val"
  shows "size x < size (Plural name opts)"
  using option_size_less(1) [OF pluralBranch_in [OF assms(1)] assms(2)] .

lemma select_size:
  assumes "selectBranch L opts v = Some (key, val)" "x \<in> set val"
  shows "size x < size (Select name opts)"
  using option_size_less(2) [OF selectBranch_in [OF assms(1)] assms(2)] .

record ('f, 't, 'o) render_state =
  st_args :: "string \<Rightarrow> ('f, 't, 'o) arg_val option"
  st_pound :: "string option"

type_synonym ('f, 't, 'o) icu_args = "string \<Rightarrow> ('f, 't, 'o) arg_val option"

text \<open>One round of the loop of \<open>writeNodes\<close>; \<open>concat_map\<close> is the loop itself.\<close>

definition placeholder :: "string \<Rightarrow> string" where
  "placeholder name = ''{'' @ name @ ''}''"

function writeNode :: "('f, 't, 'o, 'l) text_lib \<Rightarrow> 'l \<Rightarrow> ('f, 't, 'o) render_state \<Rightarrow> icu_node \<Rightarrow> string" where
  "writeNode L tag st (Literal t) = t"
| "writeNode L tag st Pound = (case st_pound st of Some p \<Rightarrow> p | None \<Rightarrow> ''#'')"
| "writeNode L tag st (Tag name body) =
     ''<'' @ name @ ''>'' @ concat (map (writeNode L tag st) body) @ ''</'' @ name @ ''>''"
| "writeNode L tag st (Argument name fmt style) = (case st_args st name of
      None \<Rightarrow> placeholder name
    | Some v \<Rightarrow> formatArgument L v fmt tag)"
| "writeNode L tag st (Plural name opts) = (case st_args st name of
      None \<Rightarrow> placeholder name
    | Some v \<Rightarrow> (case pluralBranch L tag opts v of
        (None, pound) \<Rightarrow> []
      | (Some (key, value), pound) \<Rightarrow> concat (map (writeNode L tag (st\<lparr>st_pound := Some pound\<rparr>)) value)))"
| "writeNode L tag st (Select name opts) = (case selectBranch L opts (st_args st name) of
      None \<Rightarrow> []
    | Some (key, value) \<Rightarrow> concat (map (writeNode L tag st) value))"
  by pat_completeness auto
termination
proof (relation "measure (\<lambda>(L, tag, st, n). size n)", goal_cases)
  case (2 L tag st name body x)
  then show ?case by (simp add: size_list_estimation' less_Suc_eq_le)
next
  case 3
  then show ?case by (simp del: icu_node.size) (metis plural_size)
next
  case 4
  then show ?case by (simp del: icu_node.size) (metis select_size)
qed simp

definition writeNodes :: "('f, 't, 'o, 'l) text_lib \<Rightarrow> 'l \<Rightarrow> ('f, 't, 'o) render_state \<Rightarrow> icu_node list \<Rightarrow> string" where
  "writeNodes L tag st nodes = concat (map (writeNode L tag st) nodes)"

definition Format :: "('f, 't, 'o, 'l) text_lib \<Rightarrow> icu_message \<Rightarrow> 'l \<Rightarrow> ('f, 't, 'o) icu_args \<Rightarrow> string" where
  "Format L m tag args = writeNodes L tag \<lparr>st_args = args, st_pound = None\<rparr> m"

section \<open>Placeholders\<close>

fun node_arguments :: "icu_node \<Rightarrow> string set" where
  "node_arguments (Argument name fmt style) = {name}"
| "node_arguments (Plural name opts) = insert name (\<Union>(k, v) \<in> set opts. \<Union>x \<in> set v. node_arguments x)"
| "node_arguments (Select name opts) = insert name (\<Union>(k, v) \<in> set opts. \<Union>x \<in> set v. node_arguments x)"
| "node_arguments (Tag name body) = (\<Union>x \<in> set body. node_arguments x)"
| "node_arguments (Literal t) = {}"
| "node_arguments Pound = {}"

definition Arguments :: "icu_message \<Rightarrow> string set" where
  "Arguments m = (\<Union>x \<in> set m. node_arguments x)"

fun node_tags :: "icu_node \<Rightarrow> string set" where
  "node_tags (Argument name fmt style) = {}"
| "node_tags (Plural name opts) = (\<Union>(k, v) \<in> set opts. \<Union>x \<in> set v. node_tags x)"
| "node_tags (Select name opts) = (\<Union>(k, v) \<in> set opts. \<Union>x \<in> set v. node_tags x)"
| "node_tags (Tag name body) = insert name (\<Union>x \<in> set body. node_tags x)"
| "node_tags (Literal t) = {}"
| "node_tags Pound = {}"

definition Tags :: "icu_message \<Rightarrow> string set" where
  "Tags m = (\<Union>x \<in> set m. node_tags x)"

section \<open>Rendering depends on the listed placeholders only\<close>

lemma node_arguments_option:
  assumes "(k, v) \<in> set opts" "x \<in> set v"
  shows "node_arguments x \<subseteq> node_arguments (Plural name opts)" "node_arguments x \<subseteq> node_arguments (Select name opts)"
  using assms by fastforce+

lemma writeNode_cong:
  assumes "\<forall>a \<in> node_arguments x. st_args st a = st_args st' a" "st_pound st = st_pound st'"
  shows "writeNode L tag st x = writeNode L tag st' x"
  using assms
proof (induction L tag st x arbitrary: st' rule: writeNode.induct)
  case (3 L tag st name body)
  have "writeNode L tag st x = writeNode L tag st' x" if "x \<in> set body" for x
    using 3 that by auto
  then show ?case by (simp cong: map_cong)
next
  case (5 L tag st name opts)
  show ?case
  proof (cases "st_args st name")
    case None
    with 5 show ?thesis by simp
  next
    case (Some v)
    obtain b pound where br: "pluralBranch L tag opts v = (b, pound)" by (cases "pluralBranch L tag opts v")
    show ?thesis
    proof (cases b)
      case None
      with br Some "5.prems" show ?thesis by simp
    next
      case b: (Some kv)
      obtain k val where kv: "kv = (k, val)" by (cases kv)
      have "(k, val) \<in> set opts" using pluralBranch_in br b kv by metis
      then have "writeNode L tag (st\<lparr>st_pound := Some pound\<rparr>) x = writeNode L tag (st'\<lparr>st_pound := Some pound\<rparr>) x"
        if "x \<in> set val" for x
        using "5.IH" [OF Some br [symmetric] b kv [symmetric] that, of "st'\<lparr>st_pound := Some pound\<rparr>"] "5.prems"(1)
          node_arguments_option(1) [OF _ that, of k opts name] by (simp add: subset_iff del: node_arguments.simps)
      then show ?thesis using Some "5.prems" br b kv by (simp cong: map_cong)
    qed
  qed
next
  case (6 L tag st name opts)
  show ?case
  proof (cases "selectBranch L opts (st_args st name)")
    case None
    with 6 show ?thesis by simp
  next
    case (Some kv)
    obtain k val where kv: "kv = (k, val)" by (cases kv)
    have "(k, val) \<in> set opts" using selectBranch_in [OF Some] kv by simp
    then have "writeNode L tag st x = writeNode L tag st' x" if "x \<in> set val" for x
      using "6.IH" [OF Some kv [symmetric] that, of st'] "6.prems" node_arguments_option(2) [OF _ that, of k opts name]
      by (simp add: subset_iff del: node_arguments.simps)
    then show ?thesis using Some "6.prems" kv by (simp cong: map_cong)
  qed
qed auto

text \<open>\<open>Arguments\<close> misses nothing: rendering reads no argument it does not list.\<close>

lemma Format_agree:
  assumes "\<forall>a \<in> Arguments m. args a = args' a"
  shows "Format L m tag args = Format L m tag args'"
proof -
  have "writeNode L tag \<lparr>st_args = args, st_pound = None\<rparr> x = writeNode L tag \<lparr>st_args = args', st_pound = None\<rparr> x"
    if "x \<in> set m" for x
    using assms that by (intro writeNode_cong) (auto simp: Arguments_def)
  then show ?thesis by (simp add: Format_def writeNodes_def cong: map_cong)
qed

section \<open>Branches\<close>

lemma findOption_key:
  assumes "key \<in> fst ` set opts"
  shows "\<exists>v. findOption opts key = Some (key, v)"
proof -
  have "List.find (\<lambda>o'. fst o' = key) opts \<noteq> None" using assms by (auto simp: find_None_iff)
  then obtain kv where kv: "findOption opts key = Some kv" by (auto simp: findOption_def)
  then have "fst kv = key" by (auto simp: findOption_def find_Some_iff)
  with kv show ?thesis by (cases kv) auto
qed

lemma plural_branch_priority:
  assumes "''other'' \<in> fst ` set opts" "toNumber L v = Some (val, text)"
  obtains key body where "pluralBranch L tag opts v = (Some (key, body), l_decimal L tag val)" "(key, body) \<in> set opts"
    "if exactOption L opts (fst (l_parseFloat L text)) \<noteq> None
     then exactOption L opts (fst (l_parseFloat L text)) = Some (key, body)
     else key = (if pluralKey L tag text \<in> fst ` set opts then pluralKey L tag text else ''other'')"
proof -
  let ?e = "exactOption L opts (fst (l_parseFloat L text))"
  let ?k = "pluralKey L tag text"
  obtain vo where other: "findOption opts ''other'' = Some (''other'', vo)" using findOption_key [OF assms(1)] by blast
  show thesis
  proof (cases ?e)
    case (Some kb)
    then show thesis
      using that [of "fst kb" "snd kb"] exactOption_in [OF Some] assms(2) by (simp add: pluralBranch_def or_else_def)
  next
    case None
    show thesis
    proof (cases "?k \<in> fst ` set opts")
      case True
      then obtain b where b: "findOption opts ?k = Some (?k, b)" using findOption_key by blast
      then show thesis
        using that [of ?k b] findOption_in [OF b] assms(2) None True by (simp add: pluralBranch_def or_else_def)
    next
      case False
      then have "findOption opts ?k = None" by (force simp: findOption_def find_None_iff)
      then show thesis
        using that [of "''other''" vo] findOption_in [OF other] other assms(2) None False
        by (simp add: pluralBranch_def or_else_def)
    qed
  qed
qed

section \<open>Plural operands\<close>

lemma digits_value_app: "digits_value (xs @ ys) = digits_value xs * 10 ^ length ys + digits_value ys"
  by (induction ys rule: rev_induct) (simp_all add: digits_value_append digits_value_def [of "[]"] flip: append_assoc)

lemma digits_value_bound: "list_all is_digit ds \<Longrightarrow> digits_value ds < 10 ^ length ds"
proof (induction ds rule: rev_induct)
  case (snoc d ds)
  then have "of_char d - 0x30 < (10 :: nat)" by (auto simp: is_digit_def in_rng_def)
  with snoc show ?case by (simp add: digits_value_append)
qed (simp add: digits_value_def)

lemma mod_drop:
  assumes "a mod m = (0 :: nat)" "b < m"
  shows "(a + b) mod m = b"
  using assms mod_add_left_eq [of a m b] by simp

lemma tailInt_digits:
  assumes "list_all is_digit ds" "ds \<noteq> []"
  shows "tailInt ds = int (digits_value ds mod 10 ^ 7)"
proof -
  let ?d = "drop (length ds - 7) ds"
  have "length ds - 7 < length ds" using assms(2) by (intro diff_less) simp_all
  then have d: "list_all is_digit ?d" "?d \<noteq> []" "length ?d \<le> 7"
    using assms(1) by (auto simp: list_all_iff dest: in_set_dropD)
  have bound: "digits_value ?d < 10 ^ 7"
    using digits_value_bound [OF d(1)] power_increasing [OF d(3), of "10 :: nat"] by simp
  obtain c cs where c: "?d = c # cs" using d(2) by (cases ?d) auto
  have "c \<noteq> CHR ''-'' \<and> c \<noteq> CHR ''+''" using d(1) c by (auto simp: is_digit_def in_rng_def)
  then have p: "parse_int64 ?d = Some (int (digits_value ?d))"
    using d(1) c bound by (simp add: parse_int64_def parse_digits_def)
  have "digits_value ds = digits_value (take (length ds - 7) ds) * 10 ^ length ?d + digits_value ?d"
    using digits_value_app [of "take (length ds - 7) ds" ?d] by simp
  moreover have "digits_value (take (length ds - 7) ds) * 10 ^ length ?d mod 10 ^ 7 = 0"
    by (cases "length ds \<le> 7") (simp_all add: digits_value_def)
  ultimately have "digits_value ds mod 10 ^ 7 = digits_value ?d"
    using bound by (simp only: mod_drop)
  moreover have "(if length ds > 7 then ?d else ds) = ?d" by simp
  ultimately show ?thesis using p by (simp only: tailInt_def Let_def option.case)
qed

lemma operands_int: "operands (itoa i) = (\<bar>i\<bar> mod 10 ^ 7, 0, 0, 0, 0)"
proof -
  have ds: "list_all is_digit (digits_of n)" "digits_of n \<noteq> []" "digits_value (digits_of n) = n" for n
    using digits_of_correct by auto
  have nodot: "takeWhile (\<lambda>c. c \<noteq> CHR ''.'') (digits_of n) = digits_of n" "dropWhile (\<lambda>c. c \<noteq> CHR ''.'') (digits_of n) = []" for n
    using ds(1) [of n] by (auto simp: list_all_iff is_digit_def in_rng_def)
  have pre: "\<not> has_prefix (digits_of n) ''-''" for n
    using digits_of_head [of n] ds(2) [of n] by (cases "digits_of n") (auto simp: has_prefix_def)
  have t: "tailInt (digits_of n) = int n mod 10 ^ 7" for n
    using tailInt_digits [OF ds(1,2)] ds(3) by (simp add: zmod_int)
  have t0: "tailInt [] = 0" by (simp add: tailInt_def parse_int64_def)
  show ?thesis
    by (simp add: operands_def itoa_def Let_def nodot pre t t0) (simp add: has_prefix_def nodot t t0)
qed

end
