(* ===== verification/Lang_Pack.thy ===== *)
theory Lang_Pack
  imports Icu_Format Complex_Main "HOL-Library.Char_ord" "HOL-Library.List_Lexorder"
begin

text \<open>
  Language packs (\<^verbatim>\<open>i18n/pack\<close>) and the catalog that serves them (\<^verbatim>\<open>i18n/catalog\<close>).

  A pack is an association list with distinct ids; Go iterates its map in an unspecified order, and nothing
  below depends on it.  SHA-256, the directory listing with its decoded files, and the language tags of
  golang.org/x/text are arguments.  A completeness is a rational: the code's quotient of two machine numbers
  compares with the threshold exactly as the rational does, since the numerator is an integer far below
  \<open>2 ^ 53\<close> and the threshold is 80.
\<close>

section \<open>Entries\<close>

record pack_entry =
  e_defaultMessage :: string
  e_description :: string
  e_sourceHash :: string

record pack_meta =
  m_tag :: string
  m_nativeName :: string
  m_englishName :: string
  m_direction :: string

type_synonym lang_pack = "(string \<times> pack_entry) list"

definition empty_entry :: pack_entry where
  "empty_entry = \<lparr>e_defaultMessage = [], e_description = [], e_sourceHash = []\<rparr>"

definition SourceHash :: "(string \<Rightarrow> string) \<Rightarrow> string \<Rightarrow> string" where
  "SourceHash sha256_hex english = take 12 (sha256_hex english)"

definition ListingThreshold :: rat where
  "ListingThreshold = 80"

definition all_rng :: "nat \<Rightarrow> nat \<Rightarrow> string \<Rightarrow> bool" where
  "all_rng lo hi s = list_all (in_rng lo hi) s"

definition is_lang :: "string \<Rightarrow> bool" where
  "is_lang s \<longleftrightarrow> length s \<in> {2, 3} \<and> all_rng 0x61 0x7A s"

definition is_script :: "string \<Rightarrow> bool" where
  "is_script s \<longleftrightarrow> length s = 4 \<and> in_rng 0x41 0x5A (hd s) \<and> all_rng 0x61 0x7A (tl s)"

definition is_region :: "string \<Rightarrow> bool" where
  "is_region s \<longleftrightarrow> length s = 2 \<and> all_rng 0x41 0x5A s \<or> length s = 3 \<and> all_rng 0x30 0x39 s"

definition ValidTag :: "string \<Rightarrow> bool" where
  "ValidTag tag = (case split_on CHR ''-'' tag of
      [l] \<Rightarrow> is_lang l
    | [l, x] \<Rightarrow> is_lang l \<and> (is_script x \<or> is_region x)
    | [l, s, r] \<Rightarrow> is_lang l \<and> is_script s \<and> is_region r
    | _ \<Rightarrow> False)"

section \<open>Markup\<close>

datatype markup_problem = BadTag string | HtmlEntity | JavascriptLink | ScriptTag

definition is_alnum :: "char \<Rightarrow> bool" where
  "is_alnum b \<longleftrightarrow> isLetter b \<or> is_digit b"

definition entity_here :: "string \<Rightarrow> bool" where
  "entity_here s = (case s of
      a # b # r \<Rightarrow> a = CHR ''&'' \<and> (isLetter b \<or> b = CHR ''#'')
        \<and> (case dropWhile is_alnum r of c # _ \<Rightarrow> c = CHR '';'' | [] \<Rightarrow> False)
    | _ \<Rightarrow> False)"

fun any_suffix :: "(string \<Rightarrow> bool) \<Rightarrow> string \<Rightarrow> bool" where
  "any_suffix P [] = P []"
| "any_suffix P (c # cs) = (P (c # cs) \<or> any_suffix P cs)"

definition contains :: "string \<Rightarrow> string \<Rightarrow> bool" where
  "contains s sub = any_suffix (\<lambda>t. has_prefix t sub) s"

definition SortedKeys :: "string set \<Rightarrow> string list" where
  "SortedKeys S = sorted_list_of_set S"

definition CheckMarkup :: "string \<Rightarrow> icu_message \<Rightarrow> markup_problem option" where
  "CheckMarkup raw m = (case List.find (\<lambda>n. n \<noteq> ''b'' \<and> n \<noteq> ''link'') (SortedKeys (Tags m)) of
      Some name \<Rightarrow> Some (BadTag name)
    | None \<Rightarrow>
        if any_suffix entity_here raw then Some HtmlEntity
        else if contains (to_lower raw) ''javascript:'' then Some JavascriptLink
        else if contains (to_lower raw) ''<script'' then Some ScriptTag
        else None)"

section \<open>Status of a translation\<close>

datatype entry_status = StatusTranslated | StatusNeedsReview | StatusInvalid | StatusMissing

definition sameSet :: "string set \<Rightarrow> string set \<Rightarrow> bool" where
  "sameSet a b \<longleftrightarrow> card a = card b \<and> (\<forall>k \<in> a. k \<in> b)"

definition argumentsMatch :: "string \<Rightarrow> icu_message \<Rightarrow> bool" where
  "argumentsMatch english trM = (case Parse english of
      Inr refM \<Rightarrow> sameSet (Arguments refM) (Arguments trM)
    | Inl e \<Rightarrow> True)"

definition EntryStatus :: "(string \<Rightarrow> string) \<Rightarrow> pack_entry \<Rightarrow> pack_entry option \<Rightarrow> entry_status" where
  "EntryStatus sha ref tr = (case tr of
      None \<Rightarrow> StatusMissing
    | Some tr \<Rightarrow>
        if e_defaultMessage tr = [] then StatusMissing
        else (case Parse (e_defaultMessage tr) of
            Inl e \<Rightarrow> StatusInvalid
          | Inr trM \<Rightarrow>
              if \<not> argumentsMatch (e_defaultMessage ref) trM then StatusInvalid
              else if CheckMarkup (e_defaultMessage tr) trM \<noteq> None then StatusInvalid
              else if e_sourceHash tr \<noteq> [] \<and> e_sourceHash tr \<noteq> SourceHash sha (e_defaultMessage ref) then StatusNeedsReview
              else StatusTranslated))"

definition usable :: "entry_status \<Rightarrow> bool" where
  "usable st \<longleftrightarrow> st = StatusTranslated \<or> st = StatusNeedsReview"

definition Statuses :: "(string \<Rightarrow> string) \<Rightarrow> lang_pack \<Rightarrow> lang_pack \<Rightarrow> (string \<times> entry_status) list" where
  "Statuses sha ref tr = map (\<lambda>(id, refE). (id, EntryStatus sha refE (map_of tr id))) ref"

definition Completeness :: "(string \<Rightarrow> string) \<Rightarrow> lang_pack \<Rightarrow> lang_pack \<Rightarrow> rat" where
  "Completeness sha ref tr =
     (if ref = [] then 100
      else of_nat (length (filter (\<lambda>(id, st). usable st) (Statuses sha ref tr))) * 100 / of_nat (length ref))"

definition Listed :: "string \<Rightarrow> pack_meta \<Rightarrow> rat \<Rightarrow> bool" where
  "Listed tag meta completeness =
     (if tag = ''en'' then True
      else completeness \<ge> ListingThreshold \<and> m_direction meta = ''ltr'' \<and> tag \<noteq> ''en-XA'')"

definition Valid :: "(string \<Rightarrow> string) \<Rightarrow> lang_pack \<Rightarrow> lang_pack \<Rightarrow> lang_pack" where
  "Valid sha ref tr =
     filter (\<lambda>(id, e). case map_of ref id of
         None \<Rightarrow> False
       | Some refE \<Rightarrow> usable (EntryStatus sha refE (Some e))) tr"

text \<open>\<open>Stamp\<close> (\<^verbatim>\<open>stamp.go\<close>): the stamped pack and whether anything changed.\<close>

definition stampable :: "(string \<Rightarrow> string) \<Rightarrow> lang_pack \<Rightarrow> string \<times> pack_entry \<Rightarrow> bool" where
  "stampable sha ref p = (case map_of ref (fst p) of
      None \<Rightarrow> False
    | Some r \<Rightarrow> e_sourceHash (snd p) = [] \<and> EntryStatus sha r (Some (snd p)) = StatusTranslated)"

definition Stamp :: "(string \<Rightarrow> string) \<Rightarrow> lang_pack \<Rightarrow> lang_pack \<Rightarrow> lang_pack \<times> bool" where
  "Stamp sha ref tr =
     (map (\<lambda>p. if stampable sha ref p
               then (fst p, (snd p)\<lparr>e_sourceHash := SourceHash sha (e_defaultMessage (the (map_of ref (fst p))))\<rparr>)
               else p) tr,
      list_ex (stampable sha ref) tr)"

section \<open>Validation reports\<close>

datatype severity = SeverityError | SeverityInfo

datatype finding_code =
    CodeInvalidMeta | CodeICUSyntax | CodeMissingPlaceholder | CodeExtraPlaceholder | CodeMarkup
  | CodeUnknownID | CodeMissingDescription | CodeNeedsReview

datatype finding_detail =
    DoesNotParse icu_error
  | MarkupDetail markup_problem
  | NoDescription
  | NotInReference
  | Names "string list"
  | EnglishChanged
  | MetaNotDecoded
  | MissingField string
  | TagNotValid
  | TagMismatchesDirectory
  | NameTooLong string
  | BadDirection

record finding =
  f_code :: finding_code
  f_severity :: severity
  f_file :: string
  f_id :: string
  f_detail :: finding_detail

definition errorFinding :: "finding_code \<Rightarrow> string \<Rightarrow> string \<Rightarrow> finding_detail \<Rightarrow> finding" where
  "errorFinding code file i d = \<lparr>f_code = code, f_severity = SeverityError, f_file = file, f_id = i, f_detail = d\<rparr>"

definition sortedEntryIDs :: "lang_pack \<Rightarrow> string list" where
  "sortedEntryIDs m = sort (map fst m)"

definition setDifference :: "string set \<Rightarrow> string set \<Rightarrow> string list" where
  "setDifference a b = sorted_list_of_set (a - b)"

definition the_entry :: "lang_pack \<Rightarrow> string \<Rightarrow> pack_entry" where
  "the_entry m i = (case map_of m i of Some e \<Rightarrow> e | None \<Rightarrow> empty_entry)"

definition referenceFindings :: "string \<Rightarrow> string \<Rightarrow> pack_entry \<Rightarrow> finding list" where
  "referenceFindings file i e =
     (case Parse (e_defaultMessage e) of
        Inl err \<Rightarrow> [errorFinding CodeICUSyntax file i (DoesNotParse err)]
      | Inr m \<Rightarrow> (case CheckMarkup (e_defaultMessage e) m of
          Some pb \<Rightarrow> [errorFinding CodeMarkup file i (MarkupDetail pb)]
        | None \<Rightarrow> []))
     @ (if trim_space (e_description e) = [] then [errorFinding CodeMissingDescription file i NoDescription] else [])"

definition ValidateReference :: "lang_pack \<Rightarrow> string \<Rightarrow> finding list" where
  "ValidateReference ref file = concat (map (\<lambda>i. referenceFindings file i (the_entry ref i)) (sortedEntryIDs ref))"

definition ValidateMeta :: "unit + pack_meta \<Rightarrow> string \<Rightarrow> string \<Rightarrow> finding list" where
  "ValidateMeta parsed dirTag file = (case parsed of
      Inl _ \<Rightarrow> [errorFinding CodeInvalidMeta file ''<meta>'' MetaNotDecoded]
    | Inr meta \<Rightarrow>
        map (errorFinding CodeInvalidMeta file ''<meta>'')
          ((if m_tag meta = [] then [MissingField ''tag'']
            else (if \<not> ValidTag (m_tag meta) \<and> m_tag meta \<noteq> ''en-XA'' then [TagNotValid] else [])
              @ (if dirTag \<noteq> [] \<and> m_tag meta \<noteq> dirTag then [TagMismatchesDirectory] else []))
           @ (if m_nativeName meta = [] then [MissingField ''nativeName'']
              else if rune_count (m_nativeName meta) > 64 then [NameTooLong ''nativeName''] else [])
           @ (if m_englishName meta = [] then [MissingField ''englishName'']
              else if rune_count (m_englishName meta) > 64 then [NameTooLong ''englishName''] else [])
           @ (if m_direction meta = [] then [MissingField ''direction'']
              else if m_direction meta = ''ltr'' \<or> m_direction meta = ''rtl'' then []
              else [BadDirection])))"

definition placeholderFindings :: "string \<Rightarrow> string \<Rightarrow> string \<Rightarrow> icu_message \<Rightarrow> finding list" where
  "placeholderFindings file i english m = (case Parse english of
      Inl _ \<Rightarrow> []
    | Inr refM \<Rightarrow>
        (let missing = setDifference (Arguments refM) (Arguments m);
             extra = setDifference (Arguments m) (Arguments refM)
         in (if length missing > 0 then [errorFinding CodeMissingPlaceholder file i (Names missing)] else [])
          @ (if length extra > 0 then [errorFinding CodeExtraPlaceholder file i (Names extra)] else [])))"

definition translationFindings ::
  "(string \<Rightarrow> string) \<Rightarrow> lang_pack \<Rightarrow> string \<Rightarrow> string \<Rightarrow> pack_entry \<Rightarrow> finding list" where
  "translationFindings sha ref file i e = (case map_of ref i of
      None \<Rightarrow> [errorFinding CodeUnknownID file i NotInReference]
    | Some refE \<Rightarrow> (case Parse (e_defaultMessage e) of
        Inl err \<Rightarrow> [errorFinding CodeICUSyntax file i (DoesNotParse err)]
      | Inr m \<Rightarrow>
          (let errs = placeholderFindings file i (e_defaultMessage refE) m
                 @ (case CheckMarkup (e_defaultMessage e) m of
                      Some pb \<Rightarrow> [errorFinding CodeMarkup file i (MarkupDetail pb)]
                    | None \<Rightarrow> [])
           in errs @ (if errs = [] \<and> e_sourceHash e \<noteq> [] \<and> e_sourceHash e \<noteq> SourceHash sha (e_defaultMessage refE)
                      then [\<lparr>f_code = CodeNeedsReview, f_severity = SeverityInfo, f_file = file, f_id = i, f_detail = EnglishChanged\<rparr>]
                      else []))))"

definition ValidateTranslation :: "(string \<Rightarrow> string) \<Rightarrow> lang_pack \<Rightarrow> lang_pack \<Rightarrow> string \<Rightarrow> finding list" where
  "ValidateTranslation sha ref tr file =
     concat (map (\<lambda>i. translationFindings sha ref file i (the_entry tr i)) (sortedEntryIDs tr))"

section \<open>The catalog\<close>

text \<open>An app.json file as the JSON decoder delivers it: not an object, or each id with its decoded entry, a
  left value where the entry has unknown keys or trailing data.\<close>

type_synonym raw_entries = "(string \<times> (unit + pack_entry)) list option"

datatype file_error = NotExist | BadFile

definition ParseEntries :: "raw_entries \<Rightarrow> file_error + lang_pack" where
  "ParseEntries raw = (case raw of
      None \<Rightarrow> Inl BadFile
    | Some kvs \<Rightarrow>
        if list_all (\<lambda>(i, r). case r of Inl _ \<Rightarrow> False | Inr e \<Rightarrow> e_defaultMessage e \<noteq> []) kvs
        then Inr (map (\<lambda>(i, r). (i, projr r)) kvs) else Inl BadFile)"

record locale_dir =
  d_name :: string
  d_isDir :: bool
  d_app :: "file_error + raw_entries"
  d_metaFile :: "file_error + pack_meta"

record catalog =
  cat_reference :: string
  cat_packs :: "string \<Rightarrow> lang_pack option"
  cat_meta :: "string \<Rightarrow> pack_meta option"
  cat_completeness :: "string \<Rightarrow> rat option"
  cat_cache :: "string \<times> string \<Rightarrow> icu_message option"

definition newCatalog :: "string \<Rightarrow> catalog" where
  "newCatalog reference = \<lparr>cat_reference = reference, cat_packs = Map.empty, cat_meta = Map.empty,
     cat_completeness = Map.empty, cat_cache = Map.empty\<rparr>"

datatype load_error = ReadLocales | ReferenceEntries | ReferenceMeta | ReferenceNotFound

definition readEntries :: "locale_dir \<Rightarrow> file_error + lang_pack" where
  "readEntries d = res_bind (d_app d) ParseEntries"

text \<open>The loop of \<open>Load\<close> over the directory: the reference found so far and the other packs in order.\<close>

type_synonym loaded = "(lang_pack \<times> pack_meta) option \<times> (string \<times> lang_pack \<times> pack_meta) list"

definition loadDir :: "string \<Rightarrow> loaded \<Rightarrow> locale_dir \<Rightarrow> load_error + loaded" where
  "loadDir reference acc d =
     (if \<not> d_isDir d then Inr acc
      else if d_name d = reference then
        (case readEntries d of
           Inl _ \<Rightarrow> Inl ReferenceEntries
         | Inr entries \<Rightarrow> (case d_metaFile d of
             Inl BadFile \<Rightarrow> Inl ReferenceMeta
           | Inl NotExist \<Rightarrow> Inr (Some (entries, \<lparr>m_tag = d_name d, m_nativeName = [], m_englishName = [], m_direction = ''ltr''\<rparr>), snd acc)
           | Inr meta \<Rightarrow> Inr (Some (entries, meta), snd acc)))
      else (case (readEntries d, d_metaFile d) of
          (Inr entries, Inr meta) \<Rightarrow>
            if m_tag meta \<noteq> d_name d then Inr acc else Inr (fst acc, snd acc @ [(d_name d, entries, meta)])
        | _ \<Rightarrow> Inr acc))"

fun loadDirs :: "string \<Rightarrow> loaded \<Rightarrow> locale_dir list \<Rightarrow> load_error + loaded" where
  "loadDirs reference acc [] = Inr acc"
| "loadDirs reference acc (d # ds) = res_bind (loadDir reference acc d) (\<lambda>acc'. loadDirs reference acc' ds)"

definition addPack :: "(string \<Rightarrow> string) \<Rightarrow> lang_pack \<Rightarrow> catalog \<Rightarrow> string \<times> lang_pack \<times> pack_meta \<Rightarrow> catalog" where
  "addPack sha ref c p = (case p of (tag, entries, meta) \<Rightarrow>
     c\<lparr>cat_packs := (cat_packs c)(tag \<mapsto> Valid sha ref entries),
       cat_meta := (cat_meta c)(tag \<mapsto> meta),
       cat_completeness := (cat_completeness c)(tag \<mapsto> Completeness sha ref entries)\<rparr>)"

definition Load :: "(string \<Rightarrow> string) \<Rightarrow> unit + locale_dir list \<Rightarrow> string \<Rightarrow> load_error + catalog" where
  "Load sha dirs reference = (case dirs of
      Inl _ \<Rightarrow> Inl ReadLocales
    | Inr ds \<Rightarrow> res_bind (loadDirs reference (None, []) ds) (\<lambda>(ref, others). case ref of
          None \<Rightarrow> Inl ReferenceNotFound
        | Some (refEntries, refMeta) \<Rightarrow>
            Inr (foldl (addPack sha refEntries)
              ((newCatalog reference)\<lparr>cat_packs := [reference \<mapsto> refEntries], cat_meta := [reference \<mapsto> refMeta],
                 cat_completeness := [reference \<mapsto> 100]\<rparr>) others)))"

definition IsListed :: "catalog \<Rightarrow> string \<Rightarrow> bool" where
  "IsListed c tag = (case cat_completeness c tag of
      None \<Rightarrow> False
    | Some pct \<Rightarrow>
        if tag = cat_reference c then True
        else Listed tag (case cat_meta c tag of Some m \<Rightarrow> m
            | None \<Rightarrow> \<lparr>m_tag = [], m_nativeName = [], m_englishName = [], m_direction = []\<rparr>) pct)"

text \<open>\<open>parse\<close> returns the message with the catalog whose cache holds it.\<close>

definition cat_parse :: "catalog \<Rightarrow> string \<Rightarrow> string \<Rightarrow> string \<Rightarrow> icu_message option \<times> catalog" where
  "cat_parse c key i text = (case cat_cache c (key, i) of
      Some msg \<Rightarrow> (Some msg, c)
    | None \<Rightarrow> (case Parse text of
        Inl e \<Rightarrow> (None, c)
      | Inr msg \<Rightarrow> (Some msg, c\<lparr>cat_cache := (cat_cache c)((key, i) \<mapsto> msg)\<rparr>)))"

fun lookupKeys ::
  "('f, 't, 'o, 'l) text_lib \<Rightarrow> (string \<Rightarrow> 'l) \<Rightarrow> catalog \<Rightarrow> string list \<Rightarrow> string list \<Rightarrow> string \<Rightarrow> ('f, 't, 'o) icu_args
     \<Rightarrow> string option \<times> catalog" where
  "lookupKeys L mk c seen [] i args = (None, c)"
| "lookupKeys L mk c seen (key # keys) i args =
     (if key \<in> set seen then lookupKeys L mk c (seen @ [key]) keys i args
      else (case Option.bind (cat_packs c key) (\<lambda>p. map_of p i) of
          None \<Rightarrow> lookupKeys L mk c (seen @ [key]) keys i args
        | Some entry \<Rightarrow> (case cat_parse c key i (e_defaultMessage entry) of
            (None, c') \<Rightarrow> lookupKeys L mk c' (seen @ [key]) keys i args
          | (Some msg, c') \<Rightarrow> (Some (Format L msg (mk key) args), c'))))"

text \<open>A language tag is given by its string and the string of its base language.\<close>

definition Catalog_Lookup ::
  "('f, 't, 'o, 'l) text_lib \<Rightarrow> (string \<Rightarrow> 'l) \<Rightarrow> catalog \<Rightarrow> string \<times> string \<Rightarrow> string \<Rightarrow> ('f, 't, 'o) icu_args
     \<Rightarrow> string option \<times> catalog" where
  "Catalog_Lookup L mk c tag i args = lookupKeys L mk c [] [fst tag, snd tag, cat_reference c] i args"

section \<open>Status and report agree\<close>

lemma finite_node_arguments: "finite (node_arguments x)"
  by (induction x rule: node_arguments.induct) auto

lemma finite_Arguments [simp]: "finite (Arguments m)"
  by (simp add: Arguments_def finite_node_arguments)

lemma sameSet_iff: "finite b \<Longrightarrow> sameSet a b \<longleftrightarrow> a = b"
  by (metis sameSet_def card_subset_eq subsetI)

lemma setDifference_empty: "finite a \<Longrightarrow> setDifference a b = [] \<longleftrightarrow> a \<subseteq> b"
  by (auto simp: setDifference_def)

lemma argumentsMatch_iff:
  "argumentsMatch english m \<longleftrightarrow> (\<forall>refM. Parse english = Inr refM \<longrightarrow> Arguments refM = Arguments m)"
  by (auto simp: argumentsMatch_def sameSet_iff split: sum.splits)

lemma placeholderFindings_empty:
  "placeholderFindings file i english m = [] \<longleftrightarrow> argumentsMatch english m"
  by (auto simp: placeholderFindings_def argumentsMatch_iff setDifference_empty split: sum.splits)

lemma usable_iff:
  "usable (EntryStatus sha refE (Some e)) \<longleftrightarrow>
     e_defaultMessage e \<noteq> [] \<and> (\<exists>m. Parse (e_defaultMessage e) = Inr m
       \<and> argumentsMatch (e_defaultMessage refE) m \<and> CheckMarkup (e_defaultMessage e) m = None)"
  by (auto simp: usable_def EntryStatus_def split: sum.splits)

definition has_error :: "finding list \<Rightarrow> bool" where
  "has_error fs \<longleftrightarrow> (\<exists>f \<in> set fs. f_severity f = SeverityError)"

lemma has_error_append [simp]: "has_error (xs @ ys) \<longleftrightarrow> has_error xs \<or> has_error ys"
  by (auto simp: has_error_def)

lemma placeholderFindings_error:
  "has_error (placeholderFindings file i english m) \<longleftrightarrow> placeholderFindings file i english m \<noteq> []"
proof (cases "Parse english")
  case (Inr refM)
  define A where "A \<longleftrightarrow> length (setDifference (Arguments refM) (Arguments m)) > 0"
  define B where "B \<longleftrightarrow> length (setDifference (Arguments m) (Arguments refM)) > 0"
  show ?thesis
    unfolding placeholderFindings_def Inr sum.case Let_def A_def [symmetric] B_def [symmetric]
    by (cases A; cases B) (simp_all add: has_error_def errorFinding_def)
qed (simp add: placeholderFindings_def has_error_def)

lemma translationFindings_ok:
  assumes "e_defaultMessage e \<noteq> []"
  shows "\<not> has_error (translationFindings sha ref file i e) \<longleftrightarrow>
    (\<exists>refE. map_of ref i = Some refE \<and> usable (EntryStatus sha refE (Some e)))"
proof (cases "map_of ref i")
  case None
  then show ?thesis by (simp add: translationFindings_def has_error_def errorFinding_def)
next
  case (Some refE)
  show ?thesis
  proof (cases "Parse (e_defaultMessage e)")
    case (Inl err)
    with Some show ?thesis
      by (simp add: translationFindings_def has_error_def errorFinding_def usable_iff)
  next
    case (Inr m)
    let ?ph = "placeholderFindings file i (e_defaultMessage refE) m"
    show ?thesis
    proof (cases "CheckMarkup (e_defaultMessage e) m")
      case None
      with Some Inr assms show ?thesis
        using placeholderFindings_empty [of "file" i "e_defaultMessage refE" m]
          placeholderFindings_error [of "file" i "e_defaultMessage refE" m]
        by (auto simp: translationFindings_def usable_iff Let_def) (auto simp: has_error_def)
    next
      case (Some pb)
      with \<open>map_of ref i = Some refE\<close> Inr show ?thesis
        by (simp add: translationFindings_def usable_iff Let_def) (simp add: has_error_def errorFinding_def)
    qed
  qed
qed

lemma the_entry_in:
  assumes "distinct (map fst tr)" "(i, e) \<in> set tr"
  shows "the_entry tr i = e"
  using assms by (simp add: the_entry_def)

lemma ValidateTranslation_error:
  assumes "distinct (map fst tr)"
  shows "has_error (ValidateTranslation sha ref tr file) \<longleftrightarrow>
    (\<exists>(i, e) \<in> set tr. has_error (translationFindings sha ref file i e))"
proof -
  have "has_error (ValidateTranslation sha ref tr file) \<longleftrightarrow>
    (\<exists>i \<in> fst ` set tr. has_error (translationFindings sha ref file i (the_entry tr i)))"
    by (auto simp: ValidateTranslation_def sortedEntryIDs_def has_error_def)
  also have "\<dots> \<longleftrightarrow> (\<exists>(i, e) \<in> set tr. has_error (translationFindings sha ref file i e))"
    using the_entry_in [OF assms] by force
  finally show ?thesis .
qed

lemma Valid_all_iff:
  "Valid sha ref tr = tr \<longleftrightarrow> (\<forall>(i, e) \<in> set tr. \<exists>refE. map_of ref i = Some refE \<and> usable (EntryStatus sha refE (Some e)))"
  by (auto simp: Valid_def filter_id_conv split: option.splits)

text \<open>The report a translator gets and the filter the server applies agree: for a decoded pack, the report
  has no error exactly when every entry may be shown to users.
\<close>

theorem report_agrees_with_filter:
  assumes "distinct (map fst tr)" "\<forall>(i, e) \<in> set tr. e_defaultMessage e \<noteq> []"
  shows "\<not> has_error (ValidateTranslation sha ref tr file) \<longleftrightarrow> Valid sha ref tr = tr"
proof -
  have "\<not> has_error (translationFindings sha ref file i e) \<longleftrightarrow>
      (\<exists>refE. map_of ref i = Some refE \<and> usable (EntryStatus sha refE (Some e)))" if "(i, e) \<in> set tr" for i e
    using assms(2) that by (intro translationFindings_ok) auto
  then show ?thesis
    unfolding ValidateTranslation_error [OF assms(1)] Valid_all_iff by fast
qed

section \<open>Stamping\<close>

text \<open>Stamping keeps every status, and with a hash function that returns something it stamps only once.\<close>

lemma stamped_status:
  assumes "map_of ref i = Some r" "EntryStatus sha r (Some e) = StatusTranslated"
  shows "EntryStatus sha r (Some (e\<lparr>e_sourceHash := SourceHash sha (e_defaultMessage r)\<rparr>)) = StatusTranslated"
  using assms(2) by (auto simp: EntryStatus_def split: sum.splits if_splits)

lemma map_of_Stamp:
  "map_of (fst (Stamp sha ref tr)) i = map_option (\<lambda>e.
     if stampable sha ref (i, e) then e\<lparr>e_sourceHash := SourceHash sha (e_defaultMessage (the (map_of ref i)))\<rparr> else e) (map_of tr i)"
  by (induction tr) (auto simp: Stamp_def)

lemma Stamp_keeps_status:
  assumes "map_of ref i = Some r"
  shows "EntryStatus sha r (map_of (fst (Stamp sha ref tr)) i) = EntryStatus sha r (map_of tr i)"
  using assms stamped_status [OF assms]
  by (cases "map_of tr i") (auto simp: map_of_Stamp stampable_def)

section \<open>Serving\<close>

definition entry_message :: "catalog \<Rightarrow> string \<Rightarrow> string \<Rightarrow> icu_message option" where
  "entry_message c key i = (case Option.bind (cat_packs c key) (\<lambda>p. map_of p i) of
      None \<Rightarrow> None
    | Some e \<Rightarrow> (case Parse (e_defaultMessage e) of Inl _ \<Rightarrow> None | Inr m \<Rightarrow> Some m))"

definition lookup_spec ::
  "('f, 't, 'o, 'l) text_lib \<Rightarrow> (string \<Rightarrow> 'l) \<Rightarrow> catalog \<Rightarrow> string list \<Rightarrow> string \<Rightarrow> ('f, 't, 'o) icu_args \<Rightarrow> string option" where
  "lookup_spec L mk c keys i args = (case List.find (\<lambda>k. entry_message c k i \<noteq> None) keys of
      None \<Rightarrow> None
    | Some k \<Rightarrow> map_option (\<lambda>m. Format L m (mk k) args) (entry_message c k i))"

definition cache_ok :: "catalog \<Rightarrow> bool" where
  "cache_ok c \<longleftrightarrow> (\<forall>key i msg. cat_cache c (key, i) = Some msg \<longrightarrow> entry_message c key i = Some msg)"

definition same_packs :: "catalog \<Rightarrow> catalog \<Rightarrow> bool" where
  "same_packs c c' \<longleftrightarrow> cat_reference c' = cat_reference c \<and> cat_packs c' = cat_packs c"

lemma entry_message_cong: "same_packs c c' \<Longrightarrow> entry_message c' = entry_message c"
  by (intro ext) (simp add: entry_message_def same_packs_def)

lemma same_packs_refl [simp]: "same_packs c c"
  by (simp add: same_packs_def)

lemma same_packs_trans: "same_packs a b \<Longrightarrow> same_packs b c \<Longrightarrow> same_packs a c"
  by (simp add: same_packs_def)

lemma cat_parse_ok:
  assumes "cache_ok c" "Option.bind (cat_packs c key) (\<lambda>p. map_of p i) = Some e"
    and "cat_parse c key i (e_defaultMessage e) = (r, c')"
  shows "r = entry_message c key i \<and> same_packs c c' \<and> cache_ok c'"
proof (cases "cat_cache c (key, i)")
  case (Some msg)
  then have "entry_message c key i = Some msg" using assms(1) by (simp add: cache_ok_def)
  with Some assms(1,3) show ?thesis by (auto simp: cat_parse_def)
next
  case None
  have em: "entry_message c key i = (case Parse (e_defaultMessage e) of Inl _ \<Rightarrow> None | Inr m \<Rightarrow> Some m)"
    using assms(2) by (simp add: entry_message_def)
  show ?thesis
  proof (cases "Parse (e_defaultMessage e)")
    case (Inl err)
    with None assms em show ?thesis by (simp add: cat_parse_def)
  next
    case (Inr msg)
    with None assms(3) have r: "r = Some msg" and c': "c' = c\<lparr>cat_cache := (cat_cache c)((key, i) \<mapsto> msg)\<rparr>"
      by (auto simp: cat_parse_def)
    have sp: "same_packs c c'" by (simp add: c' same_packs_def)
    show ?thesis
      using assms(1) em Inr r sp unfolding cache_ok_def entry_message_cong [OF sp] by (auto simp: c')
  qed
qed

lemma lookupKeys_spec:
  assumes "cache_ok c" "\<forall>k \<in> set seen. entry_message c k i = None" "lookupKeys L mk c seen keys i args = (r, c')"
  shows "r = lookup_spec L mk c keys i args \<and> same_packs c c' \<and> cache_ok c'"
  using assms
proof (induction keys arbitrary: c seen)
  case Nil
  then show ?case by (simp add: lookup_spec_def)
next
  case (Cons key keys)
  have skip: "lookup_spec L mk c (key # keys) i args = lookup_spec L mk c keys i args" if "entry_message c key i = None"
    using that by (simp add: lookup_spec_def)
  show ?case
  proof (cases "key \<in> set seen \<or> Option.bind (cat_packs c key) (\<lambda>p. map_of p i) = None")
    case True
    then have none: "entry_message c key i = None" using Cons.prems(2) by (auto simp: entry_message_def)
    have "lookupKeys L mk c (seen @ [key]) keys i args = (r, c')" using Cons.prems(3) True by (auto split: if_splits)
    with Cons.IH [of c "seen @ [key]"] Cons.prems none skip [OF none] show ?thesis by simp
  next
    case False
    then obtain e where e: "Option.bind (cat_packs c key) (\<lambda>p. map_of p i) = Some e" "key \<notin> set seen" by auto
    obtain q d where p: "cat_parse c key i (e_defaultMessage e) = (q, d)" by (cases "cat_parse c key i (e_defaultMessage e)")
    note ok = cat_parse_ok [OF Cons.prems(1) e(1) p]
    show ?thesis
    proof (cases q)
      case None
      with Cons.prems(3) e p have run: "lookupKeys L mk d (seen @ [key]) keys i args = (r, c')" by simp
      have em: "entry_message d = entry_message c" using ok entry_message_cong by blast
      then have "lookup_spec L mk d keys i args = lookup_spec L mk c (key # keys) i args"
        using skip ok None unfolding lookup_spec_def em by simp
      with Cons.IH [OF _ _ run] ok None em Cons.prems(2) show ?thesis
        by (auto intro: same_packs_trans)
    next
      case (Some msg)
      with Cons.prems(3) e p ok show ?thesis by (auto simp: lookup_spec_def)
    qed
  qed
qed

text \<open>Catalogs as the server has them: loaded, then used for any number of lookups.\<close>

inductive served ::
  "(string \<Rightarrow> string) \<Rightarrow> unit + locale_dir list \<Rightarrow> string \<Rightarrow> ('f, 't, 'o, 'l) text_lib \<Rightarrow> (string \<Rightarrow> 'l) \<Rightarrow> catalog \<Rightarrow> bool"
  for sha dirs reference L mk where
  loaded: "Load sha dirs reference = Inr c \<Longrightarrow> served sha dirs reference L mk c"
| looked_up: "served sha dirs reference L mk c \<Longrightarrow> served sha dirs reference L mk (snd (Catalog_Lookup L mk c tag i args))"

definition catalog_inv :: "(string \<Rightarrow> string) \<Rightarrow> string \<Rightarrow> lang_pack \<Rightarrow> catalog \<Rightarrow> bool" where
  "catalog_inv sha reference ref c \<longleftrightarrow>
     cat_reference c = reference \<and> cat_packs c reference = Some ref
     \<and> (\<forall>tag p. tag \<noteq> reference \<longrightarrow> cat_packs c tag = Some p \<longrightarrow> (\<exists>entries. p = Valid sha ref entries))"

lemma loadDir_others:
  assumes "loadDir reference acc d = Inr acc'" "\<forall>p \<in> set (snd acc). fst p \<noteq> reference"
  shows "\<forall>p \<in> set (snd acc'). fst p \<noteq> reference"
  using assms by (auto simp: loadDir_def split: if_splits sum.splits file_error.splits)

lemma loadDirs_others:
  assumes "loadDirs reference acc ds = Inr acc'" "\<forall>p \<in> set (snd acc). fst p \<noteq> reference"
  shows "\<forall>p \<in> set (snd acc'). fst p \<noteq> reference"
  using assms
proof (induction ds arbitrary: acc)
  case (Cons d ds)
  from Cons.prems(1) obtain acc1 where "loadDir reference acc d = Inr acc1" "loadDirs reference acc1 ds = Inr acc'" by auto
  with Cons.IH loadDir_others Cons.prems(2) show ?case by metis
qed simp

lemma addPacks_inv:
  assumes "catalog_inv sha reference ref c" "cat_cache c = Map.empty" "\<forall>p \<in> set others. fst p \<noteq> reference"
  shows "catalog_inv sha reference ref (foldl (addPack sha ref) c others) \<and> cat_cache (foldl (addPack sha ref) c others) = Map.empty"
  using assms
proof (induction others arbitrary: c)
  case (Cons p others)
  have "catalog_inv sha reference ref (addPack sha ref c p)" "cat_cache (addPack sha ref c p) = Map.empty"
    using Cons.prems by (auto simp: catalog_inv_def addPack_def split: prod.splits)
  with Cons.IH Cons.prems(3) show ?case by simp
qed simp

lemma Load_inv:
  assumes "Load sha dirs reference = Inr c"
  shows "\<exists>ref. catalog_inv sha reference ref c \<and> cache_ok c"
proof -
  from assms obtain ds ref meta others where
    l: "loadDirs reference (None, []) ds = Inr (Some (ref, meta), others)"
    and c: "c = foldl (addPack sha ref) ((newCatalog reference)\<lparr>cat_packs := [reference \<mapsto> ref], cat_meta := [reference \<mapsto> meta],
      cat_completeness := [reference \<mapsto> 100]\<rparr>) others"
    by (auto simp: Load_def split: sum.splits option.splits)
  have "\<forall>p \<in> set others. fst p \<noteq> reference" using loadDirs_others [OF l] by simp
  then have "catalog_inv sha reference ref c \<and> cat_cache c = Map.empty"
    unfolding c by (intro addPacks_inv) (simp_all add: catalog_inv_def newCatalog_def)
  then show ?thesis by (auto simp: cache_ok_def)
qed

lemma Catalog_Lookup_spec:
  assumes "cache_ok c"
  shows "fst (Catalog_Lookup L mk c tag i args) = lookup_spec L mk c [fst tag, snd tag, cat_reference c] i args"
    "same_packs c (snd (Catalog_Lookup L mk c tag i args))" "cache_ok (snd (Catalog_Lookup L mk c tag i args))"
  using lookupKeys_spec [OF assms, of "[]" i L mk "[fst tag, snd tag, cat_reference c]" args
      "fst (Catalog_Lookup L mk c tag i args)" "snd (Catalog_Lookup L mk c tag i args)"]
  by (simp_all add: Catalog_Lookup_def)

lemma served_inv:
  assumes "served sha dirs reference L mk c"
  shows "\<exists>ref. catalog_inv sha reference ref c \<and> cache_ok c"
  using assms
proof induction
  case (loaded c)
  then show ?case by (rule Load_inv)
next
  case (looked_up c tag i args)
  then obtain ref where "catalog_inv sha reference ref c" "cache_ok c" by blast
  with Catalog_Lookup_spec [of c L mk tag i args] show ?case
    by (auto simp: catalog_inv_def same_packs_def)
qed

text \<open>C33. Through any number of lookups, with whatever arguments, the cache of parsed messages is invisible: a
  lookup answers with the first of the exact tag, the base language and the reference whose pack has the id
  and whose message parses, formatted afresh.
\<close>

theorem catalog_cache_transparent:
  assumes "served sha dirs reference L mk c"
  shows "fst (Catalog_Lookup L mk c tag i args) = lookup_spec L mk c [fst tag, snd tag, reference] i args"
  using served_inv [OF assms] Catalog_Lookup_spec(1) [of c L mk tag i args] by (auto simp: catalog_inv_def)

lemma finite_node_tags: "finite (node_tags x)"
  by (induction x rule: node_tags.induct) auto

lemma CheckMarkup_tags:
  assumes "CheckMarkup raw m = None"
  shows "Tags m \<subseteq> {''b'', ''link''}"
proof -
  have "finite (Tags m)" by (simp add: Tags_def finite_node_tags)
  moreover have "List.find (\<lambda>n. n \<noteq> ''b'' \<and> n \<noteq> ''link'') (SortedKeys (Tags m)) = None"
    using assms by (auto simp: CheckMarkup_def split: option.splits)
  ultimately show ?thesis by (auto simp: find_None_iff SortedKeys_def)
qed

lemma catalog_message_ok:
  assumes inv: "catalog_inv sha reference ref c" and ref: "map_of ref i = Some refE" "Parse (e_defaultMessage refE) = Inr refM"
    and p: "cat_packs c key = Some p" "map_of p i = Some e" "Parse (e_defaultMessage e) = Inr m"
  shows "Arguments m = Arguments refM \<and> (key \<noteq> reference \<longrightarrow> CheckMarkup (e_defaultMessage e) m = None \<and> Tags m \<subseteq> {''b'', ''link''})"
proof (cases "key = reference")
  case True
  with inv ref p show ?thesis by (auto simp: catalog_inv_def)
next
  case False
  with inv p(1) obtain entries where "p = Valid sha ref entries" by (auto simp: catalog_inv_def)
  with p(2) have "(i, e) \<in> set (Valid sha ref entries)" by (simp add: map_of_SomeD)
  then have "usable (EntryStatus sha refE (Some e))" using ref(1) by (auto simp: Valid_def)
  then have "argumentsMatch (e_defaultMessage refE) m" "CheckMarkup (e_defaultMessage e) m = None"
    using p(3) by (auto simp: usable_iff)
  with ref(2) show ?thesis by (simp add: argumentsMatch_iff CheckMarkup_tags)
qed

lemma entry_message_entry:
  assumes "entry_message c key i = Some m"
  obtains p e where "cat_packs c key = Some p" "map_of p i = Some e" "Parse (e_defaultMessage e) = Inr m"
  using assms by (auto simp: entry_message_def bind_eq_Some_conv split: option.splits sum.splits)

lemma find_SomeD: "List.find P xs = Some x \<Longrightarrow> x \<in> set xs \<and> P x"
  by (auto simp: find_Some_iff)

text \<open>C32. What the server shows: a message of the reference that parses is always served, and what is served is the
  entry of that id in the pack of the language asked for, of its base language or of the reference.  The placeholders
  of that entry are exactly those of the English message, so arguments that suit the reference suit the
  translation, and a translated entry passes the markup check and uses no tags but the allowed ones.
\<close>

theorem catalog_serves_valid_messages:
  assumes "served sha dirs reference L mk c" "cat_packs c reference = Some ref"
    and "map_of ref i = Some refE" "Parse (e_defaultMessage refE) = Inr refM"
  shows "\<exists>key p e m. key \<in> {fst tag, snd tag, reference}
    \<and> cat_packs c key = Some p \<and> map_of p i = Some e \<and> Parse (e_defaultMessage e) = Inr m
    \<and> fst (Catalog_Lookup L mk c tag i args) = Some (Format L m (mk key) args)
    \<and> Arguments m = Arguments refM
    \<and> (key \<noteq> reference \<longrightarrow> CheckMarkup (e_defaultMessage e) m = None \<and> Tags m \<subseteq> {''b'', ''link''})"
proof -
  have inv: "catalog_inv sha reference ref c" using served_inv [OF assms(1)] assms(2) by (auto simp: catalog_inv_def)
  have ref: "entry_message c reference i = Some refM" using assms(2-4) by (simp add: entry_message_def)
  let ?ks = "[fst tag, snd tag, reference]"
  have "List.find (\<lambda>k. entry_message c k i \<noteq> None) ?ks \<noteq> None"
    unfolding find_None_iff using ref by auto
  then obtain k where k: "List.find (\<lambda>k. entry_message c k i \<noteq> None) ?ks = Some k" by blast
  from find_SomeD [OF this] obtain m where m: "entry_message c k i = Some m" "k \<in> {fst tag, snd tag, reference}" by auto
  from m(1) obtain p e where e: "cat_packs c k = Some p" "map_of p i = Some e" "Parse (e_defaultMessage e) = Inr m"
    by (rule entry_message_entry)
  have "fst (Catalog_Lookup L mk c tag i args) = Some (Format L m (mk k) args)"
    using Catalog_Lookup_spec(1) [of c L mk tag i args] served_inv [OF assms(1)] k m by (auto simp: lookup_spec_def catalog_inv_def)
  with m(2) e catalog_message_ok [OF inv assms(3,4) e] show ?thesis by blast
qed

text \<open>A catalog with English and German packs.\<close>

definition demo_entry :: "string \<Rightarrow> pack_entry" where
  "demo_entry t = \<lparr>e_defaultMessage = t, e_description = ''greeting'', e_sourceHash = []\<rparr>"

definition demo_en :: lang_pack where
  "demo_en = [(''hello'', demo_entry ''Hello {name}'')]"

definition demo_de :: lang_pack where
  "demo_de = [(''hello'', demo_entry ''Hallo <b>{name}</b>''), (''gone'', demo_entry ''Weg'')]"

definition demo_dir :: "string \<Rightarrow> lang_pack \<Rightarrow> locale_dir" where
  "demo_dir tag p = \<lparr>d_name = tag, d_isDir = True, d_app = Inr (Some (map (\<lambda>(i, e). (i, Inr e)) p)),
     d_metaFile = Inr \<lparr>m_tag = tag, m_nativeName = tag, m_englishName = tag, m_direction = ''ltr''\<rparr>\<rparr>"

definition demo_dirs :: "unit + locale_dir list" where
  "demo_dirs = Inr [demo_dir ''de'' demo_de, demo_dir ''en'' demo_en]"

definition demo_lib :: "(unit, unit, unit, string) text_lib" where
  "demo_lib = \<lparr>l_sprint = (\<lambda>v. case v of VString s \<Rightarrow> s | _ \<Rightarrow> []), l_formatFloat32 = (\<lambda>_. []), l_formatFloat64 = (\<lambda>_. []),
     l_parseFloat = (\<lambda>_. ((), False)), l_finite = (\<lambda>_. False), l_equalsInt = (\<lambda>_ _. False), l_decimal = (\<lambda>_ _. []),
     l_matchPlural = (\<lambda>_ _. POther), l_date = (\<lambda>_. []), l_clock = (\<lambda>_. [])\<rparr>"

definition demo_catalog :: catalog where
  "demo_catalog = projr (Load (\<lambda>_. ''0'') demo_dirs ''en'')"

lemma demo_loaded: "Load (\<lambda>_. ''0'') demo_dirs ''en'' = Inr demo_catalog"
proof -
  have "is_ok (Load (\<lambda>_. ''0'') demo_dirs ''en'')" by code_simp
  then show ?thesis by (cases "Load (\<lambda>_. ''0'') demo_dirs ''en''") (simp_all add: demo_catalog_def)
qed

lemma demo_served: "served (\<lambda>_. ''0'') demo_dirs ''en'' demo_lib id demo_catalog"
  by (rule served.loaded [OF demo_loaded])

lemma demo_reference: "cat_packs demo_catalog ''en'' = Some demo_en"
  by code_simp

theorem catalog_cache_transparent_witness:
  "fst (Catalog_Lookup demo_lib id demo_catalog (''de-AT'', ''de'') ''hello'' Map.empty)
     = lookup_spec demo_lib id demo_catalog [''de-AT'', ''de'', ''en''] ''hello'' Map.empty"
  using catalog_cache_transparent [OF demo_served, of "(''de-AT'', ''de'')"] by simp

lemma demo_message: "\<exists>refM. Parse ''Hello {name}'' = Inr refM"
proof -
  have "is_ok (Parse ''Hello {name}'')" by code_simp
  then show ?thesis by (cases "Parse ''Hello {name}''") simp_all
qed

theorem catalog_serves_valid_messages_witness:
  "\<exists>key p e m refM. key \<in> {''de-AT'', ''de'', ''en''} \<and> cat_packs demo_catalog key = Some p \<and> map_of p ''hello'' = Some e
    \<and> Parse (e_defaultMessage e) = Inr m \<and> Parse ''Hello {name}'' = Inr refM \<and> Arguments m = Arguments refM
    \<and> fst (Catalog_Lookup demo_lib id demo_catalog (''de-AT'', ''de'') ''hello'' Map.empty) = Some (Format demo_lib m (id key) Map.empty)"
proof -
  obtain refM where p: "Parse (e_defaultMessage (demo_entry ''Hello {name}'')) = Inr refM"
    using demo_message by (auto simp: demo_entry_def)
  have "map_of demo_en ''hello'' = Some (demo_entry ''Hello {name}'')" by (simp add: demo_en_def)
  from catalog_serves_valid_messages [OF demo_served demo_reference this p, of "(''de-AT'', ''de'')" Map.empty] p
  show ?thesis unfolding demo_entry_def fst_conv snd_conv by auto
qed

theorem report_agrees_with_filter_witness:
  "\<not> has_error (ValidateTranslation (\<lambda>_. ''0'') demo_en demo_de ''de.json'') \<longleftrightarrow> Valid (\<lambda>_. ''0'') demo_en demo_de = demo_de"
  by (rule report_agrees_with_filter) (simp_all add: demo_de_def demo_entry_def)

text \<open>
  \<open>Catalog_Lookup\<close> promises to fail only for ids the reference does not have.  Loading does not parse the reference's
  messages, so an English entry with a syntax error and no translation is not served either.
\<close>

definition broken_en :: lang_pack where
  "broken_en = [(''hello'', demo_entry ''Hello {name'')]"

definition broken_catalog :: catalog where
  "broken_catalog = projr (Load (\<lambda>_. ''0'') (Inr [demo_dir ''en'' broken_en]) ''en'')"

lemma reference_message_not_served:
  "Load (\<lambda>_. ''0'') (Inr [demo_dir ''en'' broken_en]) ''en'' = Inr broken_catalog"
  "map_of broken_en ''hello'' \<noteq> None" "cat_packs broken_catalog ''en'' = Some broken_en"
  "fst (Catalog_Lookup demo_lib id broken_catalog (''en'', ''en'') ''hello'' Map.empty) = None"
proof -
  have "is_ok (Load (\<lambda>_. ''0'') (Inr [demo_dir ''en'' broken_en]) ''en'')" by code_simp
  then show "Load (\<lambda>_. ''0'') (Inr [demo_dir ''en'' broken_en]) ''en'' = Inr broken_catalog"
    by (cases "Load (\<lambda>_. ''0'') (Inr [demo_dir ''en'' broken_en]) ''en''") (simp_all add: broken_catalog_def)
  show "map_of broken_en ''hello'' \<noteq> None" by (simp add: broken_en_def)
  show "cat_packs broken_catalog ''en'' = Some broken_en" by code_simp
  show "fst (Catalog_Lookup demo_lib id broken_catalog (''en'', ''en'') ''hello'' Map.empty) = None" by code_simp
qed

end
