(* ===== verification/Spec2Isabelle.thy ===== *)
theory Spec2Isabelle
  imports Sentinel Waker Wake_Plan Game_Action Netguard Rbac Idle Lifecycle Backup_Life Retention Capture_Link Rcon Audit_Log Lang_Pack
begin

text \<open>
  Gameplane runs game servers on Kubernetes.  An \<^emph>\<open>operator\<close> reconciles GameServer objects; an \<^emph>\<open>API\<close> server
  authorises users and proxies their actions; an \<^emph>\<open>agent\<close> beside each game process speaks the game's
  remote console; and a \<^emph>\<open>sentinel\<close> stands in for a server that has been put to sleep, waking it when a
  player connects.  This library models the decisions those programs take, in the order data flows:
  bytes from a player, the wake protocol, the operator's policies, the API's authorisation, and the
  guards on what leaves the cluster.

  \<^bold>\<open>Ground\<close>
    \<^item> \<open>GP_Prelude\<close>: Go's bytes, strings, readers, results, instants and 64-bit durations.
    \<^item> \<open>Go_Strings\<close>, \<open>Go_Json\<close>, \<open>Go_Time\<close>: the parts of \<^verbatim>\<open>strings\<close>, \<^verbatim>\<open>strconv\<close>, \<^verbatim>\<open>utf8\<close>,
      \<^verbatim>\<open>encoding/json\<close> (validity) and \<^verbatim>\<open>time\<close> (calendar, RFC 3339) the source calls.

  \<^bold>\<open>Game protocols\<close> (\<^verbatim>\<open>src/gameproto\<close>)
    \<^item> \<open>Varint\<close>, \<open>Minecraft\<close>, \<open>Terraria\<close>: the codecs and the classification of a first packet; round trips with
      the packets a client sends, and the contract of a classification for arbitrary input.
    \<^item> \<open>Classifier\<close>: the interface as a record of operations, its laws as a locale interpreted on every
      registered protocol.

  \<^bold>\<open>Sentinel\<close> (\<^verbatim>\<open>src/sentinel/main.go\<close>)
    \<^item> \<open>Sentinel\<close>: the connection handlers as sequences of actions: nothing of the player's stream is lost or
      invented on the way to the game, and only a join wakes.
    \<^item> \<open>Waker\<close>: the critical sections of \<^verbatim>\<open>RequestWake\<close> and of the UDP heuristic as step relations over all
      interleavings: rate limiting, bounded tables, no wake without enough packets.

  \<^bold>\<open>Operator\<close> (\<^verbatim>\<open>src/operator/internal/controller\<close>)
    \<^item> \<open>Wake_Plan\<close>: who receives a server's traffic, and the port list the sentinel parses back.
    \<^item> \<open>Idle\<close>: the idle policy, its persistence in annotations, the wake and restart tokens as instances of one
      token protocol.
    \<^item> \<open>Lifecycle\<close>: which backup, restore or wipe may act on a GameServer; claims, recovery from a vanished owner
      and release as steps over any interleaving.
    \<^item> \<open>Backup_Quiesce\<close>, \<open>Backup_Pass\<close>: the passes of a restic Backup over a GameServer as state transformers on the
      stored objects, the object in memory and the game's process, with any call failing: claiming the
      server, pinning its process, pausing and resuming its writes, aborting and following the copy, deletion.
    \<^item> \<open>Backup_Debt\<close>, \<open>Backup_Safety\<close>: a calculus of such passes and, with it, what each of them keeps of the
      record that saving is off; \<open>pass_frame\<close> and \<open>resume_frame\<close> state once what resuming leaves alone.
    \<^item> \<open>Backup_Life\<close>: the passes interleaved with everything else that happens in the cluster: saving is never off
      without a record of it that names the paused pod, the record survives the Backup, and a deletion with no
      copy to abort does not wait for the agent for ever. A deletion that has to abort a copy may, as the code
      bounds only the other wait.
    \<^item> \<open>Retention\<close>: which backups a schedule deletes.
    \<^item> \<open>Capture\<close>: the reconciler of network captures: one Running capture per server, with a list of captures that
      may lag behind the store, phases that only move forward, stops that get through, files kept for their retention window.

  \<^bold>\<open>Agent\<close> (\<^verbatim>\<open>src/agent/internal/rcon\<close>, \<^verbatim>\<open>quiesce\<close>, \<^verbatim>\<open>target\<close>)
    \<^item> \<open>Rcon\<close>: the Source RCON client, its codec, back-off and reply assembly.
    \<^item> \<open>Agent_Quiesce\<close>: the endpoints that pause and resume a game's writes, and the operator's client of them,
      whatever the network does to a call.

  \<^bold>\<open>Capture sidecar\<close> (\<^verbatim>\<open>src/capture-sidecar/internal\<close>)
    \<^item> \<open>Capture_Writer\<close>: the file writer's limits and accounting, the filter check.
    \<^item> \<open>Capture_Sidecar\<close>: the control plane; its handlers, the packet loop, the timer and the sections of
      \<^verbatim>\<open>finish\<close> as steps over a heap of captures and the files of the volume.
    \<^item> \<open>Capture_Link\<close>: the operator's client of the sidecar, and what both programs guarantee together.

  \<^bold>\<open>API and guards\<close>
    \<^item> \<open>Rbac\<close> (\<^verbatim>\<open>src/api/internal/rbac, auth, scope\<close>): permissions, the route table and the middleware.
    \<^item> \<open>Audit_Log\<close> (\<^verbatim>\<open>src/api/internal/audit\<close>): the hash chain, what verification proves of the rows, retention.
    \<^item> \<open>Game_Action\<close> (\<^verbatim>\<open>src/gameaction\<close>): what may reach a console command line.
    \<^item> \<open>Netguard\<close> (\<^verbatim>\<open>src/netguard\<close>): which addresses may be dialled.

  \<^bold>\<open>Translations\<close> (\<^verbatim>\<open>src/i18n\<close>)
    \<^item> \<open>Icu\<close>, \<open>Icu_Print\<close>, \<open>Icu_Format\<close>: the message parser, total and inverse to a printer, and the renderer.
    \<^item> \<open>Lang_Pack\<close>: validation and loading of language packs, cached lookup with fallback.

  \<^bold>\<open>Conventions.\<close>  A function returning \<^verbatim>\<open>(T, error)\<close> returns a sum; every early return is a branch.  What a
  call outside this code answers (the API server, the clock, the cron library, a resolver, a socket) is
  an argument, and a law the code relies on is a hypothesis with a witness that satisfies it.  Every
  loop is structural or has a measure (the bytes left to read, for the RCON loops); two
  definitions run on fuel: the JSON recogniser of \<open>Go_Json\<close>, one unit per input byte and level, which its
  callers supply from the length of the text, and the message parser of \<open>Icu\<close>, with twice the length of the
  text and one, which is proved to be enough.

  \<^bold>\<open>Not modelled.\<close>  Building Kubernetes objects, HTTP and SQL plumbing, goroutine and socket set-up,
  cryptography, file and log access, and code in other languages.  Of backups: the gated copy worker
  (\<^verbatim>\<open>backup_worker.go\<close>), whose passes appear as the aborts and the mirroring they end in, CSI snapshots, and
  forgetting a restic snapshot.  A write that fails is taken to have had no effect.
\<close>

end
